(* ===== verification/Prelude.thy ===== *)
theory Prelude
  imports Main "HOL-Library.Sublist"
begin

text \<open>
  Shared vocabulary of the development: the parts of the C++ standard library that the
  modelled sources use (character classes of the C locale, \<open>std::string\<close> search and
  trimming, decimal conversions, integer limits, truncating division and
  \<open>duration_cast\<close>), together with the generic list and arithmetic lemmas the component
  theories rely on.  A \<open>std::string\<close> is a list of bytes, that is, a \<^typ>\<open>string\<close>.
\<close>

named_theorems inv_rules "preservation rules of the component invariants"

section \<open>Integers\<close>

definition int64_max :: int where "int64_max = 2 ^ 63 - 1"
definition int64_min :: int where "int64_min = - (2 ^ 63)"
definition int32_max :: int where "int32_max = 2 ^ 31 - 1"
definition int32_min :: int where "int32_min = - (2 ^ 31)"

definition in_int64 :: "int \<Rightarrow> bool" where
  "in_int64 v \<longleftrightarrow> int64_min \<le> v \<and> v \<le> int64_max"

definition in_int32 :: "int \<Rightarrow> bool" where
  "in_int32 v \<longleftrightarrow> int32_min \<le> v \<and> v \<le> int32_max"

lemmas int_limits = int64_max_def int64_min_def int32_max_def int32_min_def
  in_int64_def in_int32_def

text \<open>Integer division and remainder of C++ truncate towards zero.\<close>

definition cdiv :: "int \<Rightarrow> int \<Rightarrow> int" where
  "cdiv a b = sgn a * sgn b * (\<bar>a\<bar> div \<bar>b\<bar>)"

definition cmod :: "int \<Rightarrow> int \<Rightarrow> int" where
  "cmod a b = a - b * cdiv a b"

lemma cdiv_nonneg [simp]: "0 \<le> a \<Longrightarrow> 0 < b \<Longrightarrow> cdiv a b = a div b"
  by (cases "a = 0") (auto simp: cdiv_def)

lemma cmod_nonneg [simp]: "0 \<le> a \<Longrightarrow> 0 < b \<Longrightarrow> cmod a b = a mod b"
  by (simp add: cmod_def minus_mult_div_eq_mod)

lemma cdiv_ge_iff: "0 \<le> a \<Longrightarrow> 0 < b \<Longrightarrow> c \<le> cdiv a b \<longleftrightarrow> c * b \<le> (a::int)"
proof -
  assume a: "0 \<le> a" and b: "0 < b"
  have "c \<le> a div b \<longleftrightarrow> c * b \<le> a"
  proof
    assume "c \<le> a div b"
    then have "c * b \<le> (a div b) * b" using b by (simp add: mult_right_mono)
    also have "\<dots> \<le> a" using b by (simp add: div_mult_mod_eq [symmetric] minus_mod_eq_div_mult [symmetric])
    finally show "c * b \<le> a" .
  next
    assume "c * b \<le> a"
    then have "(c * b) div b \<le> a div b" using b by (rule zdiv_mono1)
    then show "c \<le> a div b" using b by simp
  qed
  then show ?thesis using a b by simp
qed

text \<open>
  \<open>std::chrono\<close>: a \<open>steady_clock\<close> time point or a duration is a count of
  nanoseconds; \<open>duration_cast<seconds>\<close> truncates.
\<close>

type_synonym nanos = int

definition ns_per_s :: int where "ns_per_s = 1000000000"

definition to_seconds :: "nanos \<Rightarrow> int" where
  "to_seconds d = cdiv d ns_per_s"

lemma to_seconds_ge_iff: "0 \<le> d \<Longrightarrow> c \<le> to_seconds d \<longleftrightarrow> c * ns_per_s \<le> d"
  unfolding to_seconds_def by (rule cdiv_ge_iff) (simp_all add: ns_per_s_def)

text \<open>The process environment, as \<open>std::getenv\<close> reads it.\<close>

type_synonym env_map = "string \<Rightarrow> string option"

section \<open>Characters and strings\<close>

abbreviation code :: "char \<Rightarrow> nat" where "code c \<equiv> of_char c"

definition is_space :: "char \<Rightarrow> bool" where
  "is_space c \<longleftrightarrow> code c = 32 \<or> (9 \<le> code c \<and> code c \<le> 13)"

definition is_digit :: "char \<Rightarrow> bool" where
  "is_digit c \<longleftrightarrow> 48 \<le> code c \<and> code c \<le> 57"

definition to_lower :: "char \<Rightarrow> char" where
  "to_lower c = (if 65 \<le> code c \<and> code c \<le> 90 then char_of (code c + 32) else c)"

definition to_upper :: "char \<Rightarrow> char" where
  "to_upper c = (if 97 \<le> code c \<and> code c \<le> 122 then char_of (code c - 32) else c)"

lemma code_to_lower: "code (to_lower c) = (if 65 \<le> code c \<and> code c \<le> 90 then code c + 32 else code c)"
  by (simp add: to_lower_def)

lemma code_to_upper: "code (to_upper c) = (if 97 \<le> code c \<and> code c \<le> 122 then code c - 32 else code c)"
proof -
  have "code c < 256" by simp
  then have "(code c - 32) mod 256 = code c - 32" by (intro mod_less) linarith
  then show ?thesis by (simp add: to_upper_def)
qed

lemma to_lower_idem [simp]: "to_lower (to_lower c) = to_lower c"
  by (simp add: to_lower_def)

text \<open>Dropping the white space on both sides; every \<open>trim\<close> of the sources has this result.\<close>

definition trim :: "string \<Rightarrow> string" where
  "trim s = rev (dropWhile is_space (rev (dropWhile is_space s)))"

definition lower :: "string \<Rightarrow> string" where "lower s = map to_lower s"

lemma lower_idem [simp]: "lower (lower s) = lower s"
  by (simp add: lower_def comp_def)

lemma trim_Nil [simp]: "trim [] = []"
  by (simp add: trim_def)

lemma trim_no_space_ends:
  "trim s \<noteq> [] \<Longrightarrow> \<not> is_space (hd (trim s)) \<and> \<not> is_space (last (trim s))"
proof -
  assume ne: "trim s \<noteq> []"
  let ?d = "dropWhile is_space s"
  have last: "\<not> is_space (last (trim s))"
    using ne hd_dropWhile [of is_space "rev ?d"] by (simp add: trim_def last_rev)
  obtain ys where "rev ?d = ys @ dropWhile is_space (rev ?d)"
    by (metis takeWhile_dropWhile_id)
  then have "?d = trim s @ rev ys"
    by (metis rev_append rev_rev_ident trim_def)
  then have "hd (trim s) = hd ?d" and "?d \<noteq> []" using ne by auto
  then show ?thesis using last hd_dropWhile [of is_space s] by simp
qed

lemma trim_id: "s = [] \<or> (\<not> is_space (hd s) \<and> \<not> is_space (last s)) \<Longrightarrow> trim s = s"
proof -
  assume h: "s = [] \<or> (\<not> is_space (hd s) \<and> \<not> is_space (last s))"
  then have "dropWhile is_space s = s" by (auto simp: dropWhile_eq_self_iff)
  moreover from h have "dropWhile is_space (rev s) = rev s"
    by (cases s rule: rev_cases) (auto simp: dropWhile_eq_self_iff)
  ultimately show ?thesis by (simp add: trim_def)
qed

lemma trim_idem [simp]: "trim (trim s) = trim s"
  using trim_id trim_no_space_ends by blast

text \<open>\<open>std::string::find\<close>: the first position at which the needle occurs.\<close>

fun find_sub :: "string \<Rightarrow> string \<Rightarrow> nat option" where
  "find_sub n [] = (if n = [] then Some 0 else None)"
| "find_sub n (c # cs) = (if prefix n (c # cs) then Some 0 else map_option Suc (find_sub n cs))"

definition find_from :: "string \<Rightarrow> string \<Rightarrow> nat \<Rightarrow> nat option" where
  "find_from n s p = (if p \<le> length s then map_option ((+) p) (find_sub n (drop p s)) else None)"

definition contains :: "string \<Rightarrow> string \<Rightarrow> bool" where
  "contains s n \<longleftrightarrow> find_sub n s \<noteq> None"

lemma find_sub_Some: "find_sub n s = Some i \<Longrightarrow> i + length n \<le> length s \<and> take (length n) (drop i s) = n"
proof (induction n s arbitrary: i rule: find_sub.induct)
  case (1 n)
  then show ?case by (auto split: if_splits)
next
  case (2 n c cs)
  show ?case
  proof (cases "prefix n (c # cs)")
    case True
    then have "length n \<le> length (c # cs)" by (rule prefix_length_le)
    with True "2.prems" show ?thesis
      by (auto simp: prefix_def)
  next
    case False
    with "2.prems" obtain j where "find_sub n cs = Some j" "i = Suc j" by auto
    with "2.IH" False show ?thesis by auto
  qed
qed

lemma find_sub_least: "find_sub n s = Some i \<Longrightarrow> j < i \<Longrightarrow> \<not> prefix n (drop j s)"
proof (induction n s arbitrary: i j rule: find_sub.induct)
  case (1 n)
  then show ?case by (auto split: if_splits)
next
  case (2 n c cs)
  then show ?case by (cases j) (auto split: if_splits)
qed

lemma find_sub_None: "find_sub n s = None \<Longrightarrow> \<not> prefix n (drop j s)"
proof (induction n s arbitrary: j rule: find_sub.induct)
  case (1 n)
  then show ?case by (auto split: if_splits)
next
  case (2 n c cs)
  then show ?case by (cases j) (auto split: if_splits)
qed

lemma find_sub_append:
  "(\<And>j. j < length a \<Longrightarrow> \<not> prefix n (drop j (a @ n @ b))) \<Longrightarrow> find_sub n (a @ n @ b) = Some (length a)"
proof (induction a)
  case Nil
  show ?case
  proof (cases "n @ b")
    case Nil
    then show ?thesis by simp
  next
    case (Cons x xs)
    then show ?thesis by (metis Nil_is_append_conv append_Nil find_sub.simps(2) list.size(3) prefixI)
  qed
next
  case (Cons x a)
  have "\<not> prefix n (x # (a @ n @ b))" using Cons.prems [of 0] by simp
  moreover have "find_sub n (a @ n @ b) = Some (length a)"
    using Cons.prems [of "Suc j" for j] by (intro Cons.IH) simp
  ultimately show ?case by simp
qed

lemma find_sub_prefix: "prefix n s \<Longrightarrow> find_sub n s = Some 0"
  by (cases s) auto

section \<open>Decimal conversions\<close>

definition digit_val :: "char \<Rightarrow> int" where
  "digit_val c = int (code c) - 48"

definition digits_val :: "string \<Rightarrow> int" where
  "digits_val s = foldl (\<lambda>v c. v * 10 + digit_val c) 0 s"

text \<open>
  \<open>strtoll\<close> with base 10: skip white space, an optional sign, then the longest digit run;
  \<open>None\<close> when there is no digit.  \<open>stoi\<close> and \<open>stoll\<close> also fail out of range.
\<close>

definition strtol10 :: "string \<Rightarrow> (int \<times> string) option" where
  "strtol10 s =
     (let t = dropWhile is_space s;
          neg = (t \<noteq> [] \<and> hd t = CHR ''-'');
          u = (if t \<noteq> [] \<and> (hd t = CHR ''-'' \<or> hd t = CHR ''+'') then tl t else t);
          ds = takeWhile is_digit u
      in if ds = [] then None
         else Some ((if neg then - digits_val ds else digits_val ds), dropWhile is_digit u))"

definition stoi :: "string \<Rightarrow> int option" where
  "stoi s = (case strtol10 s of None \<Rightarrow> None | Some (v, r) \<Rightarrow> if in_int32 v then Some v else None)"

definition stoll :: "string \<Rightarrow> (int \<times> string) option" where
  "stoll s = (case strtol10 s of None \<Rightarrow> None | Some (v, r) \<Rightarrow> if in_int64 v then Some (v, r) else None)"

lemma stoi_range: "stoi s = Some v \<Longrightarrow> in_int32 v"
  by (auto simp: stoi_def split: option.splits if_splits)

text \<open>\<open>std::to_string\<close> on integers.\<close>

fun nat_digits :: "nat \<Rightarrow> string" where
  "nat_digits n = (if n < 10 then [char_of (48 + n)] else nat_digits (n div 10) @ [char_of (48 + n mod 10)])"

declare nat_digits.simps [simp del]

definition to_string :: "int \<Rightarrow> string" where
  "to_string i = (if i < 0 then CHR ''-'' # nat_digits (nat (- i)) else nat_digits (nat i))"

lemma foldl_digits_acc:
  "foldl (\<lambda>v c. v * 10 + digit_val c) a s = a * 10 ^ length s + digits_val s"
proof (induction s arbitrary: a)
  case Nil
  then show ?case by (simp add: digits_val_def)
next
  case (Cons c s)
  have "digits_val (c # s) = foldl (\<lambda>v c. v * 10 + digit_val c) (digit_val c) s"
    by (simp add: digits_val_def)
  then show ?case using Cons.IH [of "a * 10 + digit_val c"] Cons.IH [of "digit_val c"]
    by (simp add: algebra_simps)
qed

lemma digits_val_append: "digits_val (s @ t) = digits_val s * 10 ^ length t + digits_val t"
  using foldl_digits_acc [of "digits_val s" t] by (simp add: digits_val_def)

lemma digits_val_Nil [simp]: "digits_val [] = 0"
  by (simp add: digits_val_def)

lemma digits_val_single [simp]: "digits_val [c] = digit_val c"
  by (simp add: digits_val_def)

lemma digits_val_nonneg: "list_all is_digit s \<Longrightarrow> 0 \<le> digits_val s"
proof (induction s rule: rev_induct)
  case (snoc c s)
  then show ?case by (simp add: digits_val_append digit_val_def is_digit_def)
qed simp

lemma nat_digits_ne [simp]: "nat_digits n \<noteq> []"
  by (subst nat_digits.simps) simp

lemma code_digit_char: "(d::nat) < 10 \<Longrightarrow> code (char_of (48 + d)) = 48 + d"
  by simp

lemma is_digit_char: "(d::nat) < 10 \<Longrightarrow> is_digit (char_of (48 + d))"
  by (simp add: is_digit_def)

lemma nat_digits_all_digits: "list_all is_digit (nat_digits n)"
proof (induction n rule: nat_digits.induct)
  case (1 n)
  then show ?case
    by (cases "n < 10") (simp_all add: nat_digits.simps [of n] is_digit_char)
qed

lemma digits_val_nat_digits: "digits_val (nat_digits n) = int n"
proof (induction n rule: nat_digits.induct)
  case (1 n)
  show ?case
  proof (cases "n < 10")
    case True
    then show ?thesis by (simp add: nat_digits.simps [of n] digit_val_def)
  next
    case False
    then have "digits_val (nat_digits n) = int (n div 10) * 10 + int (n mod 10)"
      using "1.IH" by (simp add: nat_digits.simps [of n] digits_val_append digit_val_def)
    also have "\<dots> = int n" by (metis div_mult_mod_eq of_nat_add of_nat_mult of_nat_numeral)
    finally show ?thesis .
  qed
qed

lemma to_string_inj: "to_string i = to_string j \<Longrightarrow> i = j"
proof -
  have hd: "hd (nat_digits n) \<noteq> CHR ''-''" for n
    using nat_digits_all_digits [of n] by (cases "nat_digits n") (auto simp: is_digit_def)
  have v: "nat_digits m = nat_digits n \<Longrightarrow> m = n" for m n
    using digits_val_nat_digits by (metis of_nat_eq_iff)
  assume e: "to_string i = to_string j"
  have "i < 0 \<longleftrightarrow> j < 0" using e hd by (auto simp: to_string_def split: if_splits) (metis list.sel(1))+
  then show "i = j" using e v [of "nat (- i)" "nat (- j)"] v [of "nat i" "nat j"]
    by (auto simp: to_string_def split: if_splits)
qed

section \<open>Lists\<close>

lemma dropWhile_append_neq:
  "list_all P a \<Longrightarrow> (b = [] \<or> \<not> P (hd b)) \<Longrightarrow> dropWhile P (a @ b) = b"
  by (cases b) (auto simp: list_all_iff dropWhile_append2)

lemma length_dropWhile_le: "length (dropWhile P xs) \<le> length xs"
  by (induction xs) auto

lemma takeWhile_append_neq:
  "list_all P a \<Longrightarrow> (b = [] \<or> \<not> P (hd b)) \<Longrightarrow> takeWhile P (a @ b) = a"
  by (cases b) (auto simp: list_all_iff takeWhile_append2)

end
