(* ===== verification/Circuit_Breaker.thy ===== *)
theory Circuit_Breaker
  imports Prelude
begin

text \<open>
  The per-provider circuit breaker (\<open>src/circuit_breaker.cpp\<close>): its configuration, its
  table of entries, the four operations a caller of a provider runs, and the step relation
  of a breaker shared by any number of concurrent calls.  Every operation of the source
  holds the breaker's mutex for its whole body, so an execution is a sequence of them.
  The clock is an argument (nanoseconds of \<open>steady_clock\<close>).
\<close>

section \<open>Configuration\<close>

record CircuitBreakerConfig =
  failure_threshold :: int
  cooldown_seconds :: int

definition default_cb_config :: CircuitBreakerConfig where
  "default_cb_config = \<lparr>failure_threshold = 5, cooldown_seconds = 30\<rparr>"

text \<open>An unset, empty or unparsable value keeps the default.\<close>

definition env_int :: "env_map \<Rightarrow> string \<Rightarrow> int \<Rightarrow> int" where
  "env_int env name d =
     (case env name of
        None \<Rightarrow> d
      | Some v \<Rightarrow> if v = [] then d else (case stoi v of None \<Rightarrow> d | Some i \<Rightarrow> i))"

definition load_circuit_breaker_config_from_env :: "env_map \<Rightarrow> CircuitBreakerConfig" where
  "load_circuit_breaker_config_from_env env =
     (let c = default_cb_config;
          ft = env_int env ''ARBITER_CIRCUIT_FAILURE_THRESHOLD'' (failure_threshold c);
          cs = env_int env ''ARBITER_CIRCUIT_COOLDOWN_SECONDS'' (cooldown_seconds c)
      in \<lparr>failure_threshold = (if ft < 1 then 1 else ft),
          cooldown_seconds = (if cs < 0 then 0 else cs)\<rparr>)"

section \<open>State\<close>

datatype cb_state = Closed | Open | HalfOpen

record cb_entry =
  estate :: cb_state
  consecutive_failures :: int
  opened_at :: nanos
  probe_in_flight :: bool

definition fresh_entry :: cb_entry where
  "fresh_entry = \<lparr>estate = Closed, consecutive_failures = 0, opened_at = 0, probe_in_flight = False\<rparr>"

text \<open>
  \<open>metrics_\<close> is an optional sink; of it, the breaker only bumps the per-provider counter
  \<open>arbiter_provider_circuit_open_total\<close>.
\<close>

record breaker =
  entries :: "string \<Rightarrow> cb_entry option"
  cfg :: CircuitBreakerConfig
  circuit_open_total :: "(string \<Rightarrow> nat) option"

definition new_breaker :: "CircuitBreakerConfig \<Rightarrow> breaker" where
  "new_breaker c = \<lparr>entries = (\<lambda>_. None), cfg = c, circuit_open_total = None\<rparr>"

definition set_metrics :: "(string \<Rightarrow> nat) option \<Rightarrow> breaker \<Rightarrow> breaker" where
  "set_metrics m b = b\<lparr>circuit_open_total := m\<rparr>"

definition inc_provider_circuit_open :: "string \<Rightarrow> breaker \<Rightarrow> breaker" where
  "inc_provider_circuit_open p b =
     b\<lparr>circuit_open_total := map_option (\<lambda>m. m(p := Suc (m p))) (circuit_open_total b)\<rparr>"

section \<open>Operations\<close>

text \<open>The entry of a provider, created on first use.\<close>

definition entry_locked :: "breaker \<Rightarrow> string \<Rightarrow> cb_entry" where
  "entry_locked b p = (case entries b p of None \<Rightarrow> fresh_entry | Some e \<Rightarrow> e)"

definition put_entry :: "string \<Rightarrow> cb_entry \<Rightarrow> breaker \<Rightarrow> breaker" where
  "put_entry p e b = b\<lparr>entries := (entries b)(p \<mapsto> e)\<rparr>"

definition allow :: "nanos \<Rightarrow> string \<Rightarrow> breaker \<Rightarrow> bool \<times> breaker" where
  "allow now p b =
     (let e = entry_locked b p in
      case estate e of
        Closed \<Rightarrow> (True, put_entry p e b)
      | Open \<Rightarrow>
          (if to_seconds (now - opened_at e) < cooldown_seconds (cfg b) then (False, put_entry p e b)
           else (True, put_entry p (e\<lparr>estate := HalfOpen, probe_in_flight := True\<rparr>) b))
      | HalfOpen \<Rightarrow>
          (if probe_in_flight e then (False, put_entry p e b)
           else (True, put_entry p (e\<lparr>probe_in_flight := True\<rparr>) b)))"

definition record_success :: "string \<Rightarrow> breaker \<Rightarrow> breaker" where
  "record_success p b =
     (let e = (entry_locked b p)\<lparr>consecutive_failures := 0\<rparr> in
      put_entry p
        (if estate e = HalfOpen then e\<lparr>estate := Closed, probe_in_flight := False\<rparr> else e) b)"

definition record_failure :: "nanos \<Rightarrow> string \<Rightarrow> breaker \<Rightarrow> breaker" where
  "record_failure now p b =
     (let e = entry_locked b p in
      if estate e = HalfOpen then
        inc_provider_circuit_open p
          (put_entry p (e\<lparr>estate := Open, opened_at := now, probe_in_flight := False\<rparr>) b)
      else
        let e' = e\<lparr>consecutive_failures := consecutive_failures e + 1\<rparr> in
        if estate e' = Closed \<and> failure_threshold (cfg b) \<le> consecutive_failures e' then
          inc_provider_circuit_open p (put_entry p (e'\<lparr>estate := Open, opened_at := now\<rparr>) b)
        else put_entry p e' b)"

definition record_abandoned :: "nanos \<Rightarrow> string \<Rightarrow> breaker \<Rightarrow> breaker" where
  "record_abandoned now p b =
     (let e = entry_locked b p in
      put_entry p
        (if estate e = HalfOpen
         then e\<lparr>estate := Open, opened_at := now, probe_in_flight := False\<rparr> else e) b)"

definition state_of :: "string \<Rightarrow> breaker \<Rightarrow> cb_state" where
  "state_of p b = (case entries b p of None \<Rightarrow> Closed | Some e \<Rightarrow> estate e)"

lemmas cb_op_defs = allow_def record_success_def record_failure_def record_abandoned_def
  put_entry_def inc_provider_circuit_open_def Let_def

lemma state_of_entry: "state_of p b = estate (entry_locked b p)"
  by (simp add: state_of_def entry_locked_def fresh_entry_def split: option.splits)

lemma entry_locked_put [simp]:
  "entry_locked (put_entry p e b) q = (if q = p then e else entry_locked b q)"
  by (simp add: entry_locked_def put_entry_def)

lemma entry_locked_inc [simp]: "entry_locked (inc_provider_circuit_open p b) q = entry_locked b q"
  by (simp add: entry_locked_def inc_provider_circuit_open_def)

lemma cfg_put [simp]: "cfg (put_entry p e b) = cfg b"
  by (simp add: put_entry_def)

lemma cfg_inc [simp]: "cfg (inc_provider_circuit_open p b) = cfg b"
  by (simp add: inc_provider_circuit_open_def)

text \<open>What an operation on one provider does to the entry of each provider.\<close>

definition allow_entry :: "CircuitBreakerConfig \<Rightarrow> nanos \<Rightarrow> cb_entry \<Rightarrow> bool \<times> cb_entry" where
  "allow_entry c now e =
     (case estate e of
        Closed \<Rightarrow> (True, e)
      | Open \<Rightarrow> (if to_seconds (now - opened_at e) < cooldown_seconds c then (False, e)
                 else (True, e\<lparr>estate := HalfOpen, probe_in_flight := True\<rparr>))
      | HalfOpen \<Rightarrow> (if probe_in_flight e then (False, e) else (True, e\<lparr>probe_in_flight := True\<rparr>)))"

lemma fst_allow: "fst (allow now p b) = fst (allow_entry (cfg b) now (entry_locked b p))"
  by (simp add: allow_def allow_entry_def Let_def split: cb_state.splits)

lemma entry_allow:
  "entry_locked (snd (allow now p b)) q =
     (if q = p then snd (allow_entry (cfg b) now (entry_locked b p)) else entry_locked b q)"
  by (simp add: allow_def allow_entry_def Let_def split: cb_state.splits)

lemma cfg_allow [simp]: "cfg (snd (allow now p b)) = cfg b"
  by (simp add: allow_def Let_def split: cb_state.splits)

definition success_entry :: "cb_entry \<Rightarrow> cb_entry" where
  "success_entry e =
     (if estate e = HalfOpen then e\<lparr>consecutive_failures := 0, estate := Closed, probe_in_flight := False\<rparr>
      else e\<lparr>consecutive_failures := 0\<rparr>)"

definition failure_entry :: "CircuitBreakerConfig \<Rightarrow> nanos \<Rightarrow> cb_entry \<Rightarrow> cb_entry" where
  "failure_entry c now e =
     (if estate e = HalfOpen then e\<lparr>estate := Open, opened_at := now, probe_in_flight := False\<rparr>
      else if estate e = Closed \<and> failure_threshold c \<le> consecutive_failures e + 1
      then e\<lparr>consecutive_failures := consecutive_failures e + 1, estate := Open, opened_at := now\<rparr>
      else e\<lparr>consecutive_failures := consecutive_failures e + 1\<rparr>)"

definition abandoned_entry :: "nanos \<Rightarrow> cb_entry \<Rightarrow> cb_entry" where
  "abandoned_entry now e =
     (if estate e = HalfOpen then e\<lparr>estate := Open, opened_at := now, probe_in_flight := False\<rparr> else e)"

lemma entry_success:
  "entry_locked (record_success p b) q =
     (if q = p then success_entry (entry_locked b p) else entry_locked b q)"
  by (simp add: record_success_def success_entry_def Let_def)

lemma entry_failure:
  "entry_locked (record_failure now p b) q =
     (if q = p then failure_entry (cfg b) now (entry_locked b p) else entry_locked b q)"
  by (simp add: record_failure_def failure_entry_def Let_def)

lemma entry_abandoned:
  "entry_locked (record_abandoned now p b) q =
     (if q = p then abandoned_entry now (entry_locked b p) else entry_locked b q)"
  by (simp add: record_abandoned_def abandoned_entry_def Let_def)

lemma cfg_success [simp]: "cfg (record_success p b) = cfg b"
  by (simp add: record_success_def Let_def)

lemma cfg_failure [simp]: "cfg (record_failure now p b) = cfg b"
  by (simp add: record_failure_def Let_def)

lemma cfg_abandoned [simp]: "cfg (record_abandoned now p b) = cfg b"
  by (simp add: record_abandoned_def Let_def)

lemmas entry_ops = entry_allow entry_success entry_failure entry_abandoned

section \<open>A breaker shared by concurrent calls\<close>

text \<open>
  The state of an execution: the breaker, the number of admitted calls per provider that
  have not yet reported their outcome, and the clock.  A call is admitted or rejected by
  \<^const>\<open>allow\<close> and, once admitted, reports exactly one outcome; any number of calls
  interleave, and the clock never goes back.
\<close>

record cb_sys =
  brk :: breaker
  in_flight :: "string \<Rightarrow> nat"
  clock :: nanos

definition init_sys :: "CircuitBreakerConfig \<Rightarrow> cb_sys" where
  "init_sys c = \<lparr>brk = new_breaker c, in_flight = (\<lambda>_. 0), clock = 0\<rparr>"

inductive cb_step :: "cb_sys \<Rightarrow> cb_sys \<Rightarrow> bool" where
  tick: "clock s \<le> t \<Longrightarrow> cb_step s (s\<lparr>clock := t\<rparr>)"
| admit: "allow (clock s) p (brk s) = (True, b) \<Longrightarrow>
     cb_step s (s\<lparr>brk := b, in_flight := (in_flight s)(p := in_flight s p + 1)\<rparr>)"
| reject: "allow (clock s) p (brk s) = (False, b) \<Longrightarrow> cb_step s (s\<lparr>brk := b\<rparr>)"
| success: "0 < in_flight s p \<Longrightarrow>
     cb_step s (s\<lparr>brk := record_success p (brk s), in_flight := (in_flight s)(p := in_flight s p - 1)\<rparr>)"
| failure: "0 < in_flight s p \<Longrightarrow>
     cb_step s (s\<lparr>brk := record_failure (clock s) p (brk s),
                  in_flight := (in_flight s)(p := in_flight s p - 1)\<rparr>)"
| abandoned: "0 < in_flight s p \<Longrightarrow>
     cb_step s (s\<lparr>brk := record_abandoned (clock s) p (brk s),
                  in_flight := (in_flight s)(p := in_flight s p - 1)\<rparr>)"

inductive cb_reachable :: "CircuitBreakerConfig \<Rightarrow> cb_sys \<Rightarrow> bool" for c where
  start: "cb_reachable c (init_sys c)"
| step: "cb_reachable c s \<Longrightarrow> cb_step s t \<Longrightarrow> cb_reachable c t"

inductive_cases cb_stepE: "cb_step s t"

text \<open>
  The invariant of one entry: the probe flag is set exactly in half-open, a half-open
  entry has an unresolved call, a closed one is below the threshold, and an entry was
  opened in the past.
\<close>

definition entry_inv :: "CircuitBreakerConfig \<Rightarrow> nanos \<Rightarrow> nat \<Rightarrow> cb_entry \<Rightarrow> bool" where
  "entry_inv c now n e \<longleftrightarrow>
     (probe_in_flight e \<longleftrightarrow> estate e = HalfOpen) \<and>
     (estate e = HalfOpen \<longrightarrow> 0 < n) \<and>
     (estate e = Closed \<longrightarrow> 0 \<le> consecutive_failures e \<and> consecutive_failures e < failure_threshold c) \<and>
     (estate e = Open \<longrightarrow> opened_at e \<le> now)"

definition cb_inv :: "CircuitBreakerConfig \<Rightarrow> cb_sys \<Rightarrow> bool" where
  "cb_inv c s \<longleftrightarrow> cfg (brk s) = c \<and>
     (\<forall>p. entry_inv c (clock s) (in_flight s p) (entry_locked (brk s) p))"

lemma entry_new [simp]: "entry_locked (new_breaker c) p = fresh_entry" "cfg (new_breaker c) = c"
  by (simp_all add: entry_locked_def new_breaker_def)

lemma cb_inv_init: "1 \<le> failure_threshold c \<Longrightarrow> cb_inv c (init_sys c)"
  by (simp add: cb_inv_def init_sys_def entry_inv_def fresh_entry_def)

lemma entry_inv_tick: "entry_inv c now n e \<Longrightarrow> now \<le> t \<Longrightarrow> entry_inv c t n e"
  by (auto simp: entry_inv_def)

lemma entry_inv_allow:
  "entry_inv c now n e \<Longrightarrow> allow_entry c t e = (r, e') \<Longrightarrow> entry_inv c now (if r then n + 1 else n) e'"
  by (auto simp: entry_inv_def allow_entry_def split: cb_state.splits if_splits)

lemma entry_inv_success: "entry_inv c now n e \<Longrightarrow> 1 \<le> failure_threshold c \<Longrightarrow> entry_inv c now m (success_entry e)"
  by (auto simp: entry_inv_def success_entry_def)

lemma entry_inv_failure: "entry_inv c now n e \<Longrightarrow> entry_inv c now m (failure_entry c now e)"
  by (auto simp: entry_inv_def failure_entry_def)

lemma entry_inv_abandoned: "entry_inv c now n e \<Longrightarrow> entry_inv c now m (abandoned_entry now e)"
  by (auto simp: entry_inv_def abandoned_entry_def)

text \<open>An operation on one provider keeps the invariant when it keeps that entry's part of it.\<close>

lemma cb_inv_update:
  assumes "cb_inv c s" and "cfg b = c"
    and "\<And>q. entry_locked b q = (if q = p then e else entry_locked (brk s) q)"
    and "entry_inv c (clock s) n e"
  shows "cb_inv c (s\<lparr>brk := b, in_flight := (in_flight s)(p := n)\<rparr>)"
  using assms by (simp add: cb_inv_def)

lemma cb_invD: "cb_inv c s \<Longrightarrow> entry_inv c (clock s) (in_flight s p) (entry_locked (brk s) p)"
  by (simp add: cb_inv_def)

lemma cb_inv_cfg: "cb_inv c s \<Longrightarrow> cfg (brk s) = c"
  by (simp add: cb_inv_def)

lemma cb_inv_allow:
  assumes inv: "cb_inv c s" and al: "allow (clock s) p (brk s) = (r, b)"
  shows "cb_inv c (s\<lparr>brk := b, in_flight := (in_flight s)(p := if r then in_flight s p + 1 else in_flight s p)\<rparr>)"
proof -
  obtain r' e where ae: "allow_entry c (clock s) (entry_locked (brk s) p) = (r', e)"
    by fastforce
  have "r = r'" using fst_allow [of "clock s" p "brk s"] al ae cb_inv_cfg [OF inv] by simp
  with entry_inv_allow [OF cb_invD [OF inv] ae]
  have "entry_inv c (clock s) (if r then in_flight s p + 1 else in_flight s p) e" by simp
  moreover have "entry_locked b q = (if q = p then e else entry_locked (brk s) q)" for q
    using entry_allow [of "clock s" p "brk s" q] al ae cb_inv_cfg [OF inv] by simp
  moreover have "cfg b = c" using cfg_allow [of "clock s" p "brk s"] al cb_inv_cfg [OF inv] by simp
  ultimately show ?thesis using inv by (intro cb_inv_update) auto
qed

lemma cb_step_inv [inv_rules]:
  assumes "cb_step s t" and "cb_inv c s" and "1 \<le> failure_threshold c"
  shows "cb_inv c t"
  using assms
proof (induction rule: cb_step.induct)
  case (tick s t)
  then show ?case by (auto simp: cb_inv_def intro: entry_inv_tick)
next
  case (admit s p b)
  then show ?case using cb_inv_allow [of c s p True b] by simp
next
  case (reject s p b)
  then show ?case using cb_inv_allow [of c s p False b] by simp
next
  case (success s p)
  then show ?case
    by (intro cb_inv_update [where e = "success_entry (entry_locked (brk s) p)"])
       (auto simp: entry_success cb_inv_cfg intro: entry_inv_success cb_invD)
next
  case (failure s p)
  then show ?case
    by (intro cb_inv_update [where e = "failure_entry c (clock s) (entry_locked (brk s) p)"])
       (auto simp: entry_failure cb_inv_cfg intro: entry_inv_failure cb_invD)
next
  case (abandoned s p)
  then show ?case
    by (intro cb_inv_update [where e = "abandoned_entry (clock s) (entry_locked (brk s) p)"])
       (auto simp: entry_abandoned cb_inv_cfg intro: entry_inv_abandoned cb_invD)
qed

lemma cb_reachable_inv:
  "cb_reachable c s \<Longrightarrow> 1 \<le> failure_threshold c \<Longrightarrow> cb_inv c s"
  by (induction rule: cb_reachable.induct) (auto intro: cb_inv_init inv_rules)

lemma config_threshold_pos: "1 \<le> failure_threshold (load_circuit_breaker_config_from_env env)"
  by (simp add: load_circuit_breaker_config_from_env_def Let_def)

lemma cb_step_clock: "cb_step s t \<Longrightarrow> clock s \<le> clock t"
  by (induction rule: cb_step.induct) auto

lemma cb_steps_clock: "cb_step\<^sup>*\<^sup>* s t \<Longrightarrow> clock s \<le> clock t"
  by (induction rule: rtranclp_induct) (auto dest: cb_step_clock)

section \<open>Properties\<close>

text \<open>
  C1. At most one probe: in every reachable state in which a provider is half-open, a
  further call to it is rejected, the provider stays half-open, and the probe is still
  unresolved.
\<close>

theorem half_open_single_probe:
  assumes "cb_reachable c s" and "1 \<le> failure_threshold c" and "state_of p (brk s) = HalfOpen"
  shows "\<not> fst (allow t p (brk s)) \<and> state_of p (snd (allow t p (brk s))) = HalfOpen \<and> 0 < in_flight s p"
proof -
  have "entry_inv c (clock s) (in_flight s p) (entry_locked (brk s) p)"
    using assms(1,2) by (intro cb_invD cb_reachable_inv)
  then show ?thesis using assms(3)
    by (simp add: fst_allow entry_allow state_of_entry entry_inv_def allow_entry_def)
qed

lemma example_open:
  "\<exists>s. cb_reachable \<lparr>failure_threshold = 1, cooldown_seconds = 30\<rparr> s \<and> state_of ''x'' (brk s) = Open
       \<and> in_flight s ''x'' = 0 \<and> clock s = 0 \<and> opened_at (entry_locked (brk s) ''x'') = 0"
proof -
  let ?c = "\<lparr>failure_threshold = 1, cooldown_seconds = 30\<rparr>"
  let ?s0 = "init_sys ?c"
  let ?s1 = "?s0\<lparr>brk := snd (allow (clock ?s0) ''x'' (brk ?s0)),
                 in_flight := (in_flight ?s0)(''x'' := in_flight ?s0 ''x'' + 1)\<rparr>"
  let ?s2 = "?s1\<lparr>brk := record_failure (clock ?s1) ''x'' (brk ?s1),
                 in_flight := (in_flight ?s1)(''x'' := in_flight ?s1 ''x'' - 1)\<rparr>"
  have "cb_step ?s0 ?s1"
    by (rule cb_step.admit) (simp add: init_sys_def new_breaker_def allow_def entry_locked_def fresh_entry_def)
  moreover have "cb_step ?s1 ?s2"
    by (rule cb_step.failure) (simp add: init_sys_def)
  ultimately have "cb_reachable ?c ?s2"
    by (blast intro: cb_reachable.intros)
  moreover have "state_of ''x'' (brk ?s2) = Open \<and> in_flight ?s2 ''x'' = 0 \<and> clock ?s2 = 0
      \<and> opened_at (entry_locked (brk ?s2) ''x'') = 0"
    by (simp add: init_sys_def state_of_entry entry_failure entry_allow allow_entry_def failure_entry_def
        entry_new) (simp add: fresh_entry_def)
  ultimately show ?thesis by blast
qed

theorem half_open_single_probe_witness:
  "\<exists>s. cb_reachable \<lparr>failure_threshold = 1, cooldown_seconds = 30\<rparr> s \<and> state_of ''x'' (brk s) = HalfOpen
       \<and> \<not> fst (allow (90 * ns_per_s) ''x'' (brk s))"
proof -
  let ?c = "\<lparr>failure_threshold = 1, cooldown_seconds = 30\<rparr>"
  obtain s where s: "cb_reachable ?c s" "state_of ''x'' (brk s) = Open" "clock s = 0"
      "opened_at (entry_locked (brk s) ''x'') = 0"
    using example_open by blast
  let ?s1 = "s\<lparr>clock := 30 * ns_per_s\<rparr>"
  let ?s2 = "?s1\<lparr>brk := snd (allow (clock ?s1) ''x'' (brk ?s1)),
                 in_flight := (in_flight ?s1)(''x'' := in_flight ?s1 ''x'' + 1)\<rparr>"
  have c: "cfg (brk s) = ?c" using cb_reachable_inv [OF s(1)] by (simp add: cb_inv_def)
  have "cb_step s ?s1" using s by (intro cb_step.tick) (simp add: ns_per_s_def)
  moreover have al: "allow_entry ?c (30 * ns_per_s) (entry_locked (brk s) ''x'') =
      (True, (entry_locked (brk s) ''x'')\<lparr>estate := HalfOpen, probe_in_flight := True\<rparr>)"
    using s by (simp add: allow_entry_def state_of_entry to_seconds_def ns_per_s_def)
  then have "cb_step ?s1 ?s2"
    by (intro cb_step.admit) (simp add: prod_eq_iff fst_allow c)
  ultimately have r: "cb_reachable ?c ?s2" using s(1) by (blast intro: cb_reachable.intros)
  have h: "state_of ''x'' (brk ?s2) = HalfOpen" by (simp add: state_of_entry entry_allow c al)
  show ?thesis using half_open_single_probe [OF r _ h] r h by fastforce
qed

text \<open>
  C2. No provider is rejected forever: in every reachable state in which no admitted call
  to a provider is unresolved, a call that comes a full cooldown later is admitted.
\<close>

theorem resolved_calls_admit_after_cooldown:
  assumes "cb_reachable c s" and "1 \<le> failure_threshold c" and "in_flight s p = 0"
    and "clock s + cooldown_seconds c * ns_per_s \<le> t" and "clock s \<le> t"
  shows "fst (allow t p (brk s))"
proof -
  have inv: "cb_inv c s" using assms(1,2) by (rule cb_reachable_inv)
  let ?e = "entry_locked (brk s) p"
  have e: "entry_inv c (clock s) 0 ?e" using cb_invD [OF inv, of p] assms(3) by simp
  have "estate ?e = Open \<Longrightarrow> cooldown_seconds c \<le> to_seconds (t - opened_at ?e)"
    using e assms(4,5) by (subst to_seconds_ge_iff) (auto simp: entry_inv_def)
  then show ?thesis using e
    by (auto simp: fst_allow cb_inv_cfg [OF inv] allow_entry_def entry_inv_def split: cb_state.splits)
qed

theorem resolved_calls_admit_after_cooldown_witness:
  "\<exists>s. cb_reachable \<lparr>failure_threshold = 1, cooldown_seconds = 30\<rparr> s \<and> state_of ''x'' (brk s) = Open
       \<and> fst (allow (30 * ns_per_s) ''x'' (brk s))"
proof -
  obtain s where s: "cb_reachable \<lparr>failure_threshold = 1, cooldown_seconds = 30\<rparr> s"
      "state_of ''x'' (brk s) = Open" "in_flight s ''x'' = 0" "clock s = 0"
    using example_open by blast
  then have "fst (allow (30 * ns_per_s) ''x'' (brk s))"
    by (intro resolved_calls_admit_after_cooldown [OF s(1)]) (simp_all add: ns_per_s_def)
  with s show ?thesis by blast
qed

lemma to_seconds_mono: "a \<le> b \<Longrightarrow> 0 \<le> a \<Longrightarrow> to_seconds a \<le> to_seconds b"
  by (simp add: to_seconds_def ns_per_s_def zdiv_mono1)

lemma open_step:
  assumes "cb_step s t" and "cfg (brk s) = c"
    and "estate (entry_locked (brk s) p) = Open" and "opened_at (entry_locked (brk s) p) = o1"
    and "o1 \<le> clock s" and "to_seconds (clock t - o1) < cooldown_seconds c"
  shows "cfg (brk t) = c \<and> estate (entry_locked (brk t) p) = Open \<and> opened_at (entry_locked (brk t) p) = o1
    \<and> in_flight t p \<le> in_flight s p"
  using assms
proof (induction rule: cb_step.induct)
  case (admit s q b)
  then have b: "b = snd (allow (clock s) q (brk s))" and f: "fst (allow (clock s) q (brk s))" by simp_all
  from f admit.prems have "q \<noteq> p" by (auto simp: fst_allow allow_entry_def)
  with admit.prems show ?case by (simp add: b entry_allow)
next
  case (reject s q b)
  then have "b = snd (allow (clock s) q (brk s))" by simp
  with reject.prems show ?case by (cases "q = p") (simp_all add: entry_allow allow_entry_def)
qed (auto simp: entry_ops success_entry_def failure_entry_def abandoned_entry_def)

text \<open>
  Cooldown: while fewer than \<open>cooldown_seconds\<close> have passed since a provider was
  opened, no interleaving of calls and outcomes closes or half-opens it, restarts its
  cooldown, or admits a call to it.
\<close>

lemma open_holds_during_cooldown:
  assumes "cb_step\<^sup>*\<^sup>* s t" and "cb_reachable c s" and "1 \<le> failure_threshold c"
    and "state_of p (brk s) = Open"
    and "to_seconds (clock t - opened_at (entry_locked (brk s) p)) < cooldown_seconds c"
  shows "state_of p (brk t) = Open
    \<and> opened_at (entry_locked (brk t) p) = opened_at (entry_locked (brk s) p)
    \<and> in_flight t p \<le> in_flight s p"
proof -
  have inv: "cb_inv c s" using assms(2,3) by (rule cb_reachable_inv)
  let ?o = "opened_at (entry_locked (brk s) p)"
  have o: "?o \<le> clock s" using cb_invD [OF inv, of p] assms(4) by (simp add: entry_inv_def state_of_entry)
  have "cfg (brk t) = c \<and> estate (entry_locked (brk t) p) = Open \<and> opened_at (entry_locked (brk t) p) = ?o
    \<and> in_flight t p \<le> in_flight s p"
    using assms(1,5)
  proof (induction rule: rtranclp_induct)
    case base
    then show ?case using inv assms(4) by (simp add: cb_inv_cfg state_of_entry)
  next
    case (step u v)
    have "clock u \<le> clock v" "?o \<le> clock u"
      using step.hyps o by (auto dest: cb_step_clock cb_steps_clock)
    then have "to_seconds (clock u - ?o) \<le> to_seconds (clock v - ?o)"
      by (intro to_seconds_mono) auto
    with step have IH: "cfg (brk u) = c" "estate (entry_locked (brk u) p) = Open"
        "opened_at (entry_locked (brk u) p) = ?o" "in_flight u p \<le> in_flight s p" by auto
    show ?case
      using open_step [OF step.hyps(2) IH(1-3) \<open>?o \<le> clock u\<close> step.prems] IH(4) by auto
  qed
  then show ?thesis by (simp add: state_of_entry)
qed

lemma repeated_failures:
  assumes "1 \<le> failure_threshold c"
  shows "estate (entry_locked ((record_failure now p ^^ n) (set_metrics m (new_breaker c))) p)
      = (if int n < failure_threshold c then Closed else Open)
    \<and> consecutive_failures (entry_locked ((record_failure now p ^^ n) (set_metrics m (new_breaker c))) p) = int n
    \<and> cfg ((record_failure now p ^^ n) (set_metrics m (new_breaker c))) = c"
proof (induction n)
  case 0
  then show ?case using assms by (simp add: new_breaker_def entry_locked_def fresh_entry_def set_metrics_def)
next
  case (Suc n)
  then show ?case by (auto simp: entry_failure failure_entry_def)
qed

lemma circuit_open_total_failure:
  "circuit_open_total (record_failure now p b) =
     (if estate (entry_locked b p) = HalfOpen \<or>
         (estate (entry_locked b p) = Closed \<and>
          failure_threshold (cfg b) \<le> consecutive_failures (entry_locked b p) + 1)
      then map_option (\<lambda>m. m(p := Suc (m p))) (circuit_open_total b) else circuit_open_total b)"
  by (simp add: record_failure_def inc_provider_circuit_open_def put_entry_def Let_def)

text \<open>
  Tripping: after \<open>n\<close> consecutive failures a fresh provider is open exactly when \<open>n\<close>
  has reached the threshold, and the metrics sink counted one opening exactly then.
\<close>

lemma threshold_failures_trip:
  assumes "1 \<le> failure_threshold c"
  shows "state_of p ((record_failure now p ^^ n) (set_metrics (Some (\<lambda>_. 0)) (new_breaker c)))
      = (if int n < failure_threshold c then Closed else Open)
    \<and> circuit_open_total ((record_failure now p ^^ n) (set_metrics (Some (\<lambda>_. 0)) (new_breaker c)))
      = Some ((\<lambda>_. 0)(p := if int n < failure_threshold c then 0 else 1))"
proof (induction n)
  case 0
  then show ?case using assms repeated_failures [OF assms, where now = now and p = p and n = 0 and m = "Some (\<lambda>_. 0)"]
    by (simp add: state_of_entry set_metrics_def new_breaker_def)
next
  case (Suc n)
  show ?case
    using Suc repeated_failures [OF assms, where now = now and p = p and n = n and m = "Some (\<lambda>_. 0)"]
      repeated_failures [OF assms, where now = now and p = p and n = "Suc n" and m = "Some (\<lambda>_. 0)"]
    by (auto simp: state_of_entry circuit_open_total_failure split: if_splits)
qed

end
