(* ===== verification/Json.thy ===== *)
theory Json
  imports Prelude Complex_Main "HOL-Library.AList"
begin

text \<open>
  The JSON codec (\<open>src/json.cpp\<close>, \<open>include/json.h\<close>): values, the serializer with its
  UTF-8 sanitising string escaper, and the recursive-descent parser with its nesting limit.

  A \<open>double\<close> is represented by its value, a rational number (JSON has no infinities, and
  the two zeros print and compare alike).  A \<open>JsonObject\<close> is an association list with
  distinct keys whose order stands for the unspecified iteration order of the
  \<open>unordered_map\<close>.  A null \<open>shared_ptr\<close> inside an array or object behaves as a JSON null in
  every function of the source and is represented by it.  The parser's position is the
  suffix of the input it has not consumed.
\<close>

section \<open>Values\<close>

type_synonym double = rat

datatype json =
    JNull
  | JBool bool
  | JNum double
  | JStr string
  | JArr "json list"
  | JObj "(string \<times> json) list"

fun jget :: "json \<Rightarrow> string \<Rightarrow> json option" where
  "jget (JObj kvs) k = map_of kvs k"
| "jget _ k = None"

definition get_string :: "json \<Rightarrow> string \<Rightarrow> string \<Rightarrow> string" where
  "get_string v k d = (case jget v k of Some (JStr s) \<Rightarrow> s | _ \<Rightarrow> d)"

definition get_number :: "json \<Rightarrow> string \<Rightarrow> double \<Rightarrow> double" where
  "get_number v k d = (case jget v k of Some (JNum x) \<Rightarrow> x | _ \<Rightarrow> d)"

definition get_bool :: "json \<Rightarrow> string \<Rightarrow> bool \<Rightarrow> bool" where
  "get_bool v k d = (case jget v k of Some (JBool b) \<Rightarrow> b | _ \<Rightarrow> d)"

text \<open>
  \<open>static_cast<int>\<close> of a double truncates; outside the range of \<open>int\<close> the cast is undefined in
  C++, and the model keeps the truncated value.
\<close>

definition trunc_double :: "double \<Rightarrow> int" where
  "trunc_double d = (if d < 0 then ceiling d else floor d)"

definition get_int :: "json \<Rightarrow> string \<Rightarrow> int \<Rightarrow> int" where
  "get_int v k d = trunc_double (get_number v k (of_int d))"

lemma trunc_double_of_int [simp]: "trunc_double (of_int i) = i"
  by (simp add: trunc_double_def)

section \<open>Binary64 numbers\<close>

definition pow10 :: "int \<Rightarrow> rat" where
  "pow10 e = (if 0 \<le> e then 10 ^ nat e else 1 / 10 ^ nat (- e))"

definition pow2 :: "int \<Rightarrow> rat" where
  "pow2 e = (if 0 \<le> e then 2 ^ nat e else 1 / 2 ^ nat (- e))"

text \<open>Round to the nearest integer, ties to even.\<close>

definition round_half_even :: "rat \<Rightarrow> int" where
  "round_half_even x =
     (let f = floor x; r = x - of_int f
      in if r < 1/2 then f else if 1/2 < r then f + 1 else if even f then f else f + 1)"

text \<open>The exponent of the binade of \<open>x > 0\<close>, clamped to that of the smallest normal number.\<close>

definition min_bin_exp :: int where "min_bin_exp = -1022"
definition max_bin_exp :: int where "max_bin_exp = 1023"

definition bin_exp :: "rat \<Rightarrow> int" where
  "bin_exp x = (case find (\<lambda>e. pow2 e \<le> x) (rev [min_bin_exp..max_bin_exp]) of
                  Some e \<Rightarrow> e | None \<Rightarrow> min_bin_exp)"

text \<open>
  \<open>strtod\<close> on a decimal number: the nearest binary64 value, \<open>None\<close> for \<open>ERANGE\<close> (overflow,
  or an inexact result below the normal range).
\<close>

definition round_double :: "rat \<Rightarrow> double option" where
  "round_double r =
     (if r = 0 then Some 0
      else let x = \<bar>r\<bar>; ulp = pow2 (bin_exp x - 52); y = of_int (round_half_even (x / ulp)) * ulp
           in if 2 ^ 1024 \<le> y then None
              else if x < pow2 min_bin_exp \<and> y \<noteq> x then None
              else Some (sgn r * y))"

text \<open>\<open>snprintf("%.17g")\<close>: 17 significant digits, trailing zeros dropped.\<close>

definition dec_exp :: "rat \<Rightarrow> int" where
  "dec_exp x = (case find (\<lambda>e. pow10 e \<le> x) (rev [-324..308]) of Some e \<Rightarrow> e | None \<Rightarrow> -324)"

definition strip_zeros :: "string \<Rightarrow> string" where
  "strip_zeros s = rev (dropWhile (\<lambda>c. c = CHR ''0'') (rev s))"

definition dot_frac :: "string \<Rightarrow> string" where
  "dot_frac f = (if f = [] then [] else CHR ''.'' # f)"

definition fmt_g17 :: "double \<Rightarrow> string" where
  "fmt_g17 d =
     (let x = \<bar>d\<bar>; e0 = dec_exp x; m0 = round_half_even (x * pow10 (16 - e0));
          (m, e) = (if m0 = 10 ^ 17 then (10 ^ 16, e0 + 1) else (m0, e0));
          ds = nat_digits (nat m);
          body = (if e < -4 \<or> 17 \<le> e then
                    take 1 ds @ dot_frac (strip_zeros (drop 1 ds)) @ ''e'' @ (if e < 0 then ''-'' else ''+'')
                    @ (if \<bar>e\<bar> < 10 then ''0'' else []) @ nat_digits (nat \<bar>e\<bar>)
                  else if 0 \<le> e then
                    take (nat e + 1) ds @ dot_frac (strip_zeros (drop (nat e + 1) ds))
                  else ''0'' @ dot_frac (strip_zeros (replicate (nat (- e) - 1) (CHR ''0'') @ ds)))
      in (if d < 0 then ''-'' else []) @ body)"

definition fmt_number :: "double \<Rightarrow> string" where
  "fmt_number d = (if of_int (floor d) = d \<and> \<bar>d\<bar> < 10 ^ 15 then to_string (floor d) else fmt_g17 d)"

section \<open>Serializer\<close>

definition emit_replacement :: string where
  "emit_replacement = [CHR 0xEF, CHR 0xBF, CHR 0xBD]"

text \<open>
  The UTF-8 check at a byte \<open>c \<ge> 0x80\<close>: the number of continuation bytes of a well-formed
  sequence that starts there (\<open>c & 0xE0 == 0xC0\<close> is \<open>c div 32 = 6\<close>, and so on), \<open>None\<close> for a
  stray, truncated, overlong, surrogate or out-of-range one.
\<close>

definition utf8_lead :: "char \<Rightarrow> (nat \<times> nat \<times> nat) option" where
  "utf8_lead c =
     (if code c div 32 = 6 then Some (1, code c mod 32, 0x80)
      else if code c div 16 = 14 then Some (2, code c mod 16, 0x800)
      else if code c div 8 = 30 then Some (3, code c mod 8, 0x10000) else None)"

definition is_cont :: "char \<Rightarrow> bool" where
  "is_cont x \<longleftrightarrow> code x div 64 = 2"

definition cp_ok :: "nat \<Rightarrow> nat \<Rightarrow> bool" where
  "cp_ok min_cp cp \<longleftrightarrow> \<not> (cp < min_cp \<or> 0x10FFFF < cp \<or> (0xD800 \<le> cp \<and> cp \<le> 0xDFFF))"

definition utf8_need :: "char \<Rightarrow> string \<Rightarrow> nat option" where
  "utf8_need c cs =
     (case utf8_lead c of
        None \<Rightarrow> None
      | Some (need, cp0, min_cp) \<Rightarrow>
          if length cs < need then None
          else if \<not> list_all is_cont (take need cs) then None
          else if cp_ok min_cp (foldl (\<lambda>a x. a * 64 + code x mod 64) cp0 (take need cs))
          then Some need else None)"

definition hex_digit :: "nat \<Rightarrow> char" where
  "hex_digit n = (if n < 10 then char_of (48 + n) else char_of (87 + n))"

definition escape_ascii :: "char \<Rightarrow> string" where
  "escape_ascii c =
     (if c = CHR 0x22 then [CHR 0x5C, CHR 0x22]
      else if c = CHR 0x5C then [CHR 0x5C, CHR 0x5C]
      else if c = CHR 0x08 then [CHR 0x5C, CHR ''b'']
      else if c = CHR 0x0C then [CHR 0x5C, CHR ''f'']
      else if c = CHR 0x0A then [CHR 0x5C, CHR ''n'']
      else if c = CHR 0x0D then [CHR 0x5C, CHR ''r'']
      else if c = CHR 0x09 then [CHR 0x5C, CHR ''t'']
      else if code c < 0x20 then
        [CHR 0x5C, CHR ''u'', CHR ''0'', CHR ''0'', hex_digit (code c div 16), hex_digit (code c mod 16)]
      else [c])"

fun escape_bytes :: "string \<Rightarrow> string" where
  "escape_bytes [] = []"
| "escape_bytes (c # cs) =
     (if code c < 0x80 then escape_ascii c @ escape_bytes cs
      else (case utf8_need c cs of
              None \<Rightarrow> emit_replacement @ escape_bytes cs
            | Some n \<Rightarrow> c # take n cs @ escape_bytes (drop n cs)))"

definition escape_string :: "string \<Rightarrow> string" where
  "escape_string s = CHR 0x22 # escape_bytes s @ [CHR 0x22]"

fun serialize_impl :: "json \<Rightarrow> string" and ser_elems :: "json list \<Rightarrow> string"
  and ser_members :: "(string \<times> json) list \<Rightarrow> string" where
  "serialize_impl JNull = ''null''"
| "serialize_impl (JBool b) = (if b then ''true'' else ''false'')"
| "serialize_impl (JNum d) = fmt_number d"
| "serialize_impl (JStr s) = escape_string s"
| "serialize_impl (JArr vs) = ''['' @ ser_elems vs @ '']''"
| "serialize_impl (JObj kvs) = ''{'' @ ser_members kvs @ ''}''"
| "ser_elems [] = []"
| "ser_elems [v] = serialize_impl v"
| "ser_elems (v # vs) = serialize_impl v @ '','' @ ser_elems vs"
| "ser_members [] = []"
| "ser_members [(k, v)] = escape_string k @ '':'' @ serialize_impl v"
| "ser_members ((k, v) # kvs) = escape_string k @ '':'' @ serialize_impl v @ '','' @ ser_members kvs"

definition json_serialize :: "json \<Rightarrow> string" where
  "json_serialize v = serialize_impl v"

section \<open>Parser\<close>

text \<open>
  A failing parse carries the number of unread bytes and the message; \<open>OutOfFuel\<close> marks a
  run of the recursion beyond its fuel, which \<open>json_parse\<close> never reaches.
\<close>

datatype parse_error = PErr nat string | OutOfFuel

type_synonym 'a presult = "parse_error + ('a \<times> string)"

definition peek :: "string \<Rightarrow> char" where
  "peek s = (case s of [] \<Rightarrow> CHR 0x00 | c # _ \<Rightarrow> c)"

definition skip_ws :: "string \<Rightarrow> string" where
  "skip_ws s = dropWhile is_space s"

definition kMaxDepth :: nat where "kMaxDepth = 256"

definition hex_val :: "char \<Rightarrow> nat option" where
  "hex_val h = (if 48 \<le> code h \<and> code h \<le> 57 then Some (code h - 48)
                else if 97 \<le> code h \<and> code h \<le> 102 then Some (code h - 97 + 10)
                else if 65 \<le> code h \<and> code h \<le> 70 then Some (code h - 65 + 10) else None)"

fun parse_hex :: "nat \<Rightarrow> nat \<Rightarrow> string \<Rightarrow> nat presult" where
  "parse_hex 0 cp s = Inr (cp, s)"
| "parse_hex (Suc i) cp s =
     (case hex_val (peek s) of
        None \<Rightarrow> Inl (PErr (length (tl s)) (''invalid hex in '' @ [CHR 0x5C] @ ''u escape''))
      | Some d \<Rightarrow> parse_hex i (cp * 16 + d) (tl s))"

definition parse_hex4 :: "string \<Rightarrow> nat presult" where
  "parse_hex4 s = parse_hex 4 0 s"

definition append_utf8 :: "nat \<Rightarrow> string" where
  "append_utf8 cp =
     (if 0x10FFFF < cp \<or> (0xD800 \<le> cp \<and> cp \<le> 0xDFFF) then emit_replacement
      else if cp < 0x80 then [char_of cp]
      else if cp < 0x800 then [char_of (0xC0 + cp div 64), char_of (0x80 + cp mod 64)]
      else if cp < 0x10000 then
        [char_of (0xE0 + cp div 4096), char_of (0x80 + cp div 64 mod 64), char_of (0x80 + cp mod 64)]
      else [char_of (0xF0 + cp div 262144), char_of (0x80 + cp div 4096 mod 64),
            char_of (0x80 + cp div 64 mod 64), char_of (0x80 + cp mod 64)])"

text \<open>The \<open>\\u\<close> escape after its \<open>u\<close>: one scalar, or a UTF-16 surrogate pair.\<close>

definition parse_unicode :: "string \<Rightarrow> string presult" where
  "parse_unicode s =
     (case parse_hex4 s of
        Inl e \<Rightarrow> Inl e
      | Inr (cp, r) \<Rightarrow>
          if 0xD800 \<le> cp \<and> cp \<le> 0xDBFF then
            (if 6 \<le> length r \<and> r ! 0 = CHR 0x5C \<and> r ! 1 = CHR ''u'' then
               (case parse_hex4 (drop 2 r) of
                  Inl e \<Rightarrow> Inl e
                | Inr (low, r2) \<Rightarrow>
                    if 0xDC00 \<le> low \<and> low \<le> 0xDFFF
                    then Inr (append_utf8 (0x10000 + (cp - 0xD800) * 1024 + (low - 0xDC00)), r2)
                    else Inr (append_utf8 0xFFFD @ append_utf8 low, r2))
             else Inr (append_utf8 0xFFFD, r))
          else if 0xDC00 \<le> cp \<and> cp \<le> 0xDFFF then Inr (append_utf8 0xFFFD, r)
          else Inr (append_utf8 cp, r))"

text \<open>One escape after its backslash.\<close>

definition parse_escape :: "string \<Rightarrow> string presult" where
  "parse_escape s =
     (let e = peek s; r = tl s in
      if e = CHR 0x22 then Inr ([CHR 0x22], r)
      else if e = CHR 0x5C then Inr ([CHR 0x5C], r)
      else if e = CHR ''/'' then Inr (''/'', r)
      else if e = CHR ''b'' then Inr ([CHR 0x08], r)
      else if e = CHR ''f'' then Inr ([CHR 0x0C], r)
      else if e = CHR ''n'' then Inr ([CHR 0x0A], r)
      else if e = CHR ''r'' then Inr ([CHR 0x0D], r)
      else if e = CHR ''t'' then Inr ([CHR 0x09], r)
      else if e = CHR ''u'' then parse_unicode r
      else Inl (PErr (length r) ''invalid escape''))"

definition squote :: "string \<Rightarrow> string" where
  "squote s = CHR 0x27 # s @ [CHR 0x27]"

definition prepend :: "string \<Rightarrow> string presult \<Rightarrow> string presult" where
  "prepend p r = (case r of Inl e \<Rightarrow> Inl e | Inr (t, s) \<Rightarrow> Inr (p @ t, s))"

lemma parse_hex_length: "parse_hex i cp s = Inr (v, r) \<Longrightarrow> length r \<le> length s"
  by (induction i cp s rule: parse_hex.induct) (fastforce split: option.splits)+

lemma parse_unicode_length: "parse_unicode s = Inr (v, r) \<Longrightarrow> length r \<le> length s"
  unfolding parse_unicode_def parse_hex4_def
  by (fastforce split: sum.splits prod.splits if_splits dest: parse_hex_length)

lemma parse_escape_length [termination_simp]: "parse_escape s = Inr (v, r) \<Longrightarrow> length r \<le> length s"
  by (fastforce simp: parse_escape_def Let_def split: if_splits dest: parse_unicode_length)

fun string_body :: "string \<Rightarrow> string presult" where
  "string_body [] = Inl (PErr 0 ''unterminated string'')"
| "string_body (c # s) =
     (if c = CHR 0x22 then Inr ([], s)
      else if c = CHR 0x5C then
        (case parse_escape s of Inl e \<Rightarrow> Inl e | Inr (v, r) \<Rightarrow> prepend v (string_body r))
      else prepend [c] (string_body s))"

definition parse_string :: "string \<Rightarrow> string presult" where
  "parse_string s = (if peek s = CHR 0x22 then string_body (tl s)
                     else Inl (PErr (length (tl s)) (''expected '' @ squote [CHR 0x22])))"

text \<open>
  Numbers.  The scanner accepts \<open>-? digits (. digits)? ([eE] [+-]? digits)?\<close>; on such a token
  \<open>strtod\<close> consumes everything and rounds its exact decimal value.
\<close>

definition decimal_value :: "bool \<Rightarrow> string \<Rightarrow> string \<Rightarrow> bool \<Rightarrow> string \<Rightarrow> rat" where
  "decimal_value neg ints fracs eneg exps =
     (let m = of_int (digits_val (ints @ fracs));
          e = (if eneg then - digits_val exps else digits_val exps) - int (length fracs)
      in (if neg then - 1 else 1) * m * pow10 e)"

definition num_err :: "string \<Rightarrow> parse_error" where
  "num_err s = PErr (length s) ''invalid number''"

definition scan_frac :: "string \<Rightarrow> string presult" where
  "scan_frac s =
     (if peek s = CHR ''.'' then
        (if takeWhile is_digit (tl s) = [] then Inl (num_err (tl s))
         else Inr (takeWhile is_digit (tl s), dropWhile is_digit (tl s)))
      else Inr ([], s))"

definition scan_exp :: "string \<Rightarrow> (bool \<times> string) presult" where
  "scan_exp s =
     (if peek s = CHR ''e'' \<or> peek s = CHR ''E'' then
        (let t = tl s; u = (if peek t = CHR ''+'' \<or> peek t = CHR ''-'' then tl t else t)
         in if takeWhile is_digit u = [] then Inl (num_err u)
            else Inr ((peek t = CHR ''-'', takeWhile is_digit u), dropWhile is_digit u))
      else Inr ((False, []), s))"

definition parse_number :: "string \<Rightarrow> json presult" where
  "parse_number s =
     (let neg = (peek s = CHR ''-''); s1 = (if neg then tl s else s); ints = takeWhile is_digit s1 in
      if ints = [] then Inl (num_err s1)
      else case scan_frac (dropWhile is_digit s1) of
        Inl e \<Rightarrow> Inl e
      | Inr (fracs, s2) \<Rightarrow>
          (case scan_exp s2 of
             Inl e \<Rightarrow> Inl e
           | Inr ((eneg, exps), s3) \<Rightarrow>
               (case round_double (decimal_value neg ints fracs eneg exps) of
                  None \<Rightarrow> Inl (num_err s3)
                | Some d \<Rightarrow> Inr (JNum d, s3))))"

definition parse_bool :: "string \<Rightarrow> json presult" where
  "parse_bool s = (if prefix ''true'' s then Inr (JBool True, drop 4 s)
                   else if prefix ''false'' s then Inr (JBool False, drop 5 s)
                   else Inl (PErr (length s) ''expected bool''))"

definition parse_null :: "string \<Rightarrow> json presult" where
  "parse_null s = (if prefix ''null'' s then Inr (JNull, drop 4 s)
                   else Inl (PErr (length s) ''expected null''))"

text \<open>
  \<open>parse_array\<close> and \<open>parse_object\<close> over their \<open>while (true)\<close> loops, which call back into
  \<open>parse_value\<close>; the first number is the parser's \<open>depth\<close> field.
\<close>

definition parse_array :: "(nat \<Rightarrow> string \<Rightarrow> json list presult) \<Rightarrow> nat \<Rightarrow> string \<Rightarrow> json presult" where
  "parse_array loop d s =
     (if kMaxDepth < d + 1 then Inl (PErr (length s) ''max nesting depth exceeded'')
      else let r = skip_ws (tl s) in
        if peek r = CHR '']'' then Inr (JArr [], tl r)
        else (case loop (d + 1) r of Inl e \<Rightarrow> Inl e | Inr (vs, r2) \<Rightarrow> Inr (JArr vs, r2)))"

definition parse_object :: "(nat \<Rightarrow> string \<Rightarrow> (string \<times> json) list presult) \<Rightarrow> nat \<Rightarrow> string \<Rightarrow> json presult" where
  "parse_object loop d s =
     (if kMaxDepth < d + 1 then Inl (PErr (length s) ''max nesting depth exceeded'')
      else let r = skip_ws (tl s) in
        if peek r = CHR ''}'' then Inr (JObj [], tl r)
        else (case loop (d + 1) r of Inl e \<Rightarrow> Inl e | Inr (kvs, r2) \<Rightarrow> Inr (JObj kvs, r2)))"

definition parse_string_val :: "string \<Rightarrow> json presult" where
  "parse_string_val s = (case parse_string s of Inl e \<Rightarrow> Inl e | Inr (t, r) \<Rightarrow> Inr (JStr t, r))"

definition dispatch :: "(string \<Rightarrow> json presult) \<Rightarrow> (string \<Rightarrow> json presult) \<Rightarrow> string \<Rightarrow> json presult" where
  "dispatch p_object p_array s =
     (let c = peek s in
      if c = CHR 0x22 then parse_string_val s
      else if c = CHR ''{'' then p_object s
      else if c = CHR ''['' then p_array s
      else if c = CHR ''t'' \<or> c = CHR ''f'' then parse_bool s
      else if c = CHR ''n'' then parse_null s
      else if c = CHR ''-'' \<or> is_digit c then parse_number s
      else Inl (PErr (length s) ''unexpected character''))"

text \<open>What one round of the array loop does after its element.\<close>

definition elems_step :: "json list presult \<Rightarrow> (string \<Rightarrow> json list presult) \<Rightarrow> string \<Rightarrow> json list presult" where
  "elems_step done next r =
     (if peek r = CHR '']'' then done
      else if peek r \<noteq> CHR '','' then
        Inl (PErr (length r) (''expected '' @ squote '','' @ '' or '' @ squote '']''))
      else next (tl r))"

text \<open>The key and the colon of one member.\<close>

definition member_key :: "string \<Rightarrow> string presult" where
  "member_key s =
     (case parse_string (skip_ws s) of
        Inl e \<Rightarrow> Inl e
      | Inr (key, r) \<Rightarrow>
          if peek (skip_ws r) \<noteq> CHR '':'' then
            Inl (PErr (length (tl (skip_ws r))) (''expected '' @ squote '':''))
          else Inr (key, tl (skip_ws r)))"

definition members_step ::
  "(string \<times> json) list presult \<Rightarrow> (string \<Rightarrow> (string \<times> json) list presult) \<Rightarrow> string
   \<Rightarrow> (string \<times> json) list presult" where
  "members_step done next r =
     (if peek r = CHR ''}'' then done
      else if peek r \<noteq> CHR '','' then
        Inl (PErr (length r) (''expected '' @ squote '','' @ '' or '' @ squote ''}''))
      else next (tl r))"

text \<open>
  The recursion, bounded by fuel in its first argument.  Assigning to an existing key of the
  object overwrites its value.
\<close>

function (sequential) parse_value :: "nat \<Rightarrow> nat \<Rightarrow> string \<Rightarrow> json presult"
  and elems_loop :: "nat \<Rightarrow> json list \<Rightarrow> nat \<Rightarrow> string \<Rightarrow> json list presult"
  and members_loop :: "nat \<Rightarrow> (string \<times> json) list \<Rightarrow> nat \<Rightarrow> string \<Rightarrow> (string \<times> json) list presult" where
  "parse_value 0 d s = Inl OutOfFuel"
| "parse_value (Suc f) d s =
     dispatch (parse_object (members_loop f []) d) (parse_array (elems_loop f []) d) (skip_ws s)"
| "elems_loop 0 acc d s = Inl OutOfFuel"
| "elems_loop (Suc f) acc d s =
     (case parse_value f d s of
        Inl e \<Rightarrow> Inl e
      | Inr (v, r) \<Rightarrow>
          elems_step (Inr (acc @ [v], tl (skip_ws r))) (elems_loop f (acc @ [v]) d) (skip_ws r))"
| "members_loop 0 acc d s = Inl OutOfFuel"
| "members_loop (Suc f) acc d s =
     (case member_key s of
        Inl e \<Rightarrow> Inl e
      | Inr (key, r) \<Rightarrow>
          (case parse_value f d r of
             Inl e \<Rightarrow> Inl e
           | Inr (v, r2) \<Rightarrow>
               members_step (Inr (AList.update key v acc, tl (skip_ws r2)))
                 (members_loop f (AList.update key v acc) d) (skip_ws r2)))"
  by pat_completeness auto
termination
  by (relation "measure (case_sum fst (case_sum fst fst))") auto

definition parse_fuel :: "string \<Rightarrow> nat" where
  "parse_fuel s = 2 * length s + 1"

text \<open>
  The exception of \<open>Parser::error\<close>: the position is where the unread bytes start.
\<close>

definition json_parse :: "string \<Rightarrow> parse_error + json" where
  "json_parse input =
     (case parse_value (parse_fuel input) 0 input of
        Inl e \<Rightarrow> Inl e
      | Inr (v, r) \<Rightarrow> if skip_ws r = [] then Inr v
                       else Inl (PErr (length (skip_ws r)) ''trailing characters''))"

definition parse_error_text :: "string \<Rightarrow> parse_error \<Rightarrow> string" where
  "parse_error_text input e =
     (case e of PErr n m \<Rightarrow> ''JSON parse error at pos '' @ to_string (int (length input - n)) @ '': '' @ m
              | OutOfFuel \<Rightarrow> [])"

end
