(* ===== verification/Api_Types.thy ===== *)
theory Api_Types
  imports Json
begin

text \<open>
  The data that the model-provider client exchanges (\<open>include/api_client.h\<close>): messages,
  requests and responses.
\<close>

section \<open>Messages\<close>

datatype part_kind = TEXT | IMAGE

record ContentPart =
  cp_kind :: part_kind
  cp_text :: string
  cp_image_data :: string
  cp_media_type :: string
  cp_image_url :: string

record ToolTraceEntry =
  tt_id :: string
  tt_label :: string
  tt_kind :: string
  tt_detail :: string
  tt_ok :: bool
  tt_result_preview :: string

record Message =
  m_role :: string
  m_content :: string
  m_parts :: "ContentPart list"
  m_tool_trace :: "ToolTraceEntry list"
  m_thinking :: string

text \<open>\<open>Message{role, content}\<close>.\<close>

definition mk_message :: "string \<Rightarrow> string \<Rightarrow> Message" where
  "mk_message r c = \<lparr>m_role = r, m_content = c, m_parts = [], m_tool_trace = [], m_thinking = []\<rparr>"

section \<open>Requests and responses\<close>

record ApiRequest =
  rq_model :: string
  rq_system_prompt :: string
  rq_messages :: "Message list"
  rq_max_tokens :: int
  rq_temperature :: double
  rq_include_temperature :: bool
  rq_logprobs :: bool
  rq_top_logprobs :: int
  rq_reasoning_effort :: string
  rq_reasoning_exclude :: bool

definition default_request :: ApiRequest where
  "default_request = \<lparr>rq_model = [], rq_system_prompt = [], rq_messages = [], rq_max_tokens = 1024,
     rq_temperature = 3 / 10, rq_include_temperature = True, rq_logprobs = False, rq_top_logprobs = 0,
     rq_reasoning_effort = [], rq_reasoning_exclude = False\<rparr>"

record TopLogprob =
  tl_token :: string
  tl_logprob :: double

record TokenLogprobs =
  lp_token :: string
  lp_logprob :: double
  lp_has_logprob :: bool
  lp_top_logprobs :: "TopLogprob list"

record ApiResponse =
  rs_ok :: bool
  rs_content :: string
  rs_input_tokens :: int
  rs_output_tokens :: int
  rs_cache_read_tokens :: int
  rs_cache_creation_tokens :: int
  rs_error :: string
  rs_error_type :: string
  rs_halt_reason :: string
  rs_raw_body :: string
  rs_stop_reason :: string
  rs_had_tool_calls :: bool
  rs_reasoning :: string
  rs_gate_approved :: bool
  rs_budget_exhausted :: bool
  rs_logprobs :: "TokenLogprobs list"
  rs_served_model :: string
  rs_has_cost :: bool
  rs_cost_usd :: double

definition default_response :: ApiResponse where
  "default_response = \<lparr>rs_ok = False, rs_content = [], rs_input_tokens = 0, rs_output_tokens = 0,
     rs_cache_read_tokens = 0, rs_cache_creation_tokens = 0, rs_error = [], rs_error_type = [],
     rs_halt_reason = [], rs_raw_body = [], rs_stop_reason = [], rs_had_tool_calls = False,
     rs_reasoning = [], rs_gate_approved = False, rs_budget_exhausted = False, rs_logprobs = [],
     rs_served_model = [], rs_has_cost = False, rs_cost_usd = 0\<rparr>"

end
