(* ===== verification/Json_Strings.thy ===== *)
theory Json_Strings
  imports Json
begin

text \<open>
  The string half of the JSON codec: UTF-8 validity, what the escaper writes, and that the
  parser reads back exactly the sanitised string.
\<close>

section \<open>UTF-8\<close>

fun utf8_valid :: "string \<Rightarrow> bool" where
  "utf8_valid [] = True"
| "utf8_valid (c # cs) =
     (if code c < 0x80 then utf8_valid cs
      else (case utf8_need c cs of None \<Rightarrow> False | Some n \<Rightarrow> utf8_valid (drop n cs)))"

text \<open>Every byte that starts no well-formed sequence replaced by U+FFFD.\<close>

fun sanitize :: "string \<Rightarrow> string" where
  "sanitize [] = []"
| "sanitize (c # cs) =
     (if code c < 0x80 then c # sanitize cs
      else (case utf8_need c cs of
              None \<Rightarrow> emit_replacement @ sanitize cs
            | Some n \<Rightarrow> c # take n cs @ sanitize (drop n cs)))"

lemma utf8_need_iff:
  "utf8_need c cs = Some n \<longleftrightarrow>
     (\<exists>cp0 mn. utf8_lead c = Some (n, cp0, mn) \<and> n \<le> length cs \<and> list_all is_cont (take n cs)
       \<and> cp_ok mn (foldl (\<lambda>a x. a * 64 + code x mod 64) cp0 (take n cs)))"
  by (auto simp: utf8_need_def split: option.splits if_splits)

lemma utf8_lead_high: "utf8_lead c = Some x \<Longrightarrow> 0x80 \<le> code c"
  by (simp add: utf8_lead_def split: if_splits)

lemma utf8_need_high: "utf8_need c cs = Some n \<Longrightarrow> \<not> code c < 0x80"
  using utf8_lead_high by (fastforce simp: utf8_need_iff)

lemma utf8_need_length: "utf8_need c cs = Some n \<Longrightarrow> n \<le> length cs"
  by (auto simp: utf8_need_iff)

lemma utf8_need_append: "utf8_need c cs = Some n \<Longrightarrow> utf8_need c (cs @ ds) = Some n"
  by (auto simp: utf8_need_iff)

lemma utf8_need_take: "utf8_need c cs = Some n \<Longrightarrow> utf8_need c (take n cs @ ds) = Some n"
  by (auto simp: utf8_need_iff)

lemma utf8_valid_append: "utf8_valid a \<Longrightarrow> utf8_valid b \<Longrightarrow> utf8_valid (a @ b)"
proof (induction a rule: utf8_valid.induct)
  case (2 c cs)
  show ?case
  proof (cases "utf8_need c cs")
    case None
    then show ?thesis using 2 by (simp split: if_splits)
  next
    case (Some n)
    have "utf8_valid (drop n cs @ b)"
      using 2 Some by (simp add: utf8_need_high [OF Some])
    then show ?thesis using utf8_need_append [OF Some, of b] utf8_need_length [OF Some] utf8_need_high [OF Some]
      by simp
  qed
qed simp

lemma utf8_valid_ascii: "list_all (\<lambda>c. code c < 0x80) s \<Longrightarrow> utf8_valid s"
  by (induction s) auto

lemma utf8_valid_seq:
  assumes "utf8_need c cs = Some n" and "utf8_valid s"
  shows "utf8_valid (c # take n cs @ s)"
  using utf8_need_take [OF assms(1), of s] utf8_need_high [OF assms(1)] utf8_need_length [OF assms(1)] assms(2)
  by simp

lemma utf8_valid_replacement [simp]: "utf8_valid emit_replacement"
  by (simp add: emit_replacement_def utf8_need_def utf8_lead_def is_cont_def cp_ok_def)

lemma sanitize_valid: "utf8_valid (sanitize s)"
proof (induction s rule: sanitize.induct)
  case (2 c cs)
  show ?case
  proof (cases "utf8_need c cs")
    case None
    then show ?thesis using 2 utf8_valid_append by simp
  next
    case (Some n)
    then show ?thesis using 2 utf8_valid_seq [OF Some] utf8_need_high [OF Some] by simp
  qed
qed simp

lemma sanitize_valid_id: "utf8_valid s \<Longrightarrow> sanitize s = s"
  by (induction s rule: utf8_valid.induct) (auto split: if_splits option.splits)

lemma sanitize_id_iff: "sanitize s = s \<longleftrightarrow> utf8_valid s"
  using sanitize_valid_id sanitize_valid by metis

lemma hex_digit_ascii: "n < 16 \<Longrightarrow> code (hex_digit n) < 0x80"
  by (simp add: hex_digit_def)

lemma escape_ascii_ascii: "code c < 0x80 \<Longrightarrow> list_all (\<lambda>c. code c < 0x80) (escape_ascii c)"
  by (simp add: escape_ascii_def hex_digit_ascii)

lemma escape_bytes_valid: "utf8_valid (escape_bytes s)"
proof (induction s rule: escape_bytes.induct)
  case (2 c cs)
  show ?case
  proof (cases "code c < 0x80")
    case True
    then show ?thesis using 2 by (simp add: utf8_valid_append utf8_valid_ascii escape_ascii_ascii)
  next
    case False
    then show ?thesis using 2
      by (cases "utf8_need c cs") (simp_all add: utf8_valid_append utf8_valid_seq del: utf8_valid.simps)
  qed
qed simp

section \<open>Reading back an escaped string\<close>

lemma prepend_Inr [simp]: "prepend p (Inr (t, r)) = Inr (p @ t, r)"
  by (simp add: prepend_def)

lemma prepend_prepend: "prepend p (prepend q r) = prepend (p @ q) r"
  by (auto simp: prepend_def split: sum.splits)

lemma prepend_Nil [simp]: "prepend [] r = r"
  by (auto simp: prepend_def split: sum.splits)

lemma string_body_plain:
  "list_all (\<lambda>c. c \<noteq> CHR 0x22 \<and> c \<noteq> CHR 0x5C) p \<Longrightarrow> string_body (p @ s) = prepend p (string_body s)"
  by (induction p) (auto simp: prepend_prepend)

lemma high_plain: "\<not> code c < 0x80 \<Longrightarrow> c \<noteq> CHR 0x22 \<and> c \<noteq> CHR 0x5C"
  by auto

lemma cont_plain: "list_all is_cont s \<Longrightarrow> list_all (\<lambda>c. c \<noteq> CHR 0x22 \<and> c \<noteq> CHR 0x5C) s"
  by (auto simp: list_all_iff is_cont_def)

lemma hex_val_digit [simp]: "n < 16 \<Longrightarrow> hex_val (hex_digit n) = Some n"
  by (auto simp: hex_val_def hex_digit_def)

lemma append_utf8_ascii [simp]: "code c < 0x80 \<Longrightarrow> append_utf8 (code c) = [c]"
  by (simp add: append_utf8_def)

lemma parse_hex4_Cons:
  assumes "hex_val a = Some x" "hex_val b = Some y" "hex_val c = Some z" "hex_val d = Some w"
  shows "parse_hex4 (a # b # c # d # s) = Inr (((x * 16 + y) * 16 + z) * 16 + w, s)"
proof -
  have "(4::nat) = Suc (Suc (Suc (Suc 0)))" by simp
  then show ?thesis using assms by (simp only: parse_hex4_def parse_hex.simps) (simp add: peek_def)
qed

lemma parse_unicode_control:
  "code c < 0x20 \<Longrightarrow>
   parse_unicode (CHR ''0'' # CHR ''0'' # hex_digit (code c div 16) # hex_digit (code c mod 16) # s)
     = Inr ([c], s)"
proof -
  assume c: "code c < 0x20"
  have "hex_val (CHR ''0'') = Some 0" by (simp add: hex_val_def)
  moreover have "hex_val (hex_digit (code c div 16)) = Some (code c div 16)"
    using c by (intro hex_val_digit) (simp add: less_mult_imp_div_less)
  moreover have "hex_val (hex_digit (code c mod 16)) = Some (code c mod 16)"
    by (intro hex_val_digit) simp
  ultimately have "parse_hex4 (CHR ''0'' # CHR ''0'' # hex_digit (code c div 16) # hex_digit (code c mod 16) # s)
      = Inr (code c, s)"
    by (simp only: parse_hex4_Cons) simp
  then show ?thesis using c by (simp add: parse_unicode_def)
qed

lemma string_body_escape_ascii:
  "string_body (escape_ascii c @ s) = prepend [c] (string_body s)"
  by (simp add: escape_ascii_def parse_escape_def peek_def parse_unicode_control)

lemma string_body_escape:
  "string_body (escape_bytes s @ CHR 0x22 # r) = Inr (sanitize s, r)"
proof (induction s rule: escape_bytes.induct)
  case (2 c cs)
  show ?case
  proof (cases "code c < 0x80")
    case True
    then show ?thesis using 2 by (simp add: string_body_escape_ascii)
  next
    case high: False
    show ?thesis
    proof (cases "utf8_need c cs")
      case None
      with 2 high show ?thesis by (simp add: emit_replacement_def)
    next
      case (Some n)
      have "list_all (\<lambda>c. c \<noteq> CHR 0x22 \<and> c \<noteq> CHR 0x5C) (c # take n cs)"
        using high_plain [OF high] cont_plain Some by (auto simp: utf8_need_iff)
      from string_body_plain [OF this, of "escape_bytes (drop n cs) @ CHR 0x22 # r"]
      show ?thesis using 2 high Some by simp
    qed
  qed
qed simp

lemma parse_escape_string: "parse_string (escape_string s @ r) = Inr (sanitize s, r)"
  by (simp add: parse_string_def escape_string_def peek_def string_body_escape)

end
