(* ===== verification/Json_Numbers.thy ===== *)
theory Json_Numbers
  imports Json
begin

text \<open>
  The number half of the JSON codec: integral numbers below \<open>10\<^sup>1\<^sup>5\<close> are written as plain
  decimals and read back exactly through the rounding of \<open>strtod\<close>.
\<close>

section \<open>Exactness of rounding on integers\<close>

lemma find_max:
  "sorted_wrt (>) xs \<Longrightarrow> find P xs = Some e \<Longrightarrow> P e \<and> (\<forall>y \<in> set xs. P y \<longrightarrow> y \<le> (e::int))"
  by (induction xs) (auto split: if_splits)

lemma sorted_rev_upto: "sorted_wrt (>) (rev [i..j::int])"
  by (simp add: sorted_wrt_rev)

lemma pow2_pos: "0 < pow2 e"
  by (simp add: pow2_def)

lemma bin_exp_int:
  assumes "1 \<le> n" and "n < 2 ^ 53"
  shows "0 \<le> bin_exp (of_int n) \<and> bin_exp (of_int n) \<le> 52"
proof -
  let ?P = "\<lambda>e. pow2 e \<le> of_int n"
  have P0: "?P 0" using assms by (simp add: pow2_def)
  have m: "0 \<in> set (rev [min_bin_exp..max_bin_exp])" by (simp only: set_rev set_upto) (simp add: min_bin_exp_def max_bin_exp_def)
  with P0 have "find ?P (rev [min_bin_exp..max_bin_exp]) \<noteq> None" by (auto simp: find_None_iff)
  then obtain e where e: "find ?P (rev [min_bin_exp..max_bin_exp]) = Some e" by blast
  from find_max [OF sorted_rev_upto e] have Pe: "?P e" and mx: "0 \<le> e" using P0 m by auto
  have "e \<le> 52"
  proof (rule ccontr)
    assume "\<not> e \<le> 52"
    then have "(2::rat) ^ 53 \<le> 2 ^ nat e" by (intro power_increasing) auto
    also have "\<dots> \<le> of_int n" using Pe mx by (simp add: pow2_def)
    finally have "(of_int (2 ^ 53) :: rat) \<le> of_int n" by simp
    then have "2 ^ 53 \<le> n" by (simp only: of_int_le_iff)
    with assms(2) show False by simp
  qed
  then show ?thesis using e mx by (simp add: bin_exp_def)
qed

lemma round_half_even_int [simp]: "round_half_even (of_int k) = k"
  by (simp add: round_half_even_def)

lemma scaled_int:
  assumes "0 \<le> e" and "e \<le> 52"
  shows "(of_int n :: rat) / pow2 (e - 52) = of_int (n * 2 ^ nat (52 - e))"
proof (cases "e = 52")
  case False
  then show ?thesis using assms by (simp add: pow2_def)
qed (simp add: pow2_def)

lemma round_double_pos:
  assumes "1 \<le> n" and "n < 2 ^ 53"
  shows "round_double (of_int n) = Some (of_int n)"
proof -
  let ?e = "bin_exp (of_int n)"
  have e: "0 \<le> ?e" "?e \<le> 52" using bin_exp_int [OF assms] by auto
  have y: "of_int (round_half_even (of_int n / pow2 (?e - 52))) * pow2 (?e - 52) = of_int n"
    using scaled_int [OF e, of n] pow2_pos [of "?e - 52"]
    by (metis less_irrefl nonzero_eq_divide_eq round_half_even_int)
  have "\<not> (2 ^ 1024 :: rat) \<le> of_int n"
  proof -
    have "n < 2 ^ 1024" using assms(2) power_increasing [of 53 1024 "2::int"] by linarith
    then have "(of_int n :: rat) < of_int (2 ^ 1024)" by (simp only: of_int_less_iff)
    then show ?thesis by simp
  qed
  then show ?thesis using y assms(1) by (simp add: round_double_def Let_def)
qed

lemma round_double_int:
  assumes "\<bar>i\<bar> < 2 ^ 53"
  shows "round_double (of_int i) = Some (of_int i)"
proof -
  have neg: "round_double (- r) = map_option uminus (round_double r)" for r
    by (simp add: round_double_def Let_def)
  consider "i = 0" | "1 \<le> i" | "i < 0" by linarith
  then show ?thesis
  proof cases
    case 1
    then show ?thesis by (simp add: round_double_def)
  next
    case 2
    then show ?thesis using assms by (intro round_double_pos) auto
  next
    case 3
    then have "round_double (of_int (- i)) = Some (of_int (- i))" using assms by (intro round_double_pos) auto
    then show ?thesis using neg [of "of_int (- i)"] by simp
  qed
qed

section \<open>Scanning a decimal integer\<close>

text \<open>What may follow a number: anything the scanner would not read as part of it.\<close>

definition number_stop :: "string \<Rightarrow> bool" where
  "number_stop r \<longleftrightarrow> r = [] \<or> (\<not> is_digit (hd r) \<and> hd r \<noteq> CHR ''.'' \<and> hd r \<noteq> CHR ''e'' \<and> hd r \<noteq> CHR ''E'')"

lemma peek_simps [simp]: "peek [] = CHR 0x00" "peek (c # s) = c"
  by (simp_all add: peek_def)

lemma scan_frac_stop: "number_stop r \<Longrightarrow> scan_frac r = Inr ([], r)"
  by (cases r) (auto simp: scan_frac_def number_stop_def)

lemma scan_exp_stop: "number_stop r \<Longrightarrow> scan_exp r = Inr ((False, []), r)"
  by (cases r) (auto simp: scan_exp_def number_stop_def)

lemma parse_number_digits:
  assumes "list_all is_digit ds" "ds \<noteq> []" "number_stop r" "\<bar>digits_val ds\<bar> < 2 ^ 53"
    "peek (pre @ ds) = CHR ''-'' \<longleftrightarrow> pre = ''-''" "pre = [] \<or> pre = ''-''"
  shows "parse_number (pre @ ds @ r) =
    Inr (JNum (of_int (if pre = [] then digits_val ds else - digits_val ds)), r)"
proof -
  have tw: "takeWhile is_digit (ds @ r) = ds" "dropWhile is_digit (ds @ r) = r"
    using assms(1,3) by (auto simp: number_stop_def intro!: takeWhile_append_neq dropWhile_append_neq)
  have pk: "peek (ds @ r) \<noteq> CHR ''-''" using assms(1,2) by (cases ds) (auto simp: is_digit_def)
  have dv: "decimal_value neg ds [] False [] = of_int (if neg then - digits_val ds else digits_val ds)" for neg
    by (simp add: decimal_value_def pow10_def)
  have rd: "round_double (of_int (if neg then - digits_val ds else digits_val ds))
      = Some (of_int (if neg then - digits_val ds else digits_val ds))" for neg
    using assms(4) by (intro round_double_int) auto
  show ?thesis
  proof (cases "pre = []")
    case True
    then show ?thesis using assms(2) rd [of False] dv [of False]
      by (simp add: parse_number_def Let_def tw pk scan_frac_stop scan_exp_stop assms(3))
  next
    case False
    then have "pre = ''-''" using assms(6) by simp
    then show ?thesis using assms(2) rd [of True] dv [of True]
      by (simp add: parse_number_def Let_def tw scan_frac_stop scan_exp_stop assms(3))
  qed
qed

text \<open>The integral numbers that the serializer prints as plain decimals.\<close>

definition plain_number :: "double \<Rightarrow> bool" where
  "plain_number d \<longleftrightarrow> of_int (floor d) = d \<and> \<bar>d\<bar> < 10 ^ 15"

lemma plain_number_bound: "plain_number d \<Longrightarrow> \<bar>floor d\<bar> < 10 ^ 15"
proof -
  assume d: "plain_number d"
  then have "\<bar>of_int (floor d)\<bar> < (10 ^ 15 :: rat)" unfolding plain_number_def by metis
  then have "(of_int \<bar>floor d\<bar> :: rat) < of_int (10 ^ 15)" by simp
  then show ?thesis by (simp only: of_int_less_iff)
qed

lemma parse_fmt_number:
  assumes "plain_number d" and "number_stop r"
  shows "parse_number (fmt_number d @ r) = Inr (JNum d, r)"
proof -
  define i where "i = floor d"
  have i: "\<bar>i\<bar> < 10 ^ 15" and d: "of_int i = d"
    using plain_number_bound [OF assms(1)] assms(1) by (simp_all add: i_def plain_number_def)
  have b: "\<bar>digits_val (nat_digits (nat \<bar>i\<bar>))\<bar> < 2 ^ 53" using i by (simp add: digits_val_nat_digits)
  have pk: "peek (nat_digits n @ s) \<noteq> CHR ''-''" for n s
    using nat_digits_all_digits [of n] nat_digits_ne [of n] by (cases "nat_digits n") (auto simp: is_digit_def)
  have f: "fmt_number d = to_string i" using assms(1) by (simp add: fmt_number_def plain_number_def i_def)
  show ?thesis
  proof (cases "i < 0")
    case True
    then show ?thesis
      using parse_number_digits [OF nat_digits_all_digits nat_digits_ne assms(2) b, of "''-''"] d
      by (simp add: f to_string_def digits_val_nat_digits)
  next
    case False
    then show ?thesis
      using parse_number_digits [OF nat_digits_all_digits nat_digits_ne assms(2) b, of "[]"] d pk [of _ "[]"]
      by (simp add: f to_string_def digits_val_nat_digits)
  qed
qed

lemma fmt_number_start:
  assumes "plain_number d"
  shows "fmt_number d \<noteq> [] \<and> (hd (fmt_number d) = CHR ''-'' \<or> is_digit (hd (fmt_number d)))"
proof -
  have "is_digit (hd (nat_digits n))" for n
    using nat_digits_all_digits [of n] nat_digits_ne [of n] by (cases "nat_digits n") auto
  then show ?thesis using assms by (simp add: fmt_number_def plain_number_def to_string_def)
qed

end
