(* ===== verification/Json_Correct.thy ===== *)
theory Json_Correct
  imports Json_Strings Json_Numbers
begin

text \<open>
  Correctness of the JSON codec: the parser terminates within its fuel on every input, reads
  back what the serializer writes, and never builds a value nested deeper than its limit.
\<close>

section \<open>Values that survive the wire\<close>

fun json_ok :: "json \<Rightarrow> bool" and elems_ok :: "json list \<Rightarrow> bool"
  and members_ok :: "(string \<times> json) list \<Rightarrow> bool" where
  "json_ok JNull = True"
| "json_ok (JBool b) = True"
| "json_ok (JNum d) = plain_number d"
| "json_ok (JStr s) = utf8_valid s"
| "json_ok (JArr vs) = elems_ok vs"
| "json_ok (JObj kvs) = members_ok kvs"
| "elems_ok [] = True"
| "elems_ok (v # vs) = (json_ok v \<and> elems_ok vs)"
| "members_ok [] = True"
| "members_ok ((k, v) # kvs) = (utf8_valid k \<and> k \<notin> fst ` set kvs \<and> json_ok v \<and> members_ok kvs)"

fun json_depth :: "json \<Rightarrow> nat" and elems_depth :: "json list \<Rightarrow> nat"
  and members_depth :: "(string \<times> json) list \<Rightarrow> nat" where
  "json_depth (JArr vs) = Suc (elems_depth vs)"
| "json_depth (JObj kvs) = Suc (members_depth kvs)"
| "json_depth _ = 0"
| "elems_depth [] = 0"
| "elems_depth (v # vs) = max (json_depth v) (elems_depth vs)"
| "members_depth [] = 0"
| "members_depth ((k, v) # kvs) = max (json_depth v) (members_depth kvs)"

section \<open>Round trip\<close>

lemma skip_ws_Cons [simp]: "\<not> is_space c \<Longrightarrow> skip_ws (c # s) = c # s"
  by (simp add: skip_ws_def)

lemma not_space_digit: "is_digit c \<Longrightarrow> \<not> is_space c"
  by (auto simp: is_digit_def is_space_def)

lemma digit_not_punct:
  "is_digit c \<Longrightarrow> c \<noteq> CHR '']'' \<and> c \<noteq> CHR ''}'' \<and> c \<noteq> CHR ''['' \<and> c \<noteq> CHR ''{'' \<and> c \<noteq> CHR 0x22
     \<and> c \<noteq> CHR ''t'' \<and> c \<noteq> CHR ''f'' \<and> c \<noteq> CHR ''n''"
  by (auto simp: is_digit_def)

lemma not_space_chars [simp]:
  "\<not> is_space (CHR 0x22)" "\<not> is_space (CHR ''['')" "\<not> is_space (CHR ''{'')" "\<not> is_space (CHR '']'')"
  "\<not> is_space (CHR ''}'')" "\<not> is_space (CHR '','')" "\<not> is_space (CHR '':'')" "\<not> is_space (CHR ''n'')"
  "\<not> is_space (CHR ''t'')" "\<not> is_space (CHR ''f'')" "\<not> is_space (CHR ''-'')"
  by (simp_all add: is_space_def)

lemma serialize_start:
  "json_ok v \<Longrightarrow> serialize_impl v \<noteq> [] \<and> \<not> is_space (hd (serialize_impl v))
     \<and> hd (serialize_impl v) \<noteq> CHR '']''"
proof (cases v)
  case (JNum d)
  assume "json_ok v"
  with JNum have "fmt_number d \<noteq> []" "hd (fmt_number d) = CHR ''-'' \<or> is_digit (hd (fmt_number d))"
    using fmt_number_start [of d] by simp_all
  then show ?thesis using JNum not_space_digit digit_not_punct by (elim disjE) simp_all
qed (simp_all add: escape_string_def)

lemma skip_ws_hd: "s \<noteq> [] \<Longrightarrow> \<not> is_space (hd s) \<Longrightarrow> skip_ws (s @ r) = s @ r"
  by (cases s) simp_all

lemma peek_hd: "s \<noteq> [] \<Longrightarrow> peek (s @ r) = hd s"
  by (cases s) simp_all

lemma dispatch_digit:
  "peek s = CHR ''-'' \<or> is_digit (peek s) \<Longrightarrow> dispatch po pa s = parse_number s"
  using digit_not_punct [of "peek s"] by (elim disjE) (simp_all add: dispatch_def)

lemma dispatch_number:
  assumes "plain_number d" "number_stop r"
  shows "dispatch po pa (skip_ws (fmt_number d @ r)) = Inr (JNum d, r)"
proof -
  have c: "fmt_number d \<noteq> []" "hd (fmt_number d) = CHR ''-'' \<or> is_digit (hd (fmt_number d))"
    using fmt_number_start [OF assms(1)] by auto
  then have "skip_ws (fmt_number d @ r) = fmt_number d @ r"
    by (intro skip_ws_hd) (auto dest: not_space_digit)
  then show ?thesis using c parse_fmt_number [OF assms] by (simp add: dispatch_digit peek_hd)
qed

lemma number_stop_punct [simp]:
  "number_stop (CHR '','' # s)" "number_stop (CHR '']'' # s)" "number_stop (CHR ''}'' # s)" "number_stop []"
  by (simp_all add: number_stop_def is_digit_def)

lemma member_key_escape:
  "utf8_valid k \<Longrightarrow> member_key (escape_string k @ CHR '':'' # r) = Inr (k, r)"
  by (simp add: member_key_def parse_escape_string sanitize_valid_id)
     (simp add: escape_string_def parse_escape_string [unfolded escape_string_def, simplified] sanitize_valid_id)

lemma update_fresh: "k \<notin> fst ` set acc \<Longrightarrow> AList.update k v acc = acc @ [(k, v)]"
  by (induction acc) auto

lemma ser_elems_start:
  "elems_ok vs \<Longrightarrow> vs \<noteq> [] \<Longrightarrow> ser_elems vs \<noteq> [] \<and> \<not> is_space (hd (ser_elems vs)) \<and> hd (ser_elems vs) \<noteq> CHR '']''"
  by (cases vs rule: ser_elems.cases) (simp_all add: serialize_start)

lemma ser_members_start:
  "kvs \<noteq> [] \<Longrightarrow> \<exists>s. ser_members kvs = CHR 0x22 # s"
  by (cases kvs rule: ser_members.cases) (auto simp: escape_string_def)

lemma roundtrip:
  "json_ok v \<Longrightarrow> d + json_depth v \<le> kMaxDepth \<Longrightarrow> length (serialize_impl v) \<le> f \<Longrightarrow> number_stop r \<Longrightarrow>
     parse_value f d (serialize_impl v @ r) = Inr (v, r)"
  "elems_ok vs \<Longrightarrow> vs \<noteq> [] \<Longrightarrow> d + elems_depth vs \<le> kMaxDepth \<Longrightarrow> Suc (length (ser_elems vs)) \<le> f \<Longrightarrow>
     elems_loop f es d (ser_elems vs @ CHR '']'' # r) = Inr (es @ vs, r)"
  "members_ok kvs \<Longrightarrow> kvs \<noteq> [] \<Longrightarrow> d + members_depth kvs \<le> kMaxDepth \<Longrightarrow> Suc (length (ser_members kvs)) \<le> f \<Longrightarrow>
     fst ` set ms \<inter> fst ` set kvs = {} \<Longrightarrow>
     members_loop f ms d (ser_members kvs @ CHR ''}'' # r) = Inr (ms @ kvs, r)"
proof (induction v and vs and kvs arbitrary: d f r and d f r es and d f r ms
    rule: serialize_impl_ser_elems_ser_members.induct)
  case 1
  then show ?case by (cases f) (simp_all add: dispatch_def parse_null_def)
next
  case (2 b)
  then show ?case by (cases f) (auto simp: dispatch_def parse_bool_def split: if_splits)
next
  case (3 x)
  then obtain f' where "f = Suc f'" using fmt_number_start [of x] by (cases f) auto
  with 3 show ?case by (simp add: dispatch_number)
next
  case (4 s)
  then obtain f' where f: "f = Suc f'" by (cases f) (auto simp: escape_string_def)
  have "skip_ws (escape_string s @ r) = escape_string s @ r" by (simp add: escape_string_def)
  moreover have "peek (escape_string s @ r) = CHR 0x22" by (simp add: escape_string_def)
  ultimately show ?case using 4 f
    by (simp add: dispatch_def parse_string_val_def parse_escape_string sanitize_valid_id)
next
  case (5 vs)
  then obtain f' where f: "f = Suc f'" by (cases f) auto
  show ?case
  proof (cases "vs = []")
    case True
    then show ?thesis using 5 f by (simp add: dispatch_def parse_array_def)
  next
    case False
    then have c: "ser_elems vs \<noteq> []" "\<not> is_space (hd (ser_elems vs))" "hd (ser_elems vs) \<noteq> CHR '']''"
      using "5.prems"(1) ser_elems_start [of vs] by auto
    have "elems_loop f' [] (d + 1) (ser_elems vs @ CHR '']'' # r) = Inr ([] @ vs, r)"
      using 5 f False by (intro "5.IH") auto
    then show ?thesis using 5 f c by (simp add: dispatch_def parse_array_def skip_ws_hd peek_hd)
  qed
next
  case (6 kvs)
  then obtain f' where f: "f = Suc f'" by (cases f) auto
  show ?case
  proof (cases "kvs = []")
    case True
    then show ?thesis using 6 f by (simp add: dispatch_def parse_object_def)
  next
    case False
    then obtain s where c: "ser_members kvs = CHR 0x22 # s" using ser_members_start by auto
    have "members_loop f' [] (d + 1) (ser_members kvs @ CHR ''}'' # r) = Inr ([] @ kvs, r)"
      using 6 f False by (intro "6.IH") auto
    then show ?thesis using 6 f c by (simp add: dispatch_def parse_object_def)
  qed
next
  case (8 v)
  then obtain f' where f: "f = Suc f'" by (cases f) auto
  have "parse_value f' d (serialize_impl v @ CHR '']'' # r) = Inr (v, CHR '']'' # r)"
    using 8 f by (intro "8.IH") auto
  then show ?case using f by (simp add: elems_step_def)
next
  case (9 v w vs)
  then obtain f' where f: "f = Suc f'" by (cases f) auto
  have "parse_value f' d (serialize_impl v @ CHR '','' # ser_elems (w # vs) @ CHR '']'' # r)
      = Inr (v, CHR '','' # ser_elems (w # vs) @ CHR '']'' # r)"
    using 9 f by (intro "9.IH"(1)) auto
  moreover have "elems_loop f' (es @ [v]) d (ser_elems (w # vs) @ CHR '']'' # r) = Inr ((es @ [v]) @ w # vs, r)"
    using 9 f by (intro "9.IH"(2)) auto
  ultimately show ?case using f by (simp add: elems_step_def)
next
  case (11 k v)
  then obtain f' where f: "f = Suc f'" by (cases f) auto
  have "parse_value f' d (serialize_impl v @ CHR ''}'' # r) = Inr (v, CHR ''}'' # r)"
    using 11 f by (intro "11.IH") auto
  then show ?case using f 11 by (simp add: members_step_def member_key_escape update_fresh)
next
  case (12 k v kv kvs)
  then obtain f' where f: "f = Suc f'" by (cases f) auto
  have "parse_value f' d (serialize_impl v @ CHR '','' # ser_members (kv # kvs) @ CHR ''}'' # r)
      = Inr (v, CHR '','' # ser_members (kv # kvs) @ CHR ''}'' # r)"
    using 12 f by (intro "12.IH"(1)) auto
  moreover have "members_loop f' (ms @ [(k, v)]) d (ser_members (kv # kvs) @ CHR ''}'' # r)
      = Inr ((ms @ [(k, v)]) @ kv # kvs, r)"
    using 12 f by (intro "12.IH"(2)) auto
  ultimately show ?case using f 12 by (simp add: members_step_def member_key_escape update_fresh)
qed simp_all

section \<open>Progress and totality\<close>

lemma skip_ws_length: "length (skip_ws s) \<le> length s"
  by (simp add: skip_ws_def length_dropWhile_le)

lemma prepend_eq_Inr: "prepend p x = Inr (t, r) \<longleftrightarrow> (\<exists>t'. x = Inr (t', r) \<and> t = p @ t')"
  by (auto simp: prepend_def split: sum.splits)

lemma string_body_length: "string_body s = Inr (t, r) \<Longrightarrow> length r < length s"
proof (induction s arbitrary: t rule: string_body.induct)
  case (2 c s)
  show ?case
  proof (cases "c = CHR 0x5C")
    case True
    with "2.prems" obtain v q t' where q: "parse_escape s = Inr (v, q)" "string_body q = Inr (t', r)"
      by (auto simp: prepend_eq_Inr split: sum.splits)
    then have "length r < length q" using 2 True by auto
    with parse_escape_length [OF q(1)] show ?thesis by simp
  next
    case False
    with 2 show ?thesis by (cases "c = CHR 0x22") (auto simp: prepend_eq_Inr)
  qed
qed simp

lemma parse_string_length: "parse_string s = Inr (t, r) \<Longrightarrow> length r < length s"
  using string_body_length [of "tl s" t r] by (cases s) (auto simp: parse_string_def split: if_splits)

lemma peek_not_nul: "peek s \<noteq> CHR 0x00 \<Longrightarrow> s \<noteq> []"
  by auto

lemma scan_frac_length: "scan_frac s = Inr (t, r) \<Longrightarrow> length r \<le> length s"
  using length_dropWhile_le [of is_digit "tl s"] by (auto simp: scan_frac_def split: if_splits)

lemma scan_exp_length: "scan_exp s = Inr (t, r) \<Longrightarrow> length r \<le> length s"
  using length_dropWhile_le [of is_digit "tl s"] length_dropWhile_le [of is_digit "tl (tl s)"]
  by (auto simp: scan_exp_def Let_def split: if_splits)

lemma dropWhile_digit_less: "takeWhile P s \<noteq> [] \<Longrightarrow> length (dropWhile P s) < length s"
  using takeWhile_dropWhile_id [of P s] by (metis length_append length_greater_0_conv less_add_same_cancel2)

lemma parse_number_length: "parse_number s = Inr (v, r) \<Longrightarrow> length r < length s"
proof -
  assume p: "parse_number s = Inr (v, r)"
  let ?s1 = "if peek s = CHR ''-'' then tl s else s"
  from p have ne: "takeWhile is_digit ?s1 \<noteq> []" by (auto simp: parse_number_def Let_def)
  with p obtain fr s2 ex where s: "scan_frac (dropWhile is_digit ?s1) = Inr (fr, s2)" "scan_exp s2 = Inr (ex, r)"
    by (auto simp: parse_number_def Let_def split: sum.splits prod.splits option.splits if_splits)
  have "length r < length ?s1"
    using scan_frac_length [OF s(1)] scan_exp_length [OF s(2)] dropWhile_digit_less [OF ne] by simp
  also have "\<dots> \<le> length s" by simp
  finally show ?thesis .
qed

lemma parse_word_length:
  "parse_bool s = Inr (v, r) \<Longrightarrow> length r < length s" "parse_null s = Inr (v, r) \<Longrightarrow> length r < length s"
  by (auto simp: parse_bool_def parse_null_def split: if_splits dest!: prefix_length_le)

text \<open>A successful read of a compound value consumes its bracket and what its loop consumed.\<close>

lemma parse_array_Inr:
  assumes "parse_array loop d s = Inr (v, r)" "s \<noteq> []"
  shows "d + 1 \<le> kMaxDepth \<and> ((v = JArr [] \<and> length r < length s) \<or>
    (\<exists>vs. v = JArr vs \<and> loop (d + 1) (skip_ws (tl s)) = Inr (vs, r)))"
proof -
  have "length (tl (skip_ws (tl s))) < length s"
    using assms(2) skip_ws_length [of "tl s"] by (cases s) auto
  with assms show ?thesis
    by (auto simp: parse_array_def Let_def split: if_splits sum.splits)
qed

lemma parse_object_Inr:
  assumes "parse_object loop d s = Inr (v, r)" "s \<noteq> []"
  shows "d + 1 \<le> kMaxDepth \<and> ((v = JObj [] \<and> length r < length s) \<or>
    (\<exists>vs. v = JObj vs \<and> loop (d + 1) (skip_ws (tl s)) = Inr (vs, r)))"
proof -
  have "length (tl (skip_ws (tl s))) < length s"
    using assms(2) skip_ws_length [of "tl s"] by (cases s) auto
  with assms show ?thesis
    by (auto simp: parse_object_def Let_def split: if_splits sum.splits)
qed

text \<open>The six ways in which a dispatch can end.\<close>

lemma dispatch_disj:
  "dispatch po pa s = parse_string_val s \<or> (dispatch po pa s = po s \<and> s \<noteq> []) \<or>
   (dispatch po pa s = pa s \<and> s \<noteq> []) \<or> dispatch po pa s = parse_bool s \<or>
   dispatch po pa s = parse_null s \<or> dispatch po pa s = parse_number s \<or>
   dispatch po pa s = Inl (PErr (length s) ''unexpected character'')"
  by (cases s) (simp_all add: dispatch_def Let_def is_digit_def)

lemma dispatch_cases:
  obtains (str) "dispatch po pa s = parse_string_val s" | (obj) "dispatch po pa s = po s" "s \<noteq> []"
  | (arr) "dispatch po pa s = pa s" "s \<noteq> []" | (bool) "dispatch po pa s = parse_bool s"
  | (null) "dispatch po pa s = parse_null s" | (num) "dispatch po pa s = parse_number s"
  | (err) "dispatch po pa s = Inl (PErr (length s) ''unexpected character'')"
  using dispatch_disj [of po pa s] by blast

lemma parse_string_val_length: "parse_string_val s = Inr (v, r) \<Longrightarrow> length r < length s"
  by (auto simp: parse_string_val_def split: sum.splits dest: parse_string_length)

lemma elems_step_Inr:
  "elems_step (Inr (x, tl r)) next r = Inr (y, q) \<Longrightarrow> (y = x \<and> q = tl r) \<or> (r \<noteq> [] \<and> next (tl r) = Inr (y, q))"
  by (auto simp: elems_step_def split: if_splits)

lemma members_step_Inr:
  "members_step (Inr (x, tl r)) next r = Inr (y, q) \<Longrightarrow> (y = x \<and> q = tl r) \<or> (r \<noteq> [] \<and> next (tl r) = Inr (y, q))"
  by (auto simp: members_step_def split: if_splits)

lemma member_key_length: "member_key s = Inr (k, r) \<Longrightarrow> length r < length s"
proof -
  assume "member_key s = Inr (k, r)"
  then obtain q where q: "parse_string (skip_ws s) = Inr (k, q)" "r = tl (skip_ws q)"
    by (auto simp: member_key_def split: sum.splits if_splits)
  show ?thesis
    using parse_string_length [OF q(1)] skip_ws_length [of s] skip_ws_length [of q] q(2) by simp
qed

lemma scalar_results:
  "parse_string_val s = Inr (v, r) \<Longrightarrow> json_depth v = 0 \<and> length r < length s"
  "parse_bool s = Inr (v, r) \<Longrightarrow> json_depth v = 0 \<and> length r < length s"
  "parse_null s = Inr (v, r) \<Longrightarrow> json_depth v = 0 \<and> length r < length s"
  "parse_number s = Inr (v, r) \<Longrightarrow> json_depth v = 0 \<and> length r < length s"
proof -
  show "parse_string_val s = Inr (v, r) \<Longrightarrow> json_depth v = 0 \<and> length r < length s"
    using parse_string_val_length [of s v r] by (auto simp: parse_string_val_def split: sum.splits)
  show "parse_bool s = Inr (v, r) \<Longrightarrow> json_depth v = 0 \<and> length r < length s"
    using parse_word_length(1) [of s v r] by (auto simp: parse_bool_def split: if_splits)
  show "parse_null s = Inr (v, r) \<Longrightarrow> json_depth v = 0 \<and> length r < length s"
    using parse_word_length(2) [of s v r] by (auto simp: parse_null_def split: if_splits)
  show "parse_number s = Inr (v, r) \<Longrightarrow> json_depth v = 0 \<and> length r < length s"
    using parse_number_length [of s v r]
    by (auto simp: parse_number_def Let_def simp del: One_nat_def split: sum.splits if_splits option.splits)
qed

lemma dispatch_Inr:
  assumes "dispatch po pa s = Inr (v, r)"
  shows "(po s = Inr (v, r) \<and> s \<noteq> []) \<or> (pa s = Inr (v, r) \<and> s \<noteq> []) \<or> (json_depth v = 0 \<and> length r < length s)"
  using dispatch_disj [of po pa s] assms scalar_results [of s v r] by auto

text \<open>
  A successful \<open>parse_value\<close> is a scalar, an empty container, or the result of one of the
  loops one level deeper on a shorter input.
\<close>

lemma parse_value_Inr:
  assumes "parse_value (Suc f) d s = Inr (v, r)"
  obtains (scalar) "json_depth v = 0" "length r < length s"
  | (empty) "d + 1 \<le> kMaxDepth" "json_depth v = 1" "length r < length s"
  | (array) vs q where "d + 1 \<le> kMaxDepth" "v = JArr vs" "elems_loop f [] (d + 1) q = Inr (vs, r)" "length q < length s"
  | (object) kvs q where "d + 1 \<le> kMaxDepth" "v = JObj kvs" "members_loop f [] (d + 1) q = Inr (kvs, r)" "length q < length s"
proof -
  let ?s = "skip_ws s" and ?po = "parse_object (members_loop f []) d" and ?pa = "parse_array (elems_loop f []) d"
  have le: "length ?s \<le> length s" by (rule skip_ws_length)
  have q: "?s \<noteq> [] \<Longrightarrow> length (skip_ws (tl ?s)) < length s"
    using le skip_ws_length [of "tl ?s"] by (cases ?s) auto
  have "dispatch ?po ?pa ?s = Inr (v, r)" using assms by simp
  from dispatch_Inr [OF this] consider
      (po) "?po ?s = Inr (v, r)" "?s \<noteq> []" | (pa) "?pa ?s = Inr (v, r)" "?s \<noteq> []"
    | (sc) "json_depth v = 0" "length r < length ?s" by metis
  then show thesis
  proof cases
    case po
    from parse_object_Inr [OF po] show thesis using empty object q [OF po(2)] le by fastforce
  next
    case pa
    from parse_array_Inr [OF pa] show thesis using empty array q [OF pa(2)] le by fastforce
  next
    case sc
    then show thesis using scalar le by simp
  qed
qed

lemma elems_loop_Inr:
  assumes "elems_loop (Suc f) acc d s = Inr (vs, r)"
  obtains v q where "parse_value f d s = Inr (v, q)" "vs = acc @ [v]" "length r \<le> length q"
  | v q q2 where "parse_value f d s = Inr (v, q)" "elems_loop f (acc @ [v]) d q2 = Inr (vs, r)" "length q2 \<le> length q"
proof -
  from assms obtain v q where q: "parse_value f d s = Inr (v, q)"
      "elems_step (Inr (acc @ [v], tl (skip_ws q))) (elems_loop f (acc @ [v]) d) (skip_ws q) = Inr (vs, r)"
    by (auto split: sum.splits)
  have "length (tl (skip_ws q)) \<le> length q" using skip_ws_length [of q] by simp
  with elems_step_Inr [OF q(2)] show thesis using that q(1) by blast
qed

lemma members_loop_Inr:
  assumes "members_loop (Suc f) acc d s = Inr (kvs, r)"
  obtains k q0 v q where "member_key s = Inr (k, q0)" "parse_value f d q0 = Inr (v, q)"
      "kvs = AList.update k v acc" "length r \<le> length q"
  | k q0 v q q2 where "member_key s = Inr (k, q0)" "parse_value f d q0 = Inr (v, q)"
      "members_loop f (AList.update k v acc) d q2 = Inr (kvs, r)" "length q2 \<le> length q"
proof -
  from assms obtain k q0 v q where q: "member_key s = Inr (k, q0)" "parse_value f d q0 = Inr (v, q)"
      "members_step (Inr (AList.update k v acc, tl (skip_ws q))) (members_loop f (AList.update k v acc) d) (skip_ws q)
        = Inr (kvs, r)"
    by (auto split: sum.splits)
  have "length (tl (skip_ws q)) \<le> length q" using skip_ws_length [of q] by simp
  with members_step_Inr [OF q(3)] show thesis using that q(1,2) by blast
qed

lemma parse_progress:
  "parse_value f d s = Inr (v, r) \<Longrightarrow> length r < length s"
  "elems_loop f acc d s = Inr (vs, r) \<Longrightarrow> length r < length s"
  "members_loop f mcc d s = Inr (kvs, r) \<Longrightarrow> length r < length s"
proof (induction f arbitrary: d s v vs kvs acc mcc r)
  case (Suc f)
  {
    case 1
    then show ?case by (cases rule: parse_value_Inr) (auto dest: Suc.IH)
  next
    case 2
    then show ?case by (cases rule: elems_loop_Inr) (fastforce dest: Suc.IH)+
  next
    case 3
    then show ?case by (cases rule: members_loop_Inr) (fastforce dest: Suc.IH member_key_length)+
  }
qed simp_all

lemma parse_depth:
  "parse_value f d s = Inr (v, r) \<Longrightarrow> d \<le> kMaxDepth \<Longrightarrow> d + json_depth v \<le> kMaxDepth"
  "elems_loop f acc d s = Inr (vs, r) \<Longrightarrow> d + elems_depth acc \<le> kMaxDepth \<Longrightarrow> d + elems_depth vs \<le> kMaxDepth"
  "members_loop f mcc d s = Inr (kvs, r) \<Longrightarrow> d + members_depth mcc \<le> kMaxDepth \<Longrightarrow>
     d + members_depth kvs \<le> kMaxDepth"
proof (induction f arbitrary: d s v vs kvs acc mcc r)
  case (Suc f)
  have ea: "elems_depth (xs @ [y]) = max (elems_depth xs) (json_depth y)" for xs y
    by (induction xs) auto
  have mu: "members_depth (AList.update k y xs) \<le> max (members_depth xs) (json_depth y)" for k y xs
    by (induction xs) (auto simp: max_def split: if_splits)
  {
    case 1
    then show ?case by (cases rule: parse_value_Inr) (auto dest: Suc.IH)
  next
    case 2
    then show ?case by (cases rule: elems_loop_Inr) (auto simp: ea max_def dest!: Suc.IH split: if_splits)
  next
    case 3
    from 3(1) show ?case
    proof (cases rule: members_loop_Inr)
      case (1 k q0 w q)
      have "d + json_depth w \<le> kMaxDepth" using Suc.IH(1) [OF 1(2)] 3(2) by simp
      then show ?thesis using mu [of k w mcc] 1 3(2) by (auto simp: max_def split: if_splits)
    next
      case (2 k q0 w q q2)
      have "d + json_depth w \<le> kMaxDepth" using Suc.IH(1) [OF 2(2)] 3(2) by simp
      then have "d + members_depth (AList.update k w mcc) \<le> kMaxDepth"
        using mu [of k w mcc] 3(2) by (auto simp: max_def split: if_splits)
      then show ?thesis by (rule Suc.IH(3) [OF 2(3)])
    qed
  }
qed simp_all

lemma parse_hex_fuel: "parse_hex i cp s \<noteq> Inl OutOfFuel"
  by (induction i cp s rule: parse_hex.induct) (auto split: option.splits)

lemma parse_escape_fuel: "parse_escape s \<noteq> Inl OutOfFuel"
proof -
  have "parse_unicode r \<noteq> Inl OutOfFuel" for r
    using parse_hex_fuel by (simp add: parse_unicode_def parse_hex4_def split: sum.splits) blast
  then show ?thesis by (simp add: parse_escape_def Let_def)
qed

lemma prepend_fuel: "prepend p x = Inl OutOfFuel \<longleftrightarrow> x = Inl OutOfFuel"
  by (simp add: prepend_def split: sum.splits)

lemma string_body_fuel: "string_body s \<noteq> Inl OutOfFuel"
  using parse_escape_fuel
  by (induction s rule: string_body.induct) (auto simp: prepend_fuel split: sum.splits)

lemma parse_string_fuel: "parse_string s \<noteq> Inl OutOfFuel"
  by (simp add: parse_string_def string_body_fuel)

lemma scalar_fuel:
  "parse_string_val s \<noteq> Inl OutOfFuel" "parse_bool s \<noteq> Inl OutOfFuel" "parse_null s \<noteq> Inl OutOfFuel"
  "parse_number s \<noteq> Inl OutOfFuel"
proof -
  show "parse_string_val s \<noteq> Inl OutOfFuel"
    using parse_string_fuel [of s] by (auto simp: parse_string_val_def split: sum.splits)
  show "parse_bool s \<noteq> Inl OutOfFuel" by (simp add: parse_bool_def)
  show "parse_null s \<noteq> Inl OutOfFuel" by (simp add: parse_null_def)
  have "scan_frac q \<noteq> Inl OutOfFuel" "scan_exp q \<noteq> Inl OutOfFuel" for q
    by (simp_all add: scan_frac_def scan_exp_def num_err_def Let_def)
  then show "parse_number s \<noteq> Inl OutOfFuel"
    by (auto simp: parse_number_def num_err_def Let_def simp del: One_nat_def split: sum.splits option.splits)
qed

lemma member_key_fuel: "member_key s \<noteq> Inl OutOfFuel"
  using parse_string_fuel by (auto simp: member_key_def split: sum.splits)

lemma parse_enough_fuel:
  "2 * length s + 1 \<le> f \<Longrightarrow> parse_value f d s \<noteq> Inl OutOfFuel"
  "2 * length s + 2 \<le> f \<Longrightarrow> elems_loop f acc d s \<noteq> Inl OutOfFuel"
  "2 * length s + 2 \<le> f \<Longrightarrow> members_loop f mcc d s \<noteq> Inl OutOfFuel"
proof (induction f arbitrary: d s acc mcc)
  case (Suc f)
  have sk: "length (tl (skip_ws q)) \<le> length q" for q
    using skip_ws_length [of q] by simp
  {
    case 1
    let ?s = "skip_ws s" and ?po = "parse_object (members_loop f []) d" and ?pa = "parse_array (elems_loop f []) d"
    have q: "?s \<noteq> [] \<Longrightarrow> 2 * length (skip_ws (tl ?s)) + 2 \<le> f"
      using 1 skip_ws_length [of s] skip_ws_length [of "tl ?s"] by (cases ?s) auto
    have "?s \<noteq> [] \<Longrightarrow> ?po ?s \<noteq> Inl OutOfFuel"
      using Suc.IH(3) [OF q] by (auto simp: parse_object_def Let_def split: sum.splits)
    moreover have "?s \<noteq> [] \<Longrightarrow> ?pa ?s \<noteq> Inl OutOfFuel"
      using Suc.IH(2) [OF q] by (auto simp: parse_array_def Let_def split: sum.splits)
    ultimately show ?case
      using dispatch_disj [of ?po ?pa ?s] scalar_fuel [of ?s] by auto
  next
    case 2
    have "parse_value f d s \<noteq> Inl OutOfFuel" using 2 by (intro Suc.IH(1)) simp
    moreover have "elems_loop f (acc @ [v]) d (tl (skip_ws q)) \<noteq> Inl OutOfFuel"
      if "parse_value f d s = Inr (v, q)" for v q
      using 2 parse_progress(1) [OF that] sk [of q] by (intro Suc.IH(2)) simp
    ultimately show ?case by (auto simp: elems_step_def split: sum.splits)
  next
    case 3
    have "parse_value f d q0 \<noteq> Inl OutOfFuel" if "member_key s = Inr (k, q0)" for k q0
      using 3 member_key_length [OF that] by (intro Suc.IH(1)) simp
    moreover have "members_loop f x d (tl (skip_ws q)) \<noteq> Inl OutOfFuel"
      if "member_key s = Inr (k, q0)" "parse_value f d q0 = Inr (v, q)" for k q0 v q x
      using 3 parse_progress(1) [OF that(2)] member_key_length [OF that(1)] sk [of q] by (intro Suc.IH(3)) simp
    ultimately show ?case using member_key_fuel [of s]
      by (auto simp: members_step_def split: sum.splits)
  }
qed simp_all

lemma parse_serialize:
  assumes "json_ok v" and "json_depth v \<le> kMaxDepth"
  shows "json_parse (json_serialize v) = Inr v"
proof -
  have "parse_value (parse_fuel (serialize_impl v)) 0 (serialize_impl v @ []) = Inr (v, [])"
    using assms by (intro roundtrip(1)) (simp_all add: parse_fuel_def)
  then show ?thesis by (simp add: json_parse_def json_serialize_def skip_ws_def)
qed

section \<open>Properties\<close>

text \<open>
  C3. Round trip: a value whose strings are valid UTF-8, whose numbers are integral and below
  \<open>10\<^sup>1\<^sup>5\<close>, whose objects have distinct keys and which is nested at most \<open>kMaxDepth\<close> deep is
  read back unchanged from its serialisation.
\<close>

theorem json_roundtrip:
  assumes "json_ok v" and "json_depth v \<le> kMaxDepth"
  shows "json_parse (json_serialize v) = Inr v"
  by (rule parse_serialize [OF assms])

theorem json_roundtrip_witness:
  "json_parse (json_serialize (JArr [JNum (- 42), JStr ''hi'', JObj [(''a'', JBool True), (''b'', JNull)]]))
     = Inr (JArr [JNum (- 42), JStr ''hi'', JObj [(''a'', JBool True), (''b'', JNull)]])"
  by (rule json_roundtrip) (simp_all add: plain_number_def kMaxDepth_def)

text \<open>
  Reading a string literal that the serializer wrote gives the original with every
  ill-formed byte replaced by U+FFFD, for every byte string and whatever follows it; and the
  literal itself is always valid UTF-8.
\<close>

lemma escaped_string_roundtrip:
  "parse_string (escape_string s @ r) = Inr (sanitize s, r) \<and> utf8_valid (escape_string s)
     \<and> utf8_valid (sanitize s) \<and> (sanitize s = s \<longleftrightarrow> utf8_valid s)"
  using parse_escape_string sanitize_valid sanitize_id_iff escape_bytes_valid
    utf8_valid_append [of "escape_bytes s" "[CHR 0x22]"]
  by (simp add: escape_string_def)

text \<open>
  C4. Every parse ends: no input makes the parser exceed its recursion bound, so it returns a
  value or one of the errors of \<open>Parser::error\<close>.
\<close>

theorem json_parse_total:
  "(\<exists>v. json_parse s = Inr v) \<or> (\<exists>n m. json_parse s = Inl (PErr n m))"
proof -
  have "parse_value (parse_fuel s) 0 s \<noteq> Inl OutOfFuel"
    by (rule parse_enough_fuel(1)) (simp add: parse_fuel_def)
  then have "json_parse s \<noteq> Inl OutOfFuel" by (auto simp: json_parse_def split: sum.splits)
  then show ?thesis by (cases "json_parse s"; cases "projl (json_parse s)") auto
qed

text \<open>
  The nesting limit: a value the parser returns is nested at most \<open>kMaxDepth\<close> deep.
\<close>

lemma json_parse_depth:
  assumes "json_parse s = Inr v"
  shows "json_depth v \<le> kMaxDepth"
proof -
  from assms obtain r where "parse_value (parse_fuel s) 0 s = Inr (v, r)"
    by (auto simp: json_parse_def split: sum.splits if_splits)
  from parse_depth(1) [OF this] show ?thesis by simp
qed

lemma nested_arrays_rejected:
  "d \<le> kMaxDepth \<Longrightarrow> kMaxDepth < d + k \<Longrightarrow> 2 * k \<le> f \<Longrightarrow>
   parse_value f d (replicate k (CHR ''['') @ r)
     = Inl (PErr (length r + (d + k - kMaxDepth)) ''max nesting depth exceeded'')"
proof (induction k arbitrary: d f)
  case (Suc k)
  obtain f' where f: "f = Suc (Suc f')" using Suc.prems(3) by (cases f; cases "f - 1") auto
  show ?case
  proof (cases "d = kMaxDepth")
    case True
    then show ?thesis by (simp add: f dispatch_def parse_array_def)
  next
    case False
    with Suc.prems obtain k' where k: "k = Suc k'" by (cases k) auto
    have "parse_value f' (d + 1) (replicate k (CHR ''['') @ r)
        = Inl (PErr (length r + (d + 1 + k - kMaxDepth)) ''max nesting depth exceeded'')"
      using Suc.prems False f by (intro Suc.IH) auto
    then show ?thesis using Suc.prems False by (simp add: f k dispatch_def parse_array_def)
  qed
qed simp

text \<open>
  Hostile nesting: any input that starts with more than \<open>kMaxDepth\<close> opening brackets is
  rejected, at position \<open>kMaxDepth\<close>, with the nesting error.
\<close>

lemma deep_nesting_rejected:
  assumes "kMaxDepth < n"
  shows "\<exists>e. json_parse (replicate n (CHR ''['') @ r) = Inl e \<and>
     parse_error_text (replicate n (CHR ''['') @ r) e = ''JSON parse error at pos 256: max nesting depth exceeded''"
proof -
  let ?e = "PErr (length r + (n - kMaxDepth)) ''max nesting depth exceeded''"
  have jp: "json_parse (replicate n (CHR ''['') @ r) = Inl ?e"
    using nested_arrays_rejected [of 0 n "parse_fuel (replicate n (CHR ''['') @ r)" r] assms
    by (simp add: json_parse_def parse_fuel_def)
  moreover have "int (n + length r - (length r + (n - kMaxDepth))) = 256"
    using assms by (simp add: kMaxDepth_def)
  moreover have "to_string 256 = ''256''" by code_simp
  ultimately have "parse_error_text (replicate n (CHR ''['') @ r) ?e = ''JSON parse error at pos 256: max nesting depth exceeded''"
    by (simp add: parse_error_text_def)
  with jp show ?thesis by blast
qed

end
