(* ===== verification/Message_Codec.thy ===== *)
theory Message_Codec
  imports Api_Types Json_Correct
begin

text \<open>
  The persisted JSON form of conversations (\<open>src/message_codec.cpp\<close>).  The members of an encoded object are listed in the order of
  the assignments; the decoder looks them up by key.
\<close>

section \<open>Codec\<close>

definition is_object :: "json \<Rightarrow> bool" where
  "is_object v = (case v of JObj _ \<Rightarrow> True | _ \<Rightarrow> False)"

definition trace_entry_json :: "ToolTraceEntry \<Rightarrow> json" where
  "trace_entry_json t = JObj
     [(''id'', JStr (tt_id t)), (''label'', JStr (tt_label t)), (''kind'', JStr (tt_kind t)),
      (''detail'', JStr (tt_detail t)), (''ok'', JBool (tt_ok t)),
      (''result_preview'', JStr (tt_result_preview t))]"

definition tool_trace_to_json :: "ToolTraceEntry list \<Rightarrow> json" where
  "tool_trace_to_json trace = JArr (map trace_entry_json trace)"

definition trace_entry_from :: "json \<Rightarrow> ToolTraceEntry" where
  "trace_entry_from v =
     \<lparr>tt_id = get_string v ''id'' [], tt_label = get_string v ''label'' [],
      tt_kind = get_string v ''kind'' [], tt_detail = get_string v ''detail'' [],
      tt_ok = get_bool v ''ok'' True, tt_result_preview = get_string v ''result_preview'' []\<rparr>"

definition tool_trace_from_json :: "json option \<Rightarrow> ToolTraceEntry list" where
  "tool_trace_from_json arr =
     (case arr of Some (JArr vs) \<Rightarrow> map trace_entry_from (filter is_object vs) | _ \<Rightarrow> [])"

definition message_json :: "Message \<Rightarrow> json" where
  "message_json m = JObj
     ([(''role'', JStr (m_role m)), (''content'', JStr (m_content m))]
      @ (if m_thinking m \<noteq> [] then [(''thinking'', JStr (m_thinking m))] else [])
      @ (if m_tool_trace m \<noteq> [] then [(''tool_trace'', tool_trace_to_json (m_tool_trace m))] else []))"

definition encode_messages_json :: "Message list \<Rightarrow> string" where
  "encode_messages_json msgs = json_serialize (JArr (map message_json msgs))"

definition message_from :: "json \<Rightarrow> Message" where
  "message_from v =
     \<lparr>m_role = get_string v ''role'' [], m_content = get_string v ''content'' [], m_parts = [],
      m_tool_trace = tool_trace_from_json (jget v ''tool_trace''),
      m_thinking = get_string v ''thinking'' []\<rparr>"

definition decode_messages_json :: "string \<Rightarrow> Message list" where
  "decode_messages_json s =
     (if s = [] then []
      else case json_parse s of
        Inl e \<Rightarrow> []
      | Inr (JArr vs) \<Rightarrow> map message_from (filter is_object vs)
      | Inr _ \<Rightarrow> [])"

section \<open>Lemmas\<close>

definition trace_utf8 :: "ToolTraceEntry \<Rightarrow> bool" where
  "trace_utf8 t \<longleftrightarrow> utf8_valid (tt_id t) \<and> utf8_valid (tt_label t) \<and> utf8_valid (tt_kind t) \<and>
     utf8_valid (tt_detail t) \<and> utf8_valid (tt_result_preview t)"

definition message_utf8 :: "Message \<Rightarrow> bool" where
  "message_utf8 m \<longleftrightarrow> utf8_valid (m_role m) \<and> utf8_valid (m_content m) \<and> utf8_valid (m_thinking m) \<and>
     list_all trace_utf8 (m_tool_trace m)"

lemma elems_ok_list_all: "elems_ok vs \<longleftrightarrow> list_all json_ok vs"
  by (induction vs) simp_all

lemma elems_depth_le: "elems_depth vs \<le> n \<longleftrightarrow> (\<forall>v\<in>set vs. json_depth v \<le> n)"
  by (induction vs) auto

lemma trace_entry_json_ok: "trace_utf8 t \<Longrightarrow> json_ok (trace_entry_json t) \<and> json_depth (trace_entry_json t) = 1"
  by (simp add: trace_utf8_def trace_entry_json_def utf8_valid_ascii)

lemma trace_json_ok:
  assumes "list_all trace_utf8 ts"
  shows "json_ok (tool_trace_to_json ts) \<and> json_depth (tool_trace_to_json ts) \<le> 2"
  using assms trace_entry_json_ok
  by (auto simp: tool_trace_to_json_def elems_ok_list_all list_all_iff elems_depth_le)

lemma message_json_ok:
  assumes "message_utf8 m"
  shows "json_ok (message_json m) \<and> json_depth (message_json m) \<le> 3"
  using assms trace_json_ok [of "m_tool_trace m"]
  by (auto simp: message_utf8_def message_json_def utf8_valid_ascii)

lemma trace_entry_from_json [simp]: "trace_entry_from (trace_entry_json t) = t"
  by (simp add: trace_entry_from_def trace_entry_json_def get_string_def get_bool_def)

lemma filter_trace_json [simp]: "filter is_object (map trace_entry_json ts) = map trace_entry_json ts"
  by (simp add: filter_map filter_id_conv is_object_def trace_entry_json_def)

lemma filter_message_json [simp]: "filter is_object (map message_json ms) = map message_json ms"
  by (simp add: filter_map filter_id_conv is_object_def message_json_def)

lemma trace_from_to_json [simp]: "tool_trace_from_json (Some (tool_trace_to_json ts)) = ts"
  by (simp add: tool_trace_from_json_def tool_trace_to_json_def map_idI)

lemma message_from_json [simp]: "message_from (message_json m) = m\<lparr>m_parts := []\<rparr>"
  by (cases "m_thinking m = []"; cases "m_tool_trace m = []")
     (simp_all add: message_from_def message_json_def get_string_def tool_trace_from_json_def
        del: trace_from_to_json,
      simp_all add: tool_trace_to_json_def map_idI)

lemma json_serialize_ne: "json_ok v \<Longrightarrow> json_serialize v \<noteq> []"
  using serialize_start by (simp add: json_serialize_def)

section \<open>Properties\<close>

text \<open>
  A conversation whose strings are valid UTF-8 survives persistence: decoding its encoding
  gives every message back in order, with role, content, thinking and the whole tool trace; the
  multipart content, which is not persisted, comes back empty.
\<close>

lemma messages_roundtrip:
  assumes "list_all message_utf8 msgs"
  shows "decode_messages_json (encode_messages_json msgs) = map (\<lambda>m. m\<lparr>m_parts := []\<rparr>) msgs"
proof -
  let ?v = "JArr (map message_json msgs)"
  have m: "json_ok (message_json m) \<and> json_depth (message_json m) \<le> 255" if "m \<in> set msgs" for m
    using assms that message_json_ok [of m] by (simp add: list_all_iff)
  have ok: "json_ok ?v" and d: "json_depth ?v \<le> kMaxDepth"
    using m by (simp_all add: elems_ok_list_all list_all_iff elems_depth_le kMaxDepth_def)
  show ?thesis
    using parse_serialize [OF ok d] json_serialize_ne [OF ok]
    by (simp add: decode_messages_json_def encode_messages_json_def)
qed

end
