(* ===== verification/Model_Context.thy ===== *)
theory Model_Context
  imports Prelude
begin

text \<open>
  The model catalogue (\<open>src/model_catalog.cpp\<close>) and the context-window arithmetic on top of
  it (\<open>src/model_context.cpp\<close>).  Windows and token counts are 32-bit \<open>int\<close>s; a product that
  overflows, which C++ leaves undefined, is \<open>None\<close>.
\<close>

section \<open>Catalogue\<close>

record ModelCatalogEntry =
  mc_id :: string
  mc_provider :: string
  mc_context_window :: int
  mc_blurb :: string
  mc_recommended :: bool

definition em_dash :: string where "em_dash = [CHR 0xE2, CHR 0x80, CHR 0x94]"

definition entry :: "string \<Rightarrow> int \<Rightarrow> string \<Rightarrow> bool \<Rightarrow> ModelCatalogEntry" where
  "entry i w b r = \<lparr>mc_id = i, mc_provider = ''openrouter'', mc_context_window = w, mc_blurb = b,
     mc_recommended = r\<rparr>"

definition kModels :: "ModelCatalogEntry list" where
  "kModels =
     [entry ''anthropic/claude-opus-5'' 1000000 (''Claude Opus 5 '' @ em_dash @ '' strongest Claude'') False,
      entry ''anthropic/claude-sonnet-5'' 1000000 (''Claude Sonnet 5 '' @ em_dash @ '' via OpenRouter'') True,
      entry ''anthropic/claude-opus-4.8'' 1000000 [] False,
      entry ''anthropic/claude-opus-4.7'' 1000000 [] False,
      entry ''anthropic/claude-sonnet-4.6'' 1000000 [] False,
      entry ''anthropic/claude-haiku-4.5'' 200000 [] False,
      entry ''~anthropic/claude-opus-latest'' 1000000 [] False,
      entry ''~anthropic/claude-sonnet-latest'' 1000000 [] False,
      entry ''~anthropic/claude-haiku-latest'' 200000 [] False,
      entry ''claude-opus-4-7'' 1000000 [] False,
      entry ''claude-sonnet-4-6'' 1000000 [] False,
      entry ''claude-haiku-4-5'' 200000 [] False,
      entry ''openai/gpt-5.6-sol'' 1000000 [] False,
      entry ''openai/gpt-5.5'' 1000000 (''GPT-5.5 '' @ em_dash @ '' via OpenRouter'') True,
      entry ''openai/gpt-5.4'' 1000000 [] False,
      entry ''openai/gpt-5.4-mini'' 1000000 [] False,
      entry ''~openai/gpt-sol-latest'' 1000000 (''OpenAI Sol latest '' @ em_dash @ '' via OpenRouter (recommended)'') True,
      entry ''~openai/gpt-mini-latest'' 1000000 [] False,
      entry ''google/gemini-3.1-pro-preview'' 1000000 [] False,
      entry ''google/gemini-3.6-flash'' 1000000 (''Gemini 3.6 Flash '' @ em_dash @ '' via OpenRouter'') True,
      entry ''google/gemini-3.5-flash'' 1000000 [] False,
      entry ''google/gemini-3.1-flash-lite'' 1000000 (''Gemini Flash Lite '' @ em_dash @ '' via OpenRouter'') True,
      entry ''x-ai/grok-4.5'' 500000 [] False,
      entry ''deepseek/deepseek-v4-pro'' 128000 [] False]"

definition find_model_catalog_entry :: "string \<Rightarrow> ModelCatalogEntry option" where
  "find_model_catalog_entry i = (if i = [] then None else find (\<lambda>m. i = mc_id m) kModels)"

definition format_context_window :: "int \<Rightarrow> string" where
  "format_context_window tokens =
     (if tokens \<le> 0 then ''unknown''
      else if 1000000 \<le> tokens \<and> tokens mod 1000000 = 0 then to_string (tokens div 1000000) @ ''M''
      else if 1000 \<le> tokens \<and> tokens mod 1000 = 0 then to_string (tokens div 1000) @ ''k''
      else to_string tokens)"

definition catalog_line :: "ModelCatalogEntry \<Rightarrow> string" where
  "catalog_line m =
     ''  '' @ mc_id m @ ''  ['' @ mc_provider m @ '']  ctx='' @ format_context_window (mc_context_window m)
     @ (if mc_blurb m \<noteq> [] then ''  '' @ em_dash @ '' '' @ mc_blurb m else []) @ [CHR 0x0A]"

definition format_model_catalog_list :: string where
  "format_model_catalog_list =
     ''Model catalogue ('' @ to_string (int (length kModels)) @ ''):'' @ [CHR 0x0A]
     @ concat (map catalog_line kModels)
     @ ''Usage: /model <agent-id> <model-id>'' @ [CHR 0x0A]
     @ ''  e.g. /model research anthropic/claude-sonnet-5'' @ [CHR 0x0A]
     @ ''Custom OpenRouter / ollama/ ids are accepted; compaction uses'' @ [CHR 0x0A]
     @ ''a heuristic window (or char-budget fallback) when unknown.''"

section \<open>Context windows\<close>

definition starts_with_ci :: "string \<Rightarrow> string \<Rightarrow> bool" where
  "starts_with_ci hay needle \<longleftrightarrow> prefix (lower needle) (lower hay)"

text \<open>
  One family of \<open>normalize_claude_version\<close>: \<open>None\<close> when the family does not occur, otherwise
  the loop ends with this result.
\<close>

definition normalize_family :: "string \<Rightarrow> string \<Rightarrow> string option" where
  "normalize_family fam m =
     (case find_sub fam m of
        None \<Rightarrow> None
      | Some pos \<Rightarrow>
          (let major_start = pos + length fam;
               rest = drop major_start m;
               hyphen = major_start + length (takeWhile is_digit rest);
               tail = dropWhile is_digit rest
           in if takeWhile is_digit rest = [] \<or> tail = [] \<or> hd tail \<noteq> CHR ''-'' then Some m
              else if takeWhile is_digit (tl tail) = [] then Some m
              else Some (m[hyphen := CHR ''.''])))"

fun normalize_families :: "string list \<Rightarrow> string \<Rightarrow> string" where
  "normalize_families [] m = m"
| "normalize_families (fam # fams) m =
     (case normalize_family fam m of Some r \<Rightarrow> r | None \<Rightarrow> normalize_families fams m)"

definition normalize_claude_version :: "string \<Rightarrow> string" where
  "normalize_claude_version m = normalize_families [''claude-opus-'', ''claude-sonnet-'', ''claude-haiku-''] m"

definition heuristic_window :: "string \<Rightarrow> int" where
  "heuristic_window model =
     (if contains model ''claude'' then
        (let key = normalize_claude_version model in
         if contains key ''sonnet-5'' \<or> contains key ''opus-5'' \<or> contains key ''sonnet-4.6''
            \<or> contains key ''opus-4.'' \<or> contains key ''claude-sonnet-latest''
            \<or> contains key ''claude-opus-latest'' then 1000000 else 200000)
      else if contains model ''gpt-5'' \<or> contains model ''gpt-6'' \<or> contains model ''gpt-latest''
              \<or> contains model ''gpt-sol-latest'' \<or> contains model ''gpt-mini-latest'' then 1000000
      else if contains model ''gemini-3'' \<or> contains model ''gemini-2.5'' then 1000000
      else if contains model ''grok-4'' then 500000
      else if contains model ''gpt-4o-mini'' then 128000
      else if contains model ''gpt-4o'' then 128000
      else if contains model ''gpt-4'' then 128000
      else if contains model ''gpt-3.5'' then 16385
      else 128000)"

definition context_window_for_model :: "string \<Rightarrow> int" where
  "context_window_for_model model =
     (if model = [] then 0
      else if starts_with_ci model ''ollama/'' \<or> starts_with_ci model ''local/'' then 0
      else case find_model_catalog_entry model of
             Some e \<Rightarrow> mc_context_window e
           | None \<Rightarrow> heuristic_window model)"

definition context_pct_value :: "int \<Rightarrow> string \<Rightarrow> int option" where
  "context_pct_value prompt_tokens model =
     (if prompt_tokens \<le> 0 then Some (- 1)
      else let window = context_window_for_model model in
           if window \<le> 0 then Some (- 1)
           else if \<not> in_int32 (prompt_tokens * 100) then None
           else Some (min 100 (prompt_tokens * 100 div window)))"

section \<open>Lemmas\<close>

lemma catalogue_windows_positive: "list_all (\<lambda>e. 0 < mc_context_window e) kModels"
  by (simp add: kModels_def entry_def)

lemma heuristic_window_bounds: "16385 \<le> heuristic_window m \<and> heuristic_window m \<le> 1000000"
  by (simp add: heuristic_window_def Let_def)

lemma find_some_list_all: "list_all P xs \<Longrightarrow> find Q xs = Some x \<Longrightarrow> P x"
  by (induction xs) (auto split: if_splits)

lemma find_model_catalog_entry_id: "find_model_catalog_entry i = Some e \<Longrightarrow> e \<in> set kModels \<and> mc_id e = i"
  by (auto simp: find_model_catalog_entry_def find_Some_iff split: if_splits)

lemma window_pos_or_unknown: "0 \<le> context_window_for_model m"
  using find_some_list_all [OF catalogue_windows_positive] heuristic_window_bounds [of m]
  by (force simp: context_window_for_model_def find_model_catalog_entry_def split: option.splits if_splits)

text \<open>Comparing the percentage with a threshold up to 100 needs neither the cap nor the rounding.\<close>

lemma context_pct_ge:
  assumes "context_pct_value t m = Some p" "0 \<le> p" "k \<le> 100"
  shows "k \<le> p \<longleftrightarrow> k * context_window_for_model m \<le> t * 100"
proof -
  have w: "0 < context_window_for_model m" and t: "0 \<le> t"
    and p: "p = min 100 (cdiv (t * 100) (context_window_for_model m))"
    using assms(1,2) by (auto simp: context_pct_value_def Let_def split: if_splits)
  show ?thesis using assms(3) cdiv_ge_iff [of "t * 100" _ k, OF _ w] t by (simp add: p)
qed

section \<open>Properties\<close>

text \<open>
  One source of truth: for every listed model the catalogue's window is what the heuristic
  would give for the same id, so an id keeps its window whether or not it is listed.
\<close>

lemma catalogue_matches_heuristic:
  "list_all (\<lambda>e. heuristic_window (mc_id e) = mc_context_window e
                 \<and> context_window_for_model (mc_id e) = mc_context_window e) kModels"
  by code_simp

end
