(* ===== verification/Compaction.thy ===== *)
theory Compaction
  imports Message_Codec Model_Context
begin

text \<open>
  Context compaction (\<open>src/context_compaction.cpp\<close>): the choice of the cut, the model-facing
  view, the trigger, the summarising step, and the remapping of a persisted state onto a
  reloaded history.  The provider client is a parameter: a function from requests to
  responses, called at most once by each operation.  \<open>kCompactionBoundaryNpos\<close> is \<open>None\<close>.
\<close>

section \<open>State and configuration\<close>

record CompactionState =
  cs_summary :: string
  cs_covered_until :: nat
  cs_generation :: int
  cs_boundary_role :: string
  cs_boundary_content :: string
  cs_boundary_db_id :: int

definition empty_compaction :: CompactionState where
  "empty_compaction = \<lparr>cs_summary = [], cs_covered_until = 0, cs_generation = 0,
     cs_boundary_role = [], cs_boundary_content = [], cs_boundary_db_id = 0\<rparr>"

definition kCompactionBoundaryMax :: nat where "kCompactionBoundaryMax = 4096"

record CompactionConfig =
  cc_threshold_pct :: int
  cc_keep_messages :: nat
  cc_enabled :: bool
  cc_char_budget_fallback :: nat
  cc_summary_max_tokens :: int

definition default_compaction_config :: CompactionConfig where
  "default_compaction_config = \<lparr>cc_threshold_pct = 75, cc_keep_messages = 16, cc_enabled = True,
     cc_char_budget_fallback = 300000, cc_summary_max_tokens = 1024\<rparr>"

text \<open>\<open>strtol\<close> saturates, so a value outside \<open>long\<close> fails the range test as the value itself does.\<close>

definition compaction_config_from_env :: "env_map \<Rightarrow> CompactionConfig" where
  "compaction_config_from_env env =
     (let cfg = default_compaction_config;
          cfg1 = (case env ''ARBITER_COMPACT_THRESHOLD'' of
                    None \<Rightarrow> cfg
                  | Some e \<Rightarrow> (case strtol10 e of
                      Some (v, r) \<Rightarrow> if e \<noteq> [] \<and> 0 < v \<and> v \<le> 100 then cfg\<lparr>cc_threshold_pct := v\<rparr> else cfg
                    | None \<Rightarrow> cfg))
      in case env ''ARBITER_COMPACT_DISABLED'' of
           None \<Rightarrow> cfg1
         | Some e \<Rightarrow> if e \<noteq> [] \<and> hd e \<in> set ''1tTyY'' then cfg1\<lparr>cc_enabled := False\<rparr> else cfg1)"

section \<open>Cut and model view\<close>

definition is_tool_results_message :: "Message \<Rightarrow> bool" where
  "is_tool_results_message m \<longleftrightarrow> m_role m = ''user'' \<and> prefix ''[TOOL RESULTS]'' (m_content m)"

definition is_good_start :: "Message list \<Rightarrow> nat \<Rightarrow> bool" where
  "is_good_start history i \<longleftrightarrow>
     i < length history \<and> m_role (history ! i) = ''user'' \<and> \<not> is_tool_results_message (history ! i)"

text \<open>The walk back from the raw cut: \<open>0\<close> when no safe start exists.\<close>

fun walk_back :: "Message list \<Rightarrow> nat \<Rightarrow> nat" where
  "walk_back history 0 = 0"
| "walk_back history (Suc i) = (if is_good_start history i then i else walk_back history i)"

definition compute_cut_index :: "Message list \<Rightarrow> nat \<Rightarrow> nat" where
  "compute_cut_index history keep_messages =
     (if keep_messages = 0 \<or> length history \<le> keep_messages then 0
      else let cut = length history - keep_messages in
        if is_good_start history cut then cut else walk_back history cut)"

definition sanitize_compaction_state :: "CompactionState \<Rightarrow> nat \<Rightarrow> CompactionState" where
  "sanitize_compaction_state state history_len =
     (if history_len < cs_covered_until state then empty_compaction
      else if cs_summary state = [] \<and> 0 < cs_covered_until state then empty_compaction
      else state)"

definition summary_envelope :: "string \<Rightarrow> Message list" where
  "summary_envelope summary =
     [mk_message ''user'' (''[CONVERSATION SUMMARY]'' @ [CHR 0x0A] @ summary @ [CHR 0x0A] @ ''[END SUMMARY]''),
      mk_message ''assistant'' (''Understood '' @ em_dash @ '' continuing from the summary.'')]"

definition build_model_messages :: "Message list \<Rightarrow> CompactionState \<Rightarrow> Message list" where
  "build_model_messages history state =
     (let s = sanitize_compaction_state state (length history)
      in (if cs_summary s \<noteq> [] then summary_envelope (cs_summary s) else [])
         @ drop (min (cs_covered_until s) (length history)) history)"

definition model_view_char_count :: "Message list \<Rightarrow> nat" where
  "model_view_char_count msgs = sum_list (map (\<lambda>m. length (m_content m)) msgs)"

text \<open>\<open>None\<close> when the percentage overflows.\<close>

definition should_auto_compact :: "CompactionConfig \<Rightarrow> int \<Rightarrow> string \<Rightarrow> nat \<Rightarrow> nat \<Rightarrow> bool option" where
  "should_auto_compact cfg last_input_tokens model history_len model_view_chars =
     (if \<not> cc_enabled cfg then Some False
      else if history_len \<le> cc_keep_messages cfg then Some False
      else case context_pct_value last_input_tokens model of
             None \<Rightarrow> None
           | Some pct \<Rightarrow> Some (if 0 \<le> pct then cc_threshold_pct cfg \<le> pct
                              else cc_char_budget_fallback cfg \<le> model_view_chars))"

section \<open>Boundaries\<close>

definition compaction_boundary_content :: "string \<Rightarrow> string" where
  "compaction_boundary_content content = take kCompactionBoundaryMax content"

definition is_newline :: "char \<Rightarrow> bool" where
  "is_newline c \<longleftrightarrow> c = CHR 0x0A \<or> c = CHR 0x0D"

text \<open>
  One round of the \<open>for (;;)\<close> loop of \<open>erase_marked_block\<close>, \<open>None\<close> where it breaks.  The loop
  ends because a round removes at least the end mark.
\<close>

definition erase_once :: "string \<Rightarrow> string \<Rightarrow> string \<Rightarrow> string option" where
  "erase_once start_mark end_mark s =
     (case find_sub start_mark s of
        None \<Rightarrow> None
      | Some start \<Rightarrow>
          (case find_from end_mark s start of
             None \<Rightarrow> None
           | Some e \<Rightarrow> Some (take start s @ dropWhile is_newline (drop (e + length end_mark) s))))"

lemma find_from_bounds: "find_from n s p = Some e \<Longrightarrow> p \<le> e \<and> e + length n \<le> length s"
  using find_sub_Some [of n "drop p s"] by (auto simp: find_from_def split: if_splits)

lemma erase_once_length:
  assumes "erase_once sm em s = Some t"
  shows "length t + length em \<le> length s"
proof -
  from assms obtain st e where f: "find_sub sm s = Some st" "find_from em s st = Some e"
    and t: "t = take st s @ dropWhile is_newline (drop (e + length em) s)"
    by (auto simp: erase_once_def split: option.splits)
  show ?thesis
    using find_from_bounds [OF f(2)] length_dropWhile_le [of is_newline "drop (e + length em) s"]
    unfolding t by (simp, linarith)
qed

function erase_marked_block :: "string \<Rightarrow> string \<Rightarrow> string \<Rightarrow> string" where
  "erase_marked_block start_mark end_mark s =
     (if end_mark = [] then s
      else case erase_once start_mark end_mark s of
             None \<Rightarrow> s
           | Some t \<Rightarrow> erase_marked_block start_mark end_mark t)"
  by pat_completeness auto
termination
  by (relation "measure (\<lambda>(sm, em, s). length s)") (auto dest: erase_once_length simp: neq_Nil_conv)

declare erase_marked_block.simps [simp del]

definition kQuery :: string where "kQuery = [CHR 0x0A, CHR 0x0A] @ ''QUERY: ''"

definition strip_query :: "string \<Rightarrow> string" where
  "strip_query s = (case find_sub kQuery s of None \<Rightarrow> s | Some q \<Rightarrow> drop (q + length kQuery) s)"

definition strip_intent :: "string \<Rightarrow> string" where
  "strip_intent s =
     (if prefix ''[INTENT]'' s then
        (case find_sub [CHR 0x0A, CHR 0x0A] s of None \<Rightarrow> s | Some sep \<Rightarrow> drop (sep + 2) s)
      else s)"

definition strip_compaction_preambles :: "string \<Rightarrow> string" where
  "strip_compaction_preambles content =
     strip_intent (strip_query
       (erase_marked_block ''[KNOWN PITFALLS'' ''[END KNOWN PITFALLS]''
         (erase_marked_block ''[OPEN TODOS]'' ''[END OPEN TODOS]'' content)))"

definition boundary_content_matches :: "string \<Rightarrow> string \<Rightarrow> bool" where
  "boundary_content_matches db_content boundary =
     (let db = compaction_boundary_content db_content in
      db = boundary \<or>
      (length db < length boundary \<and> drop (length boundary - length db) boundary = db))"

text \<open>The positions a scan over role and content accepts, in order.\<close>

fun boundary_hits :: "CompactionState \<Rightarrow> nat \<Rightarrow> (string \<times> string) list \<Rightarrow> nat list" where
  "boundary_hits state i [] = []"
| "boundary_hits state i ((r, c) # rows) =
     (if r = cs_boundary_role state \<and> boundary_content_matches c (cs_boundary_content state)
      then i # boundary_hits state (Suc i) rows else boundary_hits state (Suc i) rows)"

fun index_of :: "'a \<Rightarrow> 'a list \<Rightarrow> nat option" where
  "index_of x [] = None"
| "index_of x (y # ys) = (if y = x then Some 0 else map_option Suc (index_of x ys))"

definition no_boundary :: "CompactionState \<Rightarrow> bool" where
  "no_boundary state \<longleftrightarrow> cs_boundary_role state = [] \<and> cs_boundary_content state = []"

definition find_compaction_boundary :: "Message list \<Rightarrow> CompactionState \<Rightarrow> int list option \<Rightarrow> nat option" where
  "find_compaction_boundary history state message_db_ids =
     (let by_content =
        (if no_boundary state then None
         else case boundary_hits state 0 (map (\<lambda>m. (m_role m, m_content m)) history) of
                [i] \<Rightarrow> Some i | _ \<Rightarrow> None)
      in case message_db_ids of
           None \<Rightarrow> by_content
         | Some ids \<Rightarrow> if 0 < cs_boundary_db_id state \<and> length ids = length history
                       then index_of (cs_boundary_db_id state) ids else by_content)"

datatype boundary_resolve = ResolveNone | ResolveUnique int | ResolveAmbiguous

definition resolve_boundary_db_id ::
  "string list \<Rightarrow> string list \<Rightarrow> int list \<Rightarrow> CompactionState \<Rightarrow> boundary_resolve" where
  "resolve_boundary_db_id roles contents ids state =
     (if length roles \<noteq> length contents \<or> length roles \<noteq> length ids then ResolveNone
      else if no_boundary state then ResolveNone
      else case boundary_hits state 0 (zip roles contents) of
             [] \<Rightarrow> ResolveNone
           | [i] \<Rightarrow> ResolveUnique (ids ! i)
           | _ \<Rightarrow> ResolveAmbiguous)"

definition remap_compaction_onto_history ::
  "CompactionState \<Rightarrow> Message list \<Rightarrow> nat \<Rightarrow> int list option \<Rightarrow> CompactionState" where
  "remap_compaction_onto_history state history keep_messages message_db_ids =
     (if cs_summary state = [] then empty_compaction
      else sanitize_compaction_state
        (case find_compaction_boundary history state message_db_ids of
           None \<Rightarrow> state\<lparr>cs_covered_until := 0\<rparr>
         | Some b \<Rightarrow> state\<lparr>cs_covered_until := b\<rparr>) (length history))"

section \<open>Summarising\<close>

definition resolve_summarize_model :: "string \<Rightarrow> string \<Rightarrow> string" where
  "resolve_summarize_model advisor_model executor_model =
     (if advisor_model \<noteq> [] then advisor_model else executor_model)"

definition nl :: string where "nl = [CHR 0x0A]"

definition summarize_body :: "Message list \<Rightarrow> string \<Rightarrow> string \<Rightarrow> string" where
  "summarize_body older_slice prior_summary pinned_facts =
     ''Summarize the following conversation turns for an AI coding ''
     @ ''agent.  Produce a compact rolling summary that preserves:'' @ nl
     @ ''  - decisions made and their rationale'' @ nl
     @ ''  - file paths, symbols, and commands touched'' @ nl
     @ ''  - constraints, requirements, and user preferences'' @ nl
     @ ''  - unresolved questions and next steps'' @ nl
     @ ''Do not invent facts.  Prefer concrete names over vague ''
     @ ''restatement.  Output plain prose (no markdown fences).'' @ nl @ nl
     @ (if prior_summary \<noteq> [] then ''[PRIOR SUMMARY]'' @ nl @ prior_summary @ nl @ ''[END PRIOR SUMMARY]'' @ nl @ nl else [])
     @ (if pinned_facts \<noteq> [] then ''[PINNED FACTS]'' @ nl @ pinned_facts @ nl @ ''[END PINNED FACTS]'' @ nl @ nl else [])
     @ ''[MESSAGES TO SUMMARIZE]'' @ nl
     @ concat (map (\<lambda>m. m_role m @ '': '' @ m_content m @ nl @ ''---'' @ nl) older_slice)
     @ ''[END MESSAGES]'' @ nl"

definition summarize_request :: "string \<Rightarrow> Message list \<Rightarrow> string \<Rightarrow> string \<Rightarrow> int \<Rightarrow> ApiRequest" where
  "summarize_request model older_slice prior_summary pinned_facts max_tokens =
     default_request\<lparr>rq_model := model,
       rq_max_tokens := (if 0 < max_tokens then max_tokens else 1024),
       rq_include_temperature := False,
       rq_system_prompt := ''You compress conversation history for later model turns.  '' @ ''Be faithful and dense.'',
       rq_messages := [mk_message ''user'' (summarize_body older_slice prior_summary pinned_facts)]\<rparr>"

definition summarize_history_slice ::
  "(ApiRequest \<Rightarrow> ApiResponse) \<Rightarrow> string \<Rightarrow> Message list \<Rightarrow> string \<Rightarrow> string \<Rightarrow> int \<Rightarrow> string" where
  "summarize_history_slice client model older_slice prior_summary pinned_facts max_tokens =
     (if model = [] \<or> older_slice = [] then []
      else let resp = client (summarize_request model older_slice prior_summary pinned_facts max_tokens)
           in if \<not> rs_ok resp \<or> rs_content resp = [] then [] else rs_content resp)"

text \<open>The boolean results of the source come with the updated state.\<close>

definition fold_compaction_gap ::
  "(ApiRequest \<Rightarrow> ApiResponse) \<Rightarrow> string \<Rightarrow> Message list \<Rightarrow> CompactionState \<Rightarrow> CompactionConfig \<Rightarrow> string
   \<Rightarrow> bool \<times> CompactionState" where
  "fold_compaction_gap client summarize_model gap state cfg pinned_facts =
     (if gap = [] \<or> summarize_model = [] \<or> cs_summary state = [] then (False, state)
      else let summary = summarize_history_slice client summarize_model gap (cs_summary state)
                           pinned_facts (cc_summary_max_tokens cfg)
           in if summary = [] then (False, state)
              else (True, state\<lparr>cs_summary := summary, cs_covered_until := 0,
                               cs_generation := cs_generation state + 1\<rparr>))"

definition run_compaction ::
  "(ApiRequest \<Rightarrow> ApiResponse) \<Rightarrow> string \<Rightarrow> Message list \<Rightarrow> CompactionState \<Rightarrow> CompactionConfig \<Rightarrow> string
   \<Rightarrow> bool \<times> CompactionState" where
  "run_compaction client summarize_model history state0 cfg pinned_facts =
     (let state = sanitize_compaction_state state0 (length history);
          cut = compute_cut_index history (cc_keep_messages cfg)
      in if cut = 0 \<or> cut \<le> cs_covered_until state then (False, state)
         else if summarize_model = [] then (False, state)
         else let slice = take (cut - cs_covered_until state) (drop (cs_covered_until state) history);
                  summary = summarize_history_slice client summarize_model slice (cs_summary state)
                              pinned_facts (cc_summary_max_tokens cfg)
              in if summary = [] then (False, state)
                 else (True, state\<lparr>cs_summary := summary, cs_covered_until := cut,
                        cs_boundary_role := m_role (history ! cut),
                        cs_boundary_content := compaction_boundary_content
                          (strip_compaction_preambles (m_content (history ! cut))),
                        cs_boundary_db_id := 0, cs_generation := cs_generation state + 1\<rparr>))"

section \<open>Persistence\<close>

text \<open>\<open>static_cast<double>\<close> of an integer rounds.\<close>

definition int_to_double :: "int \<Rightarrow> double" where
  "int_to_double i = (case round_double (of_int i) of Some d \<Rightarrow> d | None \<Rightarrow> 0)"

definition compaction_to_json :: "CompactionState \<Rightarrow> json" where
  "compaction_to_json s = JObj
     ([(''summary'', JStr (cs_summary s)),
       (''covered_until'', JNum (int_to_double (int (cs_covered_until s)))),
       (''generation'', JNum (int_to_double (cs_generation s)))]
      @ (if cs_boundary_role s \<noteq> [] \<or> cs_boundary_content s \<noteq> []
         then [(''boundary_role'', JStr (cs_boundary_role s)), (''boundary_content'', JStr (cs_boundary_content s))]
         else [])
      @ (if 0 < cs_boundary_db_id s then [(''boundary_db_id'', JNum (int_to_double (cs_boundary_db_id s)))] else []))"

definition compaction_from_json :: "json option \<Rightarrow> CompactionState" where
  "compaction_from_json v =
     (case v of
        Some j \<Rightarrow>
          if \<not> is_object j then empty_compaction
          else let cu = get_number j ''covered_until'' 0; bid = get_number j ''boundary_db_id'' 0 in
            \<lparr>cs_summary = get_string j ''summary'' [],
             cs_covered_until = (if cu < 0 then 0 else nat (trunc_double cu)),
             cs_generation = trunc_double (get_number j ''generation'' 0),
             cs_boundary_role = get_string j ''boundary_role'' [],
             cs_boundary_content = get_string j ''boundary_content'' [],
             cs_boundary_db_id = (if bid < 0 then 0 else trunc_double bid)\<rparr>
      | None \<Rightarrow> empty_compaction)"

section \<open>Lemmas\<close>

lemma walk_back_good:
  "walk_back h n = c \<Longrightarrow> 0 < c \<Longrightarrow> c < n \<and> is_good_start h c \<and> (\<forall>j. c < j \<longrightarrow> j < n \<longrightarrow> \<not> is_good_start h j)"
proof (induction n)
  case (Suc n)
  then show ?case by (auto split: if_splits simp: less_Suc_eq)
qed simp

lemma walk_back_zero: "walk_back h n = 0 \<Longrightarrow> 0 < j \<Longrightarrow> j < n \<Longrightarrow> \<not> is_good_start h j"
  by (induction n) (auto split: if_splits simp: less_Suc_eq)

lemma compute_cut_good:
  assumes "compute_cut_index h k = c" "0 < c"
  shows "c + k \<le> length h" "is_good_start h c" "0 < k"
proof -
  have k: "k \<noteq> 0" "k < length h" using assms by (auto simp: compute_cut_index_def split: if_splits)
  show "0 < k" using k by simp
  show "c + k \<le> length h" "is_good_start h c"
  proof (atomize (full), cases "is_good_start h (length h - k)")
    case True
    then show "c + k \<le> length h \<and> is_good_start h c" using assms(1) k by (simp add: compute_cut_index_def Let_def)
  next
    case False
    then have "walk_back h (length h - k) = c" using assms(1) k by (simp add: compute_cut_index_def Let_def)
    then show "c + k \<le> length h \<and> is_good_start h c"
      using walk_back_good [of h "length h - k" c] assms(2) k by auto
  qed
qed

lemma sanitize_idem [simp]:
  "sanitize_compaction_state (sanitize_compaction_state s n) n = sanitize_compaction_state s n"
  by (simp add: sanitize_compaction_state_def empty_compaction_def)

lemma view_sanitize [simp]:
  "build_model_messages h (sanitize_compaction_state s (length h)) = build_model_messages h s"
  by (simp add: build_model_messages_def Let_def)

text \<open>A state that stands for its history: nothing is dropped without a summary.\<close>

definition compaction_ok :: "CompactionState \<Rightarrow> nat \<Rightarrow> bool" where
  "compaction_ok s n \<longleftrightarrow> cs_covered_until s \<le> n \<and> (cs_summary s = [] \<longrightarrow> cs_covered_until s = 0)"

lemma sanitize_ok [inv_rules]: "compaction_ok (sanitize_compaction_state s n) n"
  by (auto simp: compaction_ok_def sanitize_compaction_state_def empty_compaction_def)

lemma sanitize_id: "compaction_ok s n \<Longrightarrow> sanitize_compaction_state s n = s"
  by (auto simp: compaction_ok_def sanitize_compaction_state_def)

lemma run_compaction_cases:
  assumes "run_compaction client model h s cfg facts = (b, s')"
  obtains (skip) "\<not> b" "s' = sanitize_compaction_state s (length h)"
  | (compacted) cut where "b" "cut = compute_cut_index h (cc_keep_messages cfg)" "0 < cut"
      "cs_covered_until (sanitize_compaction_state s (length h)) < cut"
      "cs_summary s' \<noteq> []" "cs_covered_until s' = cut" "cs_boundary_role s' = m_role (h ! cut)"
      "cs_boundary_content s' = compaction_boundary_content (strip_compaction_preambles (m_content (h ! cut)))"
      "cs_boundary_db_id s' = 0"
      "cs_summary s' = summarize_history_slice client model
         (take (cut - cs_covered_until (sanitize_compaction_state s (length h)))
            (drop (cs_covered_until (sanitize_compaction_state s (length h))) h))
         (cs_summary (sanitize_compaction_state s (length h))) facts (cc_summary_max_tokens cfg)"
proof -
  let ?s = "sanitize_compaction_state s (length h)" and ?cut = "compute_cut_index h (cc_keep_messages cfg)"
  let ?sum = "summarize_history_slice client model
         (take (?cut - cs_covered_until ?s) (drop (cs_covered_until ?s) h))
         (cs_summary ?s) facts (cc_summary_max_tokens cfg)"
  show ?thesis
  proof (cases "?cut = 0 \<or> ?cut \<le> cs_covered_until ?s \<or> model = [] \<or> ?sum = []")
    case True
    then show ?thesis using assms skip unfolding run_compaction_def Let_def by (metis prod.inject)
  next
    case False
    then have "b" and s': "s' = ?s\<lparr>cs_summary := ?sum, cs_covered_until := ?cut,
                        cs_boundary_role := m_role (h ! ?cut),
                        cs_boundary_content := compaction_boundary_content
                          (strip_compaction_preambles (m_content (h ! ?cut))),
                        cs_boundary_db_id := 0, cs_generation := cs_generation ?s + 1\<rparr>"
      using assms unfolding run_compaction_def Let_def by simp_all
    with False show ?thesis using compacted [of ?cut] by (simp add: not_le)
  qed
qed

lemma run_compaction_ok [inv_rules]:
  assumes "run_compaction client model h s cfg facts = (b, s')"
  shows "compaction_ok s' (length h)"
  using assms
proof (cases rule: run_compaction_cases)
  case skip
  then show ?thesis by (simp add: sanitize_ok)
next
  case (compacted cut)
  then show ?thesis using compute_cut_good(1) [of h "cc_keep_messages cfg" cut]
    by (simp add: compaction_ok_def)
qed

lemma view_of_ok:
  "compaction_ok s (length h) \<Longrightarrow> build_model_messages h s =
     (if cs_summary s = [] then h else summary_envelope (cs_summary s) @ drop (cs_covered_until s) h)"
  by (auto simp: build_model_messages_def Let_def sanitize_id compaction_ok_def)

text \<open>Roles alternate, starting with the user.\<close>

fun alternates :: "string \<Rightarrow> Message list \<Rightarrow> bool" where
  "alternates r [] = True"
| "alternates r (m # ms) = (m_role m = r \<and> alternates (if r = ''user'' then ''assistant'' else ''user'') ms)"

lemma alternates_drop:
  assumes "alternates r h" "i < length h" "m_role (h ! i) = ''user''" "r = ''user'' \<or> r = ''assistant''"
  shows "alternates ''user'' (drop i h)"
  using assms
proof (induction h arbitrary: r i)
  case (Cons m h)
  show ?case
  proof (cases i)
    case 0
    then show ?thesis using Cons.prems by auto
  next
    case (Suc j)
    then show ?thesis
      using Cons.prems Cons.IH [of "if r = ''user'' then ''assistant'' else ''user''" j] by auto
  qed
qed simp

lemma index_of_nth: "distinct xs \<Longrightarrow> i < length xs \<Longrightarrow> index_of (xs ! i) xs = Some i"
  by (induction xs arbitrary: i) (auto simp: nth_Cons split: nat.splits)

lemma index_of_Some: "index_of x xs = Some i \<Longrightarrow> i < length xs \<and> xs ! i = x"
  by (induction xs arbitrary: i) (auto split: if_splits)

lemma boundary_hits_bounds:
  "j \<in> set (boundary_hits s i rows) \<Longrightarrow> i \<le> j \<and> j < i + length rows \<and>
     fst (rows ! (j - i)) = cs_boundary_role s \<and>
     boundary_content_matches (snd (rows ! (j - i))) (cs_boundary_content s)"
proof (induction s i rows rule: boundary_hits.induct)
  case (2 s i r c rows)
  consider "j = i" "r = cs_boundary_role s" "boundary_content_matches c (cs_boundary_content s)"
    | "j \<in> set (boundary_hits s (Suc i) rows)"
    using 2(3) by (auto split: if_splits)
  then show ?case
  proof cases
    case 1
    then show ?thesis by simp
  next
    case b: 2
    then have "Suc i \<le> j \<and> j < Suc i + length rows \<and> fst (rows ! (j - Suc i)) = cs_boundary_role s \<and>
        boundary_content_matches (snd (rows ! (j - Suc i))) (cs_boundary_content s)"
      using 2(1,2) by blast
    moreover from this have "j - i = Suc (j - Suc i)" by linarith
    ultimately show ?thesis by simp
  qed
qed simp

lemma find_boundary_bound: "find_compaction_boundary h s ids = Some i \<Longrightarrow> i < length h"
proof -
  assume a: "find_compaction_boundary h s ids = Some i"
  have c: "i < length h" if "boundary_hits s 0 (map (\<lambda>m. (m_role m, m_content m)) h) = [i]"
    using boundary_hits_bounds [of i s 0 "map (\<lambda>m. (m_role m, m_content m)) h"] that by simp
  have d: "i < length h" if "index_of (cs_boundary_db_id s) xs = Some i" "length xs = length h" for xs
    using index_of_Some [OF that(1)] that(2) by simp
  show ?thesis using a c d
    by (auto simp: find_compaction_boundary_def Let_def split: option.splits if_splits list.splits)
qed

lemma find_boundary_cases:
  assumes "find_compaction_boundary h s ids = Some i"
  shows "(\<exists>l. ids = Some l \<and> length l = length h \<and> 0 < cs_boundary_db_id s \<and> l ! i = cs_boundary_db_id s)
    \<or> (m_role (h ! i) = cs_boundary_role s \<and> boundary_content_matches (m_content (h ! i)) (cs_boundary_content s))"
proof -
  let ?rows = "map (\<lambda>m. (m_role m, m_content m)) h"
  have c: "m_role (h ! i) = cs_boundary_role s \<and> boundary_content_matches (m_content (h ! i)) (cs_boundary_content s)"
    if "boundary_hits s 0 ?rows = [i]"
    using boundary_hits_bounds [of i s 0 ?rows] that find_boundary_bound [OF assms] by simp
  have d: "l ! i = cs_boundary_db_id s" if "index_of (cs_boundary_db_id s) l = Some i" for l
    using index_of_Some [OF that] by simp
  show ?thesis using assms c d
    by (auto simp: find_compaction_boundary_def Let_def split: option.splits if_splits list.splits)
qed

lemma remap_ok [inv_rules]: "compaction_ok (remap_compaction_onto_history s h k ids) (length h)"
  by (simp add: remap_compaction_onto_history_def sanitize_ok)
     (simp add: compaction_ok_def empty_compaction_def)

lemma int_to_double_exact: "\<bar>i\<bar> < 10 ^ 15 \<Longrightarrow> int_to_double i = of_int i"
  by (simp add: int_to_double_def round_double_int)

lemma plain_of_int: "\<bar>i\<bar> < 10 ^ 15 \<Longrightarrow> plain_number (of_int i)"
proof -
  assume "\<bar>i\<bar> < 10 ^ 15"
  then have "(of_int \<bar>i\<bar> :: rat) < of_int (10 ^ 15)" by (simp only: of_int_less_iff)
  then show ?thesis by (simp add: plain_number_def)
qed

text \<open>The states that the serializer represents exactly.\<close>

definition compaction_storable :: "CompactionState \<Rightarrow> bool" where
  "compaction_storable s \<longleftrightarrow> utf8_valid (cs_summary s) \<and> utf8_valid (cs_boundary_role s) \<and>
     utf8_valid (cs_boundary_content s) \<and> cs_covered_until s < 10 ^ 15 \<and> \<bar>cs_generation s\<bar> < 10 ^ 15 \<and>
     0 \<le> cs_boundary_db_id s \<and> cs_boundary_db_id s < 10 ^ 15"

lemma compaction_json_ok:
  assumes "compaction_storable s"
  shows "json_ok (compaction_to_json s)" "json_depth (compaction_to_json s) = 1"
proof -
  have c: "\<bar>int (cs_covered_until s)\<bar> < 10 ^ 15" using assms by (simp add: compaction_storable_def)
  have p: "plain_number (int_to_double (int (cs_covered_until s)))" "plain_number (int_to_double (cs_generation s))"
    "plain_number (int_to_double (cs_boundary_db_id s))"
    using assms c plain_of_int [of "int (cs_covered_until s)"] plain_of_int [of "cs_generation s"]
      plain_of_int [of "cs_boundary_db_id s"] int_to_double_exact
    by (simp_all add: compaction_storable_def)
  show "json_ok (compaction_to_json s)" "json_depth (compaction_to_json s) = 1"
    using assms
    by (cases "cs_boundary_role s \<noteq> [] \<or> cs_boundary_content s \<noteq> []"; cases "0 < cs_boundary_db_id s";
        simp add: compaction_to_json_def compaction_storable_def p utf8_valid_ascii)+
qed

lemma compaction_from_to:
  assumes "compaction_storable s"
  shows "compaction_from_json (Some (compaction_to_json s)) = s"
proof -
  have e: "int_to_double (int (cs_covered_until s)) = of_int (int (cs_covered_until s))"
    "int_to_double (cs_generation s) = of_int (cs_generation s)"
    "int_to_double (cs_boundary_db_id s) = of_int (cs_boundary_db_id s)"
    using assms by (intro int_to_double_exact; simp add: compaction_storable_def)+
  have t: "trunc_double (of_nat n) = int n" for n by (simp add: trunc_double_def)
  show ?thesis
    using assms
    by (cases "cs_boundary_role s \<noteq> [] \<or> cs_boundary_content s \<noteq> []"; cases "0 < cs_boundary_db_id s")
       (simp_all add: compaction_from_json_def compaction_to_json_def is_object_def Let_def get_number_def
          get_string_def e t compaction_storable_def, (simp add: trunc_double_def)+)
qed

text \<open>
  A boundary that the preamble stripper shortened does not match the raw row it came from, so
  a user turn that itself contains a stripped delimiter loses its boundary.
\<close>

lemma stripped_boundary_misses_raw_row:
  assumes "length (strip_compaction_preambles c) < length c" "length c \<le> kCompactionBoundaryMax"
  shows "\<not> boundary_content_matches c (compaction_boundary_content (strip_compaction_preambles c))"
  using assms by (auto simp: boundary_content_matches_def compaction_boundary_content_def Let_def)

section \<open>Properties\<close>


definition demo_history :: "Message list" where
  "demo_history = [mk_message ''user'' ''a'', mk_message ''assistant'' ''b'',
     mk_message ''user'' ''[TOOL RESULTS] x'', mk_message ''assistant'' ''c'',
     mk_message ''user'' ''d'', mk_message ''assistant'' ''e'']"

definition demo_client :: "ApiRequest \<Rightarrow> ApiResponse" where
  "demo_client rq = default_response\<lparr>rs_ok := True, rs_content := ''S''\<rparr>"

definition demo_config :: CompactionConfig where
  "demo_config = default_compaction_config\<lparr>cc_keep_messages := 1\<rparr>"

lemma demo_run:
  "fst (run_compaction demo_client ''m'' demo_history empty_compaction demo_config [])"
  by (simp add: run_compaction_def Let_def sanitize_compaction_state_def empty_compaction_def demo_config_def
      demo_history_def demo_client_def compute_cut_index_def is_good_start_def is_tool_results_message_def
      mk_message_def numeral_eq_Suc summarize_history_slice_def del: summarize_request_def)


text \<open>
  C6. Compaction keeps the role alternation that providers require: if the conversation and the
  current model view alternate starting with the user, so does the view after a compaction.
\<close>

theorem compaction_keeps_alternation:
  assumes "alternates ''user'' h" and "alternates ''user'' (build_model_messages h s)"
  shows "alternates ''user'' (build_model_messages h (snd (run_compaction client model h s cfg facts)))"
proof -
  obtain b s' where r: "run_compaction client model h s cfg facts = (b, s')" by fastforce
  then show ?thesis
  proof (cases rule: run_compaction_cases)
    case skip
    then show ?thesis using assms(2) r by simp
  next
    case (compacted cut)
    note g = compute_cut_good [OF compacted(2) [symmetric] compacted(3)]
    have "alternates ''user'' (drop cut h)"
      using alternates_drop [OF assms(1)] g(2) by (simp add: is_good_start_def)
    then show ?thesis
      using view_of_ok [OF run_compaction_ok [OF r]] compacted r
      by (simp add: summary_envelope_def mk_message_def)
  qed
qed

theorem compaction_keeps_alternation_witness:
  "alternates ''user'' demo_history \<and>
   alternates ''user'' (build_model_messages demo_history
     (snd (run_compaction demo_client ''m'' demo_history empty_compaction demo_config [])))"
proof
  show a: "alternates ''user'' demo_history" by (simp add: demo_history_def mk_message_def)
  show "alternates ''user'' (build_model_messages demo_history
     (snd (run_compaction demo_client ''m'' demo_history empty_compaction demo_config [])))"
    by (rule compaction_keeps_alternation [OF a], subst view_of_ok)
       (use a in \<open>simp_all add: compaction_ok_def empty_compaction_def\<close>)
qed

text \<open>
  Remapping onto a reloaded history never drops a message without cause: the view is the
  summary envelope followed by a suffix of the new history, and a proper suffix only starts at
  the row carrying the boundary's database id, or at the one message whose role and content match
  the stored boundary.
\<close>

lemma remap_view:
  assumes "cs_summary s \<noteq> []"
  shows "\<exists>j. build_model_messages h (remap_compaction_onto_history s h k ids)
           = summary_envelope (cs_summary s) @ drop j h
         \<and> (j = 0 \<or> (j < length h \<and>
              ((\<exists>l. ids = Some l \<and> length l = length h \<and> 0 < cs_boundary_db_id s \<and> l ! j = cs_boundary_db_id s)
               \<or> (m_role (h ! j) = cs_boundary_role s
                   \<and> boundary_content_matches (m_content (h ! j)) (cs_boundary_content s)))))"
proof (cases "find_compaction_boundary h s ids")
  case None
  then have "remap_compaction_onto_history s h k ids = s\<lparr>cs_covered_until := 0\<rparr>"
    using assms by (simp add: remap_compaction_onto_history_def sanitize_compaction_state_def)
  then show ?thesis using remap_ok [of s h k ids] assms by (intro exI [of _ 0]) (simp add: view_of_ok)
next
  case (Some i)
  note b = find_boundary_bound [OF Some]
  then have r: "remap_compaction_onto_history s h k ids = s\<lparr>cs_covered_until := i\<rparr>"
    using assms Some by (simp add: remap_compaction_onto_history_def sanitize_compaction_state_def)
  have v: "build_model_messages h (remap_compaction_onto_history s h k ids)
      = summary_envelope (cs_summary s) @ drop i h"
    using remap_ok [of s h k ids] assms r by (simp add: view_of_ok)
  show ?thesis using v b find_boundary_cases [OF Some] by blast
qed

text \<open>
  A compaction state survives the session file: reading back the JSON text it is written as
  gives the same state.
\<close>

lemma compaction_persist_roundtrip:
  assumes "compaction_storable s"
  shows "\<exists>v. json_parse (json_serialize (compaction_to_json s)) = Inr v \<and> compaction_from_json (Some v) = s"
  using parse_serialize [of "compaction_to_json s"] compaction_json_ok [OF assms] compaction_from_to [OF assms]
  by (simp add: kMaxDepth_def)

text \<open>
  The trigger is exact: with a known window and a token count whose hundredfold fits an
  \<open>int\<close>, auto-compaction fires precisely when compaction is enabled, the history is longer than
  the kept window, and the prompt fills at least the threshold share of the model's window.
\<close>

lemma auto_compact_exact:
  assumes "0 < tokens" "in_int32 (tokens * 100)" "0 < context_window_for_model model" "cc_threshold_pct cfg \<le> 100"
  shows "should_auto_compact cfg tokens model n chars =
    Some (cc_enabled cfg \<and> cc_keep_messages cfg < n
          \<and> cc_threshold_pct cfg * context_window_for_model model \<le> tokens * 100)"
proof -
  have d: "0 \<le> tokens * 100 div context_window_for_model model"
    using assms(1,3) by (simp add: pos_imp_zdiv_nonneg_iff)
  obtain p where p: "context_pct_value tokens model = Some p" "0 \<le> p"
    using assms d by (simp add: context_pct_value_def Let_def)
  show ?thesis using context_pct_ge [OF p assms(4)] p by (auto simp: should_auto_compact_def)
qed

end
