(* ===== verification/Task_Store.thy ===== *)
theory Task_Store
  imports Prelude
begin

text \<open>
  The scheduled-task and task-run tables of the tenant store (\<open>src/tenant_store.cpp\<close>), as the
  lists of their rows in insertion order with the \<open>AUTOINCREMENT\<close> counters.  Each operation is one
  SQL statement on an opened database; the clock value it stores is an argument.  Rows that an
  \<open>ORDER BY\<close> leaves tied come in insertion order.
\<close>

section \<open>Rows\<close>

record ScheduledTask =
  t_id :: int
  t_tenant_id :: int
  t_agent_id :: string
  t_conversation_id :: int
  t_message :: string
  t_schedule_phrase :: string
  t_schedule_kind :: string
  t_fire_at :: int
  t_recur_json :: string
  t_next_fire_at :: int
  t_status :: string
  t_created_at :: int
  t_updated_at :: int
  t_last_run_at :: int
  t_last_run_id :: int
  t_run_count :: int

record TaskRun =
  r_id :: int
  r_tenant_id :: int
  r_task_id :: int
  r_status :: string
  r_started_at :: int
  r_completed_at :: int
  r_request_id :: string
  r_result_summary :: string
  r_error_message :: string
  r_input_tokens :: int
  r_output_tokens :: int
  r_notified :: bool

record task_store =
  ts_tasks :: "ScheduledTask list"
  ts_task_seq :: int
  ts_runs :: "TaskRun list"
  ts_run_seq :: int

definition empty_store :: task_store where
  "empty_store = \<lparr>ts_tasks = [], ts_task_seq = 0, ts_runs = [], ts_run_seq = 0\<rparr>"

definition clamp_limit :: "int \<Rightarrow> nat" where
  "clamp_limit limit = (if limit \<le> 0 \<or> 200 < limit then 200 else nat limit)"

section \<open>Scheduled tasks\<close>

definition create_scheduled_task ::
  "int \<Rightarrow> string \<Rightarrow> int \<Rightarrow> string \<Rightarrow> string \<Rightarrow> string \<Rightarrow> int \<Rightarrow> string \<Rightarrow> int \<Rightarrow> int \<Rightarrow> task_store
   \<Rightarrow> ScheduledTask \<times> task_store" where
  "create_scheduled_task tenant_id agent_id conversation_id message phrase kind fire_at recur_json next_fire_at now s =
     (let t = \<lparr>t_id = ts_task_seq s + 1, t_tenant_id = tenant_id, t_agent_id = agent_id,
               t_conversation_id = conversation_id, t_message = message, t_schedule_phrase = phrase,
               t_schedule_kind = kind, t_fire_at = fire_at, t_recur_json = recur_json,
               t_next_fire_at = next_fire_at, t_status = ''active'', t_created_at = now, t_updated_at = now,
               t_last_run_at = 0, t_last_run_id = 0, t_run_count = 0\<rparr>
      in (t, s\<lparr>ts_tasks := ts_tasks s @ [t], ts_task_seq := ts_task_seq s + 1\<rparr>))"

definition is_task :: "int \<Rightarrow> int \<Rightarrow> ScheduledTask \<Rightarrow> bool" where
  "is_task tenant_id i t \<longleftrightarrow> t_tenant_id t = tenant_id \<and> t_id t = i"

definition get_scheduled_task :: "int \<Rightarrow> int \<Rightarrow> task_store \<Rightarrow> ScheduledTask option" where
  "get_scheduled_task tenant_id i s = find (is_task tenant_id i) (ts_tasks s)"

definition list_scheduled_tasks :: "int \<Rightarrow> string \<Rightarrow> int \<Rightarrow> task_store \<Rightarrow> ScheduledTask list" where
  "list_scheduled_tasks tenant_id status_filter limit s =
     take (clamp_limit limit) (sort_key (\<lambda>t. - t_updated_at t)
       (filter (\<lambda>t. t_tenant_id t = tenant_id \<and> (status_filter \<noteq> [] \<longrightarrow> t_status t = status_filter)) (ts_tasks s)))"

definition list_due_scheduled_tasks :: "int \<Rightarrow> int \<Rightarrow> task_store \<Rightarrow> ScheduledTask list" where
  "list_due_scheduled_tasks cutoff limit s =
     take (clamp_limit limit) (sort_key t_next_fire_at
       (filter (\<lambda>t. t_status t = ''active'' \<and> t_next_fire_at t \<le> cutoff) (ts_tasks s)))"

text \<open>An \<open>UPDATE ... WHERE\<close>: whether a row changed, and the new rows.\<close>

definition update_where :: "(ScheduledTask \<Rightarrow> bool) \<Rightarrow> (ScheduledTask \<Rightarrow> ScheduledTask) \<Rightarrow> task_store \<Rightarrow> bool \<times> task_store" where
  "update_where P f s =
     (list_ex P (ts_tasks s), s\<lparr>ts_tasks := map (\<lambda>t. if P t then f t else t) (ts_tasks s)\<rparr>)"

definition try_claim_scheduled_task :: "int \<Rightarrow> int \<Rightarrow> int \<Rightarrow> int \<Rightarrow> task_store \<Rightarrow> bool \<times> task_store" where
  "try_claim_scheduled_task tenant_id i cutoff now s =
     update_where (\<lambda>t. is_task tenant_id i t \<and> t_status t = ''active'' \<and> t_next_fire_at t \<le> cutoff)
       (\<lambda>t. t\<lparr>t_status := ''running'', t_updated_at := now\<rparr>) s"

text \<open>The optional column assignments of one update.\<close>

record task_patch =
  tp_status :: "string option"
  tp_next_fire_at :: "int option"
  tp_last_run_at :: "int option"
  tp_last_run_id :: "int option"
  tp_run_count_delta :: "int option"

definition apply_patch :: "task_patch \<Rightarrow> int \<Rightarrow> ScheduledTask \<Rightarrow> ScheduledTask" where
  "apply_patch p now t =
     t\<lparr>t_updated_at := now,
       t_status := (case tp_status p of Some v \<Rightarrow> v | None \<Rightarrow> t_status t),
       t_next_fire_at := (case tp_next_fire_at p of Some v \<Rightarrow> v | None \<Rightarrow> t_next_fire_at t),
       t_last_run_at := (case tp_last_run_at p of Some v \<Rightarrow> v | None \<Rightarrow> t_last_run_at t),
       t_last_run_id := (case tp_last_run_id p of Some v \<Rightarrow> v | None \<Rightarrow> t_last_run_id t),
       t_run_count := (case tp_run_count_delta p of Some d \<Rightarrow> t_run_count t + d | None \<Rightarrow> t_run_count t)\<rparr>"

definition update_scheduled_task ::
  "int \<Rightarrow> int \<Rightarrow> task_patch \<Rightarrow> string option \<Rightarrow> int \<Rightarrow> task_store \<Rightarrow> bool \<times> task_store" where
  "update_scheduled_task tenant_id i p require_status now s =
     update_where (\<lambda>t. is_task tenant_id i t \<and> (case require_status of Some r \<Rightarrow> t_status t = r | None \<Rightarrow> True))
       (apply_patch p now) s"

text \<open>Deleting a task cascades to its runs.\<close>

definition delete_scheduled_task :: "int \<Rightarrow> int \<Rightarrow> task_store \<Rightarrow> bool \<times> task_store" where
  "delete_scheduled_task tenant_id i s =
     (let hit = list_ex (is_task tenant_id i) (ts_tasks s) in
      (hit, if hit then s\<lparr>ts_tasks := filter (\<lambda>t. \<not> is_task tenant_id i t) (ts_tasks s),
                         ts_runs := filter (\<lambda>r. r_task_id r \<noteq> i) (ts_runs s)\<rparr>
            else s))"

definition list_all_scheduled_tasks_by_status :: "string \<Rightarrow> int \<Rightarrow> task_store \<Rightarrow> ScheduledTask list" where
  "list_all_scheduled_tasks_by_status status limit s =
     (if status = [] then []
      else take (clamp_limit limit) (sort_key t_updated_at (filter (\<lambda>t. t_status t = status) (ts_tasks s))))"

section \<open>Task runs\<close>

definition create_task_run :: "int \<Rightarrow> int \<Rightarrow> string \<Rightarrow> int \<Rightarrow> string \<Rightarrow> task_store \<Rightarrow> TaskRun \<times> task_store" where
  "create_task_run tenant_id task_id status started_at request_id s =
     (let r = \<lparr>r_id = ts_run_seq s + 1, r_tenant_id = tenant_id, r_task_id = task_id, r_status = status,
               r_started_at = started_at, r_completed_at = 0, r_request_id = request_id, r_result_summary = [],
               r_error_message = [], r_input_tokens = 0, r_output_tokens = 0, r_notified = False\<rparr>
      in (r, s\<lparr>ts_runs := ts_runs s @ [r], ts_run_seq := ts_run_seq s + 1\<rparr>))"

record run_patch =
  rp_status :: "string option"
  rp_completed_at :: "int option"
  rp_result_summary :: "string option"
  rp_error_message :: "string option"
  rp_input_tokens :: "int option"
  rp_output_tokens :: "int option"
  rp_notified :: "bool option"

definition apply_run_patch :: "run_patch \<Rightarrow> TaskRun \<Rightarrow> TaskRun" where
  "apply_run_patch p r =
     r\<lparr>r_status := (case rp_status p of Some v \<Rightarrow> v | None \<Rightarrow> r_status r),
       r_completed_at := (case rp_completed_at p of Some v \<Rightarrow> v | None \<Rightarrow> r_completed_at r),
       r_result_summary := (case rp_result_summary p of Some v \<Rightarrow> v | None \<Rightarrow> r_result_summary r),
       r_error_message := (case rp_error_message p of Some v \<Rightarrow> v | None \<Rightarrow> r_error_message r),
       r_input_tokens := (case rp_input_tokens p of Some v \<Rightarrow> v | None \<Rightarrow> r_input_tokens r),
       r_output_tokens := (case rp_output_tokens p of Some v \<Rightarrow> v | None \<Rightarrow> r_output_tokens r),
       r_notified := (case rp_notified p of Some v \<Rightarrow> v | None \<Rightarrow> r_notified r)\<rparr>"

definition run_patch_empty :: "run_patch \<Rightarrow> bool" where
  "run_patch_empty p \<longleftrightarrow> rp_status p = None \<and> rp_completed_at p = None \<and> rp_result_summary p = None \<and>
     rp_error_message p = None \<and> rp_input_tokens p = None \<and> rp_output_tokens p = None \<and> rp_notified p = None"

definition is_run :: "int \<Rightarrow> int \<Rightarrow> TaskRun \<Rightarrow> bool" where
  "is_run tenant_id i r \<longleftrightarrow> r_tenant_id r = tenant_id \<and> r_id r = i"

definition update_task_run :: "int \<Rightarrow> int \<Rightarrow> run_patch \<Rightarrow> task_store \<Rightarrow> bool \<times> task_store" where
  "update_task_run tenant_id i p s =
     (if run_patch_empty p then (False, s)
      else (list_ex (is_run tenant_id i) (ts_runs s),
            s\<lparr>ts_runs := map (\<lambda>r. if is_run tenant_id i r then apply_run_patch p r else r) (ts_runs s)\<rparr>))"

definition get_task_run :: "int \<Rightarrow> int \<Rightarrow> task_store \<Rightarrow> TaskRun option" where
  "get_task_run tenant_id i s = find (is_run tenant_id i) (ts_runs s)"

text \<open>\<open>ORDER BY started_at DESC, id DESC\<close>.\<close>

definition list_task_runs :: "int \<Rightarrow> int \<Rightarrow> int \<Rightarrow> int \<Rightarrow> task_store \<Rightarrow> TaskRun list" where
  "list_task_runs tenant_id task_id since limit s =
     take (clamp_limit limit) (sort_key (\<lambda>r. - r_started_at r) (sort_key (\<lambda>r. - r_id r)
       (filter (\<lambda>r. r_tenant_id r = tenant_id \<and> (0 < task_id \<longrightarrow> r_task_id r = task_id)
                    \<and> (0 < since \<longrightarrow> since \<le> r_started_at r)) (ts_runs s))))"

definition recover_running_task_runs :: "string \<Rightarrow> int \<Rightarrow> string \<Rightarrow> task_store \<Rightarrow> (int \<times> int) list \<times> task_store" where
  "recover_running_task_runs new_status completed_at error_message s =
     (let out = map (\<lambda>r. (r_tenant_id r, r_id r)) (filter (\<lambda>r. r_status r = ''running'') (ts_runs s)) in
      (out, if out = [] then s
            else s\<lparr>ts_runs := map (\<lambda>r. if r_status r = ''running''
                                       then r\<lparr>r_status := new_status, r_completed_at := completed_at,
                                              r_error_message := error_message\<rparr> else r) (ts_runs s)\<rparr>))"

section \<open>Lemmas\<close>

text \<open>Task ids are unique: they come from the counter.\<close>

definition store_ok :: "task_store \<Rightarrow> bool" where
  "store_ok s \<longleftrightarrow> distinct (map t_id (ts_tasks s)) \<and> (\<forall>t \<in> set (ts_tasks s). t_id t \<le> ts_task_seq s)
     \<and> distinct (map r_id (ts_runs s)) \<and> (\<forall>r \<in> set (ts_runs s). r_id r \<le> ts_run_seq s)"

lemma find_map_upd:
  assumes "\<And>t. is_task tn i (f t) = is_task tn i t"
  shows "find (is_task tn i) (map (\<lambda>t. if P t then f t else t) ts)
    = map_option (\<lambda>t. if P t then f t else t) (find (is_task tn i) ts)"
  using assms by (induction ts) auto

lemma get_update_where:
  assumes "\<And>t. is_task tn i (f t) = is_task tn i t"
  shows "get_scheduled_task tn i (snd (update_where P f s))
    = map_option (\<lambda>t. if P t then f t else t) (get_scheduled_task tn i s)"
  using find_map_upd [OF assms] by (simp add: get_scheduled_task_def update_where_def)

lemma is_task_patch [simp]: "is_task tn i (apply_patch p now t) = is_task tn i t"
  by (simp add: is_task_def apply_patch_def)

lemma get_is_task: "get_scheduled_task tn i s = Some t \<Longrightarrow> is_task tn i t \<and> t \<in> set (ts_tasks s)"
  by (auto simp: get_scheduled_task_def find_Some_iff)

lemma get_unique:
  assumes "store_ok s" "t \<in> set (ts_tasks s)" "is_task tn i t"
  shows "get_scheduled_task tn i s = Some t"
proof -
  obtain t' where t': "get_scheduled_task tn i s = Some t'"
    using assms(2,3) by (cases "get_scheduled_task tn i s") (auto simp: get_scheduled_task_def find_None_iff)
  then have "t' \<in> set (ts_tasks s)" "t_id t' = t_id t" using get_is_task [OF t'] assms(3) by (auto simp: is_task_def)
  then have "t' = t" using assms(1,2) by (metis inj_on_eq_iff distinct_map store_ok_def)
  then show ?thesis using t' by simp
qed

lemma list_ex_task_get:
  assumes "store_ok s" "\<And>t. P t \<Longrightarrow> is_task tn i t"
  shows "list_ex P (ts_tasks s) \<longleftrightarrow> (\<exists>t. get_scheduled_task tn i s = Some t \<and> P t)"
proof
  assume "list_ex P (ts_tasks s)"
  then obtain t where "t \<in> set (ts_tasks s)" "P t" by (auto simp: list_ex_iff)
  then show "\<exists>t. get_scheduled_task tn i s = Some t \<and> P t" using get_unique [OF assms(1)] assms(2) by blast
next
  assume "\<exists>t. get_scheduled_task tn i s = Some t \<and> P t"
  then show "list_ex P (ts_tasks s)" using get_is_task by (fastforce simp: list_ex_iff)
qed

lemma claim_result:
  assumes "store_ok s"
  shows "fst (try_claim_scheduled_task tn i cutoff now s) \<longleftrightarrow>
    (\<exists>t. get_scheduled_task tn i s = Some t \<and> t_status t = ''active'' \<and> t_next_fire_at t \<le> cutoff)"
  using list_ex_task_get [OF assms, of "\<lambda>t. is_task tn i t \<and> t_status t = ''active'' \<and> t_next_fire_at t \<le> cutoff" tn i]
    get_is_task [of tn i s]
  by (auto simp: try_claim_scheduled_task_def update_where_def)

lemma update_result:
  assumes "store_ok s"
  shows "fst (update_scheduled_task tn i p req now s) \<longleftrightarrow>
    (\<exists>t. get_scheduled_task tn i s = Some t \<and> (case req of Some r \<Rightarrow> t_status t = r | None \<Rightarrow> True))"
  using list_ex_task_get [OF assms, of "\<lambda>t. is_task tn i t \<and> (case req of Some r \<Rightarrow> t_status t = r | None \<Rightarrow> True)" tn i]
    get_is_task [of tn i s]
  by (auto simp: update_scheduled_task_def update_where_def)

lemma claim_get:
  "get_scheduled_task tn i (snd (try_claim_scheduled_task tn' i' cutoff now s)) =
     map_option (\<lambda>t. if is_task tn' i' t \<and> t_status t = ''active'' \<and> t_next_fire_at t \<le> cutoff
                     then t\<lparr>t_status := ''running'', t_updated_at := now\<rparr> else t) (get_scheduled_task tn i s)"
  unfolding try_claim_scheduled_task_def by (subst get_update_where) (auto simp: is_task_def)

lemma update_get:
  "get_scheduled_task tn i (snd (update_scheduled_task tn' i' p req now s)) =
     map_option (\<lambda>t. if is_task tn' i' t \<and> (case req of Some r \<Rightarrow> t_status t = r | None \<Rightarrow> True)
                     then apply_patch p now t else t) (get_scheduled_task tn i s)"
  unfolding update_scheduled_task_def by (subst get_update_where) auto

lemma update_where_ok:
  assumes "store_ok s" "\<And>t. t_id (f t) = t_id t"
  shows "store_ok (snd (update_where P f s))"
proof -
  have e: "(\<lambda>t. t_id (if P t then f t else t)) = t_id" using assms(2) by auto
  show ?thesis using assms by (auto simp: store_ok_def update_where_def comp_def e)
qed

lemma store_ok_ops [inv_rules]:
  assumes "store_ok s"
  shows "store_ok (snd (try_claim_scheduled_task tn i c now s))"
    "store_ok (snd (update_scheduled_task tn i p req now s))"
    "store_ok (snd (create_scheduled_task tn a cv m ph k fa rj nf now s))"
    "store_ok (snd (delete_scheduled_task tn i s))"
    "store_ok (snd (create_task_run tn i st sa rq s))"
    "store_ok (snd (update_task_run tn i rp s))"
    "store_ok (snd (recover_running_task_runs st c e s))"
proof -
  have m: "map r_id (map (\<lambda>r. if P r then f r else r) rs) = map r_id rs" if "\<And>r. r_id (f r) = r_id r" for P f rs
    using that by simp
  show "store_ok (snd (try_claim_scheduled_task tn i c now s))"
    unfolding try_claim_scheduled_task_def by (rule update_where_ok [OF assms]) simp
  show "store_ok (snd (update_scheduled_task tn i p req now s))"
    unfolding update_scheduled_task_def by (rule update_where_ok [OF assms]) (simp add: apply_patch_def)
  show "store_ok (snd (create_scheduled_task tn a cv m ph k fa rj nf now s))"
    using assms by (fastforce simp: store_ok_def create_scheduled_task_def Let_def)
  show "store_ok (snd (delete_scheduled_task tn i s))"
    using assms by (auto simp: store_ok_def delete_scheduled_task_def Let_def distinct_map_filter)
  show "store_ok (snd (create_task_run tn i st sa rq s))"
    using assms by (fastforce simp: store_ok_def create_task_run_def Let_def)
  show "store_ok (snd (update_task_run tn i rp s))"
    using assms by (auto simp: store_ok_def update_task_run_def apply_run_patch_def comp_def if_distrib [of r_id] cong: if_cong)
  show "store_ok (snd (recover_running_task_runs st c e s))"
    using assms by (auto simp: store_ok_def recover_running_task_runs_def Let_def comp_def if_distrib [of r_id] cong: if_cong)
qed

lemma empty_store_ok: "store_ok empty_store"
  by (simp add: store_ok_def empty_store_def)

lemma run_ops_get [simp]:
  "get_scheduled_task tn i (snd (create_task_run tn' j st sa rq s)) = get_scheduled_task tn i s"
  "get_scheduled_task tn i (snd (update_task_run tn' j rp s)) = get_scheduled_task tn i s"
  "get_scheduled_task tn i (snd (recover_running_task_runs st2 c e s)) = get_scheduled_task tn i s"
  by (simp_all add: get_scheduled_task_def create_task_run_def update_task_run_def recover_running_task_runs_def Let_def)

end
