(* ===== verification/Schedule_Parser.thy ===== *)
theory Schedule_Parser
  imports Prelude
begin

text \<open>
  The schedule phrase parser (\<open>src/schedule_parser.cpp\<close>).  The host's time zone, \<open>mktime\<close> and
  \<open>localtime_r\<close>, is a parameter.  Phrases are matched after lower-casing, trimming and
  collapsing white space; on such a phrase the regular expressions of the source, whose only
  gaps are \<open>\s+\<close>, depend on its list of words.  A failed parse carries its message.
\<close>

section \<open>Text helpers\<close>

definition collapse_step :: "string \<times> bool \<Rightarrow> char \<Rightarrow> string \<times> bool" where
  "collapse_step st c =
     (let (out, in_ws) = st in
      if is_space c then ((if \<not> in_ws \<and> out \<noteq> [] then out @ '' '' else out), True)
      else (out @ [c], False))"

definition collapse_ws :: "string \<Rightarrow> string" where
  "collapse_ws s = rev (dropWhile (\<lambda>c. c = CHR '' '') (rev (fst (foldl collapse_step ([], False) s))))"

function words :: "string \<Rightarrow> string list" where
  "words s =
     (if dropWhile is_space s = [] then []
      else takeWhile (\<lambda>c. \<not> is_space c) (dropWhile is_space s)
           # words (dropWhile (\<lambda>c. \<not> is_space c) (dropWhile is_space s)))"
  by pat_completeness auto
termination
proof (relation "measure length")
  fix s assume "dropWhile is_space s \<noteq> []"
  then obtain c t where t: "dropWhile is_space s = c # t" by (cases "dropWhile is_space s") auto
  then have "\<not> is_space c" using hd_dropWhile [of is_space s] by simp
  moreover have "length (c # t) \<le> length s" unfolding t [symmetric] by (rule length_dropWhile_le)
  moreover have "length (dropWhile (\<lambda>c. \<not> is_space c) t) \<le> length t" by (rule length_dropWhile_le)
  ultimately show "(dropWhile (\<lambda>c. \<not> is_space c) (dropWhile is_space s), s) \<in> measure length"
    by (simp add: t)
qed simp

declare words.simps [simp del]

definition weekday_names :: "string list" where
  "weekday_names = [''sun'', ''mon'', ''tue'', ''wed'', ''thu'', ''fri'', ''sat'']"

definition weekday_longs :: "string list" where
  "weekday_longs = [''sunday'', ''monday'', ''tuesday'', ''wednesday'', ''thursday'', ''friday'', ''saturday'']"

text \<open>\<open>0\<close> is Sunday; \<open>-1\<close> for no weekday.\<close>

definition weekday_to_int :: "string \<Rightarrow> int" where
  "weekday_to_int w =
     (case find (\<lambda>i. lower w = weekday_names ! i \<or> lower w = weekday_longs ! i) [0..<7] of
        Some i \<Rightarrow> int i | None \<Rightarrow> - 1)"

definition weekday_short :: "int \<Rightarrow> string" where
  "weekday_short wd =
     (if wd < 0 \<or> 6 < wd then ''?''
      else [''Sun'', ''Mon'', ''Tue'', ''Wed'', ''Thu'', ''Fri'', ''Sat''] ! nat wd)"

text \<open>The groups of \<open>\d{1,2}:\d{2}\<close>.\<close>

definition hhmm_shape :: "string \<Rightarrow> (string \<times> string) option" where
  "hhmm_shape s =
     (let h = takeWhile is_digit s; r = dropWhile is_digit s in
      if (length h = 1 \<or> length h = 2) \<and> length r = 3 \<and> hd r = CHR '':'' \<and> list_all is_digit (tl r)
      then Some (h, tl r) else None)"

definition parse_hhmm :: "string \<Rightarrow> (int \<times> int) option" where
  "parse_hhmm s =
     (case hhmm_shape s of
        None \<Rightarrow> None
      | Some (h, m) \<Rightarrow>
          if digits_val h < 24 \<and> digits_val m < 60 then Some (digits_val h, digits_val m) else None)"

definition ymd_shape :: "string \<Rightarrow> (string \<times> string \<times> string) option" where
  "ymd_shape s =
     (if length s = 10 \<and> list_all is_digit (take 4 s) \<and> s ! 4 = CHR ''-'' \<and> list_all is_digit (take 2 (drop 5 s))
         \<and> s ! 7 = CHR ''-'' \<and> list_all is_digit (drop 8 s)
      then Some (take 4 s, take 2 (drop 5 s), drop 8 s) else None)"

section \<open>Local time\<close>

record tm =
  tm_year :: int
  tm_mon :: int
  tm_mday :: int
  tm_hour :: int
  tm_min :: int
  tm_sec :: int
  tm_wday :: int
  tm_isdst :: int

definition zero_tm :: tm where
  "zero_tm = \<lparr>tm_year = 0, tm_mon = 0, tm_mday = 0, tm_hour = 0, tm_min = 0, tm_sec = 0, tm_wday = 0, tm_isdst = 0\<rparr>"

text \<open>\<open>mktime\<close> returns the time (\<open>-1\<close> on failure) and the normalised broken-down time.\<close>

record timezone =
  mktime :: "tm \<Rightarrow> int \<times> tm"
  localtime :: "int \<Rightarrow> tm"

definition parse_ymd :: "timezone \<Rightarrow> string \<Rightarrow> (int \<times> int \<times> int) option" where
  "parse_ymd tz s =
     (case ymd_shape s of
        None \<Rightarrow> None
      | Some (ys, ms, ds) \<Rightarrow>
          (let y = digits_val ys; mo = digits_val ms; d = digits_val ds in
           if mo < 1 \<or> 12 < mo \<or> d < 1 \<or> 31 < d then None
           else let (t, tm) = mktime tz (zero_tm\<lparr>tm_year := y - 1900, tm_mon := mo - 1, tm_mday := d,
                                          tm_hour := 12, tm_isdst := - 1\<rparr>)
                in if t = - 1 then None
                   else if tm_year tm = y - 1900 \<and> tm_mon tm = mo - 1 \<and> tm_mday tm = d then Some (y, mo, d)
                   else None))"

definition make_local_epoch :: "timezone \<Rightarrow> int \<Rightarrow> int \<Rightarrow> int \<Rightarrow> int \<Rightarrow> int \<Rightarrow> int" where
  "make_local_epoch tz y mo d hh mm =
     (let t = fst (mktime tz \<lparr>tm_year = y - 1900, tm_mon = mo - 1, tm_mday = d, tm_hour = hh, tm_min = mm,
                             tm_sec = 0, tm_wday = 0, tm_isdst = - 1\<rparr>)
      in if t = - 1 then 0 else t)"

text \<open>Year, month, day and weekday of \<open>local_date\<close>; its callers ignore the clock time.\<close>

definition local_date :: "timezone \<Rightarrow> int \<Rightarrow> int \<times> int \<times> int \<times> int" where
  "local_date tz now = (let t = localtime tz now in (tm_year t + 1900, tm_mon t + 1, tm_mday t, tm_wday t))"

definition next_local_at :: "timezone \<Rightarrow> int \<Rightarrow> int \<Rightarrow> int \<Rightarrow> int" where
  "next_local_at tz after hh mm =
     (let (y, mo, d, w) = local_date tz after;
          cand = make_local_epoch tz y mo d hh mm;
          cand2 = make_local_epoch tz y mo (d + 1) hh mm
      in if after < cand then cand else if after < cand2 then cand2 else 0)"

definition next_local_weekday_at :: "timezone \<Rightarrow> int \<Rightarrow> int \<Rightarrow> int \<Rightarrow> int \<Rightarrow> int" where
  "next_local_weekday_at tz after target_wday hh mm =
     (let (y, mo, d, w) = local_date tz after;
          delta = cmod (target_wday - w + 7) 7;
          cand = make_local_epoch tz y mo (d + delta) hh mm;
          cand2 = make_local_epoch tz y mo (d + delta + 7) hh mm
      in if after < cand then cand else if after < cand2 then cand2 else 0)"

definition two :: "int \<Rightarrow> string" where
  "two n = (if n < 10 then ''0'' else []) @ to_string n"

definition format_local :: "timezone \<Rightarrow> int \<Rightarrow> string" where
  "format_local tz epoch =
     (let t = localtime tz epoch in
      to_string (tm_year t + 1900) @ ''-'' @ two (tm_mon t + 1) @ ''-'' @ two (tm_mday t)
      @ '' '' @ two (tm_hour t) @ '':'' @ two (tm_min t))"

section \<open>Recurrence fields\<close>

definition dq :: string where "dq = [CHR 0x22]"

definition parse_json_str_field :: "string \<Rightarrow> string \<Rightarrow> string" where
  "parse_json_str_field obj key =
     (let needle = dq @ key @ dq @ '':'' @ dq in
      case find_sub needle obj of
        None \<Rightarrow> []
      | Some p \<Rightarrow>
          (let rest = drop (p + length needle) obj in
           if CHR 0x22 \<in> set rest then takeWhile (\<lambda>c. c \<noteq> CHR 0x22) rest else []))"

text \<open>The digit loop, which gives up (\<open>None\<close>) before the value leaves \<open>int64_t\<close>.\<close>

fun int_field_digits :: "int \<Rightarrow> string \<Rightarrow> int option" where
  "int_field_digits v [] = Some v"
| "int_field_digits v (c # cs) =
     (if \<not> is_digit c then Some v
      else if cdiv (int64_max - digit_val c) 10 < v then None
      else int_field_digits (v * 10 + digit_val c) cs)"

definition parse_json_int_field :: "string \<Rightarrow> string \<Rightarrow> int" where
  "parse_json_int_field obj key =
     (let needle = dq @ key @ dq @ '':'' in
      case find_sub needle obj of
        None \<Rightarrow> 0
      | Some p \<Rightarrow>
          (let rest = dropWhile is_space (drop (p + length needle) obj);
               neg = (rest \<noteq> [] \<and> hd rest = CHR ''-'')
           in case int_field_digits 0 (if neg then tl rest else rest) of
                None \<Rightarrow> 0
              | Some v \<Rightarrow> if neg then - v else v))"

definition parse_count :: "string \<Rightarrow> int option" where
  "parse_count s =
     (if s = [] then None
      else case stoll s of
        None \<Rightarrow> None
      | Some (v, r) \<Rightarrow> if r \<noteq> [] \<or> v < 0 then None else Some v)"

definition add_seconds :: "int \<Rightarrow> int \<Rightarrow> int \<Rightarrow> int option" where
  "add_seconds now n unit =
     (if n < 0 \<or> unit \<le> 0 then None
      else if n = 0 then Some now
      else if cdiv int64_max unit < n then None
      else let delta = n * unit in
        if 0 < now \<and> int64_max - now < delta then None
        else if now < 0 \<and> delta < int64_min - now then None
        else Some (now + delta))"

definition kFireTimeErr :: string where "kFireTimeErr = ''could not compute local fire time''"

section \<open>Phrases\<close>

datatype spec_kind = Once | Recurring

record ScheduleSpec =
  sp_kind :: spec_kind
  sp_fire_at :: int
  sp_recur_json :: string
  sp_next_fire_at :: int
  sp_normalized :: string

type_synonym parse_result = "string + ScheduleSpec"

definition once_spec :: "int \<Rightarrow> string \<Rightarrow> ScheduleSpec" where
  "once_spec t n = \<lparr>sp_kind = Once, sp_fire_at = t, sp_recur_json = [], sp_next_fire_at = t, sp_normalized = n\<rparr>"

definition recur_spec :: "string \<Rightarrow> int \<Rightarrow> string \<Rightarrow> ScheduleSpec" where
  "recur_spec j t n = \<lparr>sp_kind = Recurring, sp_fire_at = 0, sp_recur_json = j, sp_next_fire_at = t, sp_normalized = n\<rparr>"

definition quoted :: "string \<Rightarrow> string" where "quoted s = CHR 0x27 # s @ [CHR 0x27]"

text \<open>The unit of \<open>(u1|u2|...)s?\<close>.\<close>

definition unit_of :: "string list \<Rightarrow> string \<Rightarrow> string option" where
  "unit_of units w = find (\<lambda>u. w = u \<or> w = u @ ''s'') units"

definition is_number_word :: "string \<Rightarrow> bool" where
  "is_number_word w \<longleftrightarrow> w \<noteq> [] \<and> list_all is_digit w"

text \<open>
  One definition per form; \<open>None\<close> when its regular expression does not match (or, for \<open>at\<close>,
  when the control flow falls through).
\<close>

definition in_mult :: "string \<Rightarrow> int \<times> string" where
  "in_mult u = (if u = ''hour'' \<or> u = ''h'' then (3600, ''hours'')
                else if u = ''day'' \<or> u = ''d'' then (86400, ''days'')
                else if u = ''week'' \<or> u = ''w'' then (7 * 86400, ''weeks'')
                else (60, ''minutes''))"

definition try_in :: "timezone \<Rightarrow> string list \<Rightarrow> int \<Rightarrow> parse_result option" where
  "try_in tz ws now =
     (case ws of
        [a, num, w] \<Rightarrow>
          (case unit_of [''minute'', ''min'', ''m'', ''hour'', ''h'', ''day'', ''d'', ''week'', ''w''] w of
             None \<Rightarrow> None
           | Some u \<Rightarrow>
               if a = ''in'' \<and> is_number_word num then
                 Some (case parse_count num of
                         None \<Rightarrow> Inl ''interval too large''
                       | Some n \<Rightarrow>
                           (case add_seconds now n (fst (in_mult u)) of
                              None \<Rightarrow> Inl ''interval too large''
                            | Some fire_at \<Rightarrow>
                                Inr (once_spec fire_at (''in '' @ to_string n @ '' '' @ snd (in_mult u) @ '' (''
                                       @ format_local tz fire_at @ '')''))))
               else None)
      | _ \<Rightarrow> None)"

definition try_at :: "timezone \<Rightarrow> string list \<Rightarrow> int \<Rightarrow> parse_result option" where
  "try_at tz ws now =
     (case ws of
        [a, t] \<Rightarrow>
          (if a = ''at'' then
             (case parse_hhmm t of
                None \<Rightarrow> None
              | Some (hh, mm) \<Rightarrow>
                  (let cand = next_local_at tz now hh mm in
                   Some (if cand \<le> 0 then Inl kFireTimeErr
                         else Inr (once_spec cand (''at '' @ format_local tz cand)))))
           else None)
      | _ \<Rightarrow> None)"

text \<open>An optional \<open>(?:\s+at\s+(\d{1,2}:\d{2}))?\<close> at the end: the captured time, empty when absent.\<close>

definition at_suffix :: "string list \<Rightarrow> string option" where
  "at_suffix ws =
     (case ws of
        [] \<Rightarrow> Some []
      | [a, t] \<Rightarrow> if a = ''at'' \<and> hhmm_shape t \<noteq> None then Some t else None
      | _ \<Rightarrow> None)"

definition time_or_nine :: "string \<Rightarrow> (int \<times> int) option" where
  "time_or_nine t = (if t = [] then Some (9, 0) else parse_hhmm t)"

definition try_tomorrow :: "timezone \<Rightarrow> string list \<Rightarrow> int \<Rightarrow> parse_result option" where
  "try_tomorrow tz ws now =
     (case ws of
        a # rest \<Rightarrow>
          (if a \<noteq> ''tomorrow'' then None
           else case at_suffix rest of
             None \<Rightarrow> None
           | Some t \<Rightarrow>
               Some (case time_or_nine t of
                       None \<Rightarrow> Inl (''invalid HH:MM after '' @ quoted ''tomorrow at'')
                     | Some (hh, mm) \<Rightarrow>
                         (let (y, mo, d, w) = local_date tz now;
                              cand = make_local_epoch tz y mo (d + 1) hh mm
                          in if cand \<le> 0 then Inl kFireTimeErr
                             else Inr (once_spec cand (''tomorrow at '' @ format_local tz cand)))))
      | _ \<Rightarrow> None)"

definition ellipsis :: string where "ellipsis = [CHR 0xE2, CHR 0x80, CHR 0xA6]"

definition try_on :: "timezone \<Rightarrow> string list \<Rightarrow> int \<Rightarrow> parse_result option" where
  "try_on tz ws now =
     (case ws of
        a # date # rest \<Rightarrow>
          (if a \<noteq> ''on'' \<or> ymd_shape date = None then None
           else case at_suffix rest of
             None \<Rightarrow> None
           | Some t \<Rightarrow>
               Some (case parse_ymd tz date of
                       None \<Rightarrow> Inl ''invalid YYYY-MM-DD''
                     | Some (y, mo, d) \<Rightarrow>
                         (case time_or_nine t of
                            None \<Rightarrow> Inl (''invalid HH:MM after '' @ quoted (''on '' @ ellipsis @ '' at''))
                          | Some (hh, mm) \<Rightarrow>
                              (let cand = make_local_epoch tz y mo d hh mm in
                               if cand \<le> 0 then Inl kFireTimeErr
                               else if cand \<le> now then Inl ''scheduled time is in the past''
                               else Inr (once_spec cand (''on '' @ format_local tz cand))))))
      | _ \<Rightarrow> None)"

definition try_hourly :: "string \<Rightarrow> int \<Rightarrow> parse_result option" where
  "try_hourly phrase now =
     (if phrase = ''every hour'' \<or> phrase = ''hourly'' then
        Some (case add_seconds now 1 3600 of
                None \<Rightarrow> Inl ''interval too large''
              | Some t \<Rightarrow> Inr (recur_spec (''{'' @ dq @ ''every'' @ dq @ '':'' @ dq @ ''hour'' @ dq @ ''}'') t ''every hour''))
      else None)"

definition every_n_json :: "bool \<Rightarrow> int \<Rightarrow> string" where
  "every_n_json is_hour n =
     ''{'' @ dq @ (if is_hour then ''every_hours'' else ''every_minutes'') @ dq @ '':'' @ to_string n @ ''}''"

definition try_every_n :: "string list \<Rightarrow> int \<Rightarrow> parse_result option" where
  "try_every_n ws now =
     (case ws of
        [a, num, w] \<Rightarrow>
          (case unit_of [''minute'', ''min'', ''m'', ''hour'', ''h''] w of
             None \<Rightarrow> None
           | Some u \<Rightarrow>
               if a = ''every'' \<and> is_number_word num then
                 Some (case parse_count num of
                         None \<Rightarrow> Inl ''interval too large''
                       | Some n \<Rightarrow>
                           if n < 1 then Inl ''interval must be >= 1''
                           else let is_hour = (u = ''hour'' \<or> u = ''h'') in
                             case add_seconds now n (if is_hour then 3600 else 60) of
                               None \<Rightarrow> Inl ''interval too large''
                             | Some t \<Rightarrow>
                                 Inr (recur_spec (every_n_json is_hour n) t
                                   (''every '' @ to_string n @ '' '' @ (if is_hour then ''hours'' else ''minutes''))))
               else None)
      | _ \<Rightarrow> None)"

text \<open>The words after a leading \<open>every day\<close> or \<open>daily\<close> (likewise for \<open>week\<close>).\<close>

definition after_every :: "string \<Rightarrow> string \<Rightarrow> string list \<Rightarrow> string list option" where
  "after_every unit adverb ws =
     (case ws of
        a # rest \<Rightarrow>
          (if a = adverb then Some rest
           else case rest of b # rest2 \<Rightarrow> if a = ''every'' \<and> b = unit then Some rest2 else None | [] \<Rightarrow> None)
      | [] \<Rightarrow> None)"

definition day_json :: "int \<Rightarrow> int \<Rightarrow> string" where
  "day_json hh mm =
     ''{'' @ dq @ ''every'' @ dq @ '':'' @ dq @ ''day'' @ dq @ '','' @ dq @ ''at'' @ dq @ '':'' @ dq
     @ two hh @ '':'' @ two mm @ dq @ ''}''"

definition try_daily :: "timezone \<Rightarrow> string list \<Rightarrow> int \<Rightarrow> parse_result option" where
  "try_daily tz ws now =
     (case after_every ''day'' ''daily'' ws of
        None \<Rightarrow> None
      | Some rest \<Rightarrow>
          (case at_suffix rest of
             None \<Rightarrow> None
           | Some t \<Rightarrow>
               Some (case time_or_nine t of
                       None \<Rightarrow> Inl ''invalid HH:MM''
                     | Some (hh, mm) \<Rightarrow>
                         (let cand = next_local_at tz now hh mm in
                          if cand \<le> 0 then Inl kFireTimeErr
                          else Inr (recur_spec (day_json hh mm) cand
                                 (''every day at '' @ two hh @ '':'' @ two mm))))))"

definition is_az_word :: "string \<Rightarrow> bool" where
  "is_az_word w \<longleftrightarrow> w \<noteq> [] \<and> list_all (\<lambda>c. 97 \<le> code c \<and> code c \<le> 122) w"

text \<open>The two expressions of the weekly forms: the weekday and time groups, empty when absent.\<close>

definition match_weekly :: "string list \<Rightarrow> (string \<times> string) option" where
  "match_weekly ws =
     (case after_every ''week'' ''weekly'' ws of
        None \<Rightarrow> None
      | Some rest \<Rightarrow>
          (case rest of
             a # w # rest2 \<Rightarrow>
               (if a = ''on'' \<and> is_az_word w
                then map_option (\<lambda>t. (w, t)) (at_suffix rest2)
                else map_option (\<lambda>t. ([], t)) (at_suffix rest))
           | _ \<Rightarrow> map_option (\<lambda>t. ([], t)) (at_suffix rest)))"

definition match_weekday :: "string list \<Rightarrow> (string \<times> string) option" where
  "match_weekday ws =
     (case ws of
        a # w # rest \<Rightarrow>
          (if a = ''every'' \<and> w \<in> set (weekday_names @ weekday_longs)
           then map_option (\<lambda>t. (w, t)) (at_suffix rest) else None)
      | _ \<Rightarrow> None)"

definition week_json :: "int \<Rightarrow> int \<Rightarrow> int \<Rightarrow> string" where
  "week_json wd hh mm =
     ''{'' @ dq @ ''every'' @ dq @ '':'' @ dq @ ''week'' @ dq @ '','' @ dq @ ''day'' @ dq @ '':'' @ dq
     @ lower (weekday_short wd) @ dq @ '','' @ dq @ ''at'' @ dq @ '':'' @ dq
     @ two hh @ '':'' @ two mm @ dq @ ''}''"

definition try_weekly :: "timezone \<Rightarrow> string \<Rightarrow> int \<Rightarrow> parse_result option" where
  "try_weekly tz phrase now =
     (let (wd_str, time_str) =
        (case match_weekly (words phrase) of
           Some p \<Rightarrow> p
         | None \<Rightarrow> (case match_weekday (words phrase) of Some p \<Rightarrow> p | None \<Rightarrow> ([], [])))
      in if wd_str \<noteq> [] \<or> phrase = ''every week'' \<or> phrase = ''weekly'' then
           Some (let wd = (if wd_str = [] then 1 else weekday_to_int wd_str) in
                 if wd < 0 then Inl (''unrecognised weekday: '' @ wd_str)
                 else case time_or_nine time_str of
                   None \<Rightarrow> Inl ''invalid HH:MM''
                 | Some (hh, mm) \<Rightarrow>
                     (let cand = next_local_weekday_at tz now wd hh mm in
                      if cand \<le> 0 then Inl kFireTimeErr
                      else Inr (recur_spec (week_json wd hh mm) cand
                             (''every '' @ weekday_short wd @ '' at '' @ two hh @ '':'' @ two mm))))
         else None)"

fun first_match :: "'a option list \<Rightarrow> 'a \<Rightarrow> 'a" where
  "first_match [] d = d"
| "first_match (Some x # xs) d = x"
| "first_match (None # xs) d = first_match xs d"

definition parse_schedule_phrase :: "timezone \<Rightarrow> string \<Rightarrow> int \<Rightarrow> parse_result" where
  "parse_schedule_phrase tz phrase_in now =
     (let phrase = collapse_ws (trim (lower phrase_in)); ws = words phrase in
      if phrase = [] then Inl ''empty schedule phrase''
      else first_match
        [try_in tz ws now, try_at tz ws now, try_tomorrow tz ws now, try_on tz ws now,
         try_hourly phrase now, try_every_n ws now, try_daily tz ws now, try_weekly tz phrase now]
        (Inl ''unrecognised schedule phrase''))"

section \<open>Recurrence and status gates\<close>

definition or_zero :: "int option \<Rightarrow> int" where
  "or_zero r = (case r of Some t \<Rightarrow> t | None \<Rightarrow> 0)"

definition next_fire_for_recur :: "timezone \<Rightarrow> string \<Rightarrow> int \<Rightarrow> int" where
  "next_fire_for_recur tz recur_json after =
     (if recur_json = [] then 0
      else let ev_min = parse_json_int_field recur_json ''every_minutes'' in
        if 0 < ev_min then or_zero (add_seconds after ev_min 60)
        else let ev_hr = parse_json_int_field recur_json ''every_hours'' in
          if 0 < ev_hr then or_zero (add_seconds after ev_hr 3600)
          else let every = parse_json_str_field recur_json ''every''; at = parse_json_str_field recur_json ''at'' in
            case time_or_nine at of
              None \<Rightarrow> 0
            | Some (hh, mm) \<Rightarrow>
                if every = ''hour'' then or_zero (add_seconds after 1 3600)
                else if every = ''day'' then next_local_at tz after hh mm
                else if every = ''week'' then
                  (let wd = weekday_to_int (parse_json_str_field recur_json ''day'') in
                   if wd < 0 then 0 else next_local_weekday_at tz after wd hh mm)
                else 0)"

definition schedule_pause_block_reason :: "string \<Rightarrow> string" where
  "schedule_pause_block_reason status =
     (if status = ''active'' \<or> status = ''running'' \<or> status = ''paused'' then []
      else if status = ''completed'' then ''is completed and cannot be paused''
      else if status = ''failed'' then ''is failed and cannot be paused''
      else if status = ''canceled'' then ''is canceled''
      else ''has status '' @ quoted status @ '' and cannot be paused'')"

definition schedule_resume_block_reason :: "string \<Rightarrow> string" where
  "schedule_resume_block_reason status =
     (if status = ''paused'' then []
      else if status = ''running'' then ''is running; wait for completion before resuming''
      else if status = ''completed'' then ''is completed; recreate the schedule to run it again''
      else if status = ''failed'' then ''is failed; recreate the schedule to retry''
      else if status = ''canceled'' then ''is canceled''
      else if status = ''active'' then ''is already active''
      else ''has status '' @ quoted status @ '' and cannot be resumed'')"

section \<open>Lemmas\<close>

lemma find_sub_absent: "CHR 0x22 \<notin> set s \<Longrightarrow> find_sub (CHR 0x22 # n) s = None"
  by (induction s) auto

lemma dq_not_digit: "is_digit c \<Longrightarrow> c \<noteq> CHR 0x22 \<and> CHR 0x22 \<noteq> c"
  by (auto simp: is_digit_def)

lemma dq_notin_digits: "list_all is_digit s \<Longrightarrow> CHR 0x22 \<notin> set s"
  using dq_not_digit by (auto simp: list_all_iff)

lemma add_seconds_Some:
  assumes "add_seconds now n unit = Some t" "0 < n" "0 < unit"
  shows "t = now + n * unit" "now < t"
proof -
  show "t = now + n * unit" using assms by (auto simp: add_seconds_def Let_def split: if_splits)
  then show "now < t" using assms by simp
qed

lemma next_local_at_future: "next_local_at tz a hh mm = 0 \<or> a < next_local_at tz a hh mm"
  by (auto simp: next_local_at_def Let_def split: prod.splits)

lemma next_local_weekday_at_future:
  "next_local_weekday_at tz a wd hh mm = 0 \<or> a < next_local_weekday_at tz a wd hh mm"
  by (auto simp: next_local_weekday_at_def Let_def split: prod.splits)

text \<open>Numbers that a phrase can name come back from the recurrence field.\<close>

lemma digit_val_bounds: "is_digit c \<Longrightarrow> 0 \<le> digit_val c \<and> digit_val c \<le> 9"
  by (auto simp: is_digit_def digit_val_def)

lemma int_field_digits_value:
  assumes "list_all is_digit ds" "0 \<le> v" "v * 10 ^ length ds + digits_val ds \<le> int64_max" "\<not> is_digit c"
  shows "int_field_digits v (ds @ c # r) = Some (v * 10 ^ length ds + digits_val ds)"
  using assms
proof (induction ds arbitrary: v)
  case (Cons d ds)
  let ?v = "v * 10 + digit_val d"
  have e: "v * 10 ^ length (d # ds) + digits_val (d # ds) = ?v * 10 ^ length ds + digits_val ds"
    using digits_val_append [of "[d]" ds] by (simp add: algebra_simps)
  have nn: "0 \<le> digits_val ds" "0 \<le> ?v"
    using Cons.prems digits_val_nonneg digit_val_bounds by simp_all
  have "?v \<le> ?v * 10 ^ length ds" using nn(2) by (simp add: mult_le_cancel_left1)
  then have le: "?v \<le> int64_max" using Cons.prems(3) nn unfolding e by linarith
  have b: "0 \<le> digit_val d" "digit_val d \<le> 9" using Cons.prems(1) digit_val_bounds by simp_all
  then have "v \<le> cdiv (int64_max - digit_val d) 10"
    using le by (subst cdiv_ge_iff) (simp_all add: int_limits)
  then have "\<not> cdiv (int64_max - digit_val d) 10 < v" by linarith
  then show ?case using Cons.IH [of ?v] Cons.prems nn e by simp
qed simp

lemma int_field_to_string:
  assumes "0 \<le> n" "n \<le> int64_max" "\<not> is_digit c"
  shows "int_field_digits 0 (to_string n @ c # r) = Some n"
  using int_field_digits_value [OF nat_digits_all_digits, of 0 "nat n" c r] assms
  by (simp add: to_string_def digits_val_nat_digits)

lemma to_string_start:
  "0 \<le> n \<Longrightarrow> to_string n \<noteq> [] \<and> is_digit (hd (to_string n)) \<and> list_all is_digit (to_string n)"
  using nat_digits_all_digits [of "nat n"] nat_digits_ne [of "nat n"]
  by (cases "nat_digits (nat n)") (auto simp: to_string_def)

lemma digit_not_space: "is_digit c \<Longrightarrow> \<not> is_space c \<and> c \<noteq> CHR ''-''"
  by (auto simp: is_digit_def is_space_def)

lemma int_field_every:
  assumes "0 \<le> n" "n \<le> int64_max"
  shows "parse_json_int_field (CHR ''{'' # dq @ key @ dq @ '':'' @ to_string n @ ''}'') key = n"
proof -
  let ?needle = "dq @ key @ dq @ '':''" and ?tail = "to_string n @ ''}''"
  note ts = to_string_start [OF assms(1)]
  have "find_sub ?needle (CHR ''{'' # ?needle @ ?tail) = Some 1"
    using find_sub_prefix [of ?needle "?needle @ ?tail"] by (simp add: dq_def)
  moreover have "dropWhile is_space ?tail = ?tail" "hd ?tail \<noteq> CHR ''-''"
    using ts digit_not_space by (cases "to_string n"; auto)+
  ultimately show ?thesis
    using int_field_to_string [OF assms, of "CHR ''}''" "[]"]
    by (simp add: parse_json_int_field_def Let_def is_digit_def)
qed

lemma two_digits:
  assumes "0 \<le> n" "n < 100"
  obtains a b where "two n = [a, b]" "is_digit a" "is_digit b" "digits_val [a, b] = n"
proof (cases "n < 10")
  case True
  then have "two n = [CHR ''0'', char_of (48 + nat n)]"
    using assms by (simp add: two_def to_string_def nat_digits.simps)
  moreover have "is_digit (char_of (48 + nat n))" using True assms by (intro is_digit_char) simp
  moreover have "digits_val [CHR ''0'', char_of (48 + nat n)] = n"
    using True assms by (simp add: digits_val_def digit_val_def)
  ultimately show ?thesis using that by (simp add: is_digit_def)
next
  case False
  then have d: "nat n div 10 < 10" "\<not> nat n < 10" using assms by simp_all
  then have "two n = [char_of (48 + nat n div 10), char_of (48 + nat n mod 10)]"
    using assms False by (simp add: two_def to_string_def nat_digits.simps [of "nat n"] nat_digits.simps [of "nat n div 10"])
  moreover have "is_digit (char_of (48 + nat n div 10))" "is_digit (char_of (48 + nat n mod 10))"
    using d by (intro is_digit_char; simp)+
  moreover have "digits_val [char_of (48 + nat n div 10), char_of (48 + nat n mod 10)] = n"
  proof -
    have "nat n = nat n div 10 * 10 + nat n mod 10" by simp
    then have "int (nat n) = int (nat n div 10) * 10 + int (nat n mod 10)"
      by (metis of_nat_add of_nat_mult of_nat_numeral)
    then show ?thesis using d assms by (simp add: digits_val_def digit_val_def)
  qed
  ultimately show ?thesis using that by blast
qed

lemma parse_hhmm_two:
  assumes "0 \<le> hh" "hh < 24" "0 \<le> mm" "mm < 60"
  shows "parse_hhmm (two hh @ '':'' @ two mm) = Some (hh, mm)"
proof -
  obtain a b where h: "two hh = [a, b]" "is_digit a" "is_digit b" "digits_val [a, b] = hh"
    using assms by (elim two_digits) auto
  obtain c d where m: "two mm = [c, d]" "is_digit c" "is_digit d" "digits_val [c, d] = mm"
    using assms by (elim two_digits [of mm]) auto
  have "\<not> is_digit (CHR '':'')" by (simp add: is_digit_def)
  then show ?thesis using h m assms by (simp add: parse_hhmm_def hhmm_shape_def)
qed

lemma parse_hhmm_range: "parse_hhmm s = Some (hh, mm) \<Longrightarrow> 0 \<le> hh \<and> hh < 24 \<and> 0 \<le> mm \<and> mm < 60"
proof -
  assume "parse_hhmm s = Some (hh, mm)"
  then obtain h m where hm: "hhmm_shape s = Some (h, m)" "hh = digits_val h" "mm = digits_val m" "hh < 24" "mm < 60"
    by (auto simp: parse_hhmm_def split: option.splits if_splits)
  then have "list_all is_digit h" "list_all is_digit m"
    by (auto simp: hhmm_shape_def Let_def list_all_iff split: if_splits dest: set_takeWhileD)
  then show ?thesis using hm digits_val_nonneg by simp
qed

lemma time_or_nine_range: "time_or_nine t = Some (hh, mm) \<Longrightarrow> 0 \<le> hh \<and> hh < 24 \<and> 0 \<le> mm \<and> mm < 60"
  using parse_hhmm_range by (auto simp: time_or_nine_def split: if_splits)

text \<open>What the recurrence object of each form means to the scheduler.\<close>

lemma other_int_field:
  assumes "0 \<le> n"
  shows "parse_json_int_field (every_n_json True n) ''every_minutes'' = 0"
proof -
  have "CHR 0x22 \<notin> set (to_string n @ ''}'')" using to_string_start [OF assms] dq_notin_digits by auto
  then show ?thesis
    using find_sub_absent [of "to_string n @ ''}''"]
    by (simp add: parse_json_int_field_def every_n_json_def Let_def dq_def)
qed

lemma recur_every_n:
  assumes "1 \<le> n" "n \<le> int64_max"
  shows "next_fire_for_recur tz (every_n_json h n) a = or_zero (add_seconds a n (if h then 3600 else 60))"
proof -
  have m: "parse_json_int_field (every_n_json False n) ''every_minutes'' = n"
    "parse_json_int_field (every_n_json True n) ''every_hours'' = n"
    using int_field_every [of n "''every_minutes''"] int_field_every [of n "''every_hours''"] assms
    by (simp_all add: every_n_json_def)
  have "every_n_json h n \<noteq> []" by (simp add: every_n_json_def)
  then show ?thesis
    using assms m other_int_field [of n] by (cases h) (simp_all add: next_fire_for_recur_def Let_def)
qed

definition hour_json :: string where
  "hour_json = ''{'' @ dq @ ''every'' @ dq @ '':'' @ dq @ ''hour'' @ dq @ ''}''"

lemma recur_hour: "next_fire_for_recur tz hour_json a = or_zero (add_seconds a 1 3600)"
  by (simp add: next_fire_for_recur_def hour_json_def dq_def Let_def parse_json_int_field_def
      parse_json_str_field_def time_or_nine_def)

lemma recur_day:
  assumes "0 \<le> hh" "hh < 24" "0 \<le> mm" "mm < 60"
  shows "next_fire_for_recur tz (day_json hh mm) a = next_local_at tz a hh mm"
proof -
  obtain p q where h: "two hh = [p, q]" "is_digit p" "is_digit q"
    using assms by (elim two_digits) auto
  obtain r s where m: "two mm = [r, s]" "is_digit r" "is_digit s"
    using assms by (elim two_digits [of mm]) auto
  have t: "time_or_nine [p, q, CHR '':'', r, s] = Some (hh, mm)"
    using parse_hhmm_two [OF assms] h m by (simp add: time_or_nine_def)
  show ?thesis
    using h(2,3) m(2,3) t [unfolded time_or_nine_def] t dq_not_digit
    by (simp add: next_fire_for_recur_def day_json_def h(1) m(1) dq_def Let_def parse_json_int_field_def
      parse_json_str_field_def)
qed

lemma lower_weekday_short:
  "lower (weekday_short 0) = ''sun''" "weekday_to_int ''sun'' = 0"
  "lower (weekday_short 1) = ''mon''" "weekday_to_int ''mon'' = 1"
  "lower (weekday_short 2) = ''tue''" "weekday_to_int ''tue'' = 2"
  "lower (weekday_short 3) = ''wed''" "weekday_to_int ''wed'' = 3"
  "lower (weekday_short 4) = ''thu''" "weekday_to_int ''thu'' = 4"
  "lower (weekday_short 5) = ''fri''" "weekday_to_int ''fri'' = 5"
  "lower (weekday_short 6) = ''sat''" "weekday_to_int ''sat'' = 6"
  by code_simp+

lemma recur_week:
  assumes "0 \<le> hh" "hh < 24" "0 \<le> mm" "mm < 60" "0 \<le> wd" "wd \<le> 6"
  shows "next_fire_for_recur tz (week_json wd hh mm) a = next_local_weekday_at tz a wd hh mm"
proof -
  obtain p q where h: "two hh = [p, q]" "is_digit p" "is_digit q"
    using assms by (elim two_digits) auto
  obtain r s where m: "two mm = [r, s]" "is_digit r" "is_digit s"
    using assms by (elim two_digits [of mm]) auto
  have t: "time_or_nine [p, q, CHR '':'', r, s] = Some (hh, mm)"
    using parse_hhmm_two [OF assms(1-4)] h m by (simp add: time_or_nine_def)
  have w: "\<exists>x y z. lower (weekday_short wd) = [x, y, z] \<and> x \<noteq> CHR 0x22 \<and> y \<noteq> CHR 0x22 \<and> z \<noteq> CHR 0x22
             \<and> weekday_to_int [x, y, z] = wd"
  proof -
    consider "wd = 0" | "wd = 1" | "wd = 2" | "wd = 3" | "wd = 4" | "wd = 5" | "wd = 6"
      using assms(5,6) by linarith
    then show ?thesis
      by cases (simp_all add: lower_weekday_short)
  qed
  then obtain x y z where xyz: "lower (weekday_short wd) = [x, y, z]" "x \<noteq> CHR 0x22" "y \<noteq> CHR 0x22" "z \<noteq> CHR 0x22"
    "weekday_to_int [x, y, z] = wd" by blast
  show ?thesis
    using h(2,3) m(2,3) t dq_not_digit xyz(2-5) xyz(2-4) [symmetric] assms(5)
    by (simp add: next_fire_for_recur_def week_json_def h(1) m(1) xyz(1) dq_def Let_def parse_json_int_field_def
      parse_json_str_field_def)
qed

subsection \<open>Normalised phrases\<close>

fun joinw :: "string list \<Rightarrow> string" where
  "joinw [] = []"
| "joinw [w] = w"
| "joinw (w # ws) = w @ '' '' @ joinw ws"

lemma space_is_space [simp]: "is_space (CHR '' '')"
  by (simp add: is_space_def)

lemma collapse_word_or_nil:
  "list_all (\<lambda>c. \<not> is_space c) w \<Longrightarrow> foldl collapse_step (out, b) w = (out @ w, if w = [] then b else False)"
  by (induction w arbitrary: out b) (simp_all add: collapse_step_def)

lemma collapse_word:
  "w \<noteq> [] \<Longrightarrow> list_all (\<lambda>c. \<not> is_space c) w \<Longrightarrow> foldl collapse_step (out, b) w = (out @ w, False)"
  by (simp add: collapse_word_or_nil)

lemma collapse_spaces:
  "sp \<noteq> [] \<Longrightarrow> list_all is_space sp \<Longrightarrow>
     foldl collapse_step (out, b) sp = (if b \<or> out = [] then out else out @ '' '', True)"
proof (induction sp arbitrary: out b)
  case (Cons c sp)
  then show ?case by (cases "sp = []") (auto simp: collapse_step_def)
qed simp

lemma words_unfold:
  assumes "dropWhile is_space s \<noteq> []"
  obtains sp w rest where "s = sp @ w @ rest" "list_all is_space sp" "w \<noteq> []" "list_all (\<lambda>c. \<not> is_space c) w"
    "rest = [] \<or> is_space (hd rest)" "words s = w # words rest"
    "rest = dropWhile (\<lambda>c. \<not> is_space c) (dropWhile is_space s)"
proof
  let ?d = "dropWhile is_space s"
  let ?w = "takeWhile (\<lambda>c. \<not> is_space c) ?d" and ?r = "dropWhile (\<lambda>c. \<not> is_space c) ?d"
  show "s = takeWhile is_space s @ ?w @ ?r" by simp
  show "list_all is_space (takeWhile is_space s)" by (auto simp: list_all_iff dest: set_takeWhileD)
  show "?w \<noteq> []" using assms hd_dropWhile [OF assms] by (cases ?d) auto
  show "list_all (\<lambda>c. \<not> is_space c) ?w" by (auto simp: list_all_iff dest: set_takeWhileD)
  show "?r = [] \<or> is_space (hd ?r)" using hd_dropWhile [of "\<lambda>c. \<not> is_space c" ?d] by auto
  show "words s = ?w # words ?r" using assms by (subst words.simps) simp
qed simp

lemma words_blank: "dropWhile is_space s = [] \<Longrightarrow> words s = []"
  by (subst words.simps) simp

lemma joinw_Cons: "joinw (w # ws) = (if ws = [] then w else w @ '' '' @ joinw ws)"
  by (cases ws) simp_all

text \<open>The state of the collapsing loop after \<open>s\<close>, up to trailing blanks.\<close>

definition rstrip :: "string \<Rightarrow> string" where
  "rstrip s = rev (dropWhile (\<lambda>c. c = CHR '' '') (rev s))"

lemma rstrip_snoc_space [simp]: "rstrip (s @ '' '') = rstrip s"
  by (simp add: rstrip_def)

lemma rstrip_id: "s = [] \<or> last s \<noteq> CHR '' '' \<Longrightarrow> rstrip s = s"
  by (cases s rule: rev_cases) (auto simp: rstrip_def)

lemma collapse_loop:
  assumes "out = [] \<or> (last out \<noteq> CHR '' '' \<and> (s = [] \<or> is_space (hd s)))"
  shows "rstrip (fst (foldl collapse_step (out, False) s)) =
     (if words s = [] then out else if out = [] then joinw (words s) else out @ '' '' @ joinw (words s))"
  using assms
proof (induction s arbitrary: out rule: words.induct)
  case (1 s)
  show ?case
  proof (cases "dropWhile is_space s = []")
    case True
    then have "list_all is_space s" by (simp add: list_all_iff dropWhile_eq_Nil_conv)
    then have "foldl collapse_step (out, False) s = (out, False) \<or>
        foldl collapse_step (out, False) s = (if out = [] then out else out @ '' '', True)"
      using collapse_spaces [of s out False] by (cases s) auto
    then show ?thesis using words_blank [OF True] "1.prems" rstrip_id [of out] by auto
  next
    case False
    then obtain sp w rest where d: "s = sp @ w @ rest" "list_all is_space sp" "w \<noteq> []"
      "list_all (\<lambda>c. \<not> is_space c) w" "rest = [] \<or> is_space (hd rest)" "words s = w # words rest"
      "rest = dropWhile (\<lambda>c. \<not> is_space c) (dropWhile is_space s)"
      by (rule words_unfold)
    define o1 where "o1 = (if out = [] then [] else out @ '' '')"
    have ne: "sp \<noteq> []" if "out \<noteq> []" using that "1.prems" d(1,3,4) by (cases sp; cases w) auto
    have "fst (foldl collapse_step (out, False) sp) = o1"
      using collapse_spaces [of sp out False] d(2) ne by (cases "sp = []") (auto simp: o1_def)
    then obtain b where "foldl collapse_step (out, False) (sp @ w) = (o1 @ w, False)"
      using collapse_word [OF d(3,4)] by (metis foldl_append prod.collapse)
    then have f: "foldl collapse_step (out, False) s = foldl collapse_step (o1 @ w, False) rest"
      unfolding d(1) by (metis append_assoc foldl_append)
    have "last (o1 @ w) \<noteq> CHR '' ''"
      using d(3,4) by (metis last_appendR last_in_set list_all_iff space_is_space)
    then have "rstrip (fst (foldl collapse_step (o1 @ w, False) rest)) =
        (if words rest = [] then o1 @ w else o1 @ w @ '' '' @ joinw (words rest))"
      using "1.IH" [OF False, of "o1 @ w"] d(3,5) unfolding d(7) [symmetric] by simp
    then show ?thesis unfolding f d(6) by (simp add: o1_def joinw_Cons)
  qed
qed

lemma collapse_ws_words: "collapse_ws s = joinw (words s)"
  using collapse_loop [of "[]" s] by (simp add: collapse_ws_def rstrip_def [symmetric])

lemma words_ok: "w \<in> set (words s) \<Longrightarrow> w \<noteq> [] \<and> list_all (\<lambda>c. \<not> is_space c) w"
proof (induction s rule: words.induct)
  case (1 s)
  show ?case
  proof (cases "dropWhile is_space s = []")
    case True
    then show ?thesis using "1.prems" by (simp add: words_blank)
  next
    case False
    from False show ?thesis
    proof (rule words_unfold)
      fix sp v rest
      assume v: "v \<noteq> []" "list_all (\<lambda>c. \<not> is_space c) v" "words s = v # words rest"
        and r: "rest = dropWhile (\<lambda>c. \<not> is_space c) (dropWhile is_space s)"
      then show ?thesis using "1.IH" [OF False] "1.prems" by auto
    qed
  qed
qed

lemma words_append_space: "list_all is_space sp \<Longrightarrow> words (s @ sp) = words s"
proof (induction s rule: words.induct)
  case (1 s)
  show ?case
  proof (cases "dropWhile is_space s = []")
    case True
    then have "dropWhile is_space (s @ sp) = []" using "1.prems" by (auto simp: list_all_iff dropWhile_eq_Nil_conv)
    then show ?thesis using True by (simp add: words_blank)
  next
    case False
    have a: "dropWhile is_space (s @ sp) = dropWhile is_space s @ sp" using False
      by (auto simp: dropWhile_append)
    let ?d = "dropWhile is_space s" and ?P = "\<lambda>c. \<not> is_space c"
    have b: "takeWhile ?P (?d @ sp) = takeWhile ?P ?d \<and> dropWhile ?P (?d @ sp) = dropWhile ?P ?d @ sp"
    proof (cases "list_all ?P ?d")
      case True
      have h: "sp = [] \<or> \<not> ?P (hd sp)" using "1.prems" by (cases sp) auto
      have tw: "takeWhile ?P ?d = ?d" "dropWhile ?P ?d = []"
        using True by (simp_all add: takeWhile_eq_all_conv dropWhile_eq_Nil_conv list_all_iff)
      show ?thesis
        unfolding takeWhile_append_neq [OF True h] dropWhile_append_neq [OF True h] tw by simp
    next
      case False
      then obtain x where "x \<in> set ?d" "\<not> ?P x" by (auto simp: list_all_iff)
      then show ?thesis by (simp add: takeWhile_append1 dropWhile_append1)
    qed
    have "words (s @ sp) = takeWhile ?P (?d @ sp) # words (dropWhile ?P (?d @ sp))"
      using words.simps [of "s @ sp", unfolded a] False by (simp only: append_is_Nil_conv if_False simp_thms)
    moreover have "words s = takeWhile ?P ?d # words (dropWhile ?P ?d)"
      using words.simps [of s] False by (simp only: if_False)
    ultimately show ?thesis using "1.IH" [OF False "1.prems"] b by (simp only:)
  qed
qed

lemma words_dropWhile: "words (dropWhile is_space s) = words s"
  by (subst (1 2) words.simps) (simp add: dropWhile_idem)

lemma words_trim: "words (trim s) = words s"
proof -
  let ?d = "dropWhile is_space s"
  have "?d = trim s @ rev (takeWhile is_space (rev ?d))"
    unfolding trim_def by (metis rev_append rev_rev_ident takeWhile_dropWhile_id)
  moreover have "list_all is_space (rev (takeWhile is_space (rev ?d)))"
    by (auto simp: list_all_iff dest: set_takeWhileD)
  ultimately show ?thesis using words_append_space words_dropWhile by metis
qed

lemma words_joinw:
  "list_all (\<lambda>w. w \<noteq> [] \<and> list_all (\<lambda>c. \<not> is_space c) w) ws \<Longrightarrow> words (joinw ws) = ws"
proof (induction ws)
  case Nil
  show ?case by (simp add: words_blank)
next
  case (Cons w ws)
  have w: "w \<noteq> []" "\<not> is_space (hd w)" using Cons.prems by (auto simp: neq_Nil_conv)
  let ?t = "if ws = [] then [] else '' '' @ joinw ws"
  have d: "dropWhile is_space (w @ ?t) = w @ ?t" using w by (cases w) simp_all
  have "takeWhile (\<lambda>c. \<not> is_space c) (w @ ?t) = w \<and> dropWhile (\<lambda>c. \<not> is_space c) (w @ ?t) = ?t"
    using Cons.prems by (auto intro!: takeWhile_append_neq dropWhile_append_neq simp: list_all_iff)
  moreover have "words ?t = ws" using Cons words_dropWhile [of "'' '' @ joinw ws"] words_dropWhile [of "joinw ws"]
    by (auto simp: words_blank)
  moreover have "words (w @ ?t) = takeWhile (\<lambda>c. \<not> is_space c) (w @ ?t) # words (dropWhile (\<lambda>c. \<not> is_space c) (w @ ?t))"
    using words.simps [of "w @ ?t", unfolded d] w(1) by (simp only: append_is_Nil_conv if_False simp_thms)
  ultimately have "words (w @ ?t) = w # ws" by simp
  then show ?case by (cases "ws = []") (simp_all add: joinw_Cons)
qed

text \<open>The phrase the forms are matched against, and its words.\<close>

lemma normal_phrase:
  "collapse_ws (trim (lower p)) = joinw (words (lower p))" "words (collapse_ws (trim (lower p))) = words (lower p)"
proof -
  show n: "collapse_ws (trim (lower p)) = joinw (words (lower p))"
    by (simp add: collapse_ws_words words_trim)
  show "words (collapse_ws (trim (lower p))) = words (lower p)"
    unfolding n using words_ok by (intro words_joinw) (auto simp: list_all_iff)
qed

lemma add_seconds_exact:
  assumes "0 \<le> now" "now \<le> int64_max" "0 \<le> n" "0 < unit"
  shows "add_seconds now n unit = (if now + n * unit \<le> int64_max then Some (now + n * unit) else None)"
proof (cases "n = 0")
  case False
  have "n \<le> cdiv int64_max unit \<longleftrightarrow> n * unit \<le> int64_max"
    using assms(4) by (intro cdiv_ge_iff) (simp_all add: int_limits)
  moreover have "0 < n * unit" using False assms by simp
  ultimately show ?thesis using False assms by (auto simp: add_seconds_def Let_def not_less)
qed (use assms in \<open>simp add: add_seconds_def\<close>)

lemma parse_count_to_string:
  assumes "0 \<le> n"
  shows "parse_count (to_string n) = (if n \<le> int64_max then Some n else None)" "is_number_word (to_string n)"
proof -
  note ts = to_string_start [OF assms]
  have tw: "takeWhile is_digit (to_string n) = to_string n" "dropWhile is_digit (to_string n) = []"
    using ts by (simp_all add: takeWhile_eq_all_conv dropWhile_eq_Nil_conv list_all_iff)
  have hd: "dropWhile is_space (to_string n) = to_string n" "hd (to_string n) \<noteq> CHR ''-''" "hd (to_string n) \<noteq> CHR ''+''"
    using ts digit_not_space by (cases "to_string n"; auto simp: is_digit_def)+
  have v: "digits_val (to_string n) = n" using assms by (simp add: to_string_def digits_val_nat_digits)
  have "strtol10 (to_string n) = Some (n, [])"
    using ts hd(2,3) v unfolding strtol10_def Let_def hd(1) by (simp add: tw)
  then show "parse_count (to_string n) = (if n \<le> int64_max then Some n else None)"
    using ts assms by (simp add: parse_count_def stoll_def in_int64_def int_limits)
  show "is_number_word (to_string n)" using ts by (simp add: is_number_word_def)
qed

lemma parse_count_range: "parse_count s = Some n \<Longrightarrow> 0 \<le> n \<and> n \<le> int64_max"
  by (auto simp: parse_count_def stoll_def in_int64_def split: option.splits if_splits)

lemma joinw_Nil_iff: "list_all (\<lambda>w. w \<noteq> []) ws \<Longrightarrow> joinw ws = [] \<longleftrightarrow> ws = []"
  by (cases ws) (auto simp: joinw_Cons)

lemma parse_by_words:
  "parse_schedule_phrase tz p now =
     (let ws = words (lower p); phrase = joinw ws in
      if ws = [] then Inl ''empty schedule phrase''
      else first_match
        [try_in tz ws now, try_at tz ws now, try_tomorrow tz ws now, try_on tz ws now,
         try_hourly phrase now, try_every_n ws now, try_daily tz ws now, try_weekly tz phrase now]
        (Inl ''unrecognised schedule phrase''))"
proof -
  have "joinw (words (lower p)) = [] \<longleftrightarrow> words (lower p) = []"
    using words_ok by (intro joinw_Nil_iff) (auto simp: list_all_iff)
  then show ?thesis using normal_phrase [of p] by (simp add: parse_schedule_phrase_def Let_def)
qed

text \<open>Which form a successful recurring parse came from.\<close>

lemma first_match_Inr:
  "first_match ms (Inl e) = Inr x \<Longrightarrow> \<exists>m \<in> set ms. m = Some (Inr x)"
  by (induction ms "Inl e :: 'a + 'b" rule: first_match.induct) auto

lemma try_once_kinds:
  "try_in tz ws now = Some (Inr sp) \<Longrightarrow> sp_kind sp = Once"
  "try_at tz ws now = Some (Inr sp) \<Longrightarrow> sp_kind sp = Once"
  "try_tomorrow tz ws now = Some (Inr sp) \<Longrightarrow> sp_kind sp = Once"
  "try_on tz ws now = Some (Inr sp) \<Longrightarrow> sp_kind sp = Once"
  by (auto simp: try_in_def try_at_def try_tomorrow_def try_on_def Let_def once_spec_def
      split: list.splits option.splits if_splits prod.splits sum.splits)

lemma try_hourly_recur: "try_hourly phrase now = Some (Inr sp) \<Longrightarrow>
    sp_recur_json sp = hour_json \<and> add_seconds now 1 3600 = Some (sp_next_fire_at sp)"
  by (auto simp: try_hourly_def hour_json_def recur_spec_def split: if_splits option.splits)

lemma try_every_n_recur:
  assumes "try_every_n ws now = Some (Inr sp)"
  obtains h n where "1 \<le> n" "n \<le> int64_max" "sp_recur_json sp = every_n_json h n"
    "add_seconds now n (if h then 3600 else 60) = Some (sp_next_fire_at sp)"
proof -
  from assms have "\<exists>num n. parse_count num = Some n \<and> \<not> n < 1 \<and>
      (sp_recur_json sp = every_n_json True n \<and> add_seconds now n 3600 = Some (sp_next_fire_at sp) \<or>
       sp_recur_json sp = every_n_json False n \<and> add_seconds now n 60 = Some (sp_next_fire_at sp))"
    unfolding try_every_n_def Let_def
    by (auto simp: recur_spec_def split: list.splits option.splits if_splits) blast+
  then obtain num n where c: "parse_count num = Some n" "\<not> n < 1"
    and r: "sp_recur_json sp = every_n_json True n \<and> add_seconds now n 3600 = Some (sp_next_fire_at sp) \<or>
       sp_recur_json sp = every_n_json False n \<and> add_seconds now n 60 = Some (sp_next_fire_at sp)" by blast
  have n: "1 \<le> n" "n \<le> int64_max" using c parse_count_range by auto
  from r show thesis using that [OF n, of True] that [OF n, of False] by auto
qed

lemma try_daily_recur:
  assumes "try_daily tz ws now = Some (Inr sp)"
  obtains hh mm where "0 \<le> hh" "hh < 24" "0 \<le> mm" "mm < 60" "sp_recur_json sp = day_json hh mm"
    "sp_next_fire_at sp = next_local_at tz now hh mm" "0 < sp_next_fire_at sp"
proof -
  from assms obtain t hh mm where t: "time_or_nine t = Some (hh, mm)" and
    sp: "sp = recur_spec (day_json hh mm) (next_local_at tz now hh mm) (''every day at '' @ two hh @ '':'' @ two mm)"
    and "0 < next_local_at tz now hh mm"
    unfolding try_daily_def Let_def by (auto split: option.splits if_splits)
  then show thesis using that [of hh mm] time_or_nine_range [OF t] by (simp add: recur_spec_def)
qed

lemma weekday_to_int_le: "weekday_to_int w \<le> 6"
proof (cases "find (\<lambda>i. lower w = weekday_names ! i \<or> lower w = weekday_longs ! i) [0..<7]")
  case (Some i)
  then have "i \<in> set [0..<7]" by (auto simp: find_Some_iff)
  then show ?thesis using Some by (simp add: weekday_to_int_def)
qed (simp add: weekday_to_int_def)

lemma try_weekly_recur:
  assumes "try_weekly tz phrase now = Some (Inr sp)"
  obtains wd hh mm where "0 \<le> wd" "wd \<le> 6" "0 \<le> hh" "hh < 24" "0 \<le> mm" "mm < 60"
    "sp_recur_json sp = week_json wd hh mm"
    "sp_next_fire_at sp = next_local_weekday_at tz now wd hh mm" "0 < sp_next_fire_at sp"
proof -
  obtain w t where wt: "(case match_weekly (words phrase) of
           Some p \<Rightarrow> p
         | None \<Rightarrow> (case match_weekday (words phrase) of Some p \<Rightarrow> p | None \<Rightarrow> ([], []))) = (w, t)" by fastforce
  let ?wd = "if w = [] then 1 else weekday_to_int w"
  from assms wt obtain hh mm where t: "0 \<le> ?wd" "time_or_nine t = Some (hh, mm)"
    and sp: "sp = recur_spec (week_json ?wd hh mm) (next_local_weekday_at tz now ?wd hh mm)
               (''every '' @ weekday_short ?wd @ '' at '' @ two hh @ '':'' @ two mm)"
      "0 < next_local_weekday_at tz now ?wd hh mm"
    unfolding try_weekly_def wt Let_def by (auto simp: not_less not_le split: option.splits if_splits)
  have "?wd \<le> 6" using weekday_to_int_le by simp
  then show thesis using that [of ?wd hh mm] time_or_nine_range [OF t(2)] t(1) sp
    by (simp only: recur_spec_def ScheduleSpec.simps)
qed

lemma next_fire_future:
  "next_fire_for_recur tz recur_json after = 0 \<or> after < next_fire_for_recur tz recur_json after"
proof -
  have a: "or_zero (add_seconds after n u) = 0 \<or> after < or_zero (add_seconds after n u)" if "0 < n" "0 < u" for n u
    using add_seconds_Some(2) [OF _ that] by (auto simp: or_zero_def split: option.splits)
  show ?thesis
    using a [of "parse_json_int_field recur_json ''every_minutes''" 60]
      a [of "parse_json_int_field recur_json ''every_hours''" 3600] a [of 1 3600]
      next_local_at_future [of tz after] next_local_weekday_at_future [of tz after]
    by (simp add: next_fire_for_recur_def Let_def split: option.split)
qed

section \<open>Properties\<close>

text \<open>
  C7. The parser and the rescheduler agree: for every phrase that parses to a recurring schedule,
  recomputing the next fire time from the stored recurrence object at the same reference time
  gives exactly the first fire time the parser announced, and it lies strictly in the future.
\<close>

theorem recurring_phrase_agrees:
  assumes "parse_schedule_phrase tz p now = Inr sp" and "sp_kind sp = Recurring"
  shows "next_fire_for_recur tz (sp_recur_json sp) now = sp_next_fire_at sp \<and> now < sp_next_fire_at sp"
proof -
  define ws where "ws = words (lower p)"
  define phrase where "phrase = joinw ws"
  have "first_match
        [try_in tz ws now, try_at tz ws now, try_tomorrow tz ws now, try_on tz ws now,
         try_hourly phrase now, try_every_n ws now, try_daily tz ws now, try_weekly tz phrase now]
        (Inl ''unrecognised schedule phrase'') = Inr sp"
    using assms(1) by (simp add: parse_by_words ws_def phrase_def Let_def split: if_splits)
  from first_match_Inr [OF this] assms(2)
  consider (h) "try_hourly phrase now = Some (Inr sp)" | (n) "try_every_n ws now = Some (Inr sp)"
    | (d) "try_daily tz ws now = Some (Inr sp)" | (w) "try_weekly tz phrase now = Some (Inr sp)"
    using try_once_kinds by fastforce
  then show ?thesis
  proof cases
    case h
    note x = try_hourly_recur [OF h]
    then show ?thesis using add_seconds_Some(2) [of now 1 3600] by (simp add: recur_hour or_zero_def)
  next
    case n
    then obtain h k where x: "1 \<le> k" "k \<le> int64_max" "sp_recur_json sp = every_n_json h k"
      "add_seconds now k (if h then 3600 else 60) = Some (sp_next_fire_at sp)" by (rule try_every_n_recur)
    then show ?thesis using add_seconds_Some(2) [OF x(4)] recur_every_n [of k tz h now]
      by (simp add: or_zero_def split: if_splits)
  next
    case d
    then obtain hh mm where x: "0 \<le> hh" "hh < 24" "0 \<le> mm" "mm < 60" "sp_recur_json sp = day_json hh mm"
      "sp_next_fire_at sp = next_local_at tz now hh mm" "0 < sp_next_fire_at sp" by (rule try_daily_recur)
    then show ?thesis using next_local_at_future [of tz now hh mm] by (auto simp: recur_day)
  next
    case w
    then obtain wd hh mm where x: "0 \<le> wd" "wd \<le> 6" "0 \<le> hh" "hh < 24" "0 \<le> mm" "mm < 60"
      "sp_recur_json sp = week_json wd hh mm"
      "sp_next_fire_at sp = next_local_weekday_at tz now wd hh mm" "0 < sp_next_fire_at sp" by (rule try_weekly_recur)
    then show ?thesis using next_local_weekday_at_future [of tz now wd hh mm] by (auto simp: recur_week)
  qed
qed

definition no_clock :: timezone where
  "no_clock = \<lparr>mktime = (\<lambda>t. (- 1, t)), localtime = (\<lambda>_. zero_tm)\<rparr>"

lemma five_minutes: "words (lower ''every 5 minutes'') = [''every'', ''5'', ''minutes'']"
  by code_simp

lemma parse_five_minutes:
  "parse_schedule_phrase no_clock ''every 5 minutes'' 1000
     = Inr (recur_spec (every_n_json False 5) 1300 ''every 5 minutes'')"
proof -
  have t: "to_string 5 = ''5''" by code_simp
  have "try_every_n [''every'', ''5'', ''minutes''] 1000
      = Some (Inr (recur_spec (every_n_json False 5) 1300 ''every 5 minutes''))"
    using parse_count_to_string [of 5] add_seconds_exact [of 1000 5 60]
    by (simp add: try_every_n_def unit_of_def t int_limits)
  then show ?thesis
    by (simp add: parse_by_words five_minutes try_in_def try_at_def try_tomorrow_def try_on_def try_hourly_def
        unit_of_def)
qed

theorem recurring_phrase_agrees_witness:
  "next_fire_for_recur no_clock (every_n_json False 5) 1000 = 1300"
  using recurring_phrase_agrees [OF parse_five_minutes] by (simp add: recur_spec_def)

text \<open>
  Progress: whatever recurrence text is stored, the next fire time is either 0 (the task is
  marked failed) or strictly later than the reference time, so a recurring task is never
  immediately due again.
\<close>

lemma next_fire_progress:
  "next_fire_for_recur tz recur_json after = 0 \<or> after < next_fire_for_recur tz recur_json after"
  by (rule next_fire_future)

text \<open>
  A one-shot phrase \<open>in N unit\<close>, in any letter case and spacing, is scheduled exactly
  \<open>N\<close> units after the reference time, and is refused exactly when that time does not fit
  \<open>int64_t\<close>.
\<close>

lemma in_phrase_exact:
  assumes "words (lower p) = [''in'', to_string n, w]" "0 \<le> n" "0 \<le> now" "now \<le> int64_max"
    and "unit_of [''minute'', ''min'', ''m'', ''hour'', ''h'', ''day'', ''d'', ''week'', ''w''] w = Some u"
  shows "parse_schedule_phrase tz p now =
    (let t = now + n * fst (in_mult u) in
     if t \<le> int64_max then Inr (once_spec t (''in '' @ to_string n @ '' '' @ snd (in_mult u) @ '' (''
                                   @ format_local tz t @ '')''))
     else Inl ''interval too large'')"
proof -
  have m: "0 < fst (in_mult u)" by (simp add: in_mult_def)
  then have "n \<le> n * fst (in_mult u)" using assms(2) by (simp add: mult_le_cancel_left1)
  then show ?thesis
    using assms m parse_count_to_string [of n] add_seconds_exact [of now n "fst (in_mult u)"]
    by (auto simp: parse_by_words try_in_def Let_def)
qed

lemma in_two_weeks: "words (lower ''In  2 WEEKS'') = [''in'', ''2'', ''weeks'']" "to_string 2 = ''2''"
  by code_simp+

text \<open>
  The weekly form with a time but no weekday, which the help text and the header list as
  accepted, is refused: \<open>weekly at HH:MM\<close> and \<open>every week at HH:MM\<close> match their expression but
  fall through to the final error.
\<close>

lemma weekly_at_time_refused:
  assumes "words (lower p) = [''weekly'', ''at'', t] \<or> words (lower p) = [''every'', ''week'', ''at'', t]"
    and "parse_hhmm t \<noteq> None"
  shows "match_weekly (words (lower p)) = Some ([], t)
    \<and> parse_schedule_phrase tz p now = Inl ''unrecognised schedule phrase''"
proof -
  have t: "t \<noteq> []" "hhmm_shape t \<noteq> None" using assms(2) by (auto simp: parse_hhmm_def hhmm_shape_def split: option.splits)
  then have s: "at_suffix [''at'', t] = Some t" by (auto simp: at_suffix_def)
  have j: "joinw (words (lower p)) \<noteq> ''every week'' \<and> joinw (words (lower p)) \<noteq> ''weekly''
      \<and> joinw (words (lower p)) \<noteq> ''every hour'' \<and> joinw (words (lower p)) \<noteq> ''hourly''"
    using assms(1) by auto
  have w: "words (joinw (words (lower p))) = words (lower p)" using normal_phrase [of p] by simp
  have m: "match_weekly (words (lower p)) = Some ([], t)"
    using assms(1) s by (auto simp: match_weekly_def after_every_def)
  have "try_weekly tz (joinw (words (lower p))) now = None" using j by (simp add: try_weekly_def w m)
  moreover have "try_hourly (joinw (words (lower p))) now = None" using j by (simp add: try_hourly_def)
  ultimately show ?thesis using assms(1) m
    by (auto simp: parse_by_words try_in_def try_at_def try_tomorrow_def try_on_def try_every_n_def
        try_daily_def after_every_def unit_of_def ymd_shape_def)
qed

end
