(* ===== verification/Ordered_Map.thy ===== *)
theory Ordered_Map
  imports Prelude
begin

text \<open>
  \<open>std::map\<close>: an association list in strictly increasing key order, so
  that iteration visits the entries as the C++ container does.
\<close>

fun omap_put :: "'k::linorder \<Rightarrow> 'v \<Rightarrow> ('k \<times> 'v) list \<Rightarrow> ('k \<times> 'v) list" where
  "omap_put k v [] = [(k, v)]"
| "omap_put k v ((k', v') # m) =
     (if k < k' then (k, v) # (k', v') # m
      else if k = k' then (k, v) # m
      else (k', v') # omap_put k v m)"

definition omap_erase :: "'k \<Rightarrow> ('k \<times> 'v) list \<Rightarrow> ('k \<times> 'v) list" where
  "omap_erase k m = filter (\<lambda>e. fst e \<noteq> k) m"

definition omap_ok :: "('k::linorder \<times> 'v) list \<Rightarrow> bool" where
  "omap_ok m \<longleftrightarrow> sorted_wrt (<) (map fst m)"

text \<open>The contract of an associative container: what a lookup sees after each update.\<close>

locale finite_map =
  fixes empty :: 'm and put :: "'k \<Rightarrow> 'v \<Rightarrow> 'm \<Rightarrow> 'm" and erase :: "'k \<Rightarrow> 'm \<Rightarrow> 'm"
    and lookup :: "'m \<Rightarrow> 'k \<Rightarrow> 'v option" and ok :: "'m \<Rightarrow> bool"
  assumes ok_empty: "ok empty"
    and ok_put: "ok m \<Longrightarrow> ok (put k v m)"
    and ok_erase: "ok m \<Longrightarrow> ok (erase k m)"
    and lookup_empty: "lookup empty k = None"
    and lookup_put: "lookup (put k v m) k' = (if k' = k then Some v else lookup m k')"
    and lookup_erase: "lookup (erase k m) k' = (if k' = k then None else lookup m k')"
begin

lemma put_shadow: "lookup (put k v (put k w m)) = lookup (put k v m)"
  by (rule ext) (simp add: lookup_put)

lemma erase_put: "lookup m k = None \<Longrightarrow> lookup (erase k (put k v m)) = lookup m"
  by (rule ext) (simp add: lookup_put lookup_erase)

lemma put_commute: "k \<noteq> k' \<Longrightarrow> lookup (put k v (put k' w m)) = lookup (put k' w (put k v m))"
  by (rule ext) (simp add: lookup_put)

end

lemma map_of_omap_put: "map_of (omap_put k v m) k' = (if k' = k then Some v else map_of m k')"
  by (induction m) auto

lemma map_of_omap_erase: "map_of (omap_erase k m) k' = (if k' = k then None else map_of m k')"
  by (induction m) (auto simp: omap_erase_def)

lemma keys_omap_put: "fst ` set (omap_put k v m) = insert k (fst ` set m)"
proof (induction m)
  case (Cons e m)
  then show ?case by (cases e) (simp add: insert_commute)
qed simp

lemma omap_put_ok: "omap_ok m \<Longrightarrow> omap_ok (omap_put k v m)"
proof (induction m)
  case (Cons e m)
  obtain k' v' where e: "e = (k', v')" by fastforce
  have "fst ` set (omap_put k v m) = insert k (fst ` set m)" by (rule keys_omap_put)
  then have s: "set (map fst (omap_put k v m)) = insert k (set (map fst m))" by simp
  from Cons show ?case unfolding omap_ok_def e using s by (auto simp del: set_map)
qed (simp add: omap_ok_def)

lemma omap_erase_ok: "omap_ok m \<Longrightarrow> omap_ok (omap_erase k m)"
  unfolding omap_ok_def omap_erase_def by (induction m) auto

lemma omap_ok_distinct: "omap_ok m \<Longrightarrow> distinct (map fst m)"
  by (simp add: omap_ok_def strict_sorted_iff)

interpretation om: finite_map "[]" omap_put omap_erase map_of omap_ok
  by unfold_locales
     (simp_all add: omap_put_ok omap_erase_ok map_of_omap_put map_of_omap_erase, simp add: omap_ok_def)

lemma omap_erase_length: "length (omap_erase k m) \<le> length m"
  by (simp add: omap_erase_def)

lemma omap_erase_length_less: "map_of m k \<noteq> None \<Longrightarrow> length (omap_erase k m) < length m"
proof (induction m)
  case (Cons e m)
  have "length (filter (\<lambda>e. fst e \<noteq> k) m) \<le> length m" by simp
  with Cons show ?case by (cases e) (auto simp: omap_erase_def less_Suc_eq_le split: if_splits)
qed simp

lemma omap_put_length: "length (omap_put k v m) \<le> Suc (length m)"
  by (induction m) auto

lemma omap_put_Nil [simp]: "omap_put k v [] = [(k, v)]"
  by simp

end
