(* ===== verification/Tenant_Limiter.thy ===== *)
theory Tenant_Limiter
  imports Ordered_Map Circuit_Breaker Complex_Main
begin

text \<open>
  The per-tenant limiter (\<open>src/tenant_limiter.cpp\<close>): the concurrent-request cap and the token
  bucket, the RAII guard, and the eviction of idle entries.  Every operation holds the mutex for
  its whole body and reads the clock as its argument \<open>now\<close>.  The bucket's real-valued tokens are
  exact rationals: the rounding of \<open>double\<close> arithmetic is not modelled.
\<close>

section \<open>State\<close>

record TenantLimits =
  lim_max_concurrent :: int
  lim_rate_per_min :: int
  lim_burst :: int

definition zero_limits :: TenantLimits where
  "zero_limits = \<lparr>lim_max_concurrent = 0, lim_rate_per_min = 0, lim_burst = 0\<rparr>"

record lim_state =
  ls_limits :: TenantLimits
  ls_in_flight :: int
  ls_tokens :: rat
  ls_last_refill :: nanos
  ls_last_used :: nanos

record limiter =
  lm_defaults :: TenantLimits
  lm_states :: "(int \<times> lim_state) list"
  lm_overrides :: "int \<Rightarrow> TenantLimits option"

definition fill_burst :: "TenantLimits \<Rightarrow> TenantLimits" where
  "fill_burst d = (if lim_burst d \<le> 0 then d\<lparr>lim_burst := lim_rate_per_min d\<rparr> else d)"

definition load_tenant_limits_from_env :: "env_map \<Rightarrow> TenantLimits" where
  "load_tenant_limits_from_env env = fill_burst
     \<lparr>lim_max_concurrent = env_int env ''ARBITER_TENANT_MAX_CONCURRENT'' 0,
      lim_rate_per_min = env_int env ''ARBITER_TENANT_RATE_PER_MIN'' 0,
      lim_burst = env_int env ''ARBITER_TENANT_RATE_BURST'' 0\<rparr>"

definition load_intent_llm_limits_from_env :: "env_map \<Rightarrow> TenantLimits" where
  "load_intent_llm_limits_from_env env = fill_burst
     \<lparr>lim_max_concurrent = 0,
      lim_rate_per_min = env_int env ''ARBITER_INTENT_LLM_RATE_PER_MIN'' 20,
      lim_burst = env_int env ''ARBITER_INTENT_LLM_RATE_BURST'' 5\<rparr>"

definition new_limiter :: "TenantLimits \<Rightarrow> limiter" where
  "new_limiter defaults = \<lparr>lm_defaults = fill_burst defaults, lm_states = [], lm_overrides = (\<lambda>_. None)\<rparr>"

definition set_defaults :: "TenantLimits \<Rightarrow> limiter \<Rightarrow> limiter" where
  "set_defaults d l = l\<lparr>lm_defaults := fill_burst d\<rparr>"

text \<open>Fields of an override that are not positive fall back to the defaults.\<close>

definition with_defaults :: "TenantLimits \<Rightarrow> TenantLimits \<Rightarrow> TenantLimits" where
  "with_defaults defaults limits =
     (let e1 = (if lim_max_concurrent limits \<le> 0 then limits\<lparr>lim_max_concurrent := lim_max_concurrent defaults\<rparr> else limits);
          e2 = (if lim_rate_per_min e1 \<le> 0 then e1\<lparr>lim_rate_per_min := lim_rate_per_min defaults\<rparr> else e1)
      in fill_burst e2)"

definition set_tenant_override :: "int \<Rightarrow> TenantLimits \<Rightarrow> limiter \<Rightarrow> limiter" where
  "set_tenant_override tid limits l =
     (let l1 = l\<lparr>lm_overrides := (lm_overrides l)(tid \<mapsto> limits)\<rparr> in
      case map_of (lm_states l) tid of
        None \<Rightarrow> l1
      | Some s \<Rightarrow> l1\<lparr>lm_states := omap_put tid (s\<lparr>ls_limits := with_defaults (lm_defaults l) limits\<rparr>) (lm_states l)\<rparr>)"

definition clear_tenant_override :: "int \<Rightarrow> limiter \<Rightarrow> limiter" where
  "clear_tenant_override tid l =
     (let l1 = l\<lparr>lm_overrides := (lm_overrides l)(tid := None)\<rparr> in
      case map_of (lm_states l) tid of
        None \<Rightarrow> l1
      | Some s \<Rightarrow> l1\<lparr>lm_states := omap_put tid (s\<lparr>ls_limits := lm_defaults l\<rparr>) (lm_states l)\<rparr>)"

definition effective :: "limiter \<Rightarrow> int \<Rightarrow> TenantLimits" where
  "effective l tid =
     (case lm_overrides l tid of None \<Rightarrow> lm_defaults l | Some ov \<Rightarrow> with_defaults (lm_defaults l) ov)"

definition tracked_tenant_count :: "limiter \<Rightarrow> nat" where
  "tracked_tenant_count l = length (lm_states l)"

section \<open>Bucket\<close>

text \<open>\<open>state_for\<close>: the limits of a fresh state, and the state found or created.\<close>

definition fresh_limits :: "limiter \<Rightarrow> int \<Rightarrow> TenantLimits" where
  "fresh_limits l tid =
     with_defaults (lm_defaults l) (case lm_overrides l tid of Some ov \<Rightarrow> ov | None \<Rightarrow> lm_defaults l)"

definition state_for :: "limiter \<Rightarrow> int \<Rightarrow> nanos \<Rightarrow> lim_state" where
  "state_for l tid now =
     (case map_of (lm_states l) tid of
        Some s \<Rightarrow> s
      | None \<Rightarrow> \<lparr>ls_limits = fresh_limits l tid, ls_in_flight = 0,
                ls_tokens = of_int (lim_burst (fresh_limits l tid)), ls_last_refill = now, ls_last_used = now\<rparr>)"

definition seconds :: "nanos \<Rightarrow> rat" where
  "seconds d = of_int d / of_int ns_per_s"

definition per_sec :: "TenantLimits \<Rightarrow> rat" where
  "per_sec lims = of_int (lim_rate_per_min lims) / 60"

definition refill_locked :: "nanos \<Rightarrow> lim_state \<Rightarrow> lim_state" where
  "refill_locked now s =
     (let lims = ls_limits s in
      if lim_rate_per_min lims \<le> 0 then s\<lparr>ls_tokens := of_int (if 0 < lim_burst lims then lim_burst lims else 0)\<rparr>
      else let elapsed_s = seconds (now - ls_last_refill s) in
        if elapsed_s \<le> 0 then s
        else let cap = of_int (if 0 < lim_burst lims then lim_burst lims else lim_rate_per_min lims)
             in s\<lparr>ls_tokens := min cap (ls_tokens s + elapsed_s * per_sec lims), ls_last_refill := now\<rparr>)"

definition bucket_cap :: "TenantLimits \<Rightarrow> rat" where
  "bucket_cap lims = of_int (if 0 < lim_burst lims then lim_burst lims
                            else if 0 < lim_rate_per_min lims then lim_rate_per_min lims else 0)"

text \<open>The refilled state and whether its bucket is full up to \<open>1e-9\<close>.\<close>

definition bucket_at_capacity_locked :: "nanos \<Rightarrow> lim_state \<Rightarrow> bool \<times> lim_state" where
  "bucket_at_capacity_locked now s =
     (let s' = refill_locked now s in (bucket_cap (ls_limits s') \<le> ls_tokens s' + 1 / 10 ^ 9, s'))"

definition maybe_erase_idle_locked :: "nanos \<Rightarrow> int \<Rightarrow> (int \<times> lim_state) list \<Rightarrow> (int \<times> lim_state) list" where
  "maybe_erase_idle_locked now tid states =
     (case map_of states tid of
        None \<Rightarrow> states
      | Some s \<Rightarrow>
          if 0 < ls_in_flight s then states
          else let (full, s') = bucket_at_capacity_locked now s
               in if full then omap_erase tid states else omap_put tid s' states)"

definition kMaxTrackedTenants :: nat where "kMaxTrackedTenants = 65536"
definition kSweepStart :: nat where "kSweepStart = 1024"

text \<open>The first loop of \<open>sweep_idle_locked\<close>.\<close>

fun sweep_full :: "nanos \<Rightarrow> int \<Rightarrow> (int \<times> lim_state) list \<Rightarrow> (int \<times> lim_state) list" where
  "sweep_full now keep [] = []"
| "sweep_full now keep ((tid, s) # states) =
     (if tid = keep \<or> 0 < ls_in_flight s then (tid, s) # sweep_full now keep states
      else let (full, s') = bucket_at_capacity_locked now s
           in if full then sweep_full now keep states else (tid, s') # sweep_full now keep states)"

text \<open>The idle entry used longest ago, the first in key order among equals.\<close>

fun victim :: "int \<Rightarrow> (int \<times> lim_state) list \<Rightarrow> (int \<times> lim_state) option" where
  "victim keep [] = None"
| "victim keep ((tid, s) # states) =
     (if tid = keep \<or> 0 < ls_in_flight s then victim keep states
      else case victim keep states of
             None \<Rightarrow> Some (tid, s)
           | Some (t2, s2) \<Rightarrow> if ls_last_used s2 < ls_last_used s then Some (t2, s2) else Some (tid, s))"

lemma victim_mem: "victim keep states = Some e \<Longrightarrow> e \<in> set states"
  by (induction keep states arbitrary: e rule: victim.induct) (auto split: if_splits option.splits)

function sweep_cap :: "int \<Rightarrow> (int \<times> lim_state) list \<Rightarrow> (int \<times> lim_state) list" where
  "sweep_cap keep states =
     (if length states \<le> kMaxTrackedTenants then states
      else case victim keep states of
             None \<Rightarrow> states
           | Some (tid, s) \<Rightarrow> sweep_cap keep (omap_erase tid states))"
  by pat_completeness auto
termination
proof (relation "measure (\<lambda>(k, m). length m)")
  fix keep and states :: "(int \<times> lim_state) list" and p tid s
  assume "victim keep states = Some p" "(tid, s) = p"
  then have "(tid, s) \<in> set states" using victim_mem by blast
  then have "map_of states tid \<noteq> None" by (auto simp: map_of_eq_None_iff intro: rev_image_eqI)
  then show "((keep, omap_erase tid states), (keep, states)) \<in> measure (\<lambda>(k, m). length m)"
    by (simp add: omap_erase_length_less)
qed simp

declare sweep_cap.simps [simp del]

definition sweep_idle_locked :: "nanos \<Rightarrow> int \<Rightarrow> (int \<times> lim_state) list \<Rightarrow> (int \<times> lim_state) list" where
  "sweep_idle_locked now keep states = sweep_cap keep (sweep_full now keep states)"

section \<open>Acquire and release\<close>

text \<open>
  A result: granted, with a guard that is active or (with both axes unlimited) inactive, or one
  of the two refusals with its \<open>retry_after_seconds\<close>.
\<close>

datatype lim_result = Granted bool | ConcurrentExceeded int | RateExceeded int

definition wait_seconds :: "TenantLimits \<Rightarrow> rat \<Rightarrow> int" where
  "wait_seconds lims tokens = (let w = floor ((1 - tokens) / per_sec lims) + 1 in if w < 1 then 1 else w)"

definition acquire :: "int \<Rightarrow> nanos \<Rightarrow> limiter \<Rightarrow> lim_result \<times> limiter" where
  "acquire tid now l =
     (let eff = effective l tid in
      if lim_max_concurrent eff \<le> 0 \<and> lim_rate_per_min eff \<le> 0 then (Granted False, l)
      else
        let states = (if kSweepStart \<le> length (lm_states l) then sweep_idle_locked now tid (lm_states l) else lm_states l);
            s = (state_for (l\<lparr>lm_states := states\<rparr>) tid now)\<lparr>ls_last_used := now\<rparr>;
            lims = ls_limits s;
            store = (\<lambda>s'. l\<lparr>lm_states := omap_put tid s' states\<rparr>)
        in if 0 < lim_max_concurrent lims \<and> lim_max_concurrent lims \<le> ls_in_flight s then
             (ConcurrentExceeded 1, store s)
           else if 0 < lim_rate_per_min lims then
             (let s1 = refill_locked now s in
              if ls_tokens s1 < 1 then (RateExceeded (wait_seconds lims (ls_tokens s1)), store s1)
              else (Granted True, store (s1\<lparr>ls_tokens := ls_tokens s1 - 1, ls_in_flight := ls_in_flight s1 + 1\<rparr>)))
           else (Granted True, store (s\<lparr>ls_in_flight := ls_in_flight s + 1\<rparr>)))"

text \<open>\<open>Guard::release\<close> of an active guard.\<close>

definition release :: "int \<Rightarrow> nanos \<Rightarrow> limiter \<Rightarrow> limiter" where
  "release tid now l =
     (case map_of (lm_states l) tid of
        None \<Rightarrow> l
      | Some s \<Rightarrow>
          let s' = s\<lparr>ls_in_flight := (if 0 < ls_in_flight s then ls_in_flight s - 1 else ls_in_flight s),
                     ls_last_used := now\<rparr>
          in l\<lparr>lm_states := maybe_erase_idle_locked now tid (omap_put tid s' (lm_states l))\<rparr>)"

section \<open>Concurrent callers\<close>

text \<open>
  Any number of requests share a limiter: \<open>gs\<close> lists the tenants of the guards that are still
  active, \<open>n\<close> is the last clock value.  Operators may change limits at any time.
\<close>

inductive lim_step :: "limiter \<times> int list \<times> nanos \<Rightarrow> limiter \<times> int list \<times> nanos \<Rightarrow> bool" where
  step_acquire: "acquire tid t l = (r, l') \<Longrightarrow> n \<le> t \<Longrightarrow>
     lim_step (l, gs, n) (l', (if r = Granted True then tid # gs else gs), t)"
| step_release: "tid \<in> set gs \<Longrightarrow> n \<le> t \<Longrightarrow> lim_step (l, gs, n) (release tid t l, remove1 tid gs, t)"
| step_override: "lim_step (l, gs, n) (set_tenant_override tid d l, gs, n)"
| step_clear: "lim_step (l, gs, n) (clear_tenant_override tid l, gs, n)"
| step_defaults: "lim_step (l, gs, n) (set_defaults d l, gs, n)"

inductive lim_reachable :: "TenantLimits \<Rightarrow> limiter \<times> int list \<times> nanos \<Rightarrow> bool" for d where
  reach_new: "lim_reachable d (new_limiter d, [], n)"
| reach_step: "lim_reachable d c \<Longrightarrow> lim_step c c' \<Longrightarrow> lim_reachable d c'"

definition flight :: "(int \<times> lim_state) list \<Rightarrow> int \<Rightarrow> int" where
  "flight m tid = (case map_of m tid of None \<Rightarrow> 0 | Some s \<Rightarrow> ls_in_flight s)"

definition states_inv :: "(int \<times> lim_state) list \<Rightarrow> nanos \<Rightarrow> bool" where
  "states_inv m n \<longleftrightarrow> omap_ok m \<and> (\<forall>tid s. map_of m tid = Some s \<longrightarrow> 0 \<le> ls_in_flight s \<and> ls_last_refill s \<le> n)"

definition lim_inv :: "limiter \<times> int list \<times> nanos \<Rightarrow> bool" where
  "lim_inv c = (case c of (l, gs, n) \<Rightarrow>
     states_inv (lm_states l) n \<and> (\<forall>tid. flight (lm_states l) tid = int (count_list gs tid)))"

lemma refill_frame [simp]:
  "ls_in_flight (refill_locked now s) = ls_in_flight s" "ls_limits (refill_locked now s) = ls_limits s"
  "ls_last_used (refill_locked now s) = ls_last_used s"
  by (simp_all add: refill_locked_def Let_def)

lemma refill_last: "ls_last_refill s \<le> now \<Longrightarrow> ls_last_refill (refill_locked now s) \<le> now"
  by (simp add: refill_locked_def Let_def)

lemma flight_put: "flight (omap_put k s m) tid = (if tid = k then ls_in_flight s else flight m tid)"
  by (simp add: flight_def om.lookup_put)

lemma flight_erase: "flight (omap_erase k m) tid = (if tid = k then 0 else flight m tid)"
  by (simp add: flight_def om.lookup_erase)

lemma states_inv_put:
  "states_inv m n \<Longrightarrow> 0 \<le> ls_in_flight s \<Longrightarrow> ls_last_refill s \<le> n \<Longrightarrow> states_inv (omap_put k s m) n"
  by (auto simp: states_inv_def om.ok_put om.lookup_put split: if_splits)

lemma states_inv_erase: "states_inv m n \<Longrightarrow> states_inv (omap_erase k m) n"
  by (auto simp: states_inv_def om.ok_erase om.lookup_erase split: if_splits)

lemma states_inv_mono: "states_inv m n \<Longrightarrow> n \<le> t \<Longrightarrow> states_inv m t"
  by (fastforce simp: states_inv_def)

lemma flight_idle: "states_inv m n \<Longrightarrow> map_of m tid = Some s \<Longrightarrow> \<not> 0 < ls_in_flight s \<Longrightarrow> flight m tid = 0"
  by (fastforce simp: states_inv_def flight_def)

lemma sweep_full_keys: "fst ` set (sweep_full now keep m) \<subseteq> fst ` set m"
proof (induction m)
  case (Cons e m)
  then show ?case by (cases e) (auto simp: bucket_at_capacity_locked_def Let_def)
qed simp

lemma sweep_full_map_of:
  assumes "distinct (map fst m)"
  shows "map_of (sweep_full now keep m) tid = (case map_of m tid of
      None \<Rightarrow> None
    | Some s \<Rightarrow> if tid = keep \<or> 0 < ls_in_flight s then Some s
                else let (full, s') = bucket_at_capacity_locked now s in if full then None else Some s')"
  using assms
proof (induction m)
  case (Cons e m)
  obtain k s where e: "e = (k, s)" by fastforce
  have k: "map_of (sweep_full now keep m) k = None" "map_of m k = None"
    using Cons.prems sweep_full_keys [of now keep m] by (auto simp: e map_of_eq_None_iff)
  show ?case
  proof (cases "k = tid")
    case True
    then show ?thesis using k by (auto simp: e bucket_at_capacity_locked_def Let_def)
  next
    case False
    then show ?thesis using Cons by (auto simp: e bucket_at_capacity_locked_def Let_def)
  qed
qed simp

lemma sweep_full_ok: "omap_ok m \<Longrightarrow> omap_ok (sweep_full now keep m)"
proof (induction m)
  case (Cons e m)
  obtain k s where e: "e = (k, s)" by fastforce
  have "set (map fst (sweep_full now keep m)) \<subseteq> set (map fst m)"
    using sweep_full_keys [of now keep m] by simp
  then show ?case using Cons by (auto simp: e omap_ok_def bucket_at_capacity_locked_def Let_def simp del: set_map)
qed simp

lemma sweep_full_inv:
  assumes "states_inv m now"
  shows "states_inv (sweep_full now keep m) now" "flight (sweep_full now keep m) tid = flight m tid"
    "map_of (sweep_full now keep m) keep = map_of m keep"
proof -
  have d: "omap_ok m" "distinct (map fst m)" using assms omap_ok_distinct by (auto simp: states_inv_def)
  note m = sweep_full_map_of [OF d(2)]
  show "states_inv (sweep_full now keep m) now"
    using assms sweep_full_ok [OF d(1)] refill_last
    by (fastforce simp: states_inv_def m bucket_at_capacity_locked_def Let_def split: option.splits if_splits)
  show "flight (sweep_full now keep m) tid = flight m tid"
    using flight_idle [OF assms, of tid]
    by (auto simp: flight_def m bucket_at_capacity_locked_def Let_def split: option.splits)
  show "map_of (sweep_full now keep m) keep = map_of m keep" by (simp add: m split: option.splits)
qed

lemma victim_idle: "victim keep m = Some e \<Longrightarrow> fst e \<noteq> keep \<and> \<not> 0 < ls_in_flight (snd e)"
proof (induction m arbitrary: e)
  case (Cons x m)
  obtain k s where x: "x = (k, s)" by fastforce
  show ?case
  proof (cases "k = keep \<or> 0 < ls_in_flight s")
    case True
    then show ?thesis using Cons by (simp add: x)
  next
    case False
    then have "e = (k, s) \<or> victim keep m = Some e"
      using Cons.prems by (simp add: x split: option.splits prod.splits if_splits)
    then show ?thesis using False Cons.IH [of e] by (elim disjE) simp_all
  qed
qed simp

lemma sweep_cap_inv:
  assumes "states_inv m now"
  shows "states_inv (sweep_cap keep m) now \<and> flight (sweep_cap keep m) tid = flight m tid
    \<and> map_of (sweep_cap keep m) keep = map_of m keep"
  using assms
proof (induction keep m rule: sweep_cap.induct)
  case (1 keep m)
  show ?case
  proof (cases "length m \<le> kMaxTrackedTenants \<or> victim keep m = None")
    case True
    then show ?thesis using "1.prems" by (auto simp: sweep_cap.simps [of keep m])
  next
    case False
    then obtain k s where v: "victim keep m = Some (k, s)" by auto
    have "map_of m k = Some s"
      using victim_mem [OF v] "1.prems" omap_ok_distinct [of m] by (simp add: states_inv_def)
    then have "flight m k = 0" using flight_idle [OF "1.prems"] victim_idle [OF v] by simp
    then have "flight (omap_erase k m) tid = flight m tid" by (simp add: flight_erase)
    moreover have "map_of (omap_erase k m) keep = map_of m keep"
      using victim_idle [OF v] by (simp add: om.lookup_erase)
    moreover have "sweep_cap keep m = sweep_cap keep (omap_erase k m)"
      using False v by (subst sweep_cap.simps) simp
    ultimately show ?thesis
      using False "1.IH" [OF _ v refl states_inv_erase [OF "1.prems", of k]] by simp
  qed
qed

lemma sweep_inv:
  assumes "states_inv m now"
  shows "states_inv (sweep_idle_locked now keep m) now" "flight (sweep_idle_locked now keep m) tid = flight m tid"
    "map_of (sweep_idle_locked now keep m) keep = map_of m keep"
  using sweep_cap_inv [OF sweep_full_inv(1) [OF assms]] sweep_full_inv(2,3) [OF assms]
  by (simp_all add: sweep_idle_locked_def)

text \<open>The states an acquire works on after its sweep, and the tenant's entry among them.\<close>

definition swept :: "int \<Rightarrow> nanos \<Rightarrow> limiter \<Rightarrow> (int \<times> lim_state) list" where
  "swept tid now l =
     (if kSweepStart \<le> length (lm_states l) then sweep_idle_locked now tid (lm_states l) else lm_states l)"

definition own_state :: "int \<Rightarrow> nanos \<Rightarrow> limiter \<Rightarrow> lim_state" where
  "own_state tid now l = (state_for (l\<lparr>lm_states := swept tid now l\<rparr>) tid now)\<lparr>ls_last_used := now\<rparr>"

lemma swept_inv:
  assumes "states_inv (lm_states l) now"
  shows "states_inv (swept tid now l) now" "flight (swept tid now l) k = flight (lm_states l) k"
    "map_of (swept tid now l) tid = map_of (lm_states l) tid"
  using assms sweep_inv by (simp_all add: swept_def)

lemma own_state_props:
  assumes "states_inv (lm_states l) now"
  shows "ls_in_flight (own_state tid now l) = flight (lm_states l) tid"
    "0 \<le> ls_in_flight (own_state tid now l)" "ls_last_refill (own_state tid now l) \<le> now"
    "map_of (lm_states l) tid = Some s \<Longrightarrow> own_state tid now l = s\<lparr>ls_last_used := now\<rparr>"
  using assms
  by (auto simp: own_state_def state_for_def swept_inv flight_def states_inv_def split: option.splits)

lemma acquire_eq:
  "acquire tid now l =
     (let s = own_state tid now l; lims = ls_limits s; s1 = refill_locked now s;
          store = (\<lambda>s'. l\<lparr>lm_states := omap_put tid s' (swept tid now l)\<rparr>)
      in if lim_max_concurrent (effective l tid) \<le> 0 \<and> lim_rate_per_min (effective l tid) \<le> 0 then (Granted False, l)
         else if 0 < lim_max_concurrent lims \<and> lim_max_concurrent lims \<le> ls_in_flight s then (ConcurrentExceeded 1, store s)
         else if 0 < lim_rate_per_min lims then
           (if ls_tokens s1 < 1 then (RateExceeded (wait_seconds lims (ls_tokens s1)), store s1)
            else (Granted True, store (s1\<lparr>ls_tokens := ls_tokens s1 - 1, ls_in_flight := ls_in_flight s1 + 1\<rparr>)))
         else (Granted True, store (s\<lparr>ls_in_flight := ls_in_flight s + 1\<rparr>)))"
  unfolding acquire_def own_state_def swept_def Let_def by (rule refl)

lemma acquire_shape:
  assumes "acquire tid now l = (r, l')" "r \<noteq> Granted False" "states_inv (lm_states l) now"
  defines "s \<equiv> own_state tid now l"
  obtains s' where "l' = l\<lparr>lm_states := omap_put tid s' (swept tid now l)\<rparr>" "ls_limits s' = ls_limits s"
    "ls_in_flight s' = ls_in_flight s + (if r = Granted True then 1 else 0)" "ls_last_refill s' \<le> now"
    "(\<exists>k. r = ConcurrentExceeded k) \<longleftrightarrow>
       0 < lim_max_concurrent (ls_limits s) \<and> lim_max_concurrent (ls_limits s) \<le> ls_in_flight s"
proof -
  let ?eff = "effective l tid" and ?lims = "ls_limits s"
  let ?store = "\<lambda>s'. l\<lparr>lm_states := omap_put tid s' (swept tid now l)\<rparr>"
  let ?s1 = "refill_locked now s"
  have lr: "ls_last_refill s \<le> now" "ls_last_refill ?s1 \<le> now"
    using own_state_props(3) [OF assms(3)] refill_last by (simp_all add: s_def)
  have u: "\<not> (lim_max_concurrent ?eff \<le> 0 \<and> lim_rate_per_min ?eff \<le> 0)"
    using assms(1,2) by (auto simp: acquire_def Let_def)
  have a: "(r, l') =
      (if 0 < lim_max_concurrent ?lims \<and> lim_max_concurrent ?lims \<le> ls_in_flight s then (ConcurrentExceeded 1, ?store s)
       else if 0 < lim_rate_per_min ?lims then
         (if ls_tokens ?s1 < 1 then (RateExceeded (wait_seconds ?lims (ls_tokens ?s1)), ?store ?s1)
          else (Granted True, ?store (?s1\<lparr>ls_tokens := ls_tokens ?s1 - 1, ls_in_flight := ls_in_flight ?s1 + 1\<rparr>)))
       else (Granted True, ?store (s\<lparr>ls_in_flight := ls_in_flight s + 1\<rparr>)))"
    using acquire_eq [of tid now l] unfolding Let_def if_not_P [OF u] assms(1) s_def .
  consider "r = ConcurrentExceeded 1" "l' = ?store s" "0 < lim_max_concurrent ?lims \<and> lim_max_concurrent ?lims \<le> ls_in_flight s"
    | "\<exists>w. r = RateExceeded w" "l' = ?store ?s1" "\<not> (0 < lim_max_concurrent ?lims \<and> lim_max_concurrent ?lims \<le> ls_in_flight s)"
    | "r = Granted True" "l' = ?store (?s1\<lparr>ls_tokens := ls_tokens ?s1 - 1, ls_in_flight := ls_in_flight ?s1 + 1\<rparr>)"
      "\<not> (0 < lim_max_concurrent ?lims \<and> lim_max_concurrent ?lims \<le> ls_in_flight s)"
    | "r = Granted True" "l' = ?store (s\<lparr>ls_in_flight := ls_in_flight s + 1\<rparr>)"
      "\<not> (0 < lim_max_concurrent ?lims \<and> lim_max_concurrent ?lims \<le> ls_in_flight s)"
    using a by (metis prod.inject)
  then show thesis
  proof cases
    case 1
    then show thesis using that [of s] lr by simp
  next
    case 2
    then show thesis using that [of ?s1] lr by auto
  next
    case 3
    then show thesis using that [of "?s1\<lparr>ls_tokens := ls_tokens ?s1 - 1, ls_in_flight := ls_in_flight ?s1 + 1\<rparr>"] lr by simp
  next
    case 4
    then show thesis using that [of "s\<lparr>ls_in_flight := ls_in_flight s + 1\<rparr>"] lr by simp
  qed
qed

lemma acquire_unlimited: "acquire tid now l = (Granted False, l') \<Longrightarrow> l' = l"
  by (auto simp: acquire_def Let_def split: if_splits)

lemma count_list_remove1: "x \<in> set xs \<Longrightarrow> int (count_list (remove1 x xs) y) = int (count_list xs y) - (if y = x then 1 else 0)"
  by (induction xs) auto

lemma maybe_erase_inv:
  assumes "states_inv m now"
  shows "states_inv (maybe_erase_idle_locked now tid m) now \<and> flight (maybe_erase_idle_locked now tid m) k = flight m k"
proof (cases "map_of m tid")
  case (Some s)
  show ?thesis
  proof (cases "0 < ls_in_flight s")
    case False
    have "0 \<le> ls_in_flight s" "ls_last_refill s \<le> now" using assms Some by (auto simp: states_inv_def)
    then show ?thesis
      using Some False assms flight_idle [OF assms Some False] states_inv_erase states_inv_put refill_last
      by (auto simp: maybe_erase_idle_locked_def bucket_at_capacity_locked_def Let_def flight_erase flight_put)
  qed (use Some assms in \<open>simp add: maybe_erase_idle_locked_def\<close>)
qed (use assms in \<open>simp add: maybe_erase_idle_locked_def\<close>)

lemma release_inv:
  assumes "lim_inv (l, gs, n)" "tid \<in> set gs" "n \<le> t"
  shows "lim_inv (release tid t l, remove1 tid gs, t)"
proof -
  have inv: "states_inv (lm_states l) t" and f: "\<And>k. flight (lm_states l) k = int (count_list gs k)"
    using assms states_inv_mono by (auto simp: lim_inv_def)
  have "0 < count_list gs tid" using assms(2) by (metis bot_nat_0.not_eq_extremum count_list_0_iff)
  then obtain s where s: "map_of (lm_states l) tid = Some s" "0 < ls_in_flight s"
    using f [of tid] by (cases "map_of (lm_states l) tid") (auto simp: flight_def)
  let ?s = "s\<lparr>ls_in_flight := ls_in_flight s - 1, ls_last_used := t\<rparr>"
  have "ls_last_refill s \<le> t" using inv s(1) by (auto simp: states_inv_def)
  then have i: "states_inv (omap_put tid ?s (lm_states l)) t"
    using s(2) by (intro states_inv_put inv) simp_all
  have fk: "flight (omap_put tid ?s (lm_states l)) k = int (count_list (remove1 tid gs) k)" for k
    using f [of tid] f [of k] s count_list_remove1 [OF assms(2), of k] by (simp add: flight_put flight_def [of _ tid])
  show ?thesis
    using maybe_erase_inv [OF i] fk s by (simp add: lim_inv_def release_def Let_def)
qed

lemma acquire_inv:
  assumes "lim_inv (l, gs, n)" "acquire tid t l = (r, l')" "n \<le> t"
  shows "lim_inv (l', (if r = Granted True then tid # gs else gs), t)"
proof (cases "r = Granted False")
  case True
  then have "l' = l" using assms(2) acquire_unlimited by blast
  then show ?thesis using True assms(1,3) states_inv_mono by (auto simp: lim_inv_def)
next
  case False
  have inv: "states_inv (lm_states l) t" and f: "\<And>k. flight (lm_states l) k = int (count_list gs k)"
    using assms states_inv_mono by (auto simp: lim_inv_def)
  obtain s' where s': "l' = l\<lparr>lm_states := omap_put tid s' (swept tid t l)\<rparr>"
    "ls_in_flight s' = ls_in_flight (own_state tid t l) + (if r = Granted True then 1 else 0)" "ls_last_refill s' \<le> t"
    using acquire_shape [OF assms(2) False inv] by metis
  have "0 \<le> ls_in_flight s'" using s'(2) own_state_props(2) [OF inv, of tid] by simp
  then have "states_inv (lm_states l') t" using s' swept_inv(1) [OF inv] by (simp add: states_inv_put)
  then show ?thesis
    using s' own_state_props(1) [OF inv, of tid] f swept_inv(2) [OF inv] by (simp add: lim_inv_def flight_put)
qed

lemma put_limits_inv:
  assumes "states_inv m n" "map_of m tid = Some s"
  shows "states_inv (omap_put tid (s\<lparr>ls_limits := d\<rparr>) m) n" "flight (omap_put tid (s\<lparr>ls_limits := d\<rparr>) m) k = flight m k"
proof -
  have "0 \<le> ls_in_flight s" "ls_last_refill s \<le> n" using assms by (auto simp: states_inv_def)
  then show "states_inv (omap_put tid (s\<lparr>ls_limits := d\<rparr>) m) n" by (intro states_inv_put assms(1)) simp_all
  show "flight (omap_put tid (s\<lparr>ls_limits := d\<rparr>) m) k = flight m k"
    using assms(2) by (simp add: flight_put) (simp add: flight_def)
qed

lemma config_inv:
  assumes "lim_inv (l, gs, n)"
  shows "lim_inv (set_tenant_override tid d l, gs, n)" "lim_inv (clear_tenant_override tid l, gs, n)"
    "lim_inv (set_defaults d l, gs, n)"
  using assms put_limits_inv
  by (auto simp: lim_inv_def set_tenant_override_def clear_tenant_override_def set_defaults_def Let_def split: option.splits)

lemma lim_reachable_inv: "lim_reachable d c \<Longrightarrow> lim_inv c"
proof (induction rule: lim_reachable.induct)
  case (reach_new n)
  then show ?case by (simp add: lim_inv_def new_limiter_def states_inv_def flight_def om.ok_empty)
next
  case (reach_step c c')
  from reach_step(2,3) show ?case
    by (cases rule: lim_step.cases) (simp_all add: acquire_inv release_inv config_inv del: if_split)
qed

lemma seconds_le_iff: "seconds a \<le> seconds b \<longleftrightarrow> a \<le> b"
  by (simp add: seconds_def ns_per_s_def divide_le_cancel)

lemma seconds_diff: "seconds (a - b) = seconds a - seconds b"
  by (simp add: seconds_def diff_divide_distrib)

lemma refill_tokens:
  assumes "0 < lim_rate_per_min (ls_limits s)" "ls_last_refill s \<le> t"
  shows "ls_tokens (refill_locked t s) =
      (if ls_last_refill s = t then ls_tokens s
       else min (bucket_cap (ls_limits s)) (ls_tokens s + seconds (t - ls_last_refill s) * per_sec (ls_limits s)))"
    "ls_last_refill (refill_locked t s) = t"
proof -
  have "seconds (t - ls_last_refill s) \<le> 0 \<longleftrightarrow> ls_last_refill s = t"
    using seconds_le_iff [of "t - ls_last_refill s" 0] assms(2) by (auto simp: seconds_def)
  then show "ls_tokens (refill_locked t s) =
      (if ls_last_refill s = t then ls_tokens s
       else min (bucket_cap (ls_limits s)) (ls_tokens s + seconds (t - ls_last_refill s) * per_sec (ls_limits s)))"
    "ls_last_refill (refill_locked t s) = t"
    using assms by (auto simp: refill_locked_def Let_def bucket_cap_def)
qed

lemma bucket_cap_ge_1: "0 < lim_rate_per_min d \<Longrightarrow> 1 \<le> bucket_cap d"
  by (simp add: bucket_cap_def)

lemma wait_seconds_covers:
  assumes "0 < lim_rate_per_min d" "tok < 1"
  shows "1 \<le> tok + of_int (wait_seconds d tok) * per_sec d" "1 \<le> wait_seconds d tok"
proof -
  have p: "0 < per_sec d" using assms(1) by (simp add: per_sec_def)
  have "0 \<le> floor ((1 - tok) / per_sec d)" using assms(2) p by simp
  then have w: "wait_seconds d tok = floor ((1 - tok) / per_sec d) + 1" by (simp add: wait_seconds_def Let_def)
  then show "1 \<le> wait_seconds d tok" using \<open>0 \<le> floor ((1 - tok) / per_sec d)\<close> by simp
  have "(1 - tok) / per_sec d \<le> of_int (wait_seconds d tok)" unfolding w by linarith
  then show "1 \<le> tok + of_int (wait_seconds d tok) * per_sec d" using p by (simp add: divide_le_eq algebra_simps)
qed

text \<open>A rate refusal leaves the refilled entry behind, still short of one token.\<close>

lemma acquire_rate_exceeded:
  assumes "acquire tid t l = (RateExceeded w, l')" "states_inv (lm_states l) t"
  defines "s1 \<equiv> refill_locked t (own_state tid t l)"
  shows "l' = l\<lparr>lm_states := omap_put tid s1 (swept tid t l)\<rparr>" "ls_tokens s1 < 1"
    "0 < lim_rate_per_min (ls_limits s1)" "w = wait_seconds (ls_limits s1) (ls_tokens s1)" "ls_last_refill s1 = t"
proof -
  have a: "l' = l\<lparr>lm_states := omap_put tid s1 (swept tid t l)\<rparr> \<and> ls_tokens s1 < 1 \<and>
      0 < lim_rate_per_min (ls_limits (own_state tid t l)) \<and> w = wait_seconds (ls_limits (own_state tid t l)) (ls_tokens s1)"
    using assms(1) unfolding acquire_eq Let_def s1_def by (auto split: if_splits)
  then show "l' = l\<lparr>lm_states := omap_put tid s1 (swept tid t l)\<rparr>" "ls_tokens s1 < 1"
    "0 < lim_rate_per_min (ls_limits s1)" "w = wait_seconds (ls_limits s1) (ls_tokens s1)"
    by (simp_all add: s1_def)
  show "ls_last_refill s1 = t"
    using refill_tokens(2) a own_state_props(3) [OF assms(2), of tid] by (simp add: s1_def)
qed

subsection \<open>Accounting for one tenant\<close>

text \<open>
  A history of one tenant: acquires (\<open>True\<close>) and releases (\<open>False\<close>) with their times; the result
  counts the grants.
\<close>

fun lim_run :: "int \<Rightarrow> limiter \<Rightarrow> (bool \<times> nanos) list \<Rightarrow> nat \<times> limiter" where
  "lim_run tid l [] = (0, l)"
| "lim_run tid l ((True, t) # ops) =
     (let (r, l') = acquire tid t l; (g, l'') = lim_run tid l' ops
      in (if r = Granted True then Suc g else g, l''))"
| "lim_run tid l ((False, t) # ops) = lim_run tid (release tid t l) ops"

definition sole :: "int \<Rightarrow> TenantLimits \<Rightarrow> nanos \<Rightarrow> limiter \<Rightarrow> bool" where
  "sole tid D t l \<longleftrightarrow> lm_overrides l = (\<lambda>_. None) \<and> lm_defaults l = D \<and>
     (lm_states l = [] \<or> (\<exists>s. lm_states l = [(tid, s)] \<and> ls_limits s = D \<and> 0 \<le> ls_tokens s \<and> ls_last_refill s \<le> t))"

text \<open>What the tenant could still draw at time \<open>t\<close>: a missing entry stands for a full bucket.\<close>

definition potential :: "int \<Rightarrow> TenantLimits \<Rightarrow> nanos \<Rightarrow> limiter \<Rightarrow> rat" where
  "potential tid D t l = (case map_of (lm_states l) tid of
     None \<Rightarrow> bucket_cap D | Some s \<Rightarrow> ls_tokens s + seconds (t - ls_last_refill s) * per_sec D)"

lemma potential_upd [simp]: "potential tid D t (l\<lparr>lm_states := m\<rparr>) = (case map_of m tid of
     None \<Rightarrow> bucket_cap D | Some s \<Rightarrow> ls_tokens s + seconds (t - ls_last_refill s) * per_sec D)"
  by (simp add: potential_def)

definition rated :: "TenantLimits \<Rightarrow> bool" where
  "rated D \<longleftrightarrow> 0 < lim_rate_per_min D \<and> 0 < lim_burst D"

lemma rated_pos: "rated D \<Longrightarrow> 0 < per_sec D" "rated D \<Longrightarrow> 1 \<le> bucket_cap D"
  by (simp_all add: rated_def per_sec_def bucket_cap_def)

lemma seconds_nonneg: "0 \<le> d \<Longrightarrow> 0 \<le> seconds d"
  by (simp add: seconds_def ns_per_s_def)

lemma refill_bounds:
  assumes "rated (ls_limits s)" "0 \<le> ls_tokens s" "ls_last_refill s \<le> t"
  shows "0 \<le> ls_tokens (refill_locked t s)"
    "ls_tokens (refill_locked t s) \<le> ls_tokens s + seconds (t - ls_last_refill s) * per_sec (ls_limits s)"
    "ls_last_refill (refill_locked t s) = t"
proof -
  have p: "0 < per_sec (ls_limits s)" "1 \<le> bucket_cap (ls_limits s)" "0 < lim_rate_per_min (ls_limits s)"
    using assms(1) rated_pos by (auto simp: rated_def)
  have n: "0 \<le> seconds (t - ls_last_refill s) * per_sec (ls_limits s)"
    using p(1) assms(3) seconds_nonneg by (simp add: zero_le_mult_iff)
  show "0 \<le> ls_tokens (refill_locked t s)"
    "ls_tokens (refill_locked t s) \<le> ls_tokens s + seconds (t - ls_last_refill s) * per_sec (ls_limits s)"
    "ls_last_refill (refill_locked t s) = t"
    using refill_tokens [OF p(3) assms(3)] n p(2) assms(2) by (auto simp: min_def)
qed

lemma with_defaults_self: "rated D \<Longrightarrow> with_defaults D D = D"
  by (simp add: with_defaults_def rated_def fill_burst_def Let_def)

lemma fresh_limits_upd [simp]: "fresh_limits (l\<lparr>lm_states := m\<rparr>) tid = fresh_limits l tid"
  by (simp add: fresh_limits_def split: option.splits)

lemma sole_own_state:
  assumes "sole tid D t l" "rated D" "t \<le> t'"
  shows "swept tid t' l = lm_states l" "ls_limits (own_state tid t' l) = D" "0 \<le> ls_tokens (own_state tid t' l)"
    "ls_last_refill (own_state tid t' l) \<le> t'"
    "ls_tokens (own_state tid t' l) + seconds (t' - ls_last_refill (own_state tid t' l)) * per_sec D
       = potential tid D t' l"
proof -
  show sw: "swept tid t' l = lm_states l" using assms(1) by (auto simp: swept_def sole_def kSweepStart_def)
  have f: "fresh_limits l tid = D" if "lm_states l = []"
    using assms that by (simp add: fresh_limits_def sole_def with_defaults_self)
  have b: "bucket_cap D = of_int (lim_burst D)" "0 \<le> lim_burst D"
    using assms(2) by (auto simp: bucket_cap_def rated_def)
  have "ls_limits (own_state tid t' l) = D \<and> 0 \<le> ls_tokens (own_state tid t' l) \<and>
    ls_last_refill (own_state tid t' l) \<le> t' \<and>
    ls_tokens (own_state tid t' l) + seconds (t' - ls_last_refill (own_state tid t' l)) * per_sec D
       = potential tid D t' l"
  proof (cases "lm_states l = []")
    case True
    have "own_state tid t' l = \<lparr>ls_limits = D, ls_in_flight = 0, ls_tokens = of_int (lim_burst D),
        ls_last_refill = t', ls_last_used = t'\<rparr>"
      using True f [OF True] by (simp add: own_state_def sw state_for_def)
    then show ?thesis using True b by (simp add: potential_def seconds_def)
  next
    case False
    then obtain s where s: "lm_states l = [(tid, s)]" "ls_limits s = D" "0 \<le> ls_tokens s" "ls_last_refill s \<le> t"
      using assms(1) by (auto simp: sole_def)
    then have "own_state tid t' l = s\<lparr>ls_last_used := t'\<rparr>" by (simp add: own_state_def sw state_for_def)
    then show ?thesis using s assms(3) by (simp add: potential_def)
  qed
  then show "ls_limits (own_state tid t' l) = D" "0 \<le> ls_tokens (own_state tid t' l)"
    "ls_last_refill (own_state tid t' l) \<le> t'"
    "ls_tokens (own_state tid t' l) + seconds (t' - ls_last_refill (own_state tid t' l)) * per_sec D
       = potential tid D t' l" by blast+
qed

lemma potential_later: "sole tid D t l \<Longrightarrow> rated D \<Longrightarrow> t \<le> t' \<Longrightarrow>
    potential tid D t' l \<le> potential tid D t l + seconds (t' - t) * per_sec D"
  using rated_pos(1) [of D] seconds_nonneg [of "t' - t"]
  by (auto simp: potential_def seconds_diff algebra_simps zero_le_mult_iff split: option.splits)

lemma sole_acquire:
  assumes "sole tid D t l" "rated D" "t \<le> t'" "acquire tid t' l = (r, l')"
  shows "sole tid D t' l' \<and>
    potential tid D t' l' + (if r = Granted True then 1 else 0) \<le> potential tid D t' l"
proof -
  define s where "s = own_state tid t' l"
  define s1 where "s1 = refill_locked t' s"
  note o = sole_own_state [OF assms(1-3), folded s_def]
  have r1: "0 \<le> ls_tokens s1" "ls_tokens s1 \<le> potential tid D t' l" "ls_last_refill s1 = t'"
    using refill_bounds [of s t'] o assms(2) by (simp_all add: s1_def)
  have d: "lm_overrides l = (\<lambda>_. None)" "lm_defaults l = D" "\<And>x. omap_put tid x (lm_states l) = [(tid, x)]"
    using assms(1) by (auto simp: sole_def)
  have e: "effective l tid = D" using d by (simp add: effective_def)
  have R: "0 < lim_rate_per_min D" using assms(2) by (simp add: rated_def)
  have z: "seconds 0 = 0" by (simp add: seconds_def)
  consider "r = ConcurrentExceeded 1" "l' = l\<lparr>lm_states := [(tid, s)]\<rparr>"
    | w where "r = RateExceeded w" "l' = l\<lparr>lm_states := [(tid, s1)]\<rparr>"
    | "r = Granted True" "1 \<le> ls_tokens s1"
      "l' = l\<lparr>lm_states := [(tid, s1\<lparr>ls_tokens := ls_tokens s1 - 1, ls_in_flight := ls_in_flight s1 + 1\<rparr>)]\<rparr>"
    using assms(4) R o(2) unfolding acquire_eq Let_def e o(1) d(3) s_def [symmetric] s1_def [symmetric]
    by (auto simp: not_less split: if_splits)
  then show ?thesis
  proof cases
    case 1
    then show ?thesis using d o by (simp add: sole_def)
  next
    case 2
    then show ?thesis using d o r1 z by (simp add: sole_def s1_def)
  next
    case 3
    then show ?thesis using d o r1 z by (simp add: sole_def s1_def)
  qed
qed

lemma sole_release:
  assumes "sole tid D t l" "rated D" "t \<le> t'"
  shows "sole tid D t' (release tid t' l) \<and>
    potential tid D t' (release tid t' l) \<le> potential tid D t' l + 1 / 10 ^ 9"
proof (cases "lm_states l")
  case Nil
  then show ?thesis using assms by (auto simp: release_def sole_def)
next
  case (Cons e m)
  then obtain s where l: "lm_states l = [(tid, s)]" "ls_limits s = D" "0 \<le> ls_tokens s" "ls_last_refill s \<le> t"
    "lm_overrides l = (\<lambda>_. None)" "lm_defaults l = D" using assms(1) by (auto simp: sole_def)
  define s' where "s' = s\<lparr>ls_in_flight := (if 0 < ls_in_flight s then ls_in_flight s - 1 else ls_in_flight s), ls_last_used := t'\<rparr>"
  define s1 where "s1 = refill_locked t' s'"
  have b: "0 \<le> ls_tokens s1" "ls_tokens s1 \<le> potential tid D t' l" "ls_last_refill s1 = t'" "ls_limits s1 = D"
    using refill_bounds [of s' t'] l assms(2,3) by (simp_all add: s1_def s'_def potential_def)
  have z: "seconds 0 = 0" by (simp add: seconds_def)
  have "release tid t' l = l\<lparr>lm_states := maybe_erase_idle_locked t' tid [(tid, s')]\<rparr>"
    by (simp add: release_def l(1) s'_def Let_def)
  moreover have "maybe_erase_idle_locked t' tid [(tid, s')] =
      (if 0 < ls_in_flight s' then [(tid, s')]
       else if bucket_cap D \<le> ls_tokens s1 + 1 / 10 ^ 9 then [] else [(tid, s1)])"
    using b(4) by (simp add: maybe_erase_idle_locked_def bucket_at_capacity_locked_def Let_def
        s1_def [symmetric] omap_erase_def)
  ultimately consider "release tid t' l = l\<lparr>lm_states := [(tid, s')]\<rparr>"
    | "release tid t' l = l\<lparr>lm_states := [(tid, s1)]\<rparr>"
    | "release tid t' l = l\<lparr>lm_states := []\<rparr>" "bucket_cap D \<le> ls_tokens s1 + 1 / 10 ^ 9"
    by (metis (full_types))
  then show ?thesis
  proof cases
    case 1
    then show ?thesis using l assms(3) by (simp add: sole_def potential_def [of tid D t' l] s'_def)
  next
    case 2
    then show ?thesis using l b z by (simp add: sole_def)
  next
    case 3
    then show ?thesis using l b z by (simp add: sole_def)
  qed
qed

lemma potential_nonneg: "sole tid D t l \<Longrightarrow> rated D \<Longrightarrow> 0 \<le> potential tid D t l"
  using rated_pos [of D] seconds_nonneg by (fastforce simp: sole_def potential_def zero_le_mult_iff)

lemma lim_run_bound:
  assumes "sole tid D t l" "rated D" "sorted (t # map snd ops)"
  shows "of_nat (fst (lim_run tid l ops)) \<le> potential tid D t l
     + seconds (last (t # map snd ops) - t) * per_sec D + of_nat (length (filter (\<lambda>x. \<not> fst x) ops)) / 10 ^ 9"
  using assms
proof (induction tid l ops arbitrary: t rule: lim_run.induct)
  case (1 tid l)
  then show ?case using potential_nonneg by (simp add: seconds_def)
next
  case (2 tid l u ops)
  obtain r l' where a: "acquire tid u l = (r, l')" by fastforce
  have u: "t \<le> u" and so: "sorted (u # map snd ops)" using "2.prems"(3) by auto
  note x = sole_acquire [OF "2.prems"(1,2) u a]
  note ih = "2.IH" [OF a [symmetric] refl conjunct1 [OF x] "2.prems"(2) so]
  have "seconds (last (t # map snd ((True, u) # ops)) - t) = seconds (last (u # map snd ops) - u) + seconds (u - t)"
    by (simp add: seconds_diff)
  moreover obtain g l'' where g: "lim_run tid l' ops = (g, l'')" by fastforce
  moreover have "fst (lim_run tid l ((True, u) # ops)) = (if r = Granted True then Suc g else g)"
    using g by (simp add: a)
  ultimately show ?case using ih x potential_later [OF "2.prems"(1,2) u]
    by (simp add: algebra_simps split: if_splits)
next
  case (3 tid l u ops)
  have u: "t \<le> u" and so: "sorted (u # map snd ops)" using "3.prems"(3) by auto
  note x = sole_release [OF "3.prems"(1,2) u]
  note ih = "3.IH" [OF conjunct1 [OF x] "3.prems"(2) so]
  define L where "L = last (u # map snd ops)"
  have e1: "last (t # map snd ((False, u) # ops)) = L" by (simp add: L_def)
  have e2: "seconds (L - t) * per_sec D = seconds (L - u) * per_sec D + seconds (u - t) * per_sec D"
    by (simp add: seconds_diff algebra_simps)
  have e3: "(of_nat (length (filter (\<lambda>x. \<not> fst x) ((False, u) # ops))) / 10 ^ 9 :: rat)
      = 1 / 10 ^ 9 + of_nat (length (filter (\<lambda>x. \<not> fst x) ops)) / 10 ^ 9" by (simp add: add_divide_distrib)
  show ?case using ih [folded L_def] conjunct2 [OF x] potential_later [OF "3.prems"(1,2) u]
    unfolding lim_run.simps e1 e2 e3 by linarith
qed

section \<open>Properties\<close>

text \<open>
  C8. The concurrency cap is exact: in every reachable interleaving of acquires, releases and
  limit changes, a request is refused for concurrency precisely when the tenant's entry has a
  cap and as many guards as the cap are still held.  No slot is lost or counted twice, whatever
  entries were evicted on the way.
\<close>

theorem concurrent_cap_exact:
  assumes "lim_reachable d (l, gs, n)" "n \<le> t" "acquire tid t l = (r, l')" "r \<noteq> Granted False"
    and "map_of (lm_states l') tid = Some s"
  shows "(\<exists>k. r = ConcurrentExceeded k) \<longleftrightarrow>
    0 < lim_max_concurrent (ls_limits s) \<and> lim_max_concurrent (ls_limits s) \<le> int (count_list gs tid)"
proof -
  have inv: "states_inv (lm_states l) t" "flight (lm_states l) tid = int (count_list gs tid)"
    using lim_reachable_inv [OF assms(1)] assms(2) states_inv_mono by (auto simp: lim_inv_def)
  show ?thesis
  proof (rule acquire_shape [OF assms(3,4) inv(1)])
    fix s'
    assume a: "l' = l\<lparr>lm_states := omap_put tid s' (swept tid t l)\<rparr>" "ls_limits s' = ls_limits (own_state tid t l)"
      "(\<exists>k. r = ConcurrentExceeded k) = (0 < lim_max_concurrent (ls_limits (own_state tid t l)) \<and>
         lim_max_concurrent (ls_limits (own_state tid t l)) \<le> ls_in_flight (own_state tid t l))"
    have "s = s'" using a(1) assms(5) by (simp add: om.lookup_put)
    then show ?thesis using a own_state_props(1) [OF inv(1), of tid] inv(2) by simp
  qed
qed

definition two_slots :: TenantLimits where
  "two_slots = \<lparr>lim_max_concurrent = 2, lim_rate_per_min = 0, lim_burst = 0\<rparr>"

theorem concurrent_cap_exact_witness:
  "\<exists>l'. acquire 7 0 (new_limiter two_slots) = (Granted True, l')
     \<and> ((\<exists>k. Granted True = ConcurrentExceeded k) \<longleftrightarrow> (0 < (2::int) \<and> 2 \<le> int (count_list [] (7::int))))"
proof -
  define l' where "l' = snd (acquire 7 0 (new_limiter two_slots))"
  have a: "acquire 7 0 (new_limiter two_slots) = (Granted True, l')"
    by (simp add: l'_def acquire_def effective_def new_limiter_def fill_burst_def two_slots_def kSweepStart_def
        state_for_def fresh_limits_def with_defaults_def Let_def)
  obtain s where s: "map_of (lm_states l') 7 = Some s" "lim_max_concurrent (ls_limits s) = 2"
    by (simp add: l'_def acquire_def effective_def new_limiter_def fill_burst_def two_slots_def kSweepStart_def
        state_for_def fresh_limits_def with_defaults_def Let_def)
  show ?thesis
    using concurrent_cap_exact [OF reach_new order_refl a _ s(1)] a s(2) by auto
qed

text \<open>
  C10. The advertised retry is sufficient: after a rate refusal with \<open>retry_after_seconds = w\<close>
  (at least one second), the tenant's next request \<open>w\<close> or more seconds later is not refused for
  rate.
\<close>

theorem retry_after_suffices:
  assumes "lim_reachable d (l, gs, n)" "n \<le> t" "acquire tid t l = (RateExceeded w, l')"
    and "t + w * ns_per_s \<le> t'"
  shows "1 \<le> w \<and> (\<forall>k. fst (acquire tid t' l') \<noteq> RateExceeded k)"
proof -
  have inv: "states_inv (lm_states l) t"
    using lim_reachable_inv [OF assms(1)] assms(2) states_inv_mono by (auto simp: lim_inv_def)
  define s where "s = refill_locked t (own_state tid t l)"
  note r = acquire_rate_exceeded [OF assms(3) inv, folded s_def]
  note c = wait_seconds_covers [OF r(3,2)]
  have w: "1 \<le> w" using c r(4) by simp
  then have t': "t < t'" using assms(4) by (simp add: ns_per_s_def)
  have inv': "states_inv (lm_states l') t'"
    using acquire_inv [OF lim_reachable_inv [OF assms(1)] assms(3,2)] t' states_inv_mono
    by (fastforce simp: lim_inv_def)
  have o: "own_state tid t' l' = s\<lparr>ls_last_used := t'\<rparr>"
    using own_state_props(4) [OF inv'] r(1) by (simp add: om.lookup_put)
  have "(of_int (w * ns_per_s) :: rat) \<le> of_int (t' - t)" using assms(4) by (simp only: of_int_le_iff)
  then have "of_int w \<le> seconds (t' - t)" by (simp add: seconds_def ns_per_s_def field_simps)
  moreover have "0 \<le> per_sec (ls_limits s)" using r(3) by (simp add: per_sec_def)
  ultimately have "of_int w * per_sec (ls_limits s) \<le> seconds (t' - t) * per_sec (ls_limits s)"
    by (rule mult_right_mono)
  then have "1 \<le> ls_tokens s + seconds (t' - t) * per_sec (ls_limits s)"
    using c(1) unfolding r(4) [symmetric] by linarith
  then have "\<not> ls_tokens (refill_locked t' (own_state tid t' l')) < 1"
    using refill_tokens(1) [of "own_state tid t' l'" t'] o r(3,5) t' bucket_cap_ge_1 [OF r(3)] by simp
  then have "fst (acquire tid t' l') \<noteq> RateExceeded k" for k
    unfolding acquire_eq Let_def by simp
  then show ?thesis using w by blast
qed

definition one_per_second :: TenantLimits where
  "one_per_second = \<lparr>lim_max_concurrent = 0, lim_rate_per_min = 60, lim_burst = 1\<rparr>"

definition after_one :: limiter where
  "after_one = snd (acquire 7 0 (new_limiter one_per_second))"

lemmas limiter_eval = acquire_def effective_def new_limiter_def fill_burst_def one_per_second_def kSweepStart_def
  state_for_def fresh_limits_def with_defaults_def refill_locked_def seconds_def Let_def wait_seconds_def per_sec_def

lemma acquire_one: "acquire 7 0 (new_limiter one_per_second) = (Granted True, after_one)"
  by (simp add: after_one_def limiter_eval)

lemma acquire_two: "fst (acquire 7 0 after_one) = RateExceeded 2"
  by (simp add: after_one_def limiter_eval)

theorem retry_after_suffices_witness:
  "\<forall>k. fst (acquire 7 (2 * ns_per_s) (snd (acquire 7 0 after_one))) \<noteq> RateExceeded k"
proof -
  have "lim_reachable one_per_second (after_one, [7], 0)"
    using reach_step [OF reach_new step_acquire [OF acquire_one order_refl]] by simp
  moreover have "acquire 7 0 after_one = (RateExceeded 2, snd (acquire 7 0 after_one))"
    using acquire_two by (metis prod.collapse)
  ultimately show ?thesis using retry_after_suffices [of one_per_second after_one "[7]" 0 0 7 2] by simp
qed



text \<open>
  Lowering the defaults does not reach a tenant whose entry exists: its requests are still judged
  by the limits copied into the entry when it was created.
\<close>

lemma stale_defaults:
  assumes "states_inv (lm_states l) t" "map_of (lm_states l) tid = Some s"
  shows "ls_limits (own_state tid t (set_defaults d l)) = ls_limits s"
  using own_state_props(4) [of "set_defaults d l" t tid s] assms by (simp add: set_defaults_def)

end
