(* ===== verification/Event_Bus.thy ===== *)
theory Event_Bus
  imports Ordered_Map
begin

text \<open>
  The two in-process publish/subscribe buses: \<open>src/notification_bus.cpp\<close>, keyed by tenant, and
  \<open>src/request_event_bus.cpp\<close>, keyed by request id.  A callback is an opaque value; an empty
  \<open>std::function\<close> is \<open>None\<close>.  Publishing snapshots the matching callbacks under the lock and runs
  them afterwards, exceptions swallowed: its model is the list of callbacks to run, in
  subscription-id order.
\<close>

section \<open>Payloads\<close>

datatype notification_kind = RunStarted | RunCompleted | RunFailed

record Notification =
  n_kind :: notification_kind
  n_tenant_id :: int
  n_task_id :: int
  n_run_id :: int
  n_status :: string
  n_agent_id :: string
  n_started_at :: int
  n_completed_at :: int
  n_result_summary :: string
  n_error_message :: string

definition notification_kind_str :: "notification_kind \<Rightarrow> string" where
  "notification_kind_str k =
     (case k of RunStarted \<Rightarrow> ''run.started'' | RunCompleted \<Rightarrow> ''run.completed'' | RunFailed \<Rightarrow> ''run.failed'')"

record RequestEventEnvelope =
  ev_request_id :: string
  ev_seq :: int
  ev_event_kind :: string
  ev_payload_json :: string
  ev_created_at_ms :: int
  ev_terminal :: bool

section \<open>Buses\<close>

record 'c NotificationBus =
  nb_subs :: "(int \<times> (int \<times> 'c)) list"
  nb_next_id :: int

definition new_notification_bus :: "'c NotificationBus" where
  "new_notification_bus = \<lparr>nb_subs = [], nb_next_id = 1\<rparr>"

definition nb_subscribe :: "int \<Rightarrow> 'c option \<Rightarrow> 'c NotificationBus \<Rightarrow> int \<times> 'c NotificationBus" where
  "nb_subscribe tenant_id cb b =
     (case cb of
        None \<Rightarrow> (0, b)
      | Some c \<Rightarrow> (nb_next_id b, \<lparr>nb_subs = omap_put (nb_next_id b) (tenant_id, c) (nb_subs b),
                                 nb_next_id = nb_next_id b + 1\<rparr>))"

definition nb_unsubscribe :: "int \<Rightarrow> 'c NotificationBus \<Rightarrow> 'c NotificationBus" where
  "nb_unsubscribe i b = (if i = 0 then b else b\<lparr>nb_subs := omap_erase i (nb_subs b)\<rparr>)"

definition nb_publish :: "Notification \<Rightarrow> 'c NotificationBus \<Rightarrow> 'c list" where
  "nb_publish n b = map (\<lambda>(i, t, c). c) (filter (\<lambda>(i, t, c). t = n_tenant_id n) (nb_subs b))"

record 'c RequestEventBus =
  rb_subs :: "(int \<times> (string \<times> 'c)) list"
  rb_next_id :: int

definition new_request_event_bus :: "'c RequestEventBus" where
  "new_request_event_bus = \<lparr>rb_subs = [], rb_next_id = 1\<rparr>"

definition rb_subscribe :: "string \<Rightarrow> 'c option \<Rightarrow> 'c RequestEventBus \<Rightarrow> int \<times> 'c RequestEventBus" where
  "rb_subscribe request_id cb b =
     (case cb of
        None \<Rightarrow> (0, b)
      | Some c \<Rightarrow>
          if request_id = [] then (0, b)
          else (rb_next_id b, \<lparr>rb_subs = omap_put (rb_next_id b) (request_id, c) (rb_subs b),
                               rb_next_id = rb_next_id b + 1\<rparr>))"

definition rb_unsubscribe :: "int \<Rightarrow> 'c RequestEventBus \<Rightarrow> 'c RequestEventBus" where
  "rb_unsubscribe i b = (if i = 0 then b else b\<lparr>rb_subs := omap_erase i (rb_subs b)\<rparr>)"

definition rb_publish :: "RequestEventEnvelope \<Rightarrow> 'c RequestEventBus \<Rightarrow> 'c list" where
  "rb_publish env b = map (\<lambda>(i, r, c). c) (filter (\<lambda>(i, r, c). r = ev_request_id env) (rb_subs b))"

section \<open>The interface of a bus\<close>

text \<open>
  What a subscriber may rely on, for any key type: \<open>live b k\<close> lists the live subscriptions of
  key \<open>k\<close> with their ids, in the order in which a publish runs them.
\<close>

datatype ('k, 'c) bus_op = Subscribe 'k 'c | Unsubscribe int

fun bus_step :: "('k \<Rightarrow> 'c option \<Rightarrow> 'b \<Rightarrow> int \<times> 'b) \<Rightarrow> (int \<Rightarrow> 'b \<Rightarrow> 'b) \<Rightarrow> ('k, 'c) bus_op \<Rightarrow> 'b \<Rightarrow> 'b" where
  "bus_step sub unsub (Subscribe k c) b = snd (sub k (Some c) b)"
| "bus_step sub unsub (Unsubscribe i) b = unsub i b"

locale pubsub =
  fixes fresh :: 'b and sub :: "'k \<Rightarrow> 'c option \<Rightarrow> 'b \<Rightarrow> int \<times> 'b" and unsub :: "int \<Rightarrow> 'b \<Rightarrow> 'b"
    and live :: "'b \<Rightarrow> 'k \<Rightarrow> (int \<times> 'c) list" and valid :: "'k \<Rightarrow> bool" and ok :: "'b \<Rightarrow> bool"
  assumes ok_fresh: "ok fresh" and live_fresh: "live fresh k = []"
    and refused: "cb = None \<or> \<not> valid k \<Longrightarrow> sub k cb b = (0, b)"
    and ok_sub: "ok b \<Longrightarrow> ok (snd (sub k cb b))"
    and ok_unsub: "ok b \<Longrightarrow> ok (unsub i b)"
    and sub_id: "ok b \<Longrightarrow> valid k \<Longrightarrow> 0 < fst (sub k (Some c) b) \<and> (\<forall>k'. fst (sub k (Some c) b) \<notin> fst ` set (live b k'))"
    and live_sub: "ok b \<Longrightarrow> valid k \<Longrightarrow>
      live (snd (sub k (Some c) b)) k' = live b k' @ (if k' = k then [(fst (sub k (Some c) b), c)] else [])"
    and live_unsub: "ok b \<Longrightarrow> i \<noteq> 0 \<Longrightarrow> live (unsub i b) k = filter (\<lambda>e. fst e \<noteq> i) (live b k)"
    and unsub_zero: "unsub 0 b = b"
begin

abbreviation op_step :: "('k, 'c) bus_op \<Rightarrow> 'b \<Rightarrow> 'b" where
  "op_step \<equiv> bus_step sub unsub"

lemma ok_steps: "ok b \<Longrightarrow> ok (fold op_step ops b)"
proof (induction ops arbitrary: b)
  case (Cons x ops)
  then show ?case by (cases x) (simp_all add: ok_sub ok_unsub)
qed simp

lemma step_keeps:
  assumes "ok b" "filter (\<lambda>e. fst e = i) (live b k) = [(i, c)]" "x \<noteq> Unsubscribe i"
  shows "filter (\<lambda>e. fst e = i) (live (op_step x b) k) = [(i, c)]"
proof (cases x)
  case (Subscribe k' c')
  show ?thesis
  proof (cases "valid k'")
    case True
    have "(i, c) \<in> set (filter (\<lambda>e. fst e = i) (live b k))" by (simp add: assms(2))
    then have "i \<in> fst ` set (live b k)" by force
    then have "fst (sub k' (Some c') b) \<noteq> i" using sub_id [OF assms(1) True, of c'] by metis
    then show ?thesis using live_sub [OF assms(1) True, of c' k] assms(2) Subscribe by simp
  next
    case False
    then show ?thesis using refused [of "Some c'" k' b] assms(2) Subscribe by simp
  qed
next
  case (Unsubscribe j)
  show ?thesis
  proof (cases "j = 0")
    case True
    then show ?thesis using assms(2) Unsubscribe by (simp add: unsub_zero)
  next
    case False
    have "j \<noteq> i" using assms(3) Unsubscribe by auto
    have "(\<lambda>e. fst e \<noteq> j \<and> fst e = i) = (\<lambda>e :: int \<times> 'c. fst e = i)" using \<open>j \<noteq> i\<close> by auto
    then show ?thesis using live_unsub [OF assms(1) False, of k] assms(2) Unsubscribe
      by (simp add: conj_commute)
  qed
qed

text \<open>A subscription is live exactly once until its own id is unsubscribed.\<close>

lemma stays_live:
  assumes "ok b" "valid k" "sub k (Some c) b = (i, b')"
    and "Unsubscribe i \<notin> set ops"
  shows "filter (\<lambda>e. fst e = i) (live (fold op_step ops b') k) = [(i, c)]"
proof -
  have i: "0 < i" "i \<notin> fst ` set (live b k)" using sub_id [OF assms(1,2), of c] assms(3) by auto
  have n: "filter (\<lambda>e. fst e = i) (live b k) = []" using i(2) by (auto simp: filter_empty_conv)
  have b: "ok b'" "filter (\<lambda>e. fst e = i) (live b' k) = [(i, c)]"
    using ok_sub [OF assms(1), of k "Some c"] live_sub [OF assms(1,2), of c k] assms(3) n by simp_all
  from b assms(4) show ?thesis
  proof (induction ops arbitrary: b')
    case (Cons x ops)
    have "ok (op_step x b')" using Cons.prems(1) by (cases x) (simp_all add: ok_sub ok_unsub)
    moreover have "filter (\<lambda>e. fst e = i) (live (op_step x b') k) = [(i, c)]"
      using step_keeps [OF Cons.prems(1,2), of x] Cons.prems(3) by auto
    ultimately show ?case using Cons.IH Cons.prems(3) by simp
  qed simp
qed

text \<open>After unsubscribing, the subscription is gone for every key.\<close>

lemma unsub_silences:
  "ok b \<Longrightarrow> i \<noteq> 0 \<Longrightarrow> i \<notin> fst ` set (live (unsub i b) k)"
  by (auto simp: live_unsub)

end

section \<open>Both buses implement the interface\<close>

definition nb_live :: "'c NotificationBus \<Rightarrow> int \<Rightarrow> (int \<times> 'c) list" where
  "nb_live b t = map (\<lambda>(i, t', c). (i, c)) (filter (\<lambda>(i, t', c). t' = t) (nb_subs b))"

definition rb_live :: "'c RequestEventBus \<Rightarrow> string \<Rightarrow> (int \<times> 'c) list" where
  "rb_live b r = map (\<lambda>(i, r', c). (i, c)) (filter (\<lambda>(i, r', c). r' = r) (rb_subs b))"

text \<open>Ids are assigned in increasing order, so a new subscription comes last.\<close>

definition ids_below :: "int \<Rightarrow> (int \<times> 'v) list \<Rightarrow> bool" where
  "ids_below n m \<longleftrightarrow> 1 \<le> n \<and> list_all (\<lambda>e. 0 < fst e \<and> fst e < n) m"

lemma omap_put_last: "ids_below n m \<Longrightarrow> omap_put n v m = m @ [(n, v)]"
  by (induction m) (auto simp: ids_below_def)

lemma ids_below_snoc: "ids_below n m \<Longrightarrow> ids_below (n + 1) (m @ [(n, v)])"
  by (auto simp: ids_below_def list_all_iff)

lemma ids_below_erase: "ids_below n m \<Longrightarrow> ids_below n (omap_erase i m)"
  by (auto simp: ids_below_def list_all_iff omap_erase_def)

definition nb_ok :: "'c NotificationBus \<Rightarrow> bool" where "nb_ok b = ids_below (nb_next_id b) (nb_subs b)"
definition rb_ok :: "'c RequestEventBus \<Rightarrow> bool" where "rb_ok b = ids_below (rb_next_id b) (rb_subs b)"

lemma nb_live_ids: "nb_ok b \<Longrightarrow> nb_next_id b \<notin> fst ` set (nb_live b t)"
  by (fastforce simp: nb_ok_def nb_live_def ids_below_def list_all_iff)

lemma rb_live_ids: "rb_ok b \<Longrightarrow> rb_next_id b \<notin> fst ` set (rb_live b r)"
  by (fastforce simp: rb_ok_def rb_live_def ids_below_def list_all_iff)

lemma filter_live_commute:
  "map (\<lambda>(i, t', c). (i, c)) (filter (\<lambda>(i, t', c). t' = t) (omap_erase i m))
     = filter (\<lambda>e. fst e \<noteq> i) (map (\<lambda>(i, t', c). (i, c)) (filter (\<lambda>(i, t', c). t' = t) m))"
  by (induction m) (auto simp: omap_erase_def)

interpretation nb: pubsub new_notification_bus nb_subscribe nb_unsubscribe nb_live "\<lambda>_. True" nb_ok
proof unfold_locales
  fix k cb and b :: "'a NotificationBus" and i c k'
  show "nb_ok (new_notification_bus :: 'a NotificationBus)"
    by (simp add: nb_ok_def new_notification_bus_def ids_below_def)
  show "nb_live (new_notification_bus :: 'a NotificationBus) k = []" by (simp add: nb_live_def new_notification_bus_def)
  show "cb = None \<or> \<not> True \<Longrightarrow> nb_subscribe k cb b = (0, b)" by (auto simp: nb_subscribe_def)
  show "nb_ok b \<Longrightarrow> nb_ok (snd (nb_subscribe k cb b))"
    by (auto simp: nb_ok_def nb_subscribe_def omap_put_last ids_below_snoc split: option.splits)
  show "nb_ok b \<Longrightarrow> nb_ok (nb_unsubscribe i b)" by (simp add: nb_ok_def nb_unsubscribe_def ids_below_erase)
  show "nb_ok b \<Longrightarrow> True \<Longrightarrow> 0 < fst (nb_subscribe k (Some c) b) \<and>
      (\<forall>k'. fst (nb_subscribe k (Some c) b) \<notin> fst ` set (nb_live b k'))"
    using nb_live_ids by (auto simp: nb_subscribe_def nb_ok_def ids_below_def)
  show "nb_ok b \<Longrightarrow> True \<Longrightarrow> nb_live (snd (nb_subscribe k (Some c) b)) k' =
      nb_live b k' @ (if k' = k then [(fst (nb_subscribe k (Some c) b), c)] else [])"
    by (simp add: nb_subscribe_def nb_live_def nb_ok_def omap_put_last)
  show "nb_ok b \<Longrightarrow> i \<noteq> 0 \<Longrightarrow> nb_live (nb_unsubscribe i b) k = filter (\<lambda>e. fst e \<noteq> i) (nb_live b k)"
    by (simp add: nb_unsubscribe_def nb_live_def filter_live_commute)
  show "nb_unsubscribe 0 b = b" by (simp add: nb_unsubscribe_def)
qed

interpretation rb: pubsub new_request_event_bus rb_subscribe rb_unsubscribe rb_live "\<lambda>r. r \<noteq> []" rb_ok
proof unfold_locales
  fix k cb and b :: "'a RequestEventBus" and i c k'
  show "rb_ok (new_request_event_bus :: 'a RequestEventBus)"
    by (simp add: rb_ok_def new_request_event_bus_def ids_below_def)
  show "rb_live (new_request_event_bus :: 'a RequestEventBus) k = []" by (simp add: rb_live_def new_request_event_bus_def)
  show "cb = None \<or> \<not> k \<noteq> [] \<Longrightarrow> rb_subscribe k cb b = (0, b)" by (auto simp: rb_subscribe_def split: option.splits)
  show "rb_ok b \<Longrightarrow> rb_ok (snd (rb_subscribe k cb b))"
    by (auto simp: rb_ok_def rb_subscribe_def omap_put_last ids_below_snoc split: option.splits)
  show "rb_ok b \<Longrightarrow> rb_ok (rb_unsubscribe i b)" by (simp add: rb_ok_def rb_unsubscribe_def ids_below_erase)
  show "rb_ok b \<Longrightarrow> k \<noteq> [] \<Longrightarrow> 0 < fst (rb_subscribe k (Some c) b) \<and>
      (\<forall>k'. fst (rb_subscribe k (Some c) b) \<notin> fst ` set (rb_live b k'))"
    using rb_live_ids by (auto simp: rb_subscribe_def rb_ok_def ids_below_def)
  show "rb_ok b \<Longrightarrow> k \<noteq> [] \<Longrightarrow> rb_live (snd (rb_subscribe k (Some c) b)) k' =
      rb_live b k' @ (if k' = k then [(fst (rb_subscribe k (Some c) b), c)] else [])"
    by (simp add: rb_subscribe_def rb_live_def rb_ok_def omap_put_last)
  show "rb_ok b \<Longrightarrow> i \<noteq> 0 \<Longrightarrow> rb_live (rb_unsubscribe i b) k = filter (\<lambda>e. fst e \<noteq> i) (rb_live b k)"
    by (simp add: rb_unsubscribe_def rb_live_def filter_live_commute)
  show "rb_unsubscribe 0 b = b" by (simp add: rb_unsubscribe_def)
qed

lemma publish_live:
  "nb_publish n b = map snd (nb_live b (n_tenant_id n))" "rb_publish env r = map snd (rb_live r (ev_request_id env))"
  by (auto simp: nb_publish_def nb_live_def rb_publish_def rb_live_def)

text \<open>One matching entry splits the list of live subscriptions around it.\<close>

lemma single_entry:
  assumes "filter (\<lambda>e. fst e = i) xs = [(i, c)]"
  obtains us vs where "xs = us @ (i, c) # vs" "i \<notin> fst ` set (us @ vs)"
proof -
  from assms obtain us vs where x: "xs = us @ (i, c) # vs" "\<forall>u\<in>set us. fst u \<noteq> i" "filter (\<lambda>e. fst e = i) vs = []"
    by (auto simp: filter_eq_Cons_iff)
  have "i \<notin> fst ` set us" using x(2) by force
  moreover have "i \<notin> fst ` set vs" using x(3) by (auto simp: filter_empty_conv)
  ultimately show thesis using that [OF x(1)] by (simp add: image_Un)
qed

section \<open>Properties\<close>

text \<open>
  C11. A notification subscriber misses nothing: whatever subscriptions came before, a callback
  subscribed for a tenant is run exactly once, for its own id, by every publish for that tenant
  until its id is unsubscribed, however many others subscribe and unsubscribe in between; and
  after the unsubscription it is not run again.
\<close>

theorem notification_exactly_once:
  fixes b :: "'c NotificationBus"
  assumes "b = fold (bus_step nb_subscribe nb_unsubscribe) pre new_notification_bus"
    and "nb_subscribe t (Some c) b = (i, b')" "Unsubscribe i \<notin> set ops"
    and "B = fold (bus_step nb_subscribe nb_unsubscribe) ops b'" "n_tenant_id n = t"
  shows "(\<exists>us vs. nb_publish n B = map snd us @ [c] @ map snd vs \<and> nb_live B t = us @ [(i, c)] @ vs
            \<and> i \<notin> fst ` set (us @ vs))
    \<and> i \<notin> fst ` set (nb_live (nb_unsubscribe i B) t)"
proof -
  have ok: "nb_ok b" unfolding assms(1) by (intro nb.ok_steps nb.ok_fresh)
  have okB: "nb_ok B" unfolding assms(4) using nb.ok_sub [OF ok, of t "Some c"] assms(2) by (intro nb.ok_steps) simp
  have i: "i \<noteq> 0" using nb.sub_id [OF ok TrueI, of t c] assms(2) by simp
  have "filter (\<lambda>e. fst e = i) (nb_live B t) = [(i, c)]"
    unfolding assms(4) by (rule nb.stays_live [OF ok TrueI assms(2,3)])
  then obtain us vs where "nb_live B t = us @ (i, c) # vs" "i \<notin> fst ` set (us @ vs)" by (rule single_entry)
  then show ?thesis using nb.unsub_silences [OF okB i] assms(5)
    by (intro conjI exI [of _ us] exI [of _ vs]) (simp_all add: publish_live)
qed

theorem notification_exactly_once_witness:
  "CHR ''x'' \<in> set (nb_publish \<lparr>n_kind = RunStarted, n_tenant_id = 3, n_task_id = 0, n_run_id = 0, n_status = [],
       n_agent_id = [], n_started_at = 0, n_completed_at = 0, n_result_summary = [], n_error_message = []\<rparr>
      (snd (nb_subscribe 3 (Some CHR ''x'') new_notification_bus)))"
  using notification_exactly_once [of new_notification_bus "[]" 3 "CHR ''x''" 1
      "snd (nb_subscribe 3 (Some CHR ''x'') new_notification_bus)" "[]"
      "snd (nb_subscribe 3 (Some CHR ''x'') new_notification_bus)"
      "\<lparr>n_kind = RunStarted, n_tenant_id = 3, n_task_id = 0, n_run_id = 0, n_status = [],
       n_agent_id = [], n_started_at = 0, n_completed_at = 0, n_result_summary = [], n_error_message = []\<rparr>"]
  by (auto simp: nb_subscribe_def new_notification_bus_def)

text \<open>
  The same for the request event bus: a callback subscribed to a non-empty request id is run
  exactly once by every publish for that request until its id is unsubscribed.
\<close>

lemma request_event_exactly_once:
  fixes b :: "'c RequestEventBus"
  assumes "b = fold (bus_step rb_subscribe rb_unsubscribe) pre new_request_event_bus"
    and "rb_subscribe r (Some c) b = (i, b')" "i \<noteq> 0" "Unsubscribe i \<notin> set ops"
    and "B = fold (bus_step rb_subscribe rb_unsubscribe) ops b'" "ev_request_id env = r"
  shows "(\<exists>us vs. rb_publish env B = map snd us @ [c] @ map snd vs \<and> rb_live B r = us @ [(i, c)] @ vs
            \<and> i \<notin> fst ` set (us @ vs))
    \<and> i \<notin> fst ` set (rb_live (rb_unsubscribe i B) r)"
proof -
  have ok: "rb_ok b" unfolding assms(1) by (intro rb.ok_steps rb.ok_fresh)
  have r: "r \<noteq> []" using assms(2,3) by (auto simp: rb_subscribe_def)
  have okB: "rb_ok B" unfolding assms(5) using rb.ok_sub [OF ok, of r "Some c"] assms(2) by (intro rb.ok_steps) simp
  have "filter (\<lambda>e. fst e = i) (rb_live B r) = [(i, c)]"
    unfolding assms(5) by (rule rb.stays_live [OF ok r assms(2,4)])
  then obtain us vs where "rb_live B r = us @ (i, c) # vs" "i \<notin> fst ` set (us @ vs)" by (rule single_entry)
  then show ?thesis using rb.unsub_silences [OF okB assms(3)] assms(6)
    by (intro conjI exI [of _ us] exI [of _ vs]) (simp_all add: publish_live)
qed

end
