(* ===== verification/Scheduler.thy ===== *)
theory Scheduler
  imports Task_Store Schedule_Parser Tenant_Limiter Event_Bus Api_Types
begin

text \<open>
  The background scheduler (\<open>src/scheduler.cpp\<close>) and the startup recovery of stranded leases
  (\<open>src/scheduled_task_recovery.cpp\<close>) over the task tables, the limiter and the notification
  bus.  The tenant lookup, the conversation check, the orchestrator and its turn are parameters,
  collected in \<open>fire_env\<close> with the clock values one fire reads.
\<close>

section \<open>Environment and state\<close>

record fire_env =
  fe_tz :: timezone
  fe_tenant_disabled :: "int \<Rightarrow> bool option"       \<comment> \<open>\<open>get_tenant\<close>; \<open>None\<close> for an unknown tenant\<close>
  fe_conversation_ok :: "int \<Rightarrow> int \<Rightarrow> bool"         \<comment> \<open>\<open>is_http_scoped_conversation\<close>\<close>
  fe_run_insert_ok :: bool                          \<comment> \<open>\<open>create_task_run\<close> does not throw\<close>
  fe_orchestrator :: "string + (string \<Rightarrow> bool)"     \<comment> \<open>\<open>build_blocking_orchestrator\<close>: error, or \<open>has_agent\<close>\<close>
  fe_prepared :: bool                               \<comment> \<open>\<open>prepare_blocking_conversation_turn\<close>\<close>
  fe_send :: "ApiResponse option"                   \<comment> \<open>\<open>send\<close>; \<open>None\<close> when it throws\<close>
  fe_req_id :: string
  fe_pre_now :: int                                 \<comment> \<open>\<open>now_epoch\<close> before the claim\<close>
  fe_now :: int                                     \<comment> \<open>at the claim\<close>
  fe_completed :: int                               \<comment> \<open>\<open>completed_at\<close>\<close>
  fe_later :: int                                   \<comment> \<open>any later read\<close>
  fe_steady :: nanos                                \<comment> \<open>the limiter's clock\<close>
  fe_steady_end :: nanos

record sched =
  sd_store :: task_store
  sd_limiter :: "limiter option"
  sd_published :: "Notification list"

definition kResultSummaryMax :: nat where "kResultSummaryMax = 4096"
definition kTenantFacingRunError :: string where "kTenantFacingRunError = ''the scheduled task failed''"

definition truncate_summary :: "string \<Rightarrow> string" where
  "truncate_summary s =
     (if length s \<le> kResultSummaryMax then s
      else take kResultSummaryMax s @ [CHR 0x0A] @ ellipsis @ ''[truncated]'')"

definition no_patch :: task_patch where
  "no_patch = \<lparr>tp_status = None, tp_next_fire_at = None, tp_last_run_at = None, tp_last_run_id = None,
     tp_run_count_delta = None\<rparr>"

definition status_patch :: "string \<Rightarrow> task_patch" where
  "status_patch st = no_patch\<lparr>tp_status := Some st\<rparr>"

definition ran_patch :: "string \<Rightarrow> int option \<Rightarrow> int \<Rightarrow> int \<Rightarrow> task_patch" where
  "ran_patch st next run_at run = \<lparr>tp_status = Some st, tp_next_fire_at = next, tp_last_run_at = Some run_at,
     tp_last_run_id = Some run, tp_run_count_delta = Some 1\<rparr>"

definition release_running_lease :: "int \<Rightarrow> int \<Rightarrow> task_patch \<Rightarrow> int \<Rightarrow> task_store \<Rightarrow> bool \<times> task_store" where
  "release_running_lease tenant_id task_id p now s =
     (case update_scheduled_task tenant_id task_id p (Some ''running'') now s of
        (True, s') \<Rightarrow> (True, s')
      | (False, s') \<Rightarrow>
          (case get_scheduled_task tenant_id task_id s' of
             None \<Rightarrow> (False, s')
           | Some row \<Rightarrow>
               if t_status row \<noteq> ''running'' then (False, s')
               else update_scheduled_task tenant_id task_id p None now s'))"

definition is_recurring :: "ScheduledTask \<Rightarrow> bool" where
  "is_recurring t \<longleftrightarrow> t_schedule_kind t = ''recurring''"

text \<open>\<open>next_fire_for_recur\<close> with the one-hour fallback of the failure paths.\<close>

definition next_or_hour :: "timezone \<Rightarrow> ScheduledTask \<Rightarrow> int \<Rightarrow> int \<Rightarrow> int" where
  "next_or_hour tz t after fallback =
     (let next = next_fire_for_recur tz (t_recur_json t) after in if next = 0 then fallback + 3600 else next)"

definition run_notification :: "notification_kind \<Rightarrow> ScheduledTask \<Rightarrow> int \<Rightarrow> string \<Rightarrow> int \<Rightarrow> int \<Rightarrow> string \<Rightarrow> string \<Rightarrow> Notification" where
  "run_notification k t run st started completed summary err =
     \<lparr>n_kind = k, n_tenant_id = t_tenant_id t, n_task_id = t_id t, n_run_id = run, n_status = st,
      n_agent_id = t_agent_id t, n_started_at = started, n_completed_at = completed,
      n_result_summary = summary, n_error_message = err\<rparr>"

section \<open>Firing a task\<close>

text \<open>
  The first half of \<open>fire_task\<close>: the tenant and conversation checks, the claim, the limiter, the
  run row and its notification.  \<open>NotFired\<close> is a plain return, \<open>Threw\<close> an exception of
  \<open>create_task_run\<close> that escapes, \<open>Started r g\<close> a run whose guard is held when \<open>g\<close>.
\<close>

datatype fire_begin_result = NotFired | Threw bool | Started int bool

definition held_back :: "fire_env \<Rightarrow> ScheduledTask \<Rightarrow> sched \<Rightarrow> sched option" where
  "held_back env task s =
     (let tn = t_tenant_id task; i = t_id task; st = sd_store s; upd = (\<lambda>p. s\<lparr>sd_store := snd (update_scheduled_task tn i p None (fe_later env) st)\<rparr>) in
      case fe_tenant_disabled env tn of
        None \<Rightarrow> Some (s\<lparr>sd_store := snd (delete_scheduled_task tn i st)\<rparr>)
      | Some disabled \<Rightarrow>
          if disabled then
            Some (if is_recurring task
                  then upd (no_patch\<lparr>tp_next_fire_at := Some (next_or_hour (fe_tz env) task (fe_pre_now env) (fe_pre_now env))\<rparr>)
                  else upd (status_patch ''paused''))
          else if 0 < t_conversation_id task \<and> \<not> fe_conversation_ok env tn (t_conversation_id task) then
            Some (upd (status_patch ''paused''))
          else None)"

definition fire_begin :: "fire_env \<Rightarrow> ScheduledTask \<Rightarrow> sched \<Rightarrow> fire_begin_result \<times> sched" where
  "fire_begin env task s =
     (case held_back env task s of
        Some s' \<Rightarrow> (NotFired, s')
      | None \<Rightarrow>
          (let tn = t_tenant_id task; i = t_id task;
               (claimed, st) = try_claim_scheduled_task tn i (fe_now env) (fe_later env) (sd_store s)
           in if \<not> claimed then (NotFired, s\<lparr>sd_store := st\<rparr>)
              else
                let (lim, s1) = (case sd_limiter s of
                                   None \<Rightarrow> (Granted False, s\<lparr>sd_store := st\<rparr>)
                                 | Some l \<Rightarrow> (let (r, l') = acquire tn (fe_steady env) l
                                             in (r, s\<lparr>sd_store := st, sd_limiter := Some l'\<rparr>)))
                in case lim of
                     ConcurrentExceeded k \<Rightarrow>
                       (NotFired, s1\<lparr>sd_store := snd (release_running_lease tn i (status_patch ''active'') (fe_later env) st)\<rparr>)
                   | RateExceeded k \<Rightarrow>
                       (NotFired, s1\<lparr>sd_store := snd (release_running_lease tn i
                          ((status_patch ''active'')\<lparr>tp_next_fire_at := Some (fe_now env + (if 0 < k then k else 60))\<rparr>)
                          (fe_later env) st)\<rparr>)
                   | Granted g \<Rightarrow>
                       if \<not> fe_run_insert_ok env then (Threw g, s1)
                       else let (run, st2) = create_task_run tn i ''running'' (fe_now env) (fe_req_id env) st
                            in (Started (r_id run) g, s1\<lparr>sd_store := st2,
                                 sd_published := sd_published s1 @
                                   [run_notification RunStarted task (r_id run) ''running'' (fe_now env) 0 [] []]\<rparr>)))"

text \<open>The result of one turn: status, summary, error, token counts.\<close>

definition failed_run :: "int \<Rightarrow> string \<Rightarrow> run_patch" where
  "failed_run completed err = \<lparr>rp_status = Some ''failed'', rp_completed_at = Some completed,
     rp_result_summary = None, rp_error_message = Some err, rp_input_tokens = None, rp_output_tokens = None,
     rp_notified = Some True\<rparr>"

definition fail_fire :: "fire_env \<Rightarrow> ScheduledTask \<Rightarrow> int \<Rightarrow> string \<Rightarrow> task_patch \<Rightarrow> sched \<Rightarrow> sched" where
  "fail_fire env task run err p s =
     (let tn = t_tenant_id task;
          st1 = snd (update_task_run tn run (failed_run (fe_completed env) err) (sd_store s));
          st2 = snd (release_running_lease tn (t_id task) p (fe_later env) st1)
      in s\<lparr>sd_store := st2, sd_published := sd_published s @
           [run_notification RunFailed task run ''failed'' (fe_now env) (fe_completed env) [] err]\<rparr>)"

definition agent_missing_error :: "ScheduledTask \<Rightarrow> string" where
  "agent_missing_error task = ''agent '' @ quoted (t_agent_id task)
     @ '' not found in tenant catalog; pause this schedule or restore the agent''"

definition finish_turn :: "fire_env \<Rightarrow> ScheduledTask \<Rightarrow> int \<Rightarrow> sched \<Rightarrow> sched" where
  "finish_turn env task run s =
     (let tn = t_tenant_id task;
          resp = (case fe_send env of Some r \<Rightarrow> r | None \<Rightarrow> default_response);
          ok = (case fe_send env of Some r \<Rightarrow> rs_ok r | None \<Rightarrow> False);
          err = (if ok then [] else kTenantFacingRunError);
          final_text = (if ok then truncate_summary (rs_content resp) else []);
          st1 = snd (update_task_run tn run
                  \<lparr>rp_status = Some (if ok then ''succeeded'' else ''failed''), rp_completed_at = Some (fe_completed env),
                   rp_result_summary = Some final_text, rp_error_message = Some err,
                   rp_input_tokens = Some (rs_input_tokens resp), rp_output_tokens = Some (rs_output_tokens resp),
                   rp_notified = Some True\<rparr> (sd_store s));
          next = next_fire_for_recur (fe_tz env) (t_recur_json task) (fe_completed env);
          p = (if is_recurring task then
                 (if next = 0 then ran_patch ''paused'' None (fe_completed env) run
                  else ran_patch ''active'' (Some next) (fe_completed env) run)
               else ran_patch (if ok then ''completed'' else ''failed'') None (fe_completed env) run);
          st2 = snd (release_running_lease tn (t_id task) p (fe_later env) st1)
      in s\<lparr>sd_store := st2, sd_published := sd_published s @
           [run_notification (if ok then RunCompleted else RunFailed) task run (if ok then ''succeeded'' else ''failed'')
              (fe_now env) (fe_completed env) final_text err]\<rparr>)"

text \<open>
  The second half of \<open>fire_task\<close>, on the snapshot of the task row the tick listed; the limiter
  guard is released when the function returns.
\<close>

definition fire_finish :: "fire_env \<Rightarrow> ScheduledTask \<Rightarrow> int \<Rightarrow> sched \<Rightarrow> sched" where
  "fire_finish env task run s =
     (case fe_orchestrator env of
        Inl init_err \<Rightarrow>
          fail_fire env task run init_err
            (if is_recurring task
             then ran_patch ''active'' (Some (next_or_hour (fe_tz env) task (fe_later env) (fe_later env))) (fe_now env) run
             else ran_patch ''failed'' None (fe_now env) run) s
      | Inr has_agent \<Rightarrow>
          if t_agent_id task \<noteq> ''index'' \<and> \<not> has_agent (t_agent_id task) then
            fail_fire env task run (agent_missing_error task) (ran_patch ''paused'' None (fe_now env) run) s
          else if 0 < t_conversation_id task \<and> \<not> fe_prepared env then
            fail_fire env task run ''conversation history could not be loaded''
              (if is_recurring task
               then ran_patch ''active'' (Some (next_or_hour (fe_tz env) task (fe_completed env) (fe_completed env))) (fe_completed env) run
               else ran_patch ''failed'' None (fe_now env) run) s
          else finish_turn env task run s)"

definition drop_guard :: "fire_env \<Rightarrow> ScheduledTask \<Rightarrow> bool \<Rightarrow> sched \<Rightarrow> sched" where
  "drop_guard env task g s =
     (if g then s\<lparr>sd_limiter := map_option (release (t_tenant_id task) (fe_steady_end env)) (sd_limiter s)\<rparr> else s)"

text \<open>\<open>Inl\<close> for an escaped exception; otherwise whether the task fired.\<close>

definition fire_task :: "fire_env \<Rightarrow> ScheduledTask \<Rightarrow> sched \<Rightarrow> (unit + bool) \<times> sched" where
  "fire_task env task s =
     (case fire_begin env task s of
        (NotFired, s') \<Rightarrow> (Inr False, s')
      | (Threw g, s') \<Rightarrow> (Inl (), drop_guard env task g s')
      | (Started run g, s') \<Rightarrow> (Inr True, drop_guard env task g (fire_finish env task run s')))"

text \<open>One tick over the due tasks; a failed fire is logged and the tick goes on.\<close>

fun fire_all :: "(ScheduledTask \<Rightarrow> fire_env) \<Rightarrow> ScheduledTask list \<Rightarrow> sched \<Rightarrow> sched" where
  "fire_all env [] s = s"
| "fire_all env (t # ts) s = fire_all env ts (snd (fire_task (env t) t s))"

definition process_due_tasks :: "(ScheduledTask \<Rightarrow> fire_env) \<Rightarrow> int \<Rightarrow> sched \<Rightarrow> sched" where
  "process_due_tasks env now s = fire_all env (list_due_scheduled_tasks now 200 (sd_store s)) s"

section \<open>Recovery\<close>

definition kTaskRunInterruptedMsg :: string where
  "kTaskRunInterruptedMsg = ''task run was interrupted by a server restart''"

definition task_run_was_interrupted :: "TaskRun \<Rightarrow> bool" where
  "task_run_was_interrupted r \<longleftrightarrow> r_status r = ''failed'' \<and> r_error_message r = kTaskRunInterruptedMsg"

text \<open>The update that finalises one stranded row.\<close>

definition recovery_patch :: "timezone \<Rightarrow> int \<Rightarrow> ScheduledTask \<Rightarrow> TaskRun list \<Rightarrow> task_patch" where
  "recovery_patch tz completed_at task runs =
     (case runs of
        [] \<Rightarrow> status_patch ''active''
      | latest # _ \<Rightarrow>
          if r_status latest = ''running'' \<or> task_run_was_interrupted latest then status_patch ''active''
          else let run_at = (if 0 < r_completed_at latest then r_completed_at latest else completed_at) in
            if r_status latest = ''succeeded'' then
              (if is_recurring task then
                 (let next = next_fire_for_recur tz (t_recur_json task) run_at in
                  if next = 0 then (ran_patch ''paused'' None run_at (r_id latest))\<lparr>tp_run_count_delta := None\<rparr>
                  else ran_patch ''active'' (Some next) run_at (r_id latest))
               else ran_patch ''completed'' None run_at (r_id latest))
            else if is_recurring task then
              ran_patch ''active'' (Some (next_or_hour tz task run_at completed_at)) run_at (r_id latest)
            else ran_patch ''failed'' None run_at (r_id latest))"

definition finalize_one :: "timezone \<Rightarrow> int \<Rightarrow> int \<Rightarrow> ScheduledTask \<Rightarrow> task_store \<Rightarrow> task_store" where
  "finalize_one tz completed_at now task s =
     snd (update_scheduled_task (t_tenant_id task) (t_id task)
       (recovery_patch tz completed_at task (list_task_runs (t_tenant_id task) (t_id task) 0 1 s)) None now s)"

definition kPage :: int where "kPage = 200"
definition kMaxPages :: nat where "kMaxPages = 64"

fun finalize_pages :: "timezone \<Rightarrow> int \<Rightarrow> int \<Rightarrow> nat \<Rightarrow> task_store \<Rightarrow> task_store" where
  "finalize_pages tz completed_at now 0 s = s"
| "finalize_pages tz completed_at now (Suc n) s =
     (let stuck = list_all_scheduled_tasks_by_status ''running'' kPage s in
      if stuck = [] then s
      else let s' = fold (finalize_one tz completed_at now) stuck s in
        if length stuck < nat kPage then s' else finalize_pages tz completed_at now n s')"

definition finalize_orphaned_scheduled_task_leases :: "timezone \<Rightarrow> int \<Rightarrow> int \<Rightarrow> task_store \<Rightarrow> task_store" where
  "finalize_orphaned_scheduled_task_leases tz completed_at now s = finalize_pages tz completed_at now kMaxPages s"

section \<open>Lemmas on the lease\<close>

definition is_held :: "task_store \<Rightarrow> int \<times> int \<Rightarrow> bool" where
  "is_held s k = (case get_scheduled_task (fst k) (snd k) s of Some t \<Rightarrow> t_status t = ''running'' | None \<Rightarrow> False)"

lemma update_where_none: "\<not> list_ex P (ts_tasks s) \<Longrightarrow> update_where P f s = (False, s)"
proof -
  assume n: "\<not> list_ex P (ts_tasks s)"
  then have "map (\<lambda>t. if P t then f t else t) (ts_tasks s) = ts_tasks s"
    by (intro map_idI) (auto simp: list_ex_iff)
  then show ?thesis using n by (simp add: update_where_def)
qed

lemma update_where_miss: "\<not> fst (update_where P f s) \<Longrightarrow> snd (update_where P f s) = s"
  using update_where_none [of P s f] by (simp add: update_where_def)

lemma update_miss: "\<not> fst (update_scheduled_task tn i p req now s) \<Longrightarrow> snd (update_scheduled_task tn i p req now s) = s"
  unfolding update_scheduled_task_def by (rule update_where_miss)

lemma claim_miss: "\<not> fst (try_claim_scheduled_task tn i c now s) \<Longrightarrow> snd (try_claim_scheduled_task tn i c now s) = s"
  unfolding try_claim_scheduled_task_def by (rule update_where_miss)

lemma release_eq:
  assumes "store_ok s"
  shows "release_running_lease tn i p now s = (is_held s (tn, i), snd (update_scheduled_task tn i p (Some ''running'') now s))"
proof -
  let ?u = "update_scheduled_task tn i p (Some ''running'') now s"
  have f: "fst ?u = is_held s (tn, i)"
    using update_result [OF assms, of tn i p "Some ''running''" now] by (auto simp: is_held_def split: option.splits)
  obtain h s1 where u: "?u = (h, s1)" by (cases ?u)
  show ?thesis
  proof (cases h)
    case True
    then show ?thesis using f by (simp add: release_running_lease_def u)
  next
    case False
    then have s1: "s1 = s" using update_miss [of tn i p "Some ''running''" now s] u by simp
    have "\<not> is_held s (tn, i)" using f u False by simp
    then have "(case get_scheduled_task tn i s of None \<Rightarrow> (False, s)
           | Some row \<Rightarrow> if t_status row \<noteq> ''running'' then (False, s)
               else update_scheduled_task tn i p None now s) = (False, s)"
      by (auto simp: is_held_def split: option.splits)
    then show ?thesis using f u False by (simp add: release_running_lease_def s1)
  qed
qed

lemma release_get:
  assumes "store_ok s"
  shows "get_scheduled_task tn' i' (snd (release_running_lease tn i p now s)) =
    map_option (\<lambda>t. if is_task tn i t \<and> t_status t = ''running'' then apply_patch p now t else t) (get_scheduled_task tn' i' s)"
  by (simp add: release_eq [OF assms] update_get)

lemma release_ok: "store_ok s \<Longrightarrow> store_ok (snd (release_running_lease tn i p now s))"
  by (simp add: release_eq store_ok_ops)

lemma get_key: "get_scheduled_task tn i s = Some t \<Longrightarrow> t_tenant_id t = tn \<and> t_id t = i"
  using get_is_task by (fastforce simp: is_task_def)

lemma release_held:
  assumes "store_ok s" "tp_status p = Some st" "st \<noteq> ''running''"
  shows "is_held (snd (release_running_lease tn i p now s)) k \<longleftrightarrow> is_held s k \<and> k \<noteq> (tn, i)"
  using assms(2,3) get_key [of "fst k" "snd k" s]
  by (cases k; cases "get_scheduled_task (fst k) (snd k) s")
     (auto simp: is_held_def release_get [OF assms(1)] is_task_def apply_patch_def)

lemma claim_held:
  "is_held (snd (try_claim_scheduled_task tn i c now s)) k \<longleftrightarrow>
     is_held s k \<or> (k = (tn, i) \<and> (\<exists>t. get_scheduled_task tn i s = Some t \<and> t_status t = ''active'' \<and> t_next_fire_at t \<le> c))"
  using get_key [of "fst k" "snd k" s]
  by (cases k; cases "get_scheduled_task (fst k) (snd k) s") (auto simp: is_held_def claim_get is_task_def)

text \<open>
  The contract of a lease: whoever claims a key holds it until it is released, and a held key
  cannot be claimed again.
\<close>

datatype ('a, 'r, 'k) lease_op = Claim 'a 'k | Release 'r 'k

locale lease =
  fixes claim :: "'a \<Rightarrow> 'k \<Rightarrow> 's \<Rightarrow> bool \<times> 's" and give_back :: "'r \<Rightarrow> 'k \<Rightarrow> 's \<Rightarrow> 's"
    and held :: "'s \<Rightarrow> 'k \<Rightarrow> bool" and ok :: "'s \<Rightarrow> bool" and final :: "'r \<Rightarrow> bool"
  assumes ok_claim: "ok s \<Longrightarrow> ok (snd (claim a k s))"
    and ok_release: "ok s \<Longrightarrow> ok (give_back r k s)"
    and excluded: "ok s \<Longrightarrow> held s k \<Longrightarrow> \<not> fst (claim a k s)"
    and taken: "ok s \<Longrightarrow> fst (claim a k s) \<Longrightarrow> held (snd (claim a k s)) k"
    and claim_keeps: "ok s \<Longrightarrow> held s k' \<Longrightarrow> held (snd (claim a k s)) k'"
    and release_other: "ok s \<Longrightarrow> k' \<noteq> k \<Longrightarrow> held (give_back r k s) k' = held s k'"
    and released: "ok s \<Longrightarrow> final r \<Longrightarrow> \<not> held (give_back r k s) k"
begin

fun lease_step :: "('a, 'r, 'k) lease_op \<Rightarrow> 's \<Rightarrow> 's" where
  "lease_step (Claim a k) s = snd (claim a k s)"
| "lease_step (Release r k) s = give_back r k s"

lemma held_until_release:
  "ok s \<Longrightarrow> held s k \<Longrightarrow> (\<forall>r. Release r k \<notin> set ops) \<Longrightarrow> held (fold lease_step ops s) k \<and> ok (fold lease_step ops s)"
proof (induction ops arbitrary: s)
  case (Cons x ops)
  have "ok (lease_step x s)" using Cons.prems(1) by (cases x) (simp_all add: ok_claim ok_release)
  moreover have "held (lease_step x s) k"
    using Cons.prems by (cases x) (auto simp: claim_keeps release_other)
  ultimately show ?case using Cons by simp
qed simp

lemma held_excludes:
  assumes "ok s" "fst (claim a k s)" "\<forall>r. Release r k \<notin> set ops"
  shows "\<not> fst (claim a' k (fold lease_step ops (snd (claim a k s))))"
  using held_until_release [OF ok_claim [OF assms(1)] taken [OF assms(1,2)] assms(3)] excluded by blast

end

definition claim_lease :: "int \<times> int \<Rightarrow> int \<times> int \<Rightarrow> task_store \<Rightarrow> bool \<times> task_store" where
  "claim_lease a k s = try_claim_scheduled_task (fst k) (snd k) (fst a) (snd a) s"

definition release_lease :: "task_patch \<times> int \<Rightarrow> int \<times> int \<Rightarrow> task_store \<Rightarrow> task_store" where
  "release_lease r k s = snd (release_running_lease (fst k) (snd k) (fst r) (snd r) s)"

definition ends_lease :: "task_patch \<times> int \<Rightarrow> bool" where
  "ends_lease r \<longleftrightarrow> (\<exists>st. tp_status (fst r) = Some st \<and> st \<noteq> ''running'')"

interpretation tl: lease claim_lease release_lease is_held store_ok ends_lease
proof unfold_locales
  fix s a k r k'
  assume ok: "store_ok s"
  show "store_ok (snd (claim_lease a k s))" using store_ok_ops(1) [OF ok] by (simp add: claim_lease_def)
  show "store_ok (release_lease r k s)" using release_ok [OF ok] by (simp add: release_lease_def)
  show "is_held s k \<Longrightarrow> \<not> fst (claim_lease a k s)"
    using claim_result [OF ok] by (auto simp: claim_lease_def is_held_def split: option.splits)
  show "fst (claim_lease a k s) \<Longrightarrow> is_held (snd (claim_lease a k s)) k"
    using claim_result [OF ok] by (simp add: claim_lease_def claim_held)
  show "is_held s k' \<Longrightarrow> is_held (snd (claim_lease a k s)) k'" by (simp add: claim_lease_def claim_held)
  show "k' \<noteq> k \<Longrightarrow> is_held (release_lease r k s) k' = is_held s k'"
    using get_key [of "fst k'" "snd k'" s]
    by (cases k; cases k'; cases "get_scheduled_task (fst k') (snd k') s")
       (auto simp: release_lease_def is_held_def release_get [OF ok] is_task_def)
  show "ends_lease r \<Longrightarrow> \<not> is_held (release_lease r k s) k"
    using release_held [OF ok] by (cases k) (auto simp: release_lease_def ends_lease_def)
qed

section \<open>Lemmas on one fire\<close>

lemma get_run_created:
  assumes "store_ok s" "create_task_run tn i st sa rq s = (r, s')"
  shows "get_task_run tn (r_id r) s' = Some r" "r_status r = st"
proof -
  have n: "\<not> is_run tn (ts_run_seq s + 1) x" if "x \<in> set (ts_runs s)" for x
    using assms(1) that by (force simp: store_ok_def is_run_def)
  have e: "find P (xs @ [y]) = Some y" if "\<forall>x\<in>set xs. \<not> P x" "P y" for P :: "TaskRun \<Rightarrow> bool" and xs y
    using that by (induction xs) auto
  show "get_task_run tn (r_id r) s' = Some r" "r_status r = st"
    using assms(2) n e [of "ts_runs s" "is_run tn (ts_run_seq s + 1)"]
    by (auto simp: create_task_run_def get_task_run_def Let_def is_run_def)
qed

lemma get_run_updated:
  "\<not> run_patch_empty rp \<Longrightarrow> get_task_run tn i (snd (update_task_run tn i rp s)) = map_option (apply_run_patch rp) (get_task_run tn i s)"
proof -
  have "find (is_run tn i) (map (\<lambda>r. if is_run tn i r then apply_run_patch rp r else r) rs)
      = map_option (apply_run_patch rp) (find (is_run tn i) rs)" for rs
    by (induction rs) (auto simp: is_run_def apply_run_patch_def)
  then show "\<not> run_patch_empty rp \<Longrightarrow> ?thesis" by (simp add: get_task_run_def update_task_run_def)
qed

lemma task_ops_runs:
  "ts_runs (snd (update_scheduled_task tn i p req now s)) = ts_runs s"
  by (simp add: update_scheduled_task_def update_where_def)

lemma get_run_release:
  "store_ok s \<Longrightarrow> get_task_run tn' j (snd (release_running_lease tn i p now s)) = get_task_run tn' j s"
  by (simp add: release_eq get_task_run_def task_ops_runs)

text \<open>What a final patch looks like: it ends the lease, counts the run, and reschedules.\<close>

definition final_patch :: "fire_env \<Rightarrow> ScheduledTask \<Rightarrow> int \<Rightarrow> task_patch \<Rightarrow> bool" where
  "final_patch env task run p \<longleftrightarrow>
     tp_run_count_delta p = Some 1 \<and> tp_last_run_id p = Some run \<and>
     (if is_recurring task
      then tp_status p = Some ''paused'' \<or>
           (tp_status p = Some ''active'' \<and> (\<exists>nx. tp_next_fire_at p = Some nx \<and> fe_now env < nx))
      else tp_status p = Some ''paused'' \<or> tp_status p = Some ''completed'' \<or> tp_status p = Some ''failed'')"

lemma final_patch_status:
  "final_patch env task run p \<Longrightarrow> \<exists>st. tp_status p = Some st \<and> st \<noteq> ''running''"
  by (auto simp: final_patch_def split: if_splits)

lemma next_or_hour_future: "now \<le> a \<Longrightarrow> now \<le> f \<Longrightarrow> now < next_or_hour tz t a f"
  using next_fire_future [of tz "t_recur_json t" a] by (auto simp: next_or_hour_def Let_def)

definition clock_ok :: "fire_env \<Rightarrow> bool" where
  "clock_ok env \<longleftrightarrow> fe_now env \<le> fe_completed env \<and> fe_completed env \<le> fe_later env"

definition ends_run :: "run_patch \<Rightarrow> bool" where
  "ends_run rp \<longleftrightarrow> rp_status rp = Some ''succeeded'' \<or> rp_status rp = Some ''failed''"

text \<open>The effect of the second half: one final run update and one lease release.\<close>

definition ends_well :: "fire_env \<Rightarrow> ScheduledTask \<Rightarrow> int \<Rightarrow> sched \<Rightarrow> sched \<Rightarrow> bool" where
  "ends_well env task run s s' \<longleftrightarrow>
    (\<exists>p rp. final_patch env task run p \<and> ends_run rp \<and> sd_limiter s' = sd_limiter s \<and>
    sd_store s' = snd (release_running_lease (t_tenant_id task) (t_id task) p (fe_later env)
      (snd (update_task_run (t_tenant_id task) run rp (sd_store s)))))"

lemma fail_fire_shape:
  assumes "final_patch env task run p"
  shows "ends_well env task run s (fail_fire env task run err p s)"
  unfolding ends_well_def
proof (intro exI conjI)
  show "final_patch env task run p" by (rule assms)
  show "ends_run (failed_run (fe_completed env) err)" by (simp add: ends_run_def failed_run_def)
qed (simp_all add: fail_fire_def Let_def)

lemma sd_store_upd: "sd_store (s\<lparr>sd_store := a, sd_published := b\<rparr>) = a"
  by simp

lemma finish_turn_shape:
  assumes "clock_ok env"
  shows "ends_well env task run s (finish_turn env task run s)"
proof -
  define nx where "nx = next_fire_for_recur (fe_tz env) (t_recur_json task) (fe_completed env)"
  define ok where "ok = (case fe_send env of Some r \<Rightarrow> rs_ok r | None \<Rightarrow> False)"
  define p where "p = (if is_recurring task then
                 (if nx = 0 then ran_patch ''paused'' None (fe_completed env) run
                  else ran_patch ''active'' (Some nx) (fe_completed env) run)
               else ran_patch (if ok then ''completed'' else ''failed'') None (fe_completed env) run)"
  have "nx = 0 \<or> fe_completed env < nx" unfolding nx_def by (rule next_fire_future)
  then have "final_patch env task run p"
    using assms by (auto simp: final_patch_def p_def ran_patch_def clock_ok_def)
  moreover have "\<exists>rp. ends_run rp \<and> sd_store (finish_turn env task run s) =
      snd (release_running_lease (t_tenant_id task) (t_id task) p (fe_later env)
        (snd (update_task_run (t_tenant_id task) run rp (sd_store s))))"
    unfolding finish_turn_def Let_def nx_def [symmetric] ok_def [symmetric] p_def [symmetric] sd_store_upd
    by (rule exI, rule conjI [rotated], rule refl) (simp add: ends_run_def)
  moreover have "sd_limiter (finish_turn env task run s) = sd_limiter s" by (simp add: finish_turn_def Let_def)
  ultimately show ?thesis unfolding ends_well_def by blast
qed

lemma fire_finish_shape:
  assumes "clock_ok env"
  shows "ends_well env task run s (fire_finish env task run s)"
proof -
  let ?init = "if is_recurring task
             then ran_patch ''active'' (Some (next_or_hour (fe_tz env) task (fe_later env) (fe_later env))) (fe_now env) run
             else ran_patch ''failed'' None (fe_now env) run"
  let ?load = "if is_recurring task
               then ran_patch ''active'' (Some (next_or_hour (fe_tz env) task (fe_completed env) (fe_completed env))) (fe_completed env) run
               else ran_patch ''failed'' None (fe_now env) run"
  have p: "final_patch env task run ?init" "final_patch env task run ?load"
    "final_patch env task run (ran_patch ''paused'' None (fe_now env) run)"
    using assms next_or_hour_future by (auto simp: final_patch_def ran_patch_def clock_ok_def)
  have f: "ends_well env task run s (fail_fire env task run e ?init s)"
    "ends_well env task run s (fail_fire env task run e ?load s)"
    "ends_well env task run s (fail_fire env task run e (ran_patch ''paused'' None (fe_now env) run) s)" for e
    by (rule fail_fire_shape [OF p(1)], rule fail_fire_shape [OF p(2)], rule fail_fire_shape [OF p(3)])
  show ?thesis
    using f finish_turn_shape [OF assms, of task run s] unfolding fire_finish_def
    by (cases "fe_orchestrator env"; cases "is_recurring task") (simp_all del: Let_def)
qed

lemma fire_begin_Started:
  assumes "fire_begin env task s = (Started run g, s1)"
  obtains st r where
    "try_claim_scheduled_task (t_tenant_id task) (t_id task) (fe_now env) (fe_later env) (sd_store s) = (True, st)"
    "create_task_run (t_tenant_id task) (t_id task) ''running'' (fe_now env) (fe_req_id env) st = (r, sd_store s1)"
    "run = r_id r"
proof -
  obtain c st where c: "try_claim_scheduled_task (t_tenant_id task) (t_id task) (fe_now env) (fe_later env) (sd_store s) = (c, st)"
    by (cases "try_claim_scheduled_task (t_tenant_id task) (t_id task) (fe_now env) (fe_later env) (sd_store s)")
  obtain r st2 where r: "create_task_run (t_tenant_id task) (t_id task) ''running'' (fe_now env) (fe_req_id env) st = (r, st2)"
    by (cases "create_task_run (t_tenant_id task) (t_id task) ''running'' (fe_now env) (fe_req_id env) st")
  have "c \<and> run = r_id r \<and> sd_store s1 = st2"
    using assms unfolding fire_begin_def Let_def c r
    by (auto simp: c r split: option.splits if_splits lim_result.splits prod.splits)
  then show thesis using that c r by simp
qed

text \<open>Rows and leases after the first half has started a run.\<close>

lemma begin_effect:
  assumes "store_ok (sd_store s)" "fire_begin env task s = (Started run g, s1)"
  defines "k \<equiv> (t_tenant_id task, t_id task)"
  shows "store_ok (sd_store s1)" "\<not> is_held (sd_store s) k" "is_held (sd_store s1) k' \<longleftrightarrow> is_held (sd_store s) k' \<or> k' = k"
    "get_task_run (fst k) run (sd_store s1) \<noteq> None"
    "\<exists>t0 t1. get_scheduled_task (fst k) (snd k) (sd_store s) = Some t0 \<and> t_status t0 = ''active''
       \<and> t_next_fire_at t0 \<le> fe_now env \<and> get_scheduled_task (fst k) (snd k) (sd_store s1) = Some t1
       \<and> t_status t1 = ''running'' \<and> t_run_count t1 = t_run_count t0"
proof -
  from assms(2) obtain st r where c: "try_claim_scheduled_task (fst k) (snd k) (fe_now env) (fe_later env) (sd_store s) = (True, st)"
    and r: "create_task_run (fst k) (snd k) ''running'' (fe_now env) (fe_req_id env) st = (r, sd_store s1)" "run = r_id r"
    unfolding k_def fst_conv snd_conv by (rule fire_begin_Started)
  have ok: "store_ok st" using store_ok_ops(1) [OF assms(1)] c by (metis snd_conv)
  show "store_ok (sd_store s1)" using store_ok_ops(5) [OF ok] r(1) by (metis snd_conv)
  show "get_task_run (fst k) run (sd_store s1) \<noteq> None" using get_run_created [OF ok r(1)] r(2) by simp
  obtain t0 where t0: "get_scheduled_task (fst k) (snd k) (sd_store s) = Some t0" "t_status t0 = ''active''" "t_next_fire_at t0 \<le> fe_now env"
    using claim_result [OF assms(1), of "fst k" "snd k" "fe_now env" "fe_later env"] c by auto
  then show "\<not> is_held (sd_store s) k" by (simp add: is_held_def)
  have g: "get_scheduled_task tn i (sd_store s1) = get_scheduled_task tn i st" for tn i
    using run_ops_get(1) [of tn i "fst k" "snd k" "''running''" "fe_now env" "fe_req_id env" st] r(1) by simp
  have s1: "is_held (sd_store s1) k' = is_held st k'" by (simp add: is_held_def g)
  show "is_held (sd_store s1) k' \<longleftrightarrow> is_held (sd_store s) k' \<or> k' = k"
    using claim_held [of "fst k" "snd k" "fe_now env" "fe_later env" "sd_store s" k'] c t0 s1 by auto
  have "get_scheduled_task (fst k) (snd k) st = Some (t0\<lparr>t_status := ''running'', t_updated_at := fe_later env\<rparr>)"
    using claim_get [of "fst k" "snd k" "fst k" "snd k" "fe_now env" "fe_later env" "sd_store s"] c t0 get_is_task [OF t0(1)] by simp
  then show "\<exists>t0 t1. get_scheduled_task (fst k) (snd k) (sd_store s) = Some t0 \<and> t_status t0 = ''active''
       \<and> t_next_fire_at t0 \<le> fe_now env \<and> get_scheduled_task (fst k) (snd k) (sd_store s1) = Some t1
       \<and> t_status t1 = ''running'' \<and> t_run_count t1 = t_run_count t0"
    using t0 g by simp
qed

lemma ends_run_nonempty: "ends_run rp \<Longrightarrow> \<not> run_patch_empty rp"
  by (auto simp: ends_run_def run_patch_empty_def)

lemma finish_effect:
  assumes "store_ok (sd_store s)" "ends_well env task run s s'"
  shows "store_ok (sd_store s')"
    "\<exists>p. final_patch env task run p \<and> (\<forall>tn i. get_scheduled_task tn i (sd_store s') =
      map_option (\<lambda>t. if is_task (t_tenant_id task) (t_id task) t \<and> t_status t = ''running''
                      then apply_patch p (fe_later env) t else t) (get_scheduled_task tn i (sd_store s)))"
    "is_held (sd_store s') k \<longleftrightarrow> is_held (sd_store s) k \<and> k \<noteq> (t_tenant_id task, t_id task)"
    "get_task_run (t_tenant_id task) run (sd_store s) \<noteq> None \<Longrightarrow>
      \<exists>r. get_task_run (t_tenant_id task) run (sd_store s') = Some r \<and> (r_status r = ''succeeded'' \<or> r_status r = ''failed'')"
proof -
  from assms(2) obtain p rp where p: "final_patch env task run p" and rp: "ends_run rp" and
    s': "sd_store s' = snd (release_running_lease (t_tenant_id task) (t_id task) p (fe_later env)
      (snd (update_task_run (t_tenant_id task) run rp (sd_store s))))" unfolding ends_well_def by blast
  let ?st = "snd (update_task_run (t_tenant_id task) run rp (sd_store s))"
  have ok: "store_ok ?st" using store_ok_ops(6) [OF assms(1)] .
  show "store_ok (sd_store s')" unfolding s' by (rule release_ok [OF ok])
  show "\<exists>p. final_patch env task run p \<and> (\<forall>tn i. get_scheduled_task tn i (sd_store s') =
      map_option (\<lambda>t. if is_task (t_tenant_id task) (t_id task) t \<and> t_status t = ''running''
                      then apply_patch p (fe_later env) t else t) (get_scheduled_task tn i (sd_store s)))"
    using p unfolding s' by (auto simp: release_get [OF ok])
  obtain st where st: "tp_status p = Some st" "st \<noteq> ''running''" using final_patch_status [OF p] by blast
  have "is_held ?st k = is_held (sd_store s) k" by (simp add: is_held_def)
  then show "is_held (sd_store s') k \<longleftrightarrow> is_held (sd_store s) k \<and> k \<noteq> (t_tenant_id task, t_id task)"
    unfolding s' by (simp add: release_held [OF ok st])
  show "\<exists>r. get_task_run (t_tenant_id task) run (sd_store s') = Some r \<and> (r_status r = ''succeeded'' \<or> r_status r = ''failed'')"
    if "get_task_run (t_tenant_id task) run (sd_store s) \<noteq> None"
    using that rp unfolding s' by (auto simp: get_run_release [OF ok] get_run_updated [OF ends_run_nonempty [OF rp]] ends_run_def apply_run_patch_def)
qed

section \<open>Recovery lemmas\<close>

lemma recovery_patch_status: "\<exists>st. tp_status (recovery_patch tz c t runs) = Some st \<and> st \<noteq> ''running''"
  by (cases runs) (auto simp: recovery_patch_def status_patch_def ran_patch_def Let_def)

lemma patched_not_running: "t_status (apply_patch (recovery_patch tz c t runs) now x) \<noteq> ''running''"
  using recovery_patch_status [of tz c t runs] by (auto simp: apply_patch_def)

text \<open>The row that recovery should leave for a stranded row, and the store with some ids done.\<close>

definition recovered :: "timezone \<Rightarrow> int \<Rightarrow> int \<Rightarrow> task_store \<Rightarrow> ScheduledTask \<Rightarrow> ScheduledTask" where
  "recovered tz c now s t =
     apply_patch (recovery_patch tz c t (list_task_runs (t_tenant_id t) (t_id t) 0 1 s)) now t"

definition done_upto :: "timezone \<Rightarrow> int \<Rightarrow> int \<Rightarrow> task_store \<Rightarrow> int set \<Rightarrow> task_store" where
  "done_upto tz c now s D =
     s\<lparr>ts_tasks := map (\<lambda>t. if t_id t \<in> D then recovered tz c now s t else t) (ts_tasks s)\<rparr>"

definition running_ids :: "task_store \<Rightarrow> int set" where
  "running_ids s = t_id ` {t \<in> set (ts_tasks s). t_status t = ''running''}"

lemma running_ids_single: "ts_tasks s = [t] \<Longrightarrow> t_status t = ''running'' \<Longrightarrow> running_ids s = {t_id t}"
  by (auto simp: running_ids_def)

lemma recovered_key [simp]: "is_task tn i (recovered tz c now s t) = is_task tn i t" "t_id (recovered tz c now s t) = t_id t"
  by (simp_all add: recovered_def) (simp add: apply_patch_def)

lemma unique_row: "store_ok s \<Longrightarrow> t \<in> set (ts_tasks s) \<Longrightarrow> u \<in> set (ts_tasks s) \<Longrightarrow> t_id t = t_id u \<Longrightarrow> t = u"
  by (metis distinct_map inj_onD store_ok_def)

lemma finalize_one_step:
  assumes "store_ok s" "t \<in> set (ts_tasks s)" "t_id t \<notin> D"
  shows "finalize_one tz c now t (done_upto tz c now s D) = done_upto tz c now s (insert (t_id t) D)"
proof -
  let ?p = "recovery_patch tz c t (list_task_runs (t_tenant_id t) (t_id t) 0 1 s)"
  have r: "list_task_runs tn i si l (done_upto tz c now s D) = list_task_runs tn i si l s" for tn i si l
    by (simp add: list_task_runs_def done_upto_def)
  have "(if is_task (t_tenant_id t) (t_id t) (if t_id u \<in> D then recovered tz c now s u else u)
         then apply_patch ?p now (if t_id u \<in> D then recovered tz c now s u else u)
         else (if t_id u \<in> D then recovered tz c now s u else u))
      = (if t_id u \<in> insert (t_id t) D then recovered tz c now s u else u)" if "u \<in> set (ts_tasks s)" for u
  proof (cases "t_id u = t_id t")
    case True
    then have "u = t" using unique_row [OF assms(1) that assms(2)] by simp
    then show ?thesis using assms(3) by (simp add: is_task_def recovered_def)
  next
    case False
    then have "\<not> is_task (t_tenant_id t) (t_id t) u" by (simp add: is_task_def)
    then show ?thesis using False by auto
  qed
  then have "map (\<lambda>x. if is_task (t_tenant_id t) (t_id t) x then apply_patch ?p now x else x)
      (map (\<lambda>t. if t_id t \<in> D then recovered tz c now s t else t) (ts_tasks s))
      = map (\<lambda>u. if t_id u \<in> insert (t_id t) D then recovered tz c now s u else u) (ts_tasks s)"
    by (simp only: map_map comp_def) (rule map_cong, rule refl, simp only:)
  then show ?thesis
    unfolding finalize_one_def r update_scheduled_task_def update_where_def
    by (simp add: done_upto_def)
qed

lemma finalize_fold:
  assumes "store_ok s" "set ts \<subseteq> set (ts_tasks s)" "distinct (map t_id ts)" "t_id ` set ts \<inter> D = {}"
  shows "fold (finalize_one tz c now) ts (done_upto tz c now s D) = done_upto tz c now s (D \<union> t_id ` set ts)"
  using assms(2-4)
proof (induction ts arbitrary: D)
  case (Cons t ts)
  have "fold (finalize_one tz c now) ts (done_upto tz c now s (insert (t_id t) D))
      = done_upto tz c now s (insert (t_id t) D \<union> t_id ` set ts)"
    using Cons.prems by (intro Cons.IH) auto
  moreover have "finalize_one tz c now t (done_upto tz c now s D) = done_upto tz c now s (insert (t_id t) D)"
    using Cons.prems by (intro finalize_one_step [OF assms(1)]) auto
  ultimately show ?case by simp
qed simp

lemma running_after:
  shows "filter (\<lambda>t. t_status t = ''running'') (ts_tasks (done_upto tz c now s D))
    = filter (\<lambda>t. t_status t = ''running'' \<and> t_id t \<notin> D) (ts_tasks s)"
proof -
  have "t_status (recovered tz c now s t) \<noteq> ''running''" for t
    unfolding recovered_def by (rule patched_not_running)
  then have "filter (\<lambda>t. t_status t = ''running'') (map (\<lambda>t. if t_id t \<in> D then recovered tz c now s t else t) ts)
      = filter (\<lambda>t. t_status t = ''running'' \<and> t_id t \<notin> D) ts" for ts
    by (induction ts) auto
  then show ?thesis by (simp add: done_upto_def)
qed

lemma running_card:
  assumes "store_ok s" "D \<subseteq> running_ids s"
  shows "length (filter (\<lambda>t. t_status t = ''running'' \<and> t_id t \<notin> D) (ts_tasks s)) = card (running_ids s - D)"
    "t_id ` set (filter (\<lambda>t. t_status t = ''running'' \<and> t_id t \<notin> D) (ts_tasks s)) = running_ids s - D"
proof -
  let ?f = "filter (\<lambda>t. t_status t = ''running'' \<and> t_id t \<notin> D) (ts_tasks s)"
  show i: "t_id ` set ?f = running_ids s - D" by (auto simp: running_ids_def)
  have "distinct (map t_id ?f)" using assms(1) by (simp add: store_ok_def distinct_map_filter)
  then have "card (set (map t_id ?f)) = length (map t_id ?f)" by (rule distinct_card)
  then show "length ?f = card (running_ids s - D)" using i by simp
qed

text \<open>One page: up to 200 of the rows not yet done, in \<open>updated_at\<close> order.\<close>

definition page_of :: "task_store \<Rightarrow> int set \<Rightarrow> ScheduledTask list" where
  "page_of s D = take 200 (sort_key t_updated_at (filter (\<lambda>t. t_status t = ''running'' \<and> t_id t \<notin> D) (ts_tasks s)))"

lemma page_listed: "list_all_scheduled_tasks_by_status ''running'' kPage (done_upto tz c now s D) = page_of s D"
  using running_after [of tz c now s D]
  by (simp add: list_all_scheduled_tasks_by_status_def clamp_limit_def kPage_def page_of_def)

lemma page_facts:
  assumes "store_ok s" "D \<subseteq> running_ids s"
  shows "set (page_of s D) \<subseteq> set (ts_tasks s)" "distinct (map t_id (page_of s D))"
    "t_id ` set (page_of s D) \<subseteq> running_ids s - D" "length (page_of s D) = min 200 (card (running_ids s - D))"
proof -
  let ?f = "filter (\<lambda>t. t_status t = ''running'' \<and> t_id t \<notin> D) (ts_tasks s)"
  note rc = running_card [OF assms]
  have sub: "set (page_of s D) \<subseteq> set ?f" unfolding page_of_def using set_take_subset [of 200 "sort_key t_updated_at ?f"] by simp
  then show "set (page_of s D) \<subseteq> set (ts_tasks s)" by auto
  show "t_id ` set (page_of s D) \<subseteq> running_ids s - D" using image_mono [OF sub, of t_id] rc(2) by simp
  show "length (page_of s D) = min 200 (card (running_ids s - D))" using rc(1) by (simp add: page_of_def)
  have "distinct (map t_id (sort_key t_updated_at ?f))"
    using assms(1) distinct_map_filter [of t_id "ts_tasks s"] by (simp add: store_ok_def distinct_map)
  then show "distinct (map t_id (page_of s D))" unfolding page_of_def take_map [symmetric] by (rule distinct_take)
qed

lemma finalize_pages_step:
  assumes "store_ok s" "D \<subseteq> running_ids s"
  defines "D' \<equiv> D \<union> t_id ` set (page_of s D)"
  shows "finalize_pages tz c now (Suc n) (done_upto tz c now s D) =
    (if length (page_of s D) < 200 then done_upto tz c now s (running_ids s)
     else finalize_pages tz c now n (done_upto tz c now s D'))"
    "D' \<subseteq> running_ids s" "card (running_ids s - D') = card (running_ids s - D) - length (page_of s D)"
proof -
  note pf = page_facts [OF assms(1,2)]
  have fo: "fold (finalize_one tz c now) (page_of s D) (done_upto tz c now s D) = done_upto tz c now s D'"
    unfolding D'_def using pf(3) by (intro finalize_fold [OF assms(1) pf(1,2)]) auto
  have cid: "card (t_id ` set (page_of s D)) = length (page_of s D)" using distinct_card [OF pf(2)] by simp
  have fin: "finite (running_ids s - D)" by (simp add: running_ids_def)
  show sub: "D' \<subseteq> running_ids s" unfolding D'_def using pf(3) assms(2) by blast
  have "running_ids s - D' = (running_ids s - D) - t_id ` set (page_of s D)" unfolding D'_def by blast
  then show card: "card (running_ids s - D') = card (running_ids s - D) - length (page_of s D)"
    using card_Diff_subset [OF _ pf(3)] cid by simp
  have all: "D' = running_ids s" if "length (page_of s D) < 200"
  proof -
    have "card (running_ids s - D') = 0" using card pf(4) that by simp
    moreover have "finite (running_ids s - D')" by (simp add: running_ids_def)
    ultimately have "running_ids s - D' = {}" by simp
    then show ?thesis using sub by blast
  qed
  have nil: "D = running_ids s" if "page_of s D = []" using all that by (simp add: D'_def)
  have len: "nat kPage = 200" by (simp add: kPage_def)
  show "finalize_pages tz c now (Suc n) (done_upto tz c now s D) =
    (if length (page_of s D) < 200 then done_upto tz c now s (running_ids s)
     else finalize_pages tz c now n (done_upto tz c now s D'))"
  proof (cases "page_of s D = []")
    case True
    then show ?thesis using nil by (simp add: page_listed)
  next
    case False
    then show ?thesis using all fo unfolding finalize_pages.simps page_listed Let_def len by simp
  qed
qed

lemma finalize_pages_done:
  "store_ok s \<Longrightarrow> D \<subseteq> running_ids s \<Longrightarrow> card (running_ids s - D) \<le> 200 * n \<Longrightarrow>
    finalize_pages tz c now n (done_upto tz c now s D) = done_upto tz c now s (running_ids s)"
proof (induction n arbitrary: D)
  case 0
  have "finite (running_ids s)" by (simp add: running_ids_def)
  then have "running_ids s - D = {}" using 0 by simp
  then have "D = running_ids s" using 0(2) by blast
  then show ?case by simp
next
  case (Suc n)
  note st = finalize_pages_step [OF Suc.prems(1,2)]
  show ?case
  proof (cases "length (page_of s D) < 200")
    case True
    then show ?thesis unfolding st(1) by simp
  next
    case False
    have "card (running_ids s - (D \<union> t_id ` set (page_of s D))) \<le> 200 * n"
      using st(3) Suc.prems(3) False by simp
    then show ?thesis unfolding st(1) using Suc.IH [OF Suc.prems(1) st(2)] False by simp
  qed
qed

section \<open>Properties\<close>

lemma drop_guard_store [simp]: "sd_store (drop_guard env task g s) = sd_store s"
  by (simp add: drop_guard_def)

text \<open>How a fired row may end: rescheduled after the claim, paused, or (a one-shot) finished.\<close>

definition settled :: "fire_env \<Rightarrow> ScheduledTask \<Rightarrow> ScheduledTask \<Rightarrow> bool" where
  "settled env t0 t' \<longleftrightarrow>
     (if is_recurring t0 then t_status t' = ''paused'' \<or> (t_status t' = ''active'' \<and> fe_now env < t_next_fire_at t')
      else t_status t' \<in> {''paused'', ''completed'', ''failed''})"

text \<open>
  C13.  What a fire does to its row and its run.  When \<open>fire_task\<close> returns true the row was active
  and due; afterwards it holds no lease, its run count is one higher and points at the run; a
  recurring row is paused or due strictly after the claim, a one-shot is paused, completed or
  failed; the run row has a terminal status.
\<close>

theorem fire_outcome:
  assumes "store_ok (sd_store s)" "clock_ok env" "fire_task env task s = (Inr True, s')"
  shows "\<exists>t0 t' r. get_scheduled_task (t_tenant_id task) (t_id task) (sd_store s) = Some t0
     \<and> t_status t0 = ''active'' \<and> t_next_fire_at t0 \<le> fe_now env
     \<and> get_scheduled_task (t_tenant_id task) (t_id task) (sd_store s') = Some t'
     \<and> settled env task t' \<and> t_run_count t' = t_run_count t0 + 1
     \<and> get_task_run (t_tenant_id task) (t_last_run_id t') (sd_store s') = Some r
     \<and> (r_status r = ''succeeded'' \<or> r_status r = ''failed'')"
proof -
  obtain run g s1 where b: "fire_begin env task s = (Started run g, s1)"
    and s': "s' = drop_guard env task g (fire_finish env task run s1)"
    using assms(3) unfolding fire_task_def by (auto split: prod.splits fire_begin_result.splits)
  note be = begin_effect [OF assms(1) b, simplified]
  note fe = finish_effect [OF be(1) fire_finish_shape [OF assms(2), of task run s1]]
  obtain t0 t1 where t: "get_scheduled_task (t_tenant_id task) (t_id task) (sd_store s) = Some t0" "t_status t0 = ''active''"
    "t_next_fire_at t0 \<le> fe_now env" "get_scheduled_task (t_tenant_id task) (t_id task) (sd_store s1) = Some t1"
    "t_status t1 = ''running''" "t_run_count t1 = t_run_count t0" using be(5) by blast
  obtain p where p: "final_patch env task run p" "get_scheduled_task (t_tenant_id task) (t_id task) (sd_store s')
      = Some (apply_patch p (fe_later env) t1)"
    using fe(2) t(4,5) get_is_task [OF t(4)] unfolding s' by fastforce
  obtain r where "get_task_run (t_tenant_id task) run (sd_store s') = Some r" "r_status r = ''succeeded'' \<or> r_status r = ''failed''"
    using fe(4) be(4) unfolding s' by auto
  moreover have "t_last_run_id (apply_patch p (fe_later env) t1) = run" "t_run_count (apply_patch p (fe_later env) t1) = t_run_count t0 + 1"
    "settled env task (apply_patch p (fe_later env) t1)"
    using p(1) t(6) by (auto simp: final_patch_def apply_patch_def settled_def)
  ultimately show ?thesis using t(1-3) p(2) by blast
qed

text \<open>A concrete store with one due task, and an environment in which its turn fails.\<close>

definition demo_sched :: sched where
  "demo_sched = \<lparr>sd_store = snd (create_scheduled_task 1 ''index'' 0 ''m'' ''in 1 minute'' ''once'' 5 [] 5 0 empty_store),
     sd_limiter = None, sd_published = []\<rparr>"

definition demo_task :: ScheduledTask where
  "demo_task = fst (create_scheduled_task 1 ''index'' 0 ''m'' ''in 1 minute'' ''once'' 5 [] 5 0 empty_store)"

definition demo_env :: fire_env where
  "demo_env = \<lparr>fe_tz = no_clock, fe_tenant_disabled = (\<lambda>_. Some False), fe_conversation_ok = (\<lambda>_ _. True),
     fe_run_insert_ok = True, fe_orchestrator = Inr (\<lambda>_. True), fe_prepared = True, fe_send = None, fe_req_id = ''r'',
     fe_pre_now = 6, fe_now = 6, fe_completed = 7, fe_later = 8, fe_steady = 0, fe_steady_end = 1\<rparr>"

lemmas demo_defs = demo_sched_def demo_task_def demo_env_def create_scheduled_task_def empty_store_def Let_def

lemma demo_ok: "store_ok (sd_store demo_sched)" "clock_ok demo_env"
  by (simp_all add: demo_defs store_ok_def clock_ok_def)

lemma demo_fires: "fst (fire_begin demo_env demo_task demo_sched) = Started 1 False"
  by (simp add: demo_defs fire_begin_def held_back_def try_claim_scheduled_task_def update_where_def is_task_def create_task_run_def)

theorem fire_outcome_witness:
  "\<exists>t' r. get_scheduled_task 1 1 (sd_store (snd (fire_task demo_env demo_task demo_sched))) = Some t'
     \<and> settled demo_env demo_task t' \<and> t_run_count t' = 1
     \<and> get_task_run 1 (t_last_run_id t') (sd_store (snd (fire_task demo_env demo_task demo_sched))) = Some r
     \<and> (r_status r = ''succeeded'' \<or> r_status r = ''failed'')"
proof -
  obtain s1 where b: "fire_begin demo_env demo_task demo_sched = (Started 1 False, s1)"
    using demo_fires by (cases "fire_begin demo_env demo_task demo_sched") simp
  obtain s' where f: "fire_task demo_env demo_task demo_sched = (Inr True, s')" by (simp add: fire_task_def b)
  have k: "t_tenant_id demo_task = 1" "t_id demo_task = 1" "get_scheduled_task 1 1 (sd_store demo_sched) = Some demo_task"
    "t_run_count demo_task = 0" by (simp_all add: demo_defs get_scheduled_task_def is_task_def)
  from fire_outcome [OF demo_ok f] show ?thesis unfolding f k by (auto simp: k)
qed

text \<open>
  A pause is not overwritten: when the row is no longer running at the time the turn ends (an
  operator paused or cancelled it, or deleted it, during the run), the second half of the fire
  changes no task row at all, and still records the run's terminal status.
\<close>

lemma finish_keeps_operator_status:
  assumes "store_ok (sd_store s)" "clock_ok env" "\<not> is_held (sd_store s) (t_tenant_id task, t_id task)"
  shows "get_scheduled_task tn i (sd_store (fire_finish env task run s)) = get_scheduled_task tn i (sd_store s)
    \<and> (get_task_run (t_tenant_id task) run (sd_store s) \<noteq> None \<longrightarrow>
        (\<exists>r. get_task_run (t_tenant_id task) run (sd_store (fire_finish env task run s)) = Some r
          \<and> (r_status r = ''succeeded'' \<or> r_status r = ''failed'')))"
proof -
  note e = finish_effect [OF assms(1) fire_finish_shape [OF assms(2), of task run s]]
  have "\<not> (is_task (t_tenant_id task) (t_id task) t \<and> t_status t = ''running'')" if "get_scheduled_task tn i (sd_store s) = Some t" for t
    using assms(3) that get_is_task [OF that] by (auto simp: is_held_def is_task_def)
  then have "get_scheduled_task tn i (sd_store (fire_finish env task run s)) = get_scheduled_task tn i (sd_store s)"
    using e(2) by (cases "get_scheduled_task tn i (sd_store s)") auto
  then show ?thesis using e(4) by blast
qed

text \<open>
  C14. Recovery is complete: with at most 64 pages of 200 stranded leases, finalising them leaves the
  store with exactly the stranded rows patched, each by the outcome of its latest run, and no row is
  left \<open>running\<close>.  The loop handles each row once although every page is read from the store the previous pages
  have already changed.
\<close>

theorem recovery_complete:
  assumes "store_ok s" "card (running_ids s) \<le> 12800"
  shows "finalize_orphaned_scheduled_task_leases tz completed_at now s =
      s\<lparr>ts_tasks := map (\<lambda>t. if t_status t = ''running'' then recovered tz completed_at now s t else t) (ts_tasks s)\<rparr>
    \<and> running_ids (finalize_orphaned_scheduled_task_leases tz completed_at now s) = {}"
proof -
  have z: "done_upto tz completed_at now s {} = s" by (simp add: done_upto_def)
  have "finalize_orphaned_scheduled_task_leases tz completed_at now s = done_upto tz completed_at now s (running_ids s)"
    using finalize_pages_done [OF assms(1), of "{}" kMaxPages tz completed_at now] assms(2)
    by (simp add: finalize_orphaned_scheduled_task_leases_def z kMaxPages_def)
  moreover have "t_id t \<in> running_ids s \<longleftrightarrow> t_status t = ''running''" if "t \<in> set (ts_tasks s)" for t
    using that unique_row [OF assms(1) that] by (auto simp: running_ids_def)
  moreover have "t_status (recovered tz completed_at now s t) \<noteq> ''running''" for t
    unfolding recovered_def by (rule patched_not_running)
  ultimately show ?thesis by (auto simp: done_upto_def running_ids_def)
qed

definition stranded_store :: task_store where
  "stranded_store = snd (try_claim_scheduled_task 1 1 6 6 (sd_store demo_sched))"

theorem recovery_complete_witness:
  "running_ids stranded_store = {1} \<and> running_ids (finalize_orphaned_scheduled_task_leases no_clock 9 9 stranded_store) = {}"
proof -
  have r: "running_ids stranded_store = {1}"
    using running_ids_single [of stranded_store "demo_task\<lparr>t_status := ''running'', t_updated_at := 6\<rparr>"]
    by (simp add: stranded_store_def demo_defs try_claim_scheduled_task_def update_where_def is_task_def)
  have ok: "store_ok stranded_store" unfolding stranded_store_def by (rule store_ok_ops(1) [OF demo_ok(1)])
  have "card (running_ids stranded_store) \<le> 12800" by (simp add: r)
  from recovery_complete [OF ok this, of no_clock 9 9] r show ?thesis by blast
qed

text \<open>
  An exception of \<open>create_task_run\<close> escapes between the claim and the run: the row stays \<open>running\<close>,
  and no later tick claims it.
\<close>

theorem threw_strands_lease:
  assumes "store_ok (sd_store s)" "fire_begin env task s = (Threw g, s')"
  shows "is_held (sd_store s') (t_tenant_id task, t_id task)
    \<and> \<not> fst (try_claim_scheduled_task (t_tenant_id task) (t_id task) cutoff now (sd_store s'))"
proof -
  let ?cl = "try_claim_scheduled_task (t_tenant_id task) (t_id task) (fe_now env) (fe_later env) (sd_store s)"
  obtain c st where c: "?cl = (c, st)" by (cases ?cl)
  have "c \<and> sd_store s' = st"
    using assms(2) unfolding fire_begin_def Let_def c
    by (auto simp: c split: option.splits if_splits lim_result.splits prod.splits)
  then have "is_held (sd_store s') (t_tenant_id task, t_id task)" "store_ok (sd_store s')"
    using claim_held [of "t_tenant_id task" "t_id task" "fe_now env" "fe_later env" "sd_store s" "(t_tenant_id task, t_id task)"]
      claim_result [OF assms(1), of "t_tenant_id task" "t_id task" "fe_now env" "fe_later env"] store_ok_ops(1) [OF assms(1), of "t_tenant_id task" "t_id task" "fe_now env" "fe_later env"]
    by (simp_all add: c)
  then show ?thesis using tl.excluded [of "sd_store s'" "(t_tenant_id task, t_id task)" "(cutoff, now)"] by (simp add: claim_lease_def)
qed

end
