(* ===== verification/Schedule_Api.thy ===== *)
theory Schedule_Api
  imports Scheduler Json
begin

text \<open>
  The two front ends of the schedule tables: the \<open>/v1/schedules\<close> routes and the
  \<open>/schedule\<close> writ of \<open>src/api_server.cpp\<close>, with the agent id check of
  \<open>src/workspace_root.cpp\<close>.  A handler maps the store to the response it writes and the new
  store.  The agent catalog, the conversation table and the clock are arguments.
\<close>

section \<open>Responses\<close>

datatype http_response = JsonResp int json | PlainResp int string string

definition error_resp :: "int \<Rightarrow> string \<Rightarrow> http_response" where
  "error_resp c msg = JsonResp c (JObj [(''error'', JStr msg)])"

text \<open>An \<open>int64_t\<close> converted to \<open>double\<close>, and back (the value for an out-of-range double is that of the
  x86-64 conversion instruction).\<close>

definition jint :: "int \<Rightarrow> json" where
  "jint i = JNum (case round_double (of_int i) of Some d \<Rightarrow> d | None \<Rightarrow> of_int i)"

definition double_to_int64 :: "double \<Rightarrow> int" where
  "double_to_int64 d = (let v = (if 0 \<le> d then floor d else ceiling d) in if in_int64 v then v else int64_min)"

definition scheduled_task_to_json :: "ScheduledTask \<Rightarrow> json" where
  "scheduled_task_to_json t = JObj
     [(''id'', jint (t_id t)), (''agent_id'', JStr (t_agent_id t)), (''conversation_id'', jint (t_conversation_id t)),
      (''message'', JStr (t_message t)), (''schedule_phrase'', JStr (t_schedule_phrase t)),
      (''schedule_kind'', JStr (t_schedule_kind t)), (''fire_at'', jint (t_fire_at t)),
      (''recur_json'', JStr (t_recur_json t)), (''next_fire_at'', jint (t_next_fire_at t)),
      (''status'', JStr (t_status t)), (''created_at'', jint (t_created_at t)), (''updated_at'', jint (t_updated_at t)),
      (''last_run_at'', jint (t_last_run_at t)), (''last_run_id'', jint (t_last_run_id t)),
      (''run_count'', jint (t_run_count t))]"

definition task_run_to_json :: "TaskRun \<Rightarrow> json" where
  "task_run_to_json r = JObj
     [(''id'', jint (r_id r)), (''task_id'', jint (r_task_id r)), (''status'', JStr (r_status r)),
      (''started_at'', jint (r_started_at r)), (''completed_at'', jint (r_completed_at r)),
      (''request_id'', JStr (r_request_id r)), (''result_summary'', JStr (r_result_summary r)),
      (''error_message'', JStr (r_error_message r)), (''input_tokens'', jint (r_input_tokens r)),
      (''output_tokens'', jint (r_output_tokens r))]"

definition nl :: string where "nl = [CHR 0x0A]"

definition schedule_parser_help :: string where
  "schedule_parser_help = ''/schedule accepts:'' @ nl
     @ ''  in N (minute|hour|day|week)[s]'' @ nl
     @ ''  at HH:MM'' @ nl
     @ ''  tomorrow [at HH:MM]'' @ nl
     @ ''  on YYYY-MM-DD [at HH:MM]'' @ nl
     @ ''  every hour | hourly'' @ nl
     @ ''  every N (minute|hour)[s]'' @ nl
     @ ''  every day [at HH:MM] | daily'' @ nl
     @ ''  every week [on <weekday>] [at HH:MM] | weekly'' @ nl
     @ ''  every (Mon|Tue|...) [at HH:MM]''"

definition agent_id_is_safe :: "string \<Rightarrow> bool" where
  "agent_id_is_safe i \<longleftrightarrow> i \<noteq> [] \<and> length i \<le> 64 \<and> hd i \<noteq> CHR ''.'' \<and> hd i \<noteq> CHR ''/'' \<and>
     list_all (\<lambda>c. (97 \<le> code c \<and> code c \<le> 122) \<or> (65 \<le> code c \<and> code c \<le> 90) \<or> (48 \<le> code c \<and> code c \<le> 57)
                   \<or> c = CHR ''_'' \<or> c = CHR ''-'') i"

section \<open>The REST handlers\<close>

record api_env =
  ae_tz :: timezone
  ae_now :: int
  ae_agent_exists :: "int \<Rightarrow> string \<Rightarrow> bool"      \<comment> \<open>\<open>get_agent_record\<close>\<close>
  ae_conversation_ok :: "int \<Rightarrow> int \<Rightarrow> bool"      \<comment> \<open>\<open>get_http_conversation\<close>\<close>

definition with_object :: "string \<Rightarrow> task_store \<Rightarrow> (json \<Rightarrow> http_response \<times> task_store) \<Rightarrow> http_response \<times> task_store" where
  "with_object text s k =
     (case json_parse text of
        Inl e \<Rightarrow> (error_resp 400 (''invalid JSON: '' @ parse_error_text text e), s)
      | Inr (JObj kvs) \<Rightarrow> k (JObj kvs)
      | Inr _ \<Rightarrow> (error_resp 400 ''body must be a JSON object'', s))"

definition kind_str :: "ScheduleSpec \<Rightarrow> string" where
  "kind_str sp = (case sp_kind sp of Once \<Rightarrow> ''once'' | Recurring \<Rightarrow> ''recurring'')"

definition handle_schedule_create :: "api_env \<Rightarrow> int \<Rightarrow> string \<Rightarrow> task_store \<Rightarrow> http_response \<times> task_store" where
  "handle_schedule_create env tn text s = with_object text s (\<lambda>b.
     let phrase = get_string b ''schedule'' []; message = get_string b ''message'' [];
         agent0 = get_string b ''agent'' [];
         conv_id = double_to_int64 (get_number b ''conversation_id'' 0);
         agent = (if agent0 = [] then ''index'' else agent0)
     in if phrase = [] \<or> message = [] then (error_resp 400 ''required fields: schedule (NL phrase), message'', s)
        else if \<not> agent_id_is_safe agent then (error_resp 400 ''agent id contains invalid characters'', s)
        else case parse_schedule_phrase (ae_tz env) phrase (ae_now env) of
          Inl e \<Rightarrow> (JsonResp 400 (JObj [(''error'', JStr e), (''accepted'', JStr schedule_parser_help)]), s)
        | Inr sp \<Rightarrow>
            if agent \<noteq> ''index'' \<and> \<not> ae_agent_exists env tn agent then
              (error_resp 404 (''agent '' @ quoted agent @ '' not found in tenant catalog''), s)
            else if 0 < conv_id \<and> \<not> ae_conversation_ok env tn conv_id then
              (error_resp 400 ''conversation_id does not exist for this tenant'', s)
            else
              let (row, s') = create_scheduled_task tn agent conv_id message phrase (kind_str sp) (sp_fire_at sp)
                                (sp_recur_json sp) (sp_next_fire_at sp) (ae_now env) s
              in (JsonResp 201 (JObj [(''scheduled_task'', scheduled_task_to_json row),
                                      (''normalized'', JStr (sp_normalized sp))]), s'))"

definition handle_schedule_list :: "int \<Rightarrow> string \<Rightarrow> task_store \<Rightarrow> http_response" where
  "handle_schedule_list tn status_filter s =
     JsonResp 200 (JObj [(''schedules'', JArr (map scheduled_task_to_json (list_scheduled_tasks tn status_filter 200 s)))])"

definition handle_schedule_get :: "int \<Rightarrow> int \<Rightarrow> task_store \<Rightarrow> http_response" where
  "handle_schedule_get tn i s =
     (case get_scheduled_task tn i s of
        None \<Rightarrow> error_resp 404 ''schedule not found''
      | Some row \<Rightarrow> JsonResp 200 (JObj [(''scheduled_task'', scheduled_task_to_json row)]))"

definition patchable_statuses :: "string list" where
  "patchable_statuses = [''active'', ''paused'', ''canceled'', ''completed'', ''failed'']"

definition handle_schedule_patch :: "api_env \<Rightarrow> int \<Rightarrow> int \<Rightarrow> string \<Rightarrow> task_store \<Rightarrow> http_response \<times> task_store" where
  "handle_schedule_patch env tn i text s = with_object text s (\<lambda>b.
     let status_opt = (case jget b ''status'' of Some (JStr v) \<Rightarrow> Some v | _ \<Rightarrow> None) in
     if (case status_opt of Some v \<Rightarrow> v \<notin> set patchable_statuses | None \<Rightarrow> False) then
       (error_resp 400 ''status must be one of: active, paused, canceled, completed, failed'', s)
     else case get_scheduled_task tn i s of
       None \<Rightarrow> (error_resp 404 ''schedule not found'', s)
     | Some existing \<Rightarrow>
         if t_status existing = ''running'' \<and> status_opt \<notin> {None, Some ''paused'', Some ''canceled''} then
           (error_resp 409 ''schedule is running; pause or cancel to change status'', s)
         else case update_scheduled_task tn i (no_patch\<lparr>tp_status := status_opt\<rparr>) None (ae_now env) s of
           (False, s') \<Rightarrow> (error_resp 404 ''schedule not found'', s')
         | (True, s') \<Rightarrow>
             (JsonResp 200 (JObj (case get_scheduled_task tn i s' of
                                    Some row \<Rightarrow> [(''scheduled_task'', scheduled_task_to_json row)] | None \<Rightarrow> [])), s'))"

definition handle_schedule_delete :: "int \<Rightarrow> int \<Rightarrow> task_store \<Rightarrow> http_response \<times> task_store" where
  "handle_schedule_delete tn i s =
     (case delete_scheduled_task tn i s of
        (False, s') \<Rightarrow> (error_resp 404 ''schedule not found'', s')
      | (True, s') \<Rightarrow> (JsonResp 200 (JObj [(''deleted'', JBool True)]), s'))"

definition handle_schedule_runs :: "int \<Rightarrow> int \<Rightarrow> task_store \<Rightarrow> http_response" where
  "handle_schedule_runs tn i s =
     (case get_scheduled_task tn i s of
        None \<Rightarrow> error_resp 404 ''schedule not found''
      | Some row \<Rightarrow> JsonResp 200 (JObj [(''runs'', JArr (map task_run_to_json (list_task_runs tn i 0 100 s)))]))"

text \<open>The dispatch on the path segments after \<open>/v1/schedules\<close>; the query's \<open>status\<close> is an argument.\<close>

definition method_not_allowed :: http_response where
  "method_not_allowed = PlainResp 405 ''Method Not Allowed'' (''method not allowed'' @ nl)"

definition route_id :: "string \<Rightarrow> int" where
  "route_id seg = (case stoll seg of Some (v, r) \<Rightarrow> v | None \<Rightarrow> 0)"

definition schedule_route ::
  "api_env \<Rightarrow> int \<Rightarrow> string \<Rightarrow> string list \<Rightarrow> string \<Rightarrow> string \<Rightarrow> task_store \<Rightarrow> http_response \<times> task_store" where
  "schedule_route env tn meth segs status_q text s =
     (case segs of
        [] \<Rightarrow> if meth = ''POST'' then handle_schedule_create env tn text s
              else if meth = ''GET'' then (handle_schedule_list tn status_q s, s)
              else (method_not_allowed, s)
      | seg # rest \<Rightarrow>
          let i = route_id seg in
          if i \<le> 0 then (PlainResp 400 ''Bad Request'' (''bad schedule id'' @ nl), s)
          else if rest = [] then
            (if meth = ''GET'' then (handle_schedule_get tn i s, s)
             else if meth = ''PATCH'' then handle_schedule_patch env tn i text s
             else if meth = ''DELETE'' then handle_schedule_delete tn i s
             else (method_not_allowed, s))
          else if rest = [''runs''] \<and> meth = ''GET'' then (handle_schedule_runs tn i s, s)
          else (PlainResp 404 ''Not Found'' (''schedule route not found'' @ nl), s))"

section \<open>The schedule writ\<close>

definition blank :: "char \<Rightarrow> bool" where "blank c \<longleftrightarrow> c = CHR '' '' \<or> c = CHR 0x09"

definition trim_blank :: "string \<Rightarrow> string" where
  "trim_blank s = rev (dropWhile blank (rev (dropWhile blank s)))"

definition arrow :: string where "arrow = [CHR 0xE2, CHR 0x86, CHR 0x92]"
definition em_dash :: string where "em_dash = [CHR 0xE2, CHR 0x80, CHR 0x94]"

definition writ_row :: "timezone \<Rightarrow> ScheduledTask \<Rightarrow> string" where
  "writ_row tz r = ''- #'' @ to_string (t_id r) @ ''  ['' @ t_status r @ '']  '' @ t_schedule_phrase r
     @ ''  '' @ arrow @ '' '' @ t_agent_id r
     @ (if 0 < t_next_fire_at r then ''  (next: '' @ format_local tz (t_next_fire_at r) @ '')'' else [])
     @ (if 0 < t_run_count r then ''  (runs: '' @ to_string (t_run_count r) @ '')'' else []) @ nl"

definition writ_list :: "timezone \<Rightarrow> int \<Rightarrow> task_store \<Rightarrow> string" where
  "writ_list tz tn s =
     (let rows = list_scheduled_tasks tn [] 50 s in
      if rows = [] then ''(no scheduled tasks)''
      else to_string (int (length rows)) @ '' schedule(s):'' @ nl @ concat (map (writ_row tz) rows))"

definition writ_id :: "string \<Rightarrow> int" where
  "writ_id args =
     (let i = trim_blank args; j = (if i \<noteq> [] \<and> hd i = CHR ''#'' then tl i else i)
      in case stoll j of Some (v, r) \<Rightarrow> v | None \<Rightarrow> 0)"

definition not_found_msg :: "int \<Rightarrow> string" where
  "not_found_msg i = ''ERR: schedule #'' @ to_string i @ '' not found''"

definition writ_resume_next :: "timezone \<Rightarrow> int \<Rightarrow> ScheduledTask \<Rightarrow> int option" where
  "writ_resume_next tz now row =
     (if t_next_fire_at row \<le> now then
        (if t_schedule_kind row = ''recurring'' then
           (let n = next_fire_for_recur tz (t_recur_json row) now in if 0 < n then Some n else None)
         else Some (now + 1))
      else None)"

definition writ_change :: "timezone \<Rightarrow> int \<Rightarrow> int \<Rightarrow> string \<Rightarrow> string \<Rightarrow> task_store \<Rightarrow> string \<times> task_store" where
  "writ_change tz now tn kind args s =
     (let i = writ_id args in
      if i \<le> 0 then (''ERR: usage: /schedule '' @ kind @ '' <id>'', s)
      else if kind = ''cancel'' then
        (case delete_scheduled_task tn i s of
           (True, s') \<Rightarrow> (''OK: canceled #'' @ to_string i, s')
         | (False, s') \<Rightarrow> (not_found_msg i, s'))
      else case get_scheduled_task tn i s of
        None \<Rightarrow> (not_found_msg i, s)
      | Some row \<Rightarrow>
          let new_status = (if kind = ''pause'' then ''paused'' else ''active'');
              reason = (if kind = ''pause'' then schedule_pause_block_reason (t_status row)
                        else schedule_resume_block_reason (t_status row));
              next = (if kind = ''resume'' then writ_resume_next tz now row else None)
          in if reason \<noteq> [] then (''ERR: schedule #'' @ to_string i @ '' '' @ reason, s)
             else case update_scheduled_task tn i ((status_patch new_status)\<lparr>tp_next_fire_at := next\<rparr>) None now s of
               (False, s') \<Rightarrow> (not_found_msg i, s')
             | (True, s') \<Rightarrow> (''OK: '' @ new_status @ '' #'' @ to_string i, s'))"

definition writ_create :: "timezone \<Rightarrow> int \<Rightarrow> int \<Rightarrow> int \<Rightarrow> string \<Rightarrow> string \<Rightarrow> task_store \<Rightarrow> string \<times> task_store" where
  "writ_create tz now tn conv caller args s =
     (let raw = trim_blank args in
      case find_sub '':'' raw of
        None \<Rightarrow> (''ERR: missing '' @ quoted '':'' @ '' separator. Usage: /schedule <phrase>: <message>'' @ nl
                   @ schedule_parser_help, s)
      | Some colon \<Rightarrow>
          let phrase = trim_blank (take colon raw); message = trim_blank (drop (colon + 1) raw) in
          if phrase = [] \<or> message = [] then
            (''ERR: empty phrase or message. Usage: /schedule <phrase>: <message>'', s)
          else case parse_schedule_phrase tz phrase now of
            Inl e \<Rightarrow> (''ERR: '' @ e @ nl @ schedule_parser_help, s)
          | Inr sp \<Rightarrow>
              let target = (if caller = [] then ''index'' else caller);
                  (row, s') = create_scheduled_task tn target conv message phrase (kind_str sp) (sp_fire_at sp)
                                (sp_recur_json sp) (sp_next_fire_at sp) now s
              in (''OK: scheduled #'' @ to_string (t_id row) @ '' '' @ em_dash @ '' '' @ sp_normalized sp @ '' ''
                    @ arrow @ '' '' @ target
                    @ (if 0 < conv then '' (conversation #'' @ to_string conv @ '')'' else []) @ nl
                    @ ''  message: '' @ message @ nl, s'))"

definition scheduler_invoker ::
  "timezone \<Rightarrow> int \<Rightarrow> int \<Rightarrow> int \<Rightarrow> string \<Rightarrow> string \<Rightarrow> string \<Rightarrow> task_store \<Rightarrow> string \<times> task_store" where
  "scheduler_invoker tz now tn conv kind args caller s =
     (if kind = ''list'' then (writ_list tz tn s, s)
      else if kind = ''cancel'' \<or> kind = ''pause'' \<or> kind = ''resume'' then writ_change tz now tn kind args s
      else writ_create tz now tn conv caller args s)"

section \<open>Requests\<close>

text \<open>A request of one tenant, from either front end, and the task it asks to make active.\<close>

datatype request =
    Http string "string list" string string
  | Writ string string string int

fun run_request :: "api_env \<Rightarrow> int \<Rightarrow> request \<Rightarrow> task_store \<Rightarrow> task_store" where
  "run_request env tn (Http meth segs q text) s = snd (schedule_route env tn meth segs q text s)"
| "run_request env tn (Writ kind args caller conv) s =
     snd (scheduler_invoker (ae_tz env) (ae_now env) tn conv kind args caller s)"

definition body_status :: "string \<Rightarrow> string option" where
  "body_status text = (case json_parse text of
     Inr (JObj kvs) \<Rightarrow> (case map_of kvs ''status'' of Some (JStr v) \<Rightarrow> Some v | _ \<Rightarrow> None) | _ \<Rightarrow> None)"

fun asks_active :: "request \<Rightarrow> int \<Rightarrow> bool" where
  "asks_active (Http meth segs q text) i \<longleftrightarrow>
     meth = ''PATCH'' \<and> map route_id segs = [i] \<and> body_status text = Some ''active''"
| "asks_active (Writ kind args caller conv) i \<longleftrightarrow> kind = ''resume'' \<and> writ_id args = i"

text \<open>What any request can do to the store.\<close>

definition api_effect :: "int \<Rightarrow> (int \<Rightarrow> bool) \<Rightarrow> task_store \<Rightarrow> task_store \<Rightarrow> bool" where
  "api_effect tn asks s s' \<longleftrightarrow> s' = s
     \<or> (\<exists>a cv m ph k fa rj nf now. s' = snd (create_scheduled_task tn a cv m ph k fa rj nf now s))
     \<or> (\<exists>i. s' = snd (delete_scheduled_task tn i s))
     \<or> (\<exists>i p now. s' = snd (update_scheduled_task tn i p None now s)
          \<and> (tp_status p = Some ''active'' \<longrightarrow> asks i \<and> \<not> is_held s (tn, i)))"

lemma effect_id: "api_effect tn a s s"
  by (simp add: api_effect_def)

lemma effect_create: "api_effect tn ask s (snd (create_scheduled_task tn a cv m ph k fa rj nf now s))"
  unfolding api_effect_def by blast

lemma effect_delete: "api_effect tn ask s (snd (delete_scheduled_task tn i s))"
  unfolding api_effect_def by blast

lemma effect_update:
  "(tp_status p = Some ''active'' \<Longrightarrow> ask i \<and> \<not> is_held s (tn, i)) \<Longrightarrow>
     api_effect tn ask s (snd (update_scheduled_task tn i p None now s))"
  unfolding api_effect_def by blast

lemma with_object_effect:
  "(\<And>kvs. json_parse text = Inr (JObj kvs) \<Longrightarrow> api_effect tn a s (snd (k (JObj kvs)))) \<Longrightarrow>
     api_effect tn a s (snd (with_object text s k))"
  by (auto simp: with_object_def effect_id split: sum.splits json.splits)

lemma effect_if:
  "(c \<Longrightarrow> api_effect tn ask s (snd a)) \<Longrightarrow> (\<not> c \<Longrightarrow> api_effect tn ask s (snd b)) \<Longrightarrow> api_effect tn ask s (snd (if c then a else b))"
  by simp

lemma create_effect: "api_effect tn a s (snd (handle_schedule_create env tn text s))"
  unfolding handle_schedule_create_def
proof (rule with_object_effect, goal_cases)
  case (1 kvs)
  show ?case
    by (simp add: Let_def effect_id effect_create split_def split: sum.split)
qed

lemma snd_case_result:
  "snd (case x of (False, s') \<Rightarrow> (f s', s') | (True, s') \<Rightarrow> (g s', s')) = snd x"
  "snd (case x of (True, s') \<Rightarrow> (g s', s') | (False, s') \<Rightarrow> (f s', s')) = snd x"
  by (cases x; cases "fst x"; simp)+

lemma delete_effect: "api_effect tn a s (snd (handle_schedule_delete tn i s))"
  unfolding handle_schedule_delete_def snd_case_result by (rule effect_delete)

lemma patch_effect:
  "api_effect tn (\<lambda>j. j = i \<and> body_status text = Some ''active'') s (snd (handle_schedule_patch env tn i text s))"
  unfolding handle_schedule_patch_def
proof (rule with_object_effect, goal_cases)
  case (1 kvs)
  define st where "st = (case jget (JObj kvs) ''status'' of Some (JStr v) \<Rightarrow> Some v | _ \<Rightarrow> None)"
  have b: "body_status text = st" using 1 by (simp add: body_status_def st_def)
  have u: "api_effect tn (\<lambda>j. j = i \<and> body_status text = Some ''active'') s
      (snd (update_scheduled_task tn i (no_patch\<lparr>tp_status := st\<rparr>) None (ae_now env) s))"
    if "get_scheduled_task tn i s = Some t" "\<not> (t_status t = ''running'' \<and> st \<notin> {None, Some ''paused'', Some ''canceled''})" for t
    by (rule effect_update) (use that b in \<open>auto simp: is_held_def\<close>)
  show ?case
  proof (cases "get_scheduled_task tn i s")
    case None
    then show ?thesis unfolding st_def [symmetric] Let_def by (simp add: effect_id)
  next
    case (Some t)
    then show ?thesis using u [OF Some]
      unfolding st_def [symmetric] Let_def Some by (simp only: option.case if_distrib [of snd] snd_conv snd_case_result effect_id split: if_split) blast
  qed
qed

lemma effect_mono: "api_effect tn a s s' \<Longrightarrow> (\<And>i. a i \<Longrightarrow> b i) \<Longrightarrow> api_effect tn b s s'"
  unfolding api_effect_def by blast

lemma route_effect: "api_effect tn (asks_active (Http meth segs q text)) s (snd (schedule_route env tn meth segs q text s))"
proof (cases segs)
  case Nil
  then show ?thesis by (simp add: schedule_route_def effect_id create_effect)
next
  case (Cons seg rest)
  have "api_effect tn (asks_active (Http ''PATCH'' [seg] q text)) s (snd (handle_schedule_patch env tn (route_id seg) text s))"
    by (rule effect_mono [OF patch_effect]) simp
  then show ?thesis using Cons
    by (simp add: schedule_route_def Let_def effect_id delete_effect)
qed

lemma writ_change_effect: "api_effect tn (\<lambda>i. kind = ''resume'' \<and> writ_id args = i) s (snd (writ_change tz now tn kind args s))"
  if "kind = ''cancel'' \<or> kind = ''pause'' \<or> kind = ''resume''"
proof (cases "get_scheduled_task tn (writ_id args) s")
  case None
  then show ?thesis
    unfolding writ_change_def Let_def None
    by (simp only: option.case if_distrib [of snd] snd_conv snd_case_result effect_id effect_delete split: if_split) simp
next
  case (Some row)
  have u: "api_effect tn (\<lambda>i. kind = ''resume'' \<and> writ_id args = i) s
      (snd (update_scheduled_task tn (writ_id args) ((status_patch (if kind = ''pause'' then ''paused'' else ''active''))
        \<lparr>tp_next_fire_at := nx\<rparr>) None now s))"
    if "(if kind = ''pause'' then schedule_pause_block_reason (t_status row) else schedule_resume_block_reason (t_status row)) = []"
      "kind \<noteq> ''cancel''" for nx
    by (rule effect_update)
       (use that Some \<open>kind = ''cancel'' \<or> kind = ''pause'' \<or> kind = ''resume''\<close> in
        \<open>auto simp: is_held_def status_patch_def schedule_resume_block_reason_def split: if_splits\<close>)
  show ?thesis
    unfolding writ_change_def Let_def Some option.case
    by (intro effect_if) (simp_all only: snd_conv effect_id effect_delete snd_case_result u not_not if_True if_False simp_thms)
qed

lemma writ_create_effect: "api_effect tn a s (snd (writ_create tz now tn conv caller args s))"
  by (simp add: writ_create_def Let_def effect_id effect_create split_def split: sum.split option.split)

lemma request_effect: "api_effect tn (asks_active req) s (run_request env tn req s)"
proof (cases req)
  case (Http meth segs q b)
  then show ?thesis using route_effect by simp
next
  case (Writ kind args caller conv)
  have "asks_active req = (\<lambda>i. kind = ''resume'' \<and> writ_id args = i)" by (rule ext) (simp add: Writ)
  then show ?thesis
    using writ_change_effect [of kind tn args s "ae_tz env" "ae_now env"] writ_create_effect
    by (simp add: Writ scheduler_invoker_def effect_id)
qed

section \<open>Runs in flight\<close>

text \<open>A key that cannot be claimed now: its row is not active, or it is gone (ids are never reused).\<close>

definition blocked :: "task_store \<Rightarrow> int \<times> int \<Rightarrow> bool" where
  "blocked s k \<longleftrightarrow> (case get_scheduled_task (fst k) (snd k) s of None \<Rightarrow> snd k \<le> ts_task_seq s | Some t \<Rightarrow> t_status t \<noteq> ''active'')"

lemma blocked_not_claimed: "store_ok s \<Longrightarrow> blocked s (tn, i) \<Longrightarrow> \<not> fst (try_claim_scheduled_task tn i c now s)"
  by (auto simp: claim_result blocked_def split: option.splits)

lemma seq_ops [simp]:
  "ts_task_seq (snd (update_scheduled_task tn i p req now s)) = ts_task_seq s"
  "ts_task_seq (snd (try_claim_scheduled_task tn i c now s)) = ts_task_seq s"
  "ts_task_seq (snd (create_task_run tn j st sa rq s)) = ts_task_seq s"
  "ts_task_seq (snd (update_task_run tn j rp s)) = ts_task_seq s"
  "ts_task_seq (snd (delete_scheduled_task tn i s)) = ts_task_seq s"
  by (simp_all add: update_scheduled_task_def try_claim_scheduled_task_def update_where_def create_task_run_def
      update_task_run_def delete_scheduled_task_def Let_def)

lemma blocked_update:
  assumes "blocked s k" "k \<noteq> (tn, i) \<or> tp_status p \<noteq> Some ''active''"
  shows "blocked (snd (update_scheduled_task tn i p req now s)) k"
  using assms get_key [of "fst k" "snd k" s]
  by (cases k; cases "get_scheduled_task (fst k) (snd k) s")
     (auto simp: blocked_def update_get is_task_def apply_patch_def split: option.splits)

lemma blocked_claim: "blocked s k \<Longrightarrow> blocked (snd (try_claim_scheduled_task tn i c now s)) k"
  by (cases "get_scheduled_task (fst k) (snd k) s") (auto simp: blocked_def claim_get)

lemma blocked_runs:
  "blocked (snd (create_task_run tn j st sa rq s)) k = blocked s k"
  "blocked (snd (update_task_run tn j rp s)) k = blocked s k"
  by (simp_all add: blocked_def split: option.split)

lemma find_append: "find P (xs @ ys) = (case find P xs of Some x \<Rightarrow> Some x | None \<Rightarrow> find P ys)"
  by (induction xs) auto

lemma blocked_create: "blocked s k \<Longrightarrow> blocked (snd (create_scheduled_task tn a cv m ph kd fa rj nf now s)) k"
  by (auto simp: blocked_def create_scheduled_task_def Let_def get_scheduled_task_def find_append is_task_def split: option.splits)

lemma get_deleted:
  "get_scheduled_task tn' i' (snd (delete_scheduled_task tn i s)) =
     (if (tn', i') = (tn, i) then None else get_scheduled_task tn' i' s)"
proof -
  have "find (is_task tn' i') (filter (\<lambda>t. \<not> is_task tn i t) ts) = (if (tn', i') = (tn, i) then None else find (is_task tn' i') ts)" for ts
  proof -
    have "is_task tn' i' t \<Longrightarrow> is_task tn i t \<Longrightarrow> (tn', i') = (tn, i)" for t by (simp add: is_task_def)
    then show ?thesis by (induction ts) auto
  qed
  moreover have "find (is_task tn i) ts = None" if "\<not> list_ex (is_task tn i) ts" for ts
    using that by (simp add: find_None_iff list_ex_iff)
  ultimately show ?thesis by (auto simp: get_scheduled_task_def delete_scheduled_task_def Let_def)
qed

lemma get_le_seq: "store_ok s \<Longrightarrow> get_scheduled_task tn i s = Some t \<Longrightarrow> i \<le> ts_task_seq s"
  using get_is_task [of tn i s t] by (auto simp: store_ok_def is_task_def)

lemma blocked_delete: "store_ok s \<Longrightarrow> blocked s k \<Longrightarrow> blocked (snd (delete_scheduled_task tn i s)) k"
  using get_le_seq [of s "fst k" "snd k"] by (auto simp: blocked_def get_deleted split: option.splits)

lemma blocked_release:
  assumes "store_ok s" "blocked s k" "k \<noteq> (tn, i) \<or> tp_status p \<noteq> Some ''active''"
  shows "blocked (snd (release_running_lease tn i p now s)) k"
  using blocked_update [OF assms(2,3)] by (simp add: release_eq [OF assms(1)])

lemma effect_ok: "api_effect tn a s s' \<Longrightarrow> store_ok s \<Longrightarrow> store_ok s'"
  unfolding api_effect_def by (auto intro: store_ok_ops)

lemma effect_blocked:
  assumes "api_effect tn ask s s'" "store_ok s" "blocked s k" "\<And>i. k = (tn, i) \<Longrightarrow> ask i \<Longrightarrow> is_held s k"
  shows "blocked s' k"
  using assms unfolding api_effect_def by (auto intro: blocked_create blocked_delete blocked_update)

lemma held_back_cases:
  assumes "held_back env task s = Some s'"
  obtains (upd) p where "tp_status p \<noteq> Some ''active''"
      "sd_store s' = snd (update_scheduled_task (t_tenant_id task) (t_id task) p None (fe_later env) (sd_store s))"
    | (del) "sd_store s' = snd (delete_scheduled_task (t_tenant_id task) (t_id task) (sd_store s))"
proof (cases "fe_tenant_disabled env (t_tenant_id task)")
  case None
  then show thesis using assms del by (auto simp: held_back_def Let_def)
next
  case (Some d)
  let ?next = "no_patch\<lparr>tp_next_fire_at := Some (next_or_hour (fe_tz env) task (fe_pre_now env) (fe_pre_now env))\<rparr>"
  have "tp_status (status_patch ''paused'') \<noteq> Some ''active''" "tp_status ?next \<noteq> Some ''active''"
    by (simp_all add: status_patch_def no_patch_def)
  then show thesis using assms upd [of "status_patch ''paused''"] upd [of ?next] unfolding held_back_def Let_def Some
    by (auto split: if_splits)
qed

lemma fire_begin_cases:
  assumes "fire_begin env task s = (res, s')"
  defines "cl \<equiv> try_claim_scheduled_task (t_tenant_id task) (t_id task) (fe_now env) (fe_later env) (sd_store s)"
  obtains (held) "held_back env task s = Some s'" "\<nexists>r g. res = Started r g"
    | (lost) "sd_store s' = snd cl" "\<nexists>r g. res = Started r g"
    | (limited) p where "fst cl" "sd_store s' = snd (release_running_lease (t_tenant_id task) (t_id task) p (fe_later env) (snd cl))"
        "\<nexists>r g. res = Started r g"
    | (started) rq where "fst cl" "sd_store s' = snd (create_task_run (t_tenant_id task) (t_id task) ''running'' (fe_now env) rq (snd cl))"
proof (cases "held_back env task s")
  case (Some s2)
  then show thesis using held assms(1) by (auto simp: fire_begin_def)
next
  case None
  obtain c st where c: "cl = (c, st)" by (cases cl)
  obtain g s1 where a: "(case sd_limiter s of None \<Rightarrow> (Granted False, s\<lparr>sd_store := st\<rparr>)
        | Some l \<Rightarrow> (let (r, l') = acquire (t_tenant_id task) (fe_steady env) l
                    in (r, s\<lparr>sd_store := st, sd_limiter := Some l'\<rparr>))) = (g, s1)" by fastforce
  have s1: "sd_store s1 = st" using a by (auto split: option.splits prod.splits)
  have e: "fire_begin env task s = (if \<not> c then (NotFired, s\<lparr>sd_store := st\<rparr>) else
     case g of
       ConcurrentExceeded k \<Rightarrow>
         (NotFired, s1\<lparr>sd_store := snd (release_running_lease (t_tenant_id task) (t_id task) (status_patch ''active'') (fe_later env) st)\<rparr>)
     | RateExceeded k \<Rightarrow>
         (NotFired, s1\<lparr>sd_store := snd (release_running_lease (t_tenant_id task) (t_id task)
            ((status_patch ''active'')\<lparr>tp_next_fire_at := Some (fe_now env + (if 0 < k then k else 60))\<rparr>) (fe_later env) st)\<rparr>)
     | Granted g \<Rightarrow>
         if \<not> fe_run_insert_ok env then (Threw g, s1)
         else let (run, st2) = create_task_run (t_tenant_id task) (t_id task) ''running'' (fe_now env) (fe_req_id env) st
              in (Started (r_id run) g, s1\<lparr>sd_store := st2, sd_published := sd_published s1 @
                   [run_notification RunStarted task (r_id run) ''running'' (fe_now env) 0 [] []]\<rparr>))"
    unfolding fire_begin_def None option.case Let_def cl_def [symmetric] c prod.case a [unfolded Let_def] by (rule refl)
  show thesis
    using assms(1) lost limited started s1 unfolding e
    by (cases c; cases g) (auto simp: c Let_def split_def split: if_splits)
qed

lemma begin_keeps:
  assumes "store_ok (sd_store s)" "fire_begin env task s = (res, s')"
  shows "store_ok (sd_store s')" "blocked (sd_store s) k \<Longrightarrow> blocked (sd_store s') k"
proof -
  let ?cl = "try_claim_scheduled_task (t_tenant_id task) (t_id task) (fe_now env) (fe_later env) (sd_store s)"
  have c: "store_ok (snd ?cl)" by (rule store_ok_ops(1) [OF assms(1)])
  have n: "fst ?cl \<Longrightarrow> blocked (sd_store s) k \<Longrightarrow> k \<noteq> (t_tenant_id task, t_id task)" for k
    using blocked_not_claimed [OF assms(1)] by blast
  from assms(2) have "store_ok (sd_store s') \<and> (blocked (sd_store s) k \<longrightarrow> blocked (sd_store s') k)"
  proof (cases rule: fire_begin_cases)
    case held
    from held(1) show ?thesis
      by (cases rule: held_back_cases) (simp_all add: store_ok_ops assms(1) blocked_update blocked_delete)
  next
    case lost
    then show ?thesis using c blocked_claim by simp
  next
    case (limited p)
    then show ?thesis using n release_ok [OF c] by (auto intro!: blocked_release [OF c] blocked_claim)
  next
    case (started rq)
    then show ?thesis using store_ok_ops(5) [OF c] by (simp add: blocked_runs blocked_claim)
  qed
  then show "store_ok (sd_store s')" "blocked (sd_store s) k \<Longrightarrow> blocked (sd_store s') k" by simp_all
qed

text \<open>
  Executions: scheduler workers (the tick of one or several processes on the same database)
  interleaved at the granularity of the two halves of \<open>fire_task\<close>, with requests of any tenant between
  them.  \<open>W\<close> lists the runs between their halves.  The one exclusion: a request may not ask to make a task
  active while a run of it is in flight and its row has already left \<open>running\<close>.
\<close>

type_synonym flights = "(ScheduledTask \<times> int \<times> bool) list"

definition flight_keys :: "flights \<Rightarrow> (int \<times> int) list" where
  "flight_keys W = map (\<lambda>(t, run, g). (t_tenant_id t, t_id t)) W"

inductive exec :: "sched \<Rightarrow> flights \<Rightarrow> bool" where
  exec_init: "store_ok (sd_store s) \<Longrightarrow> exec s []"
| exec_started: "exec s W \<Longrightarrow> fire_begin env task s = (Started run g, s') \<Longrightarrow> exec s' ((task, run, g) # W)"
| exec_not_fired: "exec s W \<Longrightarrow> fire_begin env task s = (NotFired, s') \<Longrightarrow> exec s' W"
| exec_threw: "exec s W \<Longrightarrow> fire_begin env task s = (Threw g, s') \<Longrightarrow> exec (drop_guard env task g s') W"
| exec_finish: "exec s W \<Longrightarrow> (task, run, g) \<in> set W \<Longrightarrow> clock_ok env \<Longrightarrow>
     exec (drop_guard env task g (fire_finish env task run s)) (remove1 (task, run, g) W)"
| exec_request: "exec s W \<Longrightarrow>
     (\<And>i. asks_active req i \<Longrightarrow> (tn, i) \<in> set (flight_keys W) \<Longrightarrow> is_held (sd_store s) (tn, i)) \<Longrightarrow>
     exec (s\<lparr>sd_store := run_request env' tn req (sd_store s)\<rparr>) W"

lemma finish_blocked:
  assumes "store_ok (sd_store s)" "clock_ok env" "blocked (sd_store s) k" "k \<noteq> (t_tenant_id task, t_id task)"
  shows "blocked (sd_store (fire_finish env task run s)) k"
  using fire_finish_shape [OF assms(2), of task run s] assms(3,4) store_ok_ops(6) [OF assms(1)]
  by (auto simp: ends_well_def blocked_runs intro!: blocked_release)

lemma finish_ok: "store_ok (sd_store s) \<Longrightarrow> clock_ok env \<Longrightarrow> store_ok (sd_store (fire_finish env task run s))"
  by (rule finish_effect(1) [OF _ fire_finish_shape])

definition flights_ok :: "sched \<Rightarrow> flights \<Rightarrow> bool" where
  "flights_ok s W \<longleftrightarrow> store_ok (sd_store s) \<and> distinct (flight_keys W) \<and> (\<forall>k \<in> set (flight_keys W). blocked (sd_store s) k)"

lemma started_blocked:
  assumes "store_ok (sd_store s)" "fire_begin env task s = (Started run g, s')"
  shows "\<not> blocked (sd_store s) (t_tenant_id task, t_id task)" "blocked (sd_store s') (t_tenant_id task, t_id task)"
  using begin_effect(5) [OF assms] by (auto simp: blocked_def)

lemma flight_keys_remove:
  assumes "distinct (flight_keys W)" "(task, run, g) \<in> set W"
  shows "distinct (flight_keys (remove1 (task, run, g) W))"
    "set (flight_keys (remove1 (task, run, g) W)) = set (flight_keys W) - {(t_tenant_id task, t_id task)}"
proof -
  let ?f = "\<lambda>(t, run, g). (t_tenant_id t, t_id t)"
  have d: "distinct W" "inj_on ?f (set W)" using assms(1) by (simp_all add: flight_keys_def distinct_map)
  have "set (remove1 (task, run, g) W) = set W - {(task, run, g)}" using d(1) by simp
  then show "set (flight_keys (remove1 (task, run, g) W)) = set (flight_keys W) - {(t_tenant_id task, t_id task)}"
    using inj_on_image_set_diff [OF d(2), of "set W" "{(task, run, g)}"] assms(2) by (auto simp: flight_keys_def)
  show "distinct (flight_keys (remove1 (task, run, g) W))"
    using d by (auto simp: flight_keys_def distinct_map intro: inj_on_subset)
qed

lemma exec_inv: "exec s W \<Longrightarrow> flights_ok s W"
proof (induction rule: exec.induct)
  case (exec_init s)
  then show ?case by (simp add: flights_ok_def flight_keys_def)
next
  case (exec_started s W env task run g s')
  then show ?case
    using begin_keeps [of s env task] started_blocked [of s env task]
    by (auto simp: flights_ok_def flight_keys_def)
next
  case (exec_not_fired s W env task s')
  then show ?case using begin_keeps [of s env task] by (auto simp: flights_ok_def)
next
  case (exec_threw s W env task g s')
  then show ?case using begin_keeps [of s env task] by (auto simp: flights_ok_def)
next
  case (exec_finish s W task run g env)
  then show ?case using flight_keys_remove [of W task run g]
    by (auto simp: flights_ok_def finish_ok intro: finish_blocked)
next
  case (exec_request s W req tn env')
  note ih = exec_request.IH [unfolded flights_ok_def]
  let ?s' = "run_request env' tn req (sd_store s)"
  have "store_ok ?s'" using effect_ok [OF request_effect] ih by blast
  moreover have "blocked ?s' k" if k: "k \<in> set (flight_keys W)" for k
    using k exec_request.hyps(2) ih by (intro effect_blocked [OF request_effect]) auto
  ultimately show ?case using ih unfolding flights_ok_def by simp
qed

section \<open>Phrases cut at the colon\<close>

text \<open>Phrases whose time has lost its minutes: every form refuses a final \<open>at H\<close>.\<close>

lemma at_suffix_bare: "hhmm_shape h = None \<Longrightarrow> at_suffix (xs @ [h]) = None"
  by (cases xs; cases "tl xs") (auto simp: at_suffix_def split: list.split)

lemma after_every_snoc:
  assumes "after_every u a (xs @ [''at'', h]) = Some rest" "a \<noteq> ''at''"
  obtains ys where "rest = ys @ [h]"
proof -
  have "rest \<noteq> [] \<and> last rest = h"
    using assms by (cases xs; cases "tl xs") (auto simp: after_every_def split: if_splits list.splits)
  then show thesis using that [of "butlast rest"] by (metis append_butlast_last_id)
qed

lemma number_no_colon: "is_number_word h \<Longrightarrow> hhmm_shape h = None \<and> parse_hhmm h = None"
proof -
  assume h: "is_number_word h"
  then have d: "dropWhile is_digit h = []" by (simp add: is_number_word_def list_all_iff)
  show ?thesis unfolding parse_hhmm_def hhmm_shape_def d Let_def by simp
qed

lemma bare_hour_refused:
  assumes "words (lower p) = ws @ [''at'', h]" "is_number_word h"
  shows "parse_schedule_phrase tz p now = Inl ''unrecognised schedule phrase''"
proof -
  let ?L = "ws @ [''at'', h]"
  note n = number_no_colon [OF assms(2)]
  have w: "words (joinw ?L) = ?L" using normal_phrase [of p] assms(1) by simp
  have sf: "at_suffix (ys @ [h]) = None" for ys using n at_suffix_bare by blast
  have at: "\<not> is_number_word ''at''" by (simp add: is_number_word_def is_digit_def)
  have e: "words ''every hour'' = [''every'', ''hour'']" "words ''hourly'' = [''hourly'']"
    "words ''every week'' = [''every'', ''week'']" "words ''weekly'' = [''weekly'']" by code_simp+
  have ne: "joinw ?L \<noteq> ''every hour'' \<and> joinw ?L \<noteq> ''hourly'' \<and> joinw ?L \<noteq> ''every week'' \<and> joinw ?L \<noteq> ''weekly''"
    using w e by (auto simp: append_eq_Cons_conv)
  have 1: "try_in tz ?L now = None" "try_every_n ?L now = None"
    using at by (cases ws; cases "tl ws"; auto simp: try_in_def try_every_n_def split: list.splits option.splits)+
  have 2: "try_at tz ?L now = None"
    using n by (cases ws; cases "tl ws"; auto simp: try_at_def split: list.split)
  have 3: "try_tomorrow tz ?L now = None" using sf [of "tl ws @ [''at'']"] by (cases ws) (auto simp: try_tomorrow_def)
  have 4: "try_on tz ?L now = None"
    using sf [of "tl (tl ws) @ [''at'']"] sf [of "[]"]
    by (cases ws; cases "tl ws") (auto simp: try_on_def)
  have 5: "try_hourly (joinw ?L) now = None" using ne by (simp add: try_hourly_def)
  have 6: "try_daily tz ?L now = None"
    by (auto simp: try_daily_def sf split: option.splits elim!: after_every_snoc)
  have "match_weekly ?L = None"
  proof (cases "after_every ''week'' ''weekly'' ?L")
    case (Some rest)
    then obtain ys where r: "rest = ys @ [h]" by (rule after_every_snoc) simp
    have "h \<noteq> []" "\<not> is_az_word h"
      using assms(2) by (cases h; auto simp: is_number_word_def is_az_word_def is_digit_def)+
    then show ?thesis using sf [of ys] sf [of "tl (tl ys)"] unfolding match_weekly_def Some option.case r
      by (cases ys; cases "tl ys") (auto split: option.splits)
  qed (simp add: match_weekly_def)
  moreover have "match_weekday ?L = None"
    using sf [of "tl (tl ws) @ [''at'']"] sf [of "[]"]
    by (cases ws; cases "tl ws") (auto simp: match_weekday_def)
  ultimately have 7: "try_weekly tz (joinw ?L) now = None" using ne by (simp add: try_weekly_def w)
  show ?thesis using 1 2 3 4 5 6 7 by (simp add: parse_by_words assms(1) Let_def)
qed

section \<open>Properties\<close>

definition demo_api :: api_env where
  "demo_api = \<lparr>ae_tz = no_clock, ae_now = 9, ae_agent_exists = (\<lambda>_ _. True), ae_conversation_ok = (\<lambda>_ _. True)\<rparr>"



text \<open>
  C15. Tenant isolation: no request of a tenant, through the REST routes or the writ, with any ids,
  bodies or arguments, changes, creates or removes a task row of another tenant.
\<close>

theorem tenant_isolation:
  assumes "tn' \<noteq> tn"
  shows "filter (\<lambda>t. t_tenant_id t = tn') (ts_tasks (run_request env tn req s)) = filter (\<lambda>t. t_tenant_id t = tn') (ts_tasks s)"
proof -
  have d: "filter (\<lambda>t. \<not> is_task tn i t \<and> t_tenant_id t = tn') ts = filter (\<lambda>t. t_tenant_id t = tn') ts" for i ts
    using assms by (induction ts) (auto simp: is_task_def)
  have u: "filter (\<lambda>t. t_tenant_id t = tn') (map (\<lambda>t. if is_task tn i t then apply_patch p now t else t) ts)
      = filter (\<lambda>t. t_tenant_id t = tn') ts" for i p now ts
    using assms by (induction ts) (auto simp: is_task_def apply_patch_def)
  from request_effect [of tn req s env] assms show ?thesis
    unfolding api_effect_def
    by (auto simp: create_scheduled_task_def delete_scheduled_task_def update_scheduled_task_def update_where_def Let_def d u)
qed

theorem tenant_isolation_witness:
  "filter (\<lambda>t. t_tenant_id t = 1) (ts_tasks (run_request demo_api 2 (Writ ''cancel'' ''#1'' [] 0) (sd_store demo_sched)))
    = [demo_task]"
  by (subst tenant_isolation) (simp_all add: demo_defs)

text \<open>
  Terminal rows stay terminal under the writ: pausing or resuming a completed, failed or
  cancelled task is answered with an error and leaves the store as it was; a running task cannot
  be resumed, and a \<open>PATCH\<close> of a running task to anything but paused or cancelled is refused with 409.
\<close>

lemma status_gates:
  assumes "get_scheduled_task tn i s = Some row" "writ_id args = i" "0 < i"
  shows "(t_status row \<in> {''completed'', ''failed'', ''canceled''} \<and> kind \<in> {''pause'', ''resume''} \<or>
      t_status row = ''running'' \<and> kind = ''resume'' \<longrightarrow>
      (\<exists>msg. scheduler_invoker tz now tn conv kind args caller s = (''ERR: '' @ msg, s)))
    \<and> (t_status row = ''running'' \<and> body_status b \<in> {Some ''active'', Some ''completed'', Some ''failed''} \<longrightarrow>
      handle_schedule_patch env tn i b s = (error_resp 409 ''schedule is running; pause or cancel to change status'', s))"
proof (intro conjI impI)
  let ?r = "if kind = ''pause'' then schedule_pause_block_reason (t_status row) else schedule_resume_block_reason (t_status row)"
  assume "t_status row \<in> {''completed'', ''failed'', ''canceled''} \<and> kind \<in> {''pause'', ''resume''} \<or> t_status row = ''running'' \<and> kind = ''resume''"
  then have "?r \<noteq> []" and k: "kind = ''pause'' \<or> kind = ''resume''"
    by (auto simp: schedule_pause_block_reason_def schedule_resume_block_reason_def)
  then have "writ_change tz now tn kind args s = (''ERR: '' @ ''schedule #'' @ to_string i @ '' '' @ ?r, s)"
    using assms by (auto simp: writ_change_def Let_def)
  then show "\<exists>msg. scheduler_invoker tz now tn conv kind args caller s = (''ERR: '' @ msg, s)"
    using k by (auto simp: scheduler_invoker_def)
next
  assume r: "t_status row = ''running'' \<and> body_status b \<in> {Some ''active'', Some ''completed'', Some ''failed''}"
  then obtain kvs v where j: "json_parse b = Inr (JObj kvs)" "map_of kvs ''status'' = Some (JStr v)" "v = ''active'' \<or> v = ''completed'' \<or> v = ''failed''"
    by (auto simp: body_status_def split: sum.splits json.splits option.splits)
  then show "handle_schedule_patch env tn i b s = (error_resp 409 ''schedule is running; pause or cancel to change status'', s)"
    using r assms(1) by (auto simp: handle_schedule_patch_def with_object_def patchable_statuses_def Let_def)
qed

text \<open>
  The exclusion in the executions is needed: pausing and then resuming a task while its run is in
  flight makes its row active again, and a second claim succeeds while the first run is still going.
\<close>

lemma resume_in_flight_reclaims:
  assumes "store_ok (sd_store s)" "fire_begin env task s = (Started run g, s1)"
    and "writ_id args = t_id task" "0 < t_id task"
    and "\<And>t. get_scheduled_task (t_tenant_id task) (t_id task) (sd_store s) = Some t \<Longrightarrow> t_schedule_kind t \<noteq> ''recurring''"
    and "fe_now env \<le> cutoff" "ae_now env' < cutoff"
  shows "fst (try_claim_scheduled_task (t_tenant_id task) (t_id task) cutoff now
     (run_request env' (t_tenant_id task) (Writ ''resume'' args caller conv)
       (run_request env' (t_tenant_id task) (Writ ''pause'' args caller conv) (sd_store s1))))"
proof -
  let ?tn = "t_tenant_id task" and ?i = "t_id task"
  from fire_begin_Started [OF assms(2)] obtain st r where
    c: "try_claim_scheduled_task ?tn ?i (fe_now env) (fe_later env) (sd_store s) = (True, st)"
    and r: "create_task_run ?tn ?i ''running'' (fe_now env) (fe_req_id env) st = (r, sd_store s1)" by metis
  obtain t where t: "get_scheduled_task ?tn ?i (sd_store s) = Some t" "t_next_fire_at t \<le> fe_now env" "t_status t = ''active''"
    using claim_result [OF assms(1), of ?tn ?i "fe_now env" "fe_later env"] c by auto
  have g1: "get_scheduled_task ?tn ?i (sd_store s1) = Some (t\<lparr>t_status := ''running'', t_updated_at := fe_later env\<rparr>)"
    using run_ops_get(1) [of ?tn ?i ?tn ?i "''running''" "fe_now env" "fe_req_id env" st] r
      claim_get [of ?tn ?i ?tn ?i "fe_now env" "fe_later env" "sd_store s"] c t get_is_task [OF t(1)] by simp
  have ok1: "store_ok (sd_store s1)" using begin_effect(1) [OF assms(1,2)] .
  define s2 where "s2 = run_request env' ?tn (Writ ''pause'' args caller conv) (sd_store s1)"
  have s2: "s2 = snd (update_scheduled_task ?tn ?i ((status_patch ''paused'')\<lparr>tp_next_fire_at := None\<rparr>) None (ae_now env') (sd_store s1))"
    using assms(3,4) by (simp add: s2_def scheduler_invoker_def writ_change_def Let_def g1 schedule_pause_block_reason_def snd_case_result)
  define t2 where "t2 = t\<lparr>t_status := ''paused'', t_updated_at := ae_now env'\<rparr>"
  have g2: "get_scheduled_task ?tn ?i s2 = Some t2"
    using get_is_task [OF g1] by (simp add: s2 update_get g1 t2_def apply_patch_def status_patch_def no_patch_def)
  have t2: "t_status t2 = ''paused''" "t_schedule_kind t2 \<noteq> ''recurring''" "t_next_fire_at t2 \<le> fe_now env"
    using t assms(5) by (auto simp: t2_def)
  define p where "p = (status_patch ''active'')\<lparr>tp_next_fire_at := writ_resume_next (ae_tz env') (ae_now env') t2\<rparr>"
  have s3: "run_request env' ?tn (Writ ''resume'' args caller conv) s2 = snd (update_scheduled_task ?tn ?i p None (ae_now env') s2)"
    using assms(3,4) t2(1) by (simp add: p_def scheduler_invoker_def writ_change_def Let_def g2 schedule_resume_block_reason_def snd_case_result)
  have ok2: "store_ok s2" unfolding s2 by (rule store_ok_ops(2) [OF ok1])
  have g3: "get_scheduled_task ?tn ?i (snd (update_scheduled_task ?tn ?i p None (ae_now env') s2)) = Some (apply_patch p (ae_now env') t2)"
    using get_is_task [OF g2] by (simp add: update_get g2)
  have "t_status (apply_patch p (ae_now env') t2) = ''active''" "t_next_fire_at (apply_patch p (ae_now env') t2) \<le> cutoff"
    using t2 assms(6,7) by (auto simp: p_def apply_patch_def status_patch_def no_patch_def writ_resume_next_def)
  then show ?thesis unfolding s2_def [symmetric] s3 using g3 by (simp add: claim_result [OF store_ok_ops(2) [OF ok2]])
qed

text \<open>
  The writ splits its arguments at the first colon, so a phrase with a clock time, such as the
  documented \<open>every monday at 09:00: summarise\<close>, loses its minutes: every argument whose text before
  the first colon ends in \<open>at H\<close> is refused as an unrecognised phrase and creates nothing.
\<close>

lemma writ_time_refused:
  assumes "trim_blank args = q @ '':'' @ rest" "CHR '':'' \<notin> set q" "trim_blank rest \<noteq> []"
    and "words (lower (trim_blank q)) = ws @ [''at'', h]" "is_number_word h"
    and "kind \<notin> {''list'', ''cancel'', ''pause'', ''resume''}"
  shows "scheduler_invoker tz now tn conv kind args caller s =
    (''ERR: unrecognised schedule phrase'' @ nl @ schedule_parser_help, s)"
proof -
  have "find_sub '':'' (q @ '':'' @ rest) = Some (length q)"
    using assms(2) by (intro find_sub_append) (auto simp: drop_append Cons_nth_drop_Suc [symmetric] set_conv_nth)
  moreover have "trim_blank q \<noteq> []"
  proof
    assume "trim_blank q = []"
    then have "words (lower (trim_blank q)) = []" by (simp add: lower_def words.simps)
    then show False using assms(4) by simp
  qed
  ultimately show ?thesis
    using assms(1,3,6) bare_hour_refused [OF assms(4,5), of tz now]
    by (simp add: scheduler_invoker_def writ_create_def Let_def)
qed

end
