(* ===== verification/Idempotency.thy ===== *)
theory Idempotency
  imports Prelude
begin

text \<open>
  The \<open>Idempotency-Key\<close> layer: the in-process table of \<open>src/idempotency_cache.cpp\<close>, the durable
  \<open>idempotency_keys\<close> rows of \<open>src/tenant_store.cpp\<close>, and the claim and replay helpers of
  \<open>src/api_server.cpp\<close>.  Each call is one step; the clock values it reads are arguments.  The
  wall clock is past the epoch, so the store's \<open>now <= 0\<close> defaults do not apply.  The re-read that
  \<open>get_idempotency_key\<close> does when its conditional delete finds the row refreshed by
  another writer cannot happen inside one step.
\<close>

section \<open>State\<close>

record idem_entry =
  ie_request_id :: string
  ie_created_at :: nanos
  ie_wall_created_at :: int

record idempotency_mapping =
  im_request_id :: string
  im_created_at :: int

type_synonym idem_rows = "int \<times> string \<Rightarrow> idempotency_mapping option"

text \<open>The cache object, whether a store is bound, and the store's rows.\<close>

record idem =
  ic_table :: "string \<Rightarrow> idem_entry option"
  ic_ttl :: nanos
  ic_ttl_seconds :: int
  ic_puts_since_prune :: int
  ic_bound :: bool
  ic_rows :: idem_rows

definition new_idem :: "nanos \<Rightarrow> bool \<Rightarrow> idem_rows \<Rightarrow> idem" where
  "new_idem ttl bound rows =
     \<lparr>ic_table = (\<lambda>_. None), ic_ttl = ttl, ic_ttl_seconds = max 1 (to_seconds ttl), ic_puts_since_prune = 0,
      ic_bound = bound, ic_rows = rows\<rparr>"

text \<open>The clock reads of one call: the steady clock, the wall clock at entry, the store's own
  read during a put, and the wall clock after it.\<close>

record clocks =
  ck_steady :: nanos
  ck_wall :: int
  ck_store :: int
  ck_after :: int

definition kPruneEvery :: int where "kPruneEvery = 512"

definition make_key :: "int \<Rightarrow> string \<Rightarrow> string" where
  "make_key tenant_id k = to_string tenant_id @ '':'' @ k"

section \<open>The durable rows\<close>

definition eff_ttl :: "int \<Rightarrow> int" where "eff_ttl ttl = (if ttl \<le> 0 then 86400 else ttl)"

definition get_idempotency_key :: "int \<Rightarrow> string \<Rightarrow> int \<Rightarrow> int \<Rightarrow> idem_rows \<Rightarrow> idempotency_mapping option \<times> idem_rows" where
  "get_idempotency_key tn key ttl now rows =
     (if key = [] then (None, rows)
      else case rows (tn, key) of
        None \<Rightarrow> (None, rows)
      | Some m \<Rightarrow> if eff_ttl ttl \<le> now - im_created_at m then (None, rows((tn, key) := None)) else (Some m, rows))"

definition put_idempotency_key :: "int \<Rightarrow> string \<Rightarrow> string \<Rightarrow> int \<Rightarrow> int \<Rightarrow> idem_rows \<Rightarrow> bool \<times> idem_rows" where
  "put_idempotency_key tn key request_id ttl created_at rows =
     (if key = [] \<or> request_id = [] then (False, rows)
      else
        let fresh = \<lparr>im_request_id = request_id, im_created_at = created_at\<rparr> in
        case rows (tn, key) of
          Some m \<Rightarrow> if eff_ttl ttl \<le> created_at - im_created_at m then (True, rows((tn, key) := Some fresh))
                    else (im_request_id m = request_id, rows)
        | None \<Rightarrow> (True, rows((tn, key) := Some fresh)))"

definition prune_idempotency_keys :: "int \<Rightarrow> idem_rows \<Rightarrow> idem_rows" where
  "prune_idempotency_keys older_than rows =
     (\<lambda>k. case rows k of Some m \<Rightarrow> if im_created_at m < older_than then None else Some m | None \<Rightarrow> None)"

section \<open>The cache\<close>

definition l1_expired_locked :: "idem_entry \<Rightarrow> nanos \<Rightarrow> int \<Rightarrow> idem \<Rightarrow> bool" where
  "l1_expired_locked e now wall_now w =
     (if 0 < ie_wall_created_at e then ic_ttl_seconds w \<le> wall_now - ie_wall_created_at e
      else ic_ttl w \<le> now - ie_created_at e)"

definition remember_locked :: "string \<Rightarrow> string \<Rightarrow> nanos \<Rightarrow> int \<Rightarrow> idem \<Rightarrow> idem" where
  "remember_locked k request_id now wall_created_at w =
     w\<lparr>ic_table := (ic_table w)(k := Some \<lparr>ie_request_id = request_id, ie_created_at = now,
                                          ie_wall_created_at = wall_created_at\<rparr>)\<rparr>"

definition prune_store :: "int \<Rightarrow> idem \<Rightarrow> idem" where
  "prune_store wall_now w = w\<lparr>ic_rows := prune_idempotency_keys (wall_now - ic_ttl_seconds w) (ic_rows w)\<rparr>"

definition prune_expired_locked :: "nanos \<Rightarrow> int \<Rightarrow> idem \<Rightarrow> idem" where
  "prune_expired_locked now wall_now w =
     w\<lparr>ic_table := (\<lambda>k. case ic_table w k of
                          Some e \<Rightarrow> if l1_expired_locked e now wall_now w then None else Some e
                        | None \<Rightarrow> None)\<rparr>"

definition idem_get :: "clocks \<Rightarrow> int \<Rightarrow> string \<Rightarrow> idem \<Rightarrow> idem_entry option \<times> idem" where
  "idem_get ck tn key w =
     (if key = [] then (None, w)
      else
        let k = make_key tn key;
            hit = (case ic_table w k of
                     Some e \<Rightarrow> if l1_expired_locked e (ck_steady ck) (ck_wall ck) w then None else Some e
                   | None \<Rightarrow> None);
            w1 = (if ic_table w k \<noteq> None \<and> hit = None then w\<lparr>ic_table := (ic_table w)(k := None)\<rparr> else w)
        in case hit of
             Some e \<Rightarrow> (Some e, w1)
           | None \<Rightarrow>
               if \<not> ic_bound w then (None, w1)
               else case get_idempotency_key tn key (ic_ttl_seconds w) (ck_wall ck) (ic_rows w1) of
                 (None, rows) \<Rightarrow> (None, w1\<lparr>ic_rows := rows\<rparr>)
               | (Some m, rows) \<Rightarrow>
                   (Some \<lparr>ie_request_id = im_request_id m, ie_created_at = ck_steady ck,
                          ie_wall_created_at = im_created_at m\<rparr>,
                    remember_locked k (im_request_id m) (ck_steady ck) (im_created_at m) (w1\<lparr>ic_rows := rows\<rparr>)))"

definition due_prune :: "idem \<Rightarrow> bool" where
  "due_prune w \<longleftrightarrow> kPruneEvery \<le> ic_puts_since_prune w + 1"

definition count_put :: "clocks \<Rightarrow> idem \<Rightarrow> idem" where
  "count_put ck w =
     (if due_prune w then prune_expired_locked (ck_steady ck) (ck_wall ck) (w\<lparr>ic_puts_since_prune := 0\<rparr>)
      else w\<lparr>ic_puts_since_prune := ic_puts_since_prune w + 1\<rparr>)"

definition put_bound :: "clocks \<Rightarrow> int \<Rightarrow> string \<Rightarrow> string \<Rightarrow> idem \<Rightarrow> bool \<times> idem" where
  "put_bound ck tn key request_id w =
     (let k = make_key tn key;
          (ok, rows) = put_idempotency_key tn key request_id (ic_ttl_seconds w) (ck_store ck) (ic_rows w);
          (durable, rows2) = (if ok then (None, rows) else get_idempotency_key tn key (ic_ttl_seconds w) (ck_after ck) rows);
          w1 = count_put ck (w\<lparr>ic_rows := rows2\<rparr>);
          w2 = (if ok then remember_locked k request_id (ck_steady ck) (ck_wall ck) w1
                else case durable of
                  Some m \<Rightarrow> remember_locked k (im_request_id m) (ck_steady ck) (im_created_at m) w1
                | None \<Rightarrow> w1);
          w3 = (if due_prune w then prune_store (ck_wall ck) w2 else w2)
      in (if ok then True else case durable of Some m \<Rightarrow> im_request_id m = request_id | None \<Rightarrow> False, w3))"

definition put_local :: "clocks \<Rightarrow> int \<Rightarrow> string \<Rightarrow> string \<Rightarrow> idem \<Rightarrow> bool \<times> idem" where
  "put_local ck tn key request_id w =
     (let k = make_key tn key; w1 = count_put ck w in
      case ic_table w1 k of
        Some e \<Rightarrow> if l1_expired_locked e (ck_steady ck) (ck_wall ck) w1
                  then (True, remember_locked k request_id (ck_steady ck) 0 w1)
                  else (ie_request_id e = request_id, w1)
      | None \<Rightarrow> (True, remember_locked k request_id (ck_steady ck) 0 w1))"

definition idem_put :: "clocks \<Rightarrow> int \<Rightarrow> string \<Rightarrow> string \<Rightarrow> idem \<Rightarrow> bool \<times> idem" where
  "idem_put ck tn key request_id w =
     (if key = [] \<or> request_id = [] then (False, w)
      else if ic_bound w then put_bound ck tn key request_id w
      else put_local ck tn key request_id w)"

definition prune_expired :: "clocks \<Rightarrow> idem \<Rightarrow> idem" where
  "prune_expired ck w =
     (let w1 = prune_expired_locked (ck_steady ck) (ck_wall ck) w
      in if ic_bound w then prune_store (ck_wall ck) w1 else w1)"

section \<open>The request helpers\<close>

text \<open>The header value is the argument, \<open>None\<close> when it is absent.\<close>

definition read_idempotency_key :: "string option \<Rightarrow> string" where
  "read_idempotency_key hdr =
     (case hdr of
        None \<Rightarrow> []
      | Some v \<Rightarrow>
          let k = rev (dropWhile (\<lambda>c. c \<in> {CHR '' '', CHR 0x09, CHR 0x0D, CHR 0x0A}) (rev v));
              k2 = dropWhile (\<lambda>c. c \<in> {CHR '' '', CHR 0x09}) k
          in if 256 < length k2 then [] else k2)"

definition check_idempotency_replay :: "clocks \<Rightarrow> string option \<Rightarrow> int \<Rightarrow> idem \<Rightarrow> string option \<times> idem" where
  "check_idempotency_replay ck hdr tn w =
     (let k = read_idempotency_key hdr in
      if k = [] then (None, w)
      else case idem_get ck tn k w of (e, w') \<Rightarrow> (map_option ie_request_id e, w'))"

text \<open>A failed put is followed by a get, with its own clock reads.\<close>

definition claim_idempotency_key :: "clocks \<Rightarrow> clocks \<Rightarrow> string option \<Rightarrow> int \<Rightarrow> string \<Rightarrow> idem \<Rightarrow> string option \<times> idem" where
  "claim_idempotency_key ck ck2 hdr tn request_id w =
     (let k = read_idempotency_key hdr in
      if k = [] then (None, w)
      else case idem_put ck tn k request_id w of
        (True, w1) \<Rightarrow> (None, w1)
      | (False, w1) \<Rightarrow> (case idem_get ck2 tn k w1 of (e, w2) \<Rightarrow> (map_option ie_request_id e, w2)))"

section \<open>Histories\<close>

text \<open>A restart loses the table; the rows of a bound store stay.\<close>

datatype idem_op = IGet int string | IPut int string string | IPrune | IRestart

fun idem_step :: "clocks \<times> idem_op \<Rightarrow> idem \<Rightarrow> idem" where
  "idem_step (ck, IGet tn key) w = snd (idem_get ck tn key w)"
| "idem_step (ck, IPut tn key r) w = snd (idem_put ck tn key r w)"
| "idem_step (ck, IPrune) w = prune_expired ck w"
| "idem_step (ck, IRestart) w = w\<lparr>ic_table := (\<lambda>_. None), ic_puts_since_prune := 0\<rparr>"

section \<open>Lemmas\<close>

lemma colon_notin_digits: "CHR '':'' \<notin> set (nat_digits n)"
  using nat_digits_all_digits [of n] by (auto simp: list_all_iff is_digit_def)

lemma colon_notin_to_string: "CHR '':'' \<notin> set (to_string i)"
  by (simp add: to_string_def colon_notin_digits)

lemma make_key_inj: "make_key tn k = make_key tn' k' \<longleftrightarrow> tn = tn' \<and> k = k'"
proof
  assume e: "make_key tn k = make_key tn' k'"
  let ?P = "\<lambda>c. c \<noteq> CHR '':''"
  have t: "takeWhile ?P (make_key t x) = to_string t" "dropWhile ?P (make_key t x) = '':'' @ x" for t x
    using colon_notin_to_string [of t] unfolding make_key_def
    by (auto intro!: takeWhile_append_neq dropWhile_append_neq simp: list_all_iff)
  have "to_string tn = to_string tn'" using e t(1) by metis
  moreover have "'':'' @ k = '':'' @ k'" using e t(2) by metis
  ultimately show "tn = tn' \<and> k = k'" using to_string_inj by simp
qed simp

text \<open>
  A reservation of a key by a request: in the durable rows with the stamp the store gave it, or in the
  process-local table.  \<open>within\<close> says that the clocks of a call fall before its expiry.
\<close>

datatype stamp = Durable int | Local nanos

fun owns :: "idem \<Rightarrow> int \<Rightarrow> string \<Rightarrow> string \<Rightarrow> stamp \<Rightarrow> bool" where
  "owns w tn key r (Durable c0) \<longleftrightarrow> ic_bound w \<and> ic_rows w (tn, key) = Some \<lparr>im_request_id = r, im_created_at = c0\<rparr>
     \<and> (\<forall>e. ic_table w (make_key tn key) = Some e \<longrightarrow> ie_request_id e = r)"
| "owns w tn key r (Local t0) \<longleftrightarrow> \<not> ic_bound w \<and>
     ic_table w (make_key tn key) = Some \<lparr>ie_request_id = r, ie_created_at = t0, ie_wall_created_at = 0\<rparr>"

fun within :: "idem \<Rightarrow> stamp \<Rightarrow> clocks \<Rightarrow> bool" where
  "within w (Durable c0) ck \<longleftrightarrow> ck_wall ck - c0 < ic_ttl_seconds w \<and> ck_store ck - c0 < ic_ttl_seconds w
     \<and> ck_after ck - c0 < ic_ttl_seconds w"
| "within w (Local t0) ck \<longleftrightarrow> ck_steady ck - t0 < ic_ttl w"

definition idem_ok :: "idem \<Rightarrow> bool" where
  "idem_ok w \<longleftrightarrow> 0 < ic_ttl_seconds w \<and> (\<not> ic_bound w \<longrightarrow> (\<forall>k e. ic_table w k = Some e \<longrightarrow> ie_wall_created_at e = 0))"

definition same_config :: "idem \<Rightarrow> idem \<Rightarrow> bool" where
  "same_config w w' \<longleftrightarrow> ic_ttl w' = ic_ttl w \<and> ic_ttl_seconds w' = ic_ttl_seconds w \<and> ic_bound w' = ic_bound w"

lemma count_put_frame [simp]:
  "ic_rows (count_put ck w) = ic_rows w" "ic_ttl (count_put ck w) = ic_ttl w"
  "ic_ttl_seconds (count_put ck w) = ic_ttl_seconds w" "ic_bound (count_put ck w) = ic_bound w"
  by (simp_all add: count_put_def prune_expired_locked_def)

lemma count_put_table:
  "ic_table (count_put ck w) k = (case ic_table w k of
     Some e \<Rightarrow> if due_prune w \<and> l1_expired_locked e (ck_steady ck) (ck_wall ck) w then None else Some e | None \<Rightarrow> None)"
  by (auto simp: count_put_def prune_expired_locked_def l1_expired_locked_def split: option.split)

lemma remember_frame [simp]:
  "ic_rows (remember_locked k r n c w) = ic_rows w" "ic_ttl (remember_locked k r n c w) = ic_ttl w"
  "ic_ttl_seconds (remember_locked k r n c w) = ic_ttl_seconds w" "ic_bound (remember_locked k r n c w) = ic_bound w"
  "ic_table (remember_locked k r n c w) = (ic_table w)(k := Some \<lparr>ie_request_id = r, ie_created_at = n, ie_wall_created_at = c\<rparr>)"
  by (simp_all add: remember_locked_def)

lemma prune_store_frame [simp]:
  "ic_table (prune_store n w) = ic_table w" "ic_ttl (prune_store n w) = ic_ttl w"
  "ic_ttl_seconds (prune_store n w) = ic_ttl_seconds w" "ic_bound (prune_store n w) = ic_bound w"
  "ic_rows (prune_store n w) = prune_idempotency_keys (n - ic_ttl_seconds w) (ic_rows w)"
  by (simp_all add: prune_store_def)

lemma step_config: "same_config w (idem_step x w)"
proof (cases x)
  case (Pair ck op)
  show ?thesis unfolding Pair
    by (cases op)
       (auto simp: same_config_def idem_get_def idem_put_def put_bound_def put_local_def prune_expired_def
          prune_expired_locked_def Let_def split_def split: option.split prod.split)
qed

lemma idem_ok_get: "idem_ok w \<Longrightarrow> idem_ok (snd (idem_get ck tn key w))"
  by (auto simp: idem_ok_def idem_get_def Let_def split: option.splits prod.splits if_splits)

lemma idem_ok_put: "idem_ok w \<Longrightarrow> idem_ok (snd (idem_put ck tn key r w))"
  by (auto simp: idem_ok_def idem_put_def put_bound_def put_local_def count_put_table Let_def split_def split: option.splits if_splits)

lemma idem_ok_step: "idem_ok w \<Longrightarrow> idem_ok (idem_step x w)"
proof (cases x)
  case (Pair ck op)
  assume ok: "idem_ok w"
  show ?thesis unfolding Pair
  proof (cases op)
    case IPrune
    then show "idem_ok (idem_step (ck, op) w)" using ok
      by (auto simp: idem_ok_def prune_expired_def prune_expired_locked_def Let_def split: option.splits if_splits)
  next
    case IRestart
    then show "idem_ok (idem_step (ck, op) w)" using ok by (simp add: idem_ok_def)
  qed (use ok idem_ok_get idem_ok_put in auto)
qed

lemma new_idem_ok: "idem_ok (new_idem ttl bound rows)"
  by (simp add: idem_ok_def new_idem_def)

lemma fold_ok: "idem_ok w \<Longrightarrow> idem_ok (fold idem_step ops w)"
  by (induction ops arbitrary: w) (auto simp: idem_ok_step)

lemma owns_get:
  assumes "idem_ok w" "owns w tn key r st" "within w st ck" "key \<noteq> []"
  shows "\<exists>e. fst (idem_get ck tn key w) = Some e \<and> ie_request_id e = r"
proof (cases st)
  case (Durable c0)
  then have "get_idempotency_key tn key (ic_ttl_seconds w) (ck_wall ck) (ic_rows w) = (Some \<lparr>im_request_id = r, im_created_at = c0\<rparr>, ic_rows w)"
    using assms by (auto simp: get_idempotency_key_def eff_ttl_def idem_ok_def)
  then show ?thesis using assms Durable by (auto simp: idem_get_def Let_def split: option.split)
next
  case (Local t0)
  then show ?thesis using assms by (auto simp: idem_get_def l1_expired_locked_def Let_def)
qed

lemma owns_get_keeps:
  assumes "idem_ok w" "owns w tn key r st" "within w st ck" "key \<noteq> []"
  shows "owns (snd (idem_get ck tn' key' w)) tn key r st"
proof (cases "(tn', key') = (tn, key)")
  case True
  show ?thesis
  proof (cases st)
    case (Durable c0)
    then have "get_idempotency_key tn key (ic_ttl_seconds w) (ck_wall ck) (ic_rows w) = (Some \<lparr>im_request_id = r, im_created_at = c0\<rparr>, ic_rows w)"
      using assms by (auto simp: get_idempotency_key_def eff_ttl_def idem_ok_def)
    then show ?thesis using assms True Durable by (auto simp: idem_get_def Let_def split: option.split)
  next
    case (Local t0)
    then show ?thesis using assms True by (auto simp: idem_get_def l1_expired_locked_def Let_def)
  qed
next
  case False
  then have k: "make_key tn key \<noteq> make_key tn' key'" by (auto simp: make_key_inj)
  have r: "snd (get_idempotency_key tn' key' t n rows) (tn, key) = rows (tn, key)" for t n rows
    using False by (auto simp: get_idempotency_key_def split: option.split)
  show ?thesis
    using assms(2) k r [of "ic_ttl_seconds w" "ck_wall ck" "ic_rows w"]
    by (cases st) (auto simp: idem_get_def Let_def split: option.split prod.split)
qed

lemma pruned_row:
  "rows k = Some m \<Longrightarrow> n \<le> im_created_at m \<Longrightarrow> prune_idempotency_keys n rows k = Some m"
  by (simp add: prune_idempotency_keys_def)

lemma put_row_taken:
  assumes "rows (tn, key) = Some \<lparr>im_request_id = r, im_created_at = c0\<rparr>" "n - c0 < ttl" "0 < ttl" "key \<noteq> []"
  shows "put_idempotency_key tn key r' ttl n rows = (r' \<noteq> [] \<and> r' = r, rows)"
  using assms by (auto simp: put_idempotency_key_def eff_ttl_def)

lemma get_row_live:
  assumes "rows (tn, key) = Some \<lparr>im_request_id = r, im_created_at = c0\<rparr>" "n - c0 < ttl" "0 < ttl" "key \<noteq> []"
  shows "get_idempotency_key tn key ttl n rows = (Some \<lparr>im_request_id = r, im_created_at = c0\<rparr>, rows)"
  using assms by (auto simp: get_idempotency_key_def eff_ttl_def)

lemma owns_put:
  assumes "idem_ok w" "owns w tn key r st" "within w st ck" "key \<noteq> []" "r' \<noteq> []"
  shows "(fst (idem_put ck tn key r' w) \<longleftrightarrow> r' = r) \<and> owns (snd (idem_put ck tn key r' w)) tn key r st"
proof (cases st)
  case (Durable c0)
  have t: "0 < ic_ttl_seconds w" using assms(1) by (simp add: idem_ok_def)
  have row: "ic_rows w (tn, key) = Some \<lparr>im_request_id = r, im_created_at = c0\<rparr>" "ic_bound w"
    and l1: "\<forall>e. ic_table w (make_key tn key) = Some e \<longrightarrow> ie_request_id e = r" using assms(2) Durable by simp_all
  have ck: "ck_wall ck - c0 < ic_ttl_seconds w" "ck_store ck - c0 < ic_ttl_seconds w" "ck_after ck - c0 < ic_ttl_seconds w"
    using assms(3) Durable by simp_all
  note p = put_row_taken [where rows = "ic_rows w", OF row(1) ck(2) t assms(4), of r'] get_row_live [where rows = "ic_rows w", OF row(1) ck(3) t assms(4)]
  have pr: "prune_idempotency_keys (ck_wall ck - ic_ttl_seconds w) (ic_rows w) (tn, key) = Some \<lparr>im_request_id = r, im_created_at = c0\<rparr>"
    using ck(1) by (intro pruned_row [where rows = "ic_rows w", OF row(1)]) simp
  show ?thesis
    using assms(4,5) row l1 unfolding Durable by (auto simp: idem_put_def put_bound_def p pr Let_def)
next
  case (Local t0)
  then have "ic_table (count_put ck w) (make_key tn key) = Some \<lparr>ie_request_id = r, ie_created_at = t0, ie_wall_created_at = 0\<rparr>"
    using assms(2,3) by (simp add: count_put_table l1_expired_locked_def)
  then show ?thesis using assms Local by (auto simp: idem_put_def put_local_def l1_expired_locked_def Let_def)
qed

lemma owns_put_other:
  assumes "idem_ok w" "owns w tn key r st" "within w st ck" "(tn', key') \<noteq> (tn, key)"
  shows "owns (snd (idem_put ck tn' key' r' w)) tn key r st"
proof -
  have k: "make_key tn key \<noteq> make_key tn' key'" using assms(4) by (auto simp: make_key_inj)
  have rg: "snd (get_idempotency_key tn' key' t n rows) (tn, key) = rows (tn, key)" for t n rows
    using assms(4) by (auto simp: get_idempotency_key_def split: option.split)
  have rp: "snd (put_idempotency_key tn' key' r' t n rows) (tn, key) = rows (tn, key)" for t n rows
    using assms(4) by (auto simp: put_idempotency_key_def Let_def split: option.split)
  show ?thesis
  proof (cases st)
    case (Durable c0)
    define pu where "pu = put_idempotency_key tn' key' r' (ic_ttl_seconds w) (ck_store ck) (ic_rows w)"
    define gu where "gu = (if fst pu then (None, snd pu) else get_idempotency_key tn' key' (ic_ttl_seconds w) (ck_after ck) (snd pu))"
    have row: "snd gu (tn, key) = Some \<lparr>im_request_id = r, im_created_at = c0\<rparr>"
      using assms(2) Durable by (simp add: gu_def pu_def rg rp)
    have pr: "prune_idempotency_keys (ck_wall ck - ic_ttl_seconds w) (snd gu) (tn, key) = Some \<lparr>im_request_id = r, im_created_at = c0\<rparr>"
      using assms(3) Durable by (intro pruned_row [where rows = "snd gu", OF row]) simp
    have "put_bound ck tn' key' r' w = (let w1 = count_put ck (w\<lparr>ic_rows := snd gu\<rparr>);
          w2 = (if fst pu then remember_locked (make_key tn' key') r' (ck_steady ck) (ck_wall ck) w1
                else case fst gu of
                  Some m \<Rightarrow> remember_locked (make_key tn' key') (im_request_id m) (ck_steady ck) (im_created_at m) w1
                | None \<Rightarrow> w1);
          w3 = (if due_prune w then prune_store (ck_wall ck) w2 else w2)
      in (if fst pu then True else case fst gu of Some m \<Rightarrow> im_request_id m = r' | None \<Rightarrow> False, w3))"
      unfolding put_bound_def Let_def split_def pu_def [symmetric] gu_def [symmetric] by (rule refl)
    then show ?thesis using assms(2) Durable k row pr
      by (auto simp: idem_put_def Let_def count_put_table split: option.split)
  next
    case (Local t0)
    then have "ic_table (count_put ck w) (make_key tn key) = Some \<lparr>ie_request_id = r, ie_created_at = t0, ie_wall_created_at = 0\<rparr>"
      using assms(2,3) by (simp add: count_put_table l1_expired_locked_def)
    then show ?thesis using assms(2) Local k by (auto simp: idem_put_def put_local_def Let_def split: option.split)
  qed
qed

lemma owns_step:
  assumes "idem_ok w" "owns w tn key r st" "within w st ck" "key \<noteq> []" "op = IRestart \<longrightarrow> ic_bound w"
  shows "owns (idem_step (ck, op) w) tn key r st"
proof (cases op)
  case (IGet tn' key')
  then show ?thesis using owns_get_keeps [OF assms(1-4)] by simp
next
  case (IPut tn' key' r')
  show ?thesis
  proof (cases "(tn', key') = (tn, key) \<and> r' \<noteq> []")
    case True
    then show ?thesis using owns_put [OF assms(1-4), of r'] IPut by simp
  next
    case False
    then have "r' = [] \<or> (tn', key') \<noteq> (tn, key)" by blast
    then show ?thesis
    proof
      assume "r' = []"
      then show ?thesis using IPut assms(2) by (simp add: idem_put_def)
    next
      assume "(tn', key') \<noteq> (tn, key)"
      then show ?thesis unfolding IPut idem_step.simps by (rule owns_put_other [OF assms(1-3)])
    qed
  qed
next
  case IPrune
  then show ?thesis using assms
    by (cases st) (auto simp: prune_expired_def prune_expired_locked_def l1_expired_locked_def Let_def
        intro!: pruned_row split: option.splits if_splits)
next
  case IRestart
  then show ?thesis using assms by (cases st) auto
qed

definition stamp_of :: "idem \<Rightarrow> int \<Rightarrow> string \<Rightarrow> stamp" where
  "stamp_of w tn key =
     (if ic_bound w then Durable (case ic_rows w (tn, key) of Some m \<Rightarrow> im_created_at m | None \<Rightarrow> 0)
      else Local (case ic_table w (make_key tn key) of Some e \<Rightarrow> ie_created_at e | None \<Rightarrow> 0))"

lemma pruned_new: "prune_idempotency_keys n (rows(k := Some m)) k = (if im_created_at m < n then None else Some m)"
  by (simp add: prune_idempotency_keys_def)

text \<open>The clocks of a call in the order it reads them.\<close>

definition clocks_ok :: "clocks \<Rightarrow> bool" where
  "clocks_ok ck \<longleftrightarrow> ck_wall ck \<le> ck_store ck \<and> ck_store ck \<le> ck_after ck"

lemma put_row_won:
  assumes "put_idempotency_key tn key r ttl n rows = (True, rows')" "0 < ttl" "0 < n"
  shows "\<exists>c0. rows' (tn, key) = Some \<lparr>im_request_id = r, im_created_at = c0\<rparr> \<and> n - ttl < c0"
  using assms
  by (intro exI [of _ "im_created_at (the (rows' (tn, key)))"])
     (auto simp: put_idempotency_key_def eff_ttl_def Let_def split: option.splits if_splits)

lemma put_owns:
  assumes "idem_ok w" "idem_put ck tn key r w = (True, w')" "clocks_ok ck" "0 < ck_store ck"
  shows "owns w' tn key r (stamp_of w' tn key)" "key \<noteq> []" "idem_ok w'"
proof -
  show ne: "key \<noteq> []" using assms(2) by (auto simp: idem_put_def)
  show "idem_ok w'" using idem_ok_put [OF assms(1), of ck tn key r] assms(2) by simp
  have r: "r \<noteq> []" using assms(2) by (auto simp: idem_put_def)
  have t: "0 < ic_ttl_seconds w" using assms(1) by (simp add: idem_ok_def)
  show "owns w' tn key r (stamp_of w' tn key)"
  proof (cases "ic_bound w")
    case True
    obtain ok rows where p: "put_idempotency_key tn key r (ic_ttl_seconds w) (ck_store ck) (ic_rows w) = (ok, rows)"
      by fastforce
    have ok: ok
    proof (rule ccontr)
      assume n: "\<not> ok"
      then have rows: "rows = ic_rows w" "\<And>m. ic_rows w (tn, key) = Some m \<Longrightarrow> im_request_id m \<noteq> r"
        using p ne r by (auto simp: put_idempotency_key_def Let_def split: option.splits if_splits)
      then have "\<And>m. fst (get_idempotency_key tn key (ic_ttl_seconds w) (ck_after ck) rows) = Some m \<Longrightarrow> im_request_id m \<noteq> r"
        by (auto simp: get_idempotency_key_def split: option.splits if_splits)
      then show False using assms(2) True ne r n
        by (auto simp: idem_put_def put_bound_def p Let_def split: prod.splits option.splits)
    qed
    obtain c0 where c0: "rows (tn, key) = Some \<lparr>im_request_id = r, im_created_at = c0\<rparr>" "ck_store ck - ic_ttl_seconds w < c0"
      using put_row_won [of tn key r "ic_ttl_seconds w" "ck_store ck" "ic_rows w" rows] p ok t assms(4) by auto
    have pr: "prune_idempotency_keys (ck_wall ck - ic_ttl_seconds w) rows (tn, key) = Some \<lparr>im_request_id = r, im_created_at = c0\<rparr>"
      using c0(2) assms(3) by (intro pruned_row [where rows = rows, OF c0(1)]) (simp add: clocks_ok_def)
    have "w' = snd (idem_put ck tn key r w)" using assms(2) by simp
    then show ?thesis using True ne r ok c0 pr
      by (simp add: idem_put_def put_bound_def p Let_def stamp_of_def)
  next
    case False
    have z: "\<And>k e. ic_table w k = Some e \<Longrightarrow> ie_wall_created_at e = 0" using assms(1) False by (simp add: idem_ok_def)
    have "(True, w') = put_local ck tn key r w" using assms(2) False ne r by (simp add: idem_put_def)
    then show ?thesis using False z
      by (auto simp: put_local_def stamp_of_def count_put_table Let_def split: option.splits if_splits)
  qed
qed

lemma owns_run:
  assumes "idem_ok w" "owns w tn key r st" "key \<noteq> []"
    and "\<forall>(ck, op) \<in> set ops. within w st ck \<and> (op = IRestart \<longrightarrow> ic_bound w)"
  shows "owns (fold idem_step ops w) tn key r st \<and> idem_ok (fold idem_step ops w) \<and> same_config w (fold idem_step ops w)"
  using assms
proof (induction ops arbitrary: w)
  case Nil
  then show ?case by (simp add: same_config_def)
next
  case (Cons x ops)
  obtain ck op where x: "x = (ck, op)" by (cases x)
  let ?w = "idem_step x w"
  have c: "same_config w ?w" by (rule step_config)
  have wi: "within ?w st ck' = within w st ck'" for ck' using c by (cases st) (simp_all add: same_config_def)
  have b: "ic_bound ?w = ic_bound w" using c by (simp add: same_config_def)
  have "owns ?w tn key r st" using Cons.prems unfolding x by (intro owns_step) auto
  then have "owns (fold idem_step ops ?w) tn key r st \<and> idem_ok (fold idem_step ops ?w) \<and> same_config ?w (fold idem_step ops ?w)"
    using Cons.prems by (intro Cons.IH idem_ok_step) (auto simp: wi b)
  then show ?case using c by (simp add: same_config_def)
qed

section \<open>Properties\<close>

text \<open>
  C16. A key is executed once: after a request has won a key, for as long as the clocks stay before
  the reservation's expiry, and whatever other lookups, reservations, prunes and (with a store)
  restarts happen in between, every request with another id that claims the key through the
  header is told the winner's id, and so is every replay check.
\<close>

theorem duplicate_claims_replay:
  assumes "read_idempotency_key hdr = key"
    and "idem_put ck tn key r (fold idem_step ops0 (new_idem ttl bound rows)) = (True, w)" "clocks_ok ck" "0 < ck_store ck"
    and "\<forall>(c, op) \<in> set ops. within w (stamp_of w tn key) c \<and> (op = IRestart \<longrightarrow> bound)"
    and "within w (stamp_of w tn key) ck2" "within w (stamp_of w tn key) ck3" "r' \<noteq> r" "r' \<noteq> []"
  shows "fst (claim_idempotency_key ck2 ck3 hdr tn r' (fold idem_step ops w)) = Some r
    \<and> fst (check_idempotency_replay ck2 hdr tn (fold idem_step ops w)) = Some r"
proof -
  let ?w = "fold idem_step ops w" and ?st = "stamp_of w tn key"
  have ok0: "idem_ok (fold idem_step ops0 (new_idem ttl bound rows))" by (rule fold_ok [OF new_idem_ok])
  note o = put_owns [OF ok0 assms(2-4)]
  have b: "ic_bound w = bound"
  proof -
    have "same_config v (fold idem_step xs v)" for xs v
    proof (induction xs arbitrary: v)
      case (Cons x xs)
      then show ?case using step_config [of v x] by (simp add: same_config_def)
    qed (simp add: same_config_def)
    moreover have "same_config v (snd (idem_put ck tn key r v))" for v using step_config [of v "(ck, IPut tn key r)"] by simp
    ultimately show ?thesis using assms(2) by (metis (no_types, lifting) idem.select_convs(5) new_idem_def same_config_def snd_conv)
  qed
  have run: "owns ?w tn key r ?st" "idem_ok ?w" "same_config w ?w"
    using owns_run [OF o(3,1,2), of ops] assms(5) by (auto simp: b)
  have wi: "within ?w ?st ck2" "within ?w ?st ck3" using assms(6,7) run(3) by (cases ?st; simp add: same_config_def)+
  obtain w2 where p: "idem_put ck2 tn key r' ?w = (False, w2)" "owns w2 tn key r ?st"
    using owns_put [OF run(2,1) wi(1) o(2) assms(9)] assms(8) by (cases "idem_put ck2 tn key r' ?w") auto
  have ok2: "idem_ok w2" using idem_ok_put [OF run(2), of ck2 tn key r'] p(1) by simp
  have "same_config ?w w2" using step_config [of ?w "(ck2, IPut tn key r')"] p(1) by simp
  then have wi2: "within w2 ?st ck3" using wi(2) by (cases ?st; simp add: same_config_def)
  obtain e e' where g: "fst (idem_get ck3 tn key w2) = Some e" "ie_request_id e = r"
    and g': "fst (idem_get ck2 tn key ?w) = Some e'" "ie_request_id e' = r"
    using owns_get [OF ok2 p(2) wi2 o(2)] owns_get [OF run(2,1) wi(1) o(2)] by blast
  then show ?thesis using assms(1) o(2) p(1)
    by (simp add: claim_idempotency_key_def check_idempotency_replay_def split_def)
qed

definition tick :: "int \<Rightarrow> clocks" where
  "tick t = \<lparr>ck_steady = t * ns_per_s, ck_wall = t, ck_store = t, ck_after = t\<rparr>"

theorem duplicate_claims_replay_witness:
  "let w = snd (idem_put (tick 10) 1 ''k'' ''a'' (new_idem (100 * ns_per_s) True (\<lambda>_. None))) in
   fst (claim_idempotency_key (tick 20) (tick 20) (Some '' k '') 1 ''b''
     (fold idem_step [(tick 11, IPrune), (tick 12, IRestart), (tick 13, IPut 2 ''k'' ''c'')] w)) = Some ''a''"
proof -
  define w where "w = snd (idem_put (tick 10) 1 ''k'' ''a'' (new_idem (100 * ns_per_s) True (\<lambda>_. None)))"
  have h: "read_idempotency_key (Some '' k '') = ''k''" by code_simp
  have t: "to_seconds (100 * ns_per_s) = 100" by code_simp
  have d: "ic_bound w" "ic_rows w (1, ''k'') = Some \<lparr>im_request_id = ''a'', im_created_at = 10\<rparr>" "ic_ttl_seconds w = 100"
    and p: "idem_put (tick 10) 1 ''k'' ''a'' (fold idem_step [] (new_idem (100 * ns_per_s) True (\<lambda>_. None))) = (True, w)"
    by (simp_all add: w_def idem_put_def put_bound_def new_idem_def put_idempotency_key_def tick_def due_prune_def
        kPruneEvery_def t Let_def prod_eq_iff)
  have s: "stamp_of w 1 ''k'' = Durable 10" by (simp add: stamp_of_def d)
  show ?thesis unfolding w_def [symmetric] Let_def
    using duplicate_claims_replay [OF h p, of "[(tick 11, IPrune), (tick 12, IRestart), (tick 13, IPut 2 ''k'' ''c'')]" "tick 20" "tick 20" "''b''"]
    by (simp add: s d tick_def clocks_ok_def)
qed

text \<open>
  At the expiry boundary a claim can lose its put to a row that is still live and find nothing in
  the get that follows: the request then runs with no reservation, as if it had won.
\<close>

lemma boundary_claim_unreserved:
  assumes "rows = (\<lambda>k. if k = (1, ''k'') then Some \<lparr>im_request_id = ''a'', im_created_at = 10\<rparr> else None)"
  shows "\<exists>w. claim_idempotency_key (tick 109) (tick 110) (Some ''k'') 1 ''b'' (new_idem (100 * ns_per_s) True rows) = (None, w)
    \<and> ic_rows w (1, ''k'') = None"
proof -
  have h: "read_idempotency_key (Some ''k'') = ''k''" by code_simp
  have t: "to_seconds (100 * ns_per_s) = 100" by code_simp
  show ?thesis
    by (simp add: claim_idempotency_key_def h idem_put_def put_bound_def new_idem_def put_idempotency_key_def
        get_idempotency_key_def idem_get_def l1_expired_locked_def tick_def due_prune_def count_put_def eff_ttl_def
        remember_locked_def kPruneEvery_def t Let_def assms)
qed

end
