(* ===== verification/Ssrf_Guard.thy ===== *)
theory Ssrf_Guard
  imports Prelude "HOL-Library.Word"
begin

unbundle bit_operations_syntax

text \<open>
  The outbound request guard (\<open>src/ssrf_guard.cpp\<close>): the address denylist on 32-bit and 128-bit
  addresses, the connect hook, the URL host extraction and the preflight check.  An IPv6 address is
  the list of its 16 bytes.  \<open>inet_pton\<close> and \<open>getaddrinfo\<close> are parameters.
\<close>

section \<open>Addresses\<close>

type_synonym byte = "8 word"
type_synonym ipv4 = "32 word"
type_synonym ipv6 = "byte list"

definition ssrf_is_blocked_v4 :: "ipv4 \<Rightarrow> bool" where
  "ssrf_is_blocked_v4 ip =
     (let a = drop_bit 24 ip AND 0xff; b = drop_bit 16 ip AND 0xff in
      a = 0 \<or> a = 10 \<or> a = 127 \<or> (a = 169 \<and> b = 254) \<or> (a = 172 \<and> 16 \<le> b \<and> b \<le> 31)
      \<or> (a = 192 \<and> b = 168) \<or> (a = 100 \<and> 64 \<le> b \<and> b \<le> 127) \<or> 224 \<le> a)"

text \<open>Four bytes in network order.\<close>

definition be32 :: "byte \<Rightarrow> byte \<Rightarrow> byte \<Rightarrow> byte \<Rightarrow> ipv4" where
  "be32 p q r s = push_bit 24 (ucast p) OR push_bit 16 (ucast q) OR push_bit 8 (ucast r) OR ucast s"

definition low32 :: "ipv6 \<Rightarrow> ipv4" where
  "low32 b = be32 (b ! 12) (b ! 13) (b ! 14) (b ! 15)"

definition is_unspecified :: "ipv6 \<Rightarrow> bool" where "is_unspecified b \<longleftrightarrow> b = replicate 16 0"
definition is_loopback :: "ipv6 \<Rightarrow> bool" where "is_loopback b \<longleftrightarrow> b = replicate 15 0 @ [1]"
definition is_v4mapped :: "ipv6 \<Rightarrow> bool" where "is_v4mapped b \<longleftrightarrow> take 12 b = replicate 10 0 @ [0xff, 0xff]"
definition is_linklocal :: "ipv6 \<Rightarrow> bool" where "is_linklocal b \<longleftrightarrow> b ! 0 = 0xfe \<and> b ! 1 AND 0xc0 = 0x80"
definition is_sitelocal :: "ipv6 \<Rightarrow> bool" where "is_sitelocal b \<longleftrightarrow> b ! 0 = 0xfe \<and> b ! 1 AND 0xc0 = 0xc0"
definition is_multicast :: "ipv6 \<Rightarrow> bool" where "is_multicast b \<longleftrightarrow> b ! 0 = 0xff"

definition ssrf_is_blocked_v6 :: "ipv6 \<Rightarrow> bool" where
  "ssrf_is_blocked_v6 b =
     (if is_unspecified b then True
      else if is_loopback b then True
      else if is_v4mapped b then ssrf_is_blocked_v4 (low32 b)
      else if take 12 b = replicate 12 0 \<and> (b ! 12 \<noteq> 0 \<or> b ! 13 \<noteq> 0 \<or> b ! 14 \<noteq> 0 \<or> b ! 15 \<noteq> 0)
      then ssrf_is_blocked_v4 (low32 b)
      else if take 4 b = [0x00, 0x64, 0xff, 0x9b] \<and> take 8 (drop 4 b) = replicate 8 0 then ssrf_is_blocked_v4 (low32 b)
      else if take 4 b = [0x00, 0x64, 0xff, 0x9b] \<and> b ! 4 = 0 \<and> b ! 5 = 1 then ssrf_is_blocked_v4 (low32 b)
      else if take 8 b = [0x01, 0, 0, 0, 0, 0, 0, 0] then True
      else if take 4 b = [0x20, 0x01, 0, 0] \<and> ssrf_is_blocked_v4 (low32 b XOR 0xffffffff) then True
      else if take 4 b = [0x20, 0x01, 0x0d, 0xb8] then True
      else if take 2 b = [0x20, 0x02] \<and> ssrf_is_blocked_v4 (be32 (b ! 2) (b ! 3) (b ! 4) (b ! 5)) then True
      else if is_linklocal b then True
      else if is_sitelocal b then True
      else if is_multicast b then True
      else b ! 0 AND 0xfe = 0xfc)"

text \<open>A socket address: \<open>None\<close> is a null pointer, \<open>OtherFamily\<close> any family but the two.\<close>

datatype sockaddr = Inet ipv4 | Inet6 ipv6 | OtherFamily

fun ssrf_is_blocked_address :: "sockaddr option \<Rightarrow> bool" where
  "ssrf_is_blocked_address None = True"
| "ssrf_is_blocked_address (Some (Inet ip)) = ssrf_is_blocked_v4 ip"
| "ssrf_is_blocked_address (Some (Inet6 b)) = ssrf_is_blocked_v6 b"
| "ssrf_is_blocked_address (Some OtherFamily) = True"

text \<open>The connect hook: the socket the system gives, or \<open>None\<close> for \<open>CURL_SOCKET_BAD\<close>.\<close>

definition ssrf_safe_opensocket :: "bool \<Rightarrow> sockaddr \<Rightarrow> 'fd \<Rightarrow> 'fd option" where
  "ssrf_safe_opensocket is_ipcxn addr fd =
     (if \<not> is_ipcxn then None else if ssrf_is_blocked_address (Some addr) then None else Some fd)"

section \<open>URLs\<close>

definition last_index :: "char \<Rightarrow> string \<Rightarrow> nat option" where
  "last_index c s = (if c \<in> set s then Some (length s - 1 - length (takeWhile (\<lambda>x. x \<noteq> c) (rev s))) else None)"

definition url_authority :: "string \<Rightarrow> nat \<Rightarrow> string" where
  "url_authority url start = takeWhile (\<lambda>c. c \<noteq> CHR ''/'' \<and> c \<noteq> CHR ''?'' \<and> c \<noteq> CHR ''#'') (drop start url)"

definition url_host :: "string \<Rightarrow> string" where
  "url_host url =
     (case find_sub ''://'' url of
        None \<Rightarrow> []
      | Some sep \<Rightarrow>
          let authority0 = url_authority url (sep + 3);
              authority = (case last_index (CHR ''@'') authority0 of Some at \<Rightarrow> drop (at + 1) authority0 | None \<Rightarrow> authority0);
              host = (if authority \<noteq> [] \<and> hd authority = CHR ''['' then
                        (if CHR '']'' \<in> set authority then Some (takeWhile (\<lambda>c. c \<noteq> CHR '']'') (tl authority)) else None)
                      else Some (takeWhile (\<lambda>c. c \<noteq> CHR '':'') authority))
          in case host of
               None \<Rightarrow> []
             | Some h \<Rightarrow> rev (dropWhile (\<lambda>c. c = CHR ''.'') (rev (lower h))))"

definition blocked_metadata_hosts :: "string list" where
  "blocked_metadata_hosts =
     [''metadata.google.internal'', ''metadata.goog'', ''metadata'', ''instance-data'', ''instance-data.ec2.internal'',
      ''kubernetes.default.svc'', ''kubernetes.default.svc.cluster.local'']"

definition is_blocked_metadata_host :: "string \<Rightarrow> bool" where
  "is_blocked_metadata_host host \<longleftrightarrow> host \<in> set blocked_metadata_hosts"

text \<open>The resolver: \<open>Inl\<close> an error text, \<open>Inr\<close> the non-empty list of addresses.\<close>

record resolver =
  rv_pton4 :: "string \<Rightarrow> ipv4 option"
  rv_pton6 :: "string \<Rightarrow> ipv6 option"
  rv_getaddrinfo :: "string \<Rightarrow> string + sockaddr option list"

definition literal_refusal :: "resolver \<Rightarrow> string \<Rightarrow> string" where
  "literal_refusal rv host =
     (case rv_pton4 rv host of
        Some ip \<Rightarrow> if ssrf_is_blocked_v4 ip then ''literal IPv4 address resolves to a blocked range'' else []
      | None \<Rightarrow>
          (case rv_pton6 rv host of
             Some b \<Rightarrow> if ssrf_is_blocked_v6 b then ''literal IPv6 address resolves to a blocked range'' else []
           | None \<Rightarrow> []))"

definition ssrf_preflight_url :: "resolver \<Rightarrow> string \<Rightarrow> string" where
  "ssrf_preflight_url rv url =
     (if \<not> prefix ''http://'' url \<and> \<not> prefix ''https://'' url then ''URL must start with http:// or https://''
      else let host = url_host url in
        if host = [] then ''could not parse host from URL''
        else if is_blocked_metadata_host host then ''host on metadata-service denylist''
        else if literal_refusal rv host \<noteq> [] then literal_refusal rv host
        else case rv_getaddrinfo rv host of
          Inl err \<Rightarrow> ''could not resolve host: '' @ err
        | Inr addrs \<Rightarrow>
            if list_ex ssrf_is_blocked_address addrs
            then ''host resolves to a private, loopback, link-local, or metadata-adjacent address''
            else [])"

section \<open>Lemmas\<close>

text \<open>A CIDR block, and the documented denylist.\<close>

definition in_cidr :: "ipv4 \<Rightarrow> nat \<Rightarrow> ipv4 \<Rightarrow> bool" where
  "in_cidr base len ip \<longleftrightarrow> drop_bit (32 - len) ip = drop_bit (32 - len) base"

definition denylist_v4 :: "(ipv4 \<times> nat) list" where
  "denylist_v4 =
     [(be32 0 0 0 0, 8), (be32 10 0 0 0, 8), (be32 127 0 0 0, 8), (be32 169 254 0 0, 16), (be32 172 16 0 0, 12),
      (be32 192 168 0 0, 16), (be32 100 64 0 0, 10), (be32 224 0 0 0, 3)]"

lemma unat_shift: "unat (drop_bit k ip) = unat ip div 2 ^ k" for ip :: ipv4
  by (subst unat_drop_bit_eq) (rule drop_bit_eq_div)

lemma unat_octet: "unat (drop_bit k ip AND 0xff) = (unat ip div 2 ^ k) mod 256" for ip :: ipv4
proof -
  have "(0xff :: ipv4) = mask 8" by (simp add: mask_eq_exp_minus_1)
  then have "unat (drop_bit k ip AND 0xff) = unat (take_bit 8 (drop_bit k ip))" by (simp only: take_bit_eq_mask)
  also have "\<dots> = take_bit 8 (unat (drop_bit k ip))" by (simp only: unsigned_take_bit_eq)
  also have "\<dots> = (unat ip div 2 ^ k) mod 256" by (simp only: unat_shift take_bit_eq_mod) simp
  finally show ?thesis .
qed

lemma word_cmp_nat:
  fixes x :: ipv4
  shows "x = numeral n \<longleftrightarrow> unat x = unat (numeral n :: ipv4)" "x = 0 \<longleftrightarrow> unat x = 0"
    "numeral n \<le> x \<longleftrightarrow> unat (numeral n :: ipv4) \<le> unat x" "x \<le> numeral n \<longleftrightarrow> unat x \<le> unat (numeral n :: ipv4)"
  by (simp_all add: word_unat_eq_iff word_le_nat_alt)

lemma cidr_nat: "in_cidr base len ip \<longleftrightarrow> unat ip div 2 ^ (32 - len) = unat base div 2 ^ (32 - len)"
  by (simp only: in_cidr_def word_unat_eq_iff unat_shift)

lemma octet_split:
  fixes n :: nat
  assumes "n < 2 ^ 32"
  obtains a b c where "n = a * 16777216 + b * 65536 + c" "a < 256" "b < 256" "c < 65536"
proof -
  let ?m = "n div 65536"
  have "n = ?m * 65536 + n mod 65536" "?m = (?m div 256) * 256 + ?m mod 256" by simp_all
  then have "n = (?m div 256) * 16777216 + (?m mod 256) * 65536 + n mod 65536" by linarith
  moreover have "?m div 256 < 256" using assms by (simp add: div_mult2_eq [symmetric] less_mult_imp_div_less)
  ultimately show thesis using that [of "?m div 256" "?m mod 256" "n mod 65536"] by simp
qed

lemma blocked_v4_nat:
  assumes "unat ip = a * 16777216 + b * 65536 + c" "a < 256" "b < 256" "c < 65536"
  shows "ssrf_is_blocked_v4 ip \<longleftrightarrow> a = 0 \<or> a = 10 \<or> a = 127 \<or> (a = 169 \<and> b = 254) \<or> (a = 172 \<and> 16 \<le> b \<and> b \<le> 31)
      \<or> (a = 192 \<and> b = 168) \<or> (a = 100 \<and> 64 \<le> b \<and> b \<le> 127) \<or> 224 \<le> a"
proof -
  have "unat ip div 2 ^ 24 = a" "unat ip div 2 ^ 16 = a * 256 + b" unfolding assms(1) using assms(2-4) by simp_all
  then have "unat (drop_bit 24 ip AND 0xff) = a" "unat (drop_bit 16 ip AND 0xff) = b"
    unfolding unat_octet using assms(2,3) by simp_all
  then show ?thesis unfolding ssrf_is_blocked_v4_def Let_def word_cmp_nat by simp
qed

lemma digit_eq: "y < k \<Longrightarrow> x * k + y = n \<longleftrightarrow> x = n div k \<and> y = n mod k" for n :: nat
  by auto

lemma div_eq_range: "0 < k \<Longrightarrow> n div k = m \<longleftrightarrow> m * k \<le> n \<and> n < Suc m * k" for n :: nat
  using div_nat_eqI [of k m n] dividend_less_div_times [of k n] by (auto simp: mult.commute)

lemma denylist_nat:
  assumes "unat ip = a * 16777216 + b * 65536 + c" "a < 256" "b < 256" "c < 65536"
  shows "list_ex (\<lambda>(base, len). in_cidr base len ip) denylist_v4 \<longleftrightarrow>
    a = 0 \<or> a = 10 \<or> a = 127 \<or> (a = 169 \<and> b = 254) \<or> (a = 172 \<and> b div 16 = 1)
      \<or> (a = 192 \<and> b = 168) \<or> (a = 100 \<and> b div 64 = 1) \<or> a div 32 = 7"
proof -
  have u: "unat (be32 0 0 0 0) = 0" "unat (be32 10 0 0 0) = 10 * 2 ^ 24" "unat (be32 127 0 0 0) = 127 * 2 ^ 24"
    "unat (be32 169 254 0 0) = (169 * 256 + 254) * 2 ^ 16" "unat (be32 172 16 0 0) = (172 * 256 + 16) * 2 ^ 16"
    "unat (be32 192 168 0 0) = (192 * 256 + 168) * 2 ^ 16" "unat (be32 100 64 0 0) = (100 * 256 + 64) * 2 ^ 16"
    "unat (be32 224 0 0 0) = 224 * 2 ^ 24" by (simp_all add: be32_def)
  have d: "unat ip div 16777216 = a" "unat ip div 65536 = a * 256 + b"
    unfolding assms(1) using assms(2-4) by simp_all
  have "unat ip div 1048576 = unat ip div 65536 div 16" "unat ip div 4194304 = unat ip div 65536 div 64"
    "unat ip div 536870912 = unat ip div 16777216 div 32" by (simp_all add: div_mult2_eq [symmetric])
  then have d2: "unat ip div 1048576 = a * 16 + b div 16" "unat ip div 4194304 = a * 4 + b div 64" "unat ip div 536870912 = a div 32"
    by (simp_all add: d)
  have e: "a * 256 + b = 43518 \<longleftrightarrow> a = 169 \<and> b = 254" "a * 256 + b = 49320 \<longleftrightarrow> a = 192 \<and> b = 168"
    "a * 16 + b div 16 = 2753 \<longleftrightarrow> a = 172 \<and> b div 16 = 1" "a * 4 + b div 64 = 401 \<longleftrightarrow> a = 100 \<and> b div 64 = 1"
    using assms(3) by (simp_all add: digit_eq less_mult_imp_div_less)
  show ?thesis by (simp add: denylist_v4_def cidr_nat u d d2 e)
qed

lemma blocked_v4_denylist: "ssrf_is_blocked_v4 ip \<longleftrightarrow> list_ex (\<lambda>(base, len). in_cidr base len ip) denylist_v4"
proof -
  have "unat ip < 2 ^ 32" using unsigned_less [of ip] by simp
  then obtain a b c where s: "unat ip = a * 16777216 + b * 65536 + c" "a < 256" "b < 256" "c < 65536" by (rule octet_split)
  have q: "b div 16 = 1 \<longleftrightarrow> 16 \<le> b \<and> b \<le> 31" "b div 64 = 1 \<longleftrightarrow> 64 \<le> b \<and> b \<le> 127" by (auto simp: div_eq_range)
  have r: "a div 32 = 7 \<longleftrightarrow> 224 \<le> a" using s(2) by (simp add: div_eq_range)
  show ?thesis unfolding blocked_v4_nat [OF s] denylist_nat [OF s] q r by (rule refl)
qed

text \<open>The bytes of an IPv4 address, most significant first.\<close>

definition v4_bytes :: "ipv4 \<Rightarrow> byte list" where
  "v4_bytes ip = [ucast (drop_bit 24 ip), ucast (drop_bit 16 ip), ucast (drop_bit 8 ip), ucast ip]"

lemma be32_v4_bytes: "be32 (ucast (drop_bit 24 ip)) (ucast (drop_bit 16 ip)) (ucast (drop_bit 8 ip)) (ucast ip) = ip"
proof (rule bit_eqI)
  fix n :: nat
  consider "n < 8" | "8 \<le> n" "n < 16" | "16 \<le> n" "n < 24" | "24 \<le> n" by linarith
  then show "bit (be32 (ucast (drop_bit 24 ip)) (ucast (drop_bit 16 ip)) (ucast (drop_bit 8 ip)) (ucast ip)) n = bit ip n"
    by cases (auto simp: be32_def bit_simps dest: bit_imp_le_length)
qed

text \<open>The IPv6 addresses that carry an IPv4 address in a place the guard decodes.\<close>

datatype embedding = V4Mapped | V4Compatible | Nat64 | Nat64Local "byte list" | Teredo "byte list" | SixToFour "byte list"

fun embed :: "embedding \<Rightarrow> ipv4 \<Rightarrow> ipv6" where
  "embed V4Mapped ip = replicate 10 0 @ [0xff, 0xff] @ v4_bytes ip"
| "embed V4Compatible ip = replicate 12 0 @ v4_bytes ip"
| "embed Nat64 ip = [0x00, 0x64, 0xff, 0x9b] @ replicate 8 0 @ v4_bytes ip"
| "embed (Nat64Local sub) ip = [0x00, 0x64, 0xff, 0x9b, 0x00, 0x01] @ sub @ v4_bytes ip"
| "embed (Teredo rest) ip = [0x20, 0x01, 0, 0] @ rest @ v4_bytes (ip XOR 0xffffffff)"
| "embed (SixToFour rest) ip = [0x20, 0x02] @ v4_bytes ip @ rest"

fun embedding_ok :: "embedding \<Rightarrow> bool" where
  "embedding_ok (Nat64Local sub) \<longleftrightarrow> length sub = 6"
| "embedding_ok (Teredo rest) \<longleftrightarrow> length rest = 8"
| "embedding_ok (SixToFour rest) \<longleftrightarrow> length rest = 10"
| "embedding_ok _ \<longleftrightarrow> True"

lemma low32_append: "length xs = 12 \<Longrightarrow> low32 (xs @ v4_bytes ip) = ip"
  by (simp add: low32_def v4_bytes_def nth_append be32_v4_bytes)

lemma embed_low32:
  "low32 (embed V4Mapped ip) = ip" "low32 (embed V4Compatible ip) = ip" "low32 (embed Nat64 ip) = ip"
  "length sub = 6 \<Longrightarrow> low32 (embed (Nat64Local sub) ip) = ip"
  "length rest = 8 \<Longrightarrow> low32 (embed (Teredo rest) ip) = ip XOR 0xffffffff"
  using low32_append [of "replicate 10 0 @ [0xff, 0xff]"] low32_append [of "replicate 12 0"]
    low32_append [of "[0x00, 0x64, 0xff, 0x9b] @ replicate 8 0"] low32_append [of "[0x00, 0x64, 0xff, 0x9b, 0x00, 0x01] @ sub"]
    low32_append [of "[0x20, 0x01, 0, 0] @ rest"]
  by simp_all

lemma zero_blocked: "ssrf_is_blocked_v4 0"
  by (simp add: ssrf_is_blocked_v4_def)

lemma v4_bytes_length [simp]: "length (v4_bytes ip) = 4"
  by (simp add: v4_bytes_def)

lemma compatible_blocked:
  "take 12 b = replicate 12 0 \<Longrightarrow> b ! 12 \<noteq> 0 \<or> b ! 13 \<noteq> 0 \<or> b ! 14 \<noteq> 0 \<or> b ! 15 \<noteq> 0 \<Longrightarrow>
     ssrf_is_blocked_v4 (low32 b) \<Longrightarrow> ssrf_is_blocked_v6 b"
  by (simp add: ssrf_is_blocked_v6_def)

lemma lead_nonzero:
  assumes "b ! 0 \<noteq> 0"
  shows "take 12 b \<noteq> replicate 12 0" "\<not> is_v4mapped b" "take 4 b \<noteq> 0 # xs"
proof -
  have n: "take k b = ys \<Longrightarrow> 0 < k \<Longrightarrow> b ! 0 = ys ! 0" for k ys by (metis nth_take)
  show "take 12 b \<noteq> replicate 12 0" using n [of 12 "replicate 12 0"] assms by (auto simp del: take_eq_Nil)
  show "\<not> is_v4mapped b" using n [of 12 "replicate 10 0 @ [0xff, 0xff]"] assms by (auto simp: is_v4mapped_def nth_append)
  show "take 4 b \<noteq> 0 # xs" using n [of 4 "0 # xs"] assms by auto
qed

lemma teredo_blocked:
  assumes "take 4 b = [0x20, 0x01, 0, 0]" "ssrf_is_blocked_v4 (low32 b XOR 0xffffffff)"
  shows "ssrf_is_blocked_v6 b"
proof -
  have "take 4 b ! 0 = 0x20" using assms(1) by simp
  then have "b ! 0 \<noteq> 0" by simp
  note l = lead_nonzero [OF this]
  show ?thesis unfolding ssrf_is_blocked_v6_def using assms l by simp
qed

lemma sixtofour_blocked:
  assumes "take 2 b = [0x20, 0x02]" "ssrf_is_blocked_v4 (be32 (b ! 2) (b ! 3) (b ! 4) (b ! 5))"
  shows "ssrf_is_blocked_v6 b"
proof -
  have "take 2 b ! 0 = 0x20" using assms(1) by simp
  then have "b ! 0 \<noteq> 0" by simp
  note l = lead_nonzero [OF this]
  show ?thesis unfolding ssrf_is_blocked_v6_def using assms l by simp
qed

section \<open>Properties\<close>

text \<open>
  The bit tests on an IPv4 address block exactly the eight documented CIDR ranges.
\<close>

lemma blocked_v4_exact:
  "ssrf_is_blocked_v4 ip \<longleftrightarrow> list_ex (\<lambda>(base, len). in_cidr base len ip) denylist_v4"
  by (rule blocked_v4_denylist)

text \<open>
  A blocked IPv4 address stays blocked in every IPv6 form the guard knows: mapped,
  compatible, both NAT64 prefixes with the address in the low 32 bits, Teredo with its inverted bits, and 6to4.
\<close>

lemma embedded_v4_blocked:
  assumes "ssrf_is_blocked_v4 ip" "embedding_ok e"
  shows "ssrf_is_blocked_address (Some (Inet6 (embed e ip)))"
proof (cases e)
  case V4Mapped
  then show ?thesis using assms(1) embed_low32(1) [of ip] by (simp add: ssrf_is_blocked_v6_def is_v4mapped_def)
next
  case V4Compatible
  show ?thesis
  proof (cases "v4_bytes ip = replicate 4 0")
    case True
    have "replicate 12 0 @ replicate 4 (0::byte) = replicate 16 0" by (simp flip: replicate_add)
    then have "embed e ip = replicate 16 0" using V4Compatible True by simp
    then show ?thesis by (simp add: ssrf_is_blocked_v6_def is_unspecified_def)
  next
    case False
    then have "\<exists>i<4. v4_bytes ip ! i \<noteq> 0" by (auto simp: list_eq_iff_nth_eq)
    then have "\<exists>i<4. embed e ip ! (12 + i) \<noteq> 0" using V4Compatible by (simp add: nth_append)
    then have "embed e ip ! 12 \<noteq> 0 \<or> embed e ip ! 13 \<noteq> 0 \<or> embed e ip ! 14 \<noteq> 0 \<or> embed e ip ! 15 \<noteq> 0"
      by (auto simp: numeral_eq_Suc less_Suc_eq)
    then show ?thesis using V4Compatible assms(1) embed_low32(2) [of ip]
      by (simp only: ssrf_is_blocked_address.simps) (rule compatible_blocked, simp_all)
  qed
next
  case Nat64
  then show ?thesis using assms(1) embed_low32(3) [of ip] by (simp add: ssrf_is_blocked_v6_def is_v4mapped_def)
next
  case (Nat64Local sub)
  then show ?thesis using assms embed_low32(4) [of sub ip] by (simp add: ssrf_is_blocked_v6_def is_v4mapped_def)
next
  case (Teredo rest)
  have "(ip XOR 0xffffffff) XOR 0xffffffff = ip" by (simp add: xor.assoc)
  then show ?thesis using Teredo assms embed_low32(5) [of rest ip] by (auto intro: teredo_blocked)
next
  case (SixToFour rest)
  then show ?thesis using assms by (auto intro!: sixtofour_blocked simp: v4_bytes_def be32_v4_bytes)
qed


definition public_resolver :: resolver where
  "public_resolver = \<lparr>rv_pton4 = (\<lambda>_. None), rv_pton6 = (\<lambda>_. None), rv_getaddrinfo = (\<lambda>_. Inr [Some (Inet (be32 8 8 8 8))])\<rparr>"


text \<open>
  In the local-use NAT64 prefix \<open>64:ff9b:1::/48\<close> the address of a /48 translation sits in bytes 6, 7, 9
  and 10; the guard reads the last four bytes instead, so a loopback target passes.
\<close>

lemma nat64_local_48_passes:
  "\<not> ssrf_is_blocked_v6 [0x00, 0x64, 0xff, 0x9b, 0x00, 0x01, 127, 0, 0, 0, 1, 0, 8, 8, 8, 8]"
  by code_simp

end
