(* ===== verification/Diff_Apply.thy ===== *)
theory Diff_Apply
  imports Prelude
begin

text \<open>
  The unified diff engine (\<open>src/diff/apply.cpp\<close>), the root containment check of
  \<open>src/workspace_root.cpp\<close> and the proposal store of \<open>src/repl/diff_proposals.cpp\<close>.  The file
  system is a map from absolute paths to the contents of regular files; the canonicalisation of a
  path, the directories and the outcomes of reads, writes and removals are parameters.  A failed
  write leaves the file as it was, as the rename of the temporary sibling does; the in-place
  fallback after a failed rename is not modelled.
\<close>

section \<open>Patches\<close>

datatype hunk_tag = Context | Add | Remove

record DiffHunkLine =
  hl_tag :: hunk_tag
  hl_text :: string

record DiffHunk =
  h_old_start :: int
  h_old_count :: int
  h_new_start :: int
  h_new_count :: int
  h_lines :: "DiffHunkLine list"

record ParsedUnifiedDiff =
  pd_old_path :: string
  pd_new_path :: string
  pd_is_new_file :: bool
  pd_is_delete :: bool
  pd_hunks :: "DiffHunk list"
  pd_error :: string

definition empty_parsed :: ParsedUnifiedDiff where
  "empty_parsed = \<lparr>pd_old_path = [], pd_new_path = [], pd_is_new_file = False, pd_is_delete = False,
     pd_hunks = [], pd_error = []\<rparr>"

definition empty_hunk :: DiffHunk where
  "empty_hunk = \<lparr>h_old_start = 0, h_old_count = 0, h_new_start = 0, h_new_count = 0, h_lines = []\<rparr>"

section \<open>Paths\<close>

definition rstrip_chars :: "char set \<Rightarrow> string \<Rightarrow> string" where
  "rstrip_chars cs s = rev (dropWhile (\<lambda>c. c \<in> cs) (rev s))"

definition unquote :: "string \<Rightarrow> string" where
  "unquote s = (if 2 \<le> length s \<and> hd s = CHR 0x22 \<and> last s = CHR 0x22 then butlast (tl s) else s)"

fun strip_dot_slash :: "string \<Rightarrow> string" where
  "strip_dot_slash (a # b # r) = (if a = CHR ''.'' \<and> b = CHR ''/'' then strip_dot_slash r else a # b # r)"
| "strip_dot_slash r = r"

definition is_sep :: "char \<Rightarrow> bool" where "is_sep c \<longleftrightarrow> c = CHR ''/'' \<or> c = CHR 0x5C"

text \<open>The path segments, split at either separator; never empty.\<close>

fun segments :: "string \<Rightarrow> string list" where
  "segments [] = [[]]"
| "segments (c # cs) = (if is_sep c then [] # segments cs
     else case segments cs of s # ss \<Rightarrow> (c # s) # ss | [] \<Rightarrow> [[c]])"

fun join_segments :: "string list \<Rightarrow> string" where
  "join_segments [] = []"
| "join_segments [s] = s"
| "join_segments (s # ss) = s @ ''/'' @ join_segments ss"

definition collapse_segments :: "string \<Rightarrow> string" where
  "collapse_segments raw = join_segments (filter (\<lambda>s. s \<noteq> [] \<and> s \<noteq> ''.'') (segments raw))"

definition strip_path_prefix :: "string \<Rightarrow> string" where
  "strip_path_prefix raw0 =
     (let raw1 = rstrip_chars {CHR 0x0D, CHR '' ''} raw0;
          raw2 = takeWhile (\<lambda>c. c \<noteq> CHR 0x09) raw1;
          raw = unquote (rstrip_chars {CHR '' ''} raw2)
      in if raw = ''/dev/null'' then []
         else if raw \<noteq> [] \<and> is_sep (hd raw) then raw
         else
           let raw3 = (if 2 \<le> length raw \<and> raw ! 1 = CHR ''/'' \<and> (hd raw = CHR ''a'' \<or> hd raw = CHR ''b'')
                       then drop 2 raw else raw);
               raw4 = strip_dot_slash raw3
           in if raw4 \<noteq> [] \<and> hd raw4 = CHR ''/'' then raw4 else collapse_segments raw4)"

definition is_alpha :: "char \<Rightarrow> bool" where
  "is_alpha c \<longleftrightarrow> (65 \<le> code c \<and> code c \<le> 90) \<or> (97 \<le> code c \<and> code c \<le> 122)"

definition path_has_traversal :: "string \<Rightarrow> bool" where
  "path_has_traversal p \<longleftrightarrow> p = [] \<or> is_sep (hd p) \<or> (2 \<le> length p \<and> is_alpha (hd p) \<and> p ! 1 = CHR '':'')
     \<or> ''..'' \<in> set (segments p)"

definition path_within_canonical_root :: "string \<Rightarrow> string \<Rightarrow> bool" where
  "path_within_canonical_root root resolved \<longleftrightarrow>
     length root \<le> length resolved \<and> take (length root) resolved = root
     \<and> (length root < length resolved \<longrightarrow> is_sep (resolved ! length root))"

section \<open>Parsing\<close>

definition drop_sign :: "string \<Rightarrow> string" where
  "drop_sign part = (if part \<noteq> [] \<and> (hd part = CHR ''-'' \<or> hd part = CHR ''+'') then tl part else part)"

definition has_comma :: "string \<Rightarrow> bool" where "has_comma s \<longleftrightarrow> CHR '','' \<in> set s"

definition before_comma :: "string \<Rightarrow> string" where "before_comma s = takeWhile (\<lambda>c. c \<noteq> CHR '','') s"

definition after_comma :: "string \<Rightarrow> string" where "after_comma s = drop (length (before_comma s) + 1) s"

definition parse_hunk_count :: "string \<Rightarrow> int" where
  "parse_hunk_count part =
     (if part = [] then 0
      else let p = drop_sign part; count = (if has_comma p then after_comma p else []) in
        if count = [] then 1 else case stoi count of Some v \<Rightarrow> v | None \<Rightarrow> -1)"

definition parse_hunk_start :: "string \<Rightarrow> int" where
  "parse_hunk_start part =
     (if part = [] then -1
      else case stoi (before_comma (drop_sign part)) of Some v \<Rightarrow> v | None \<Rightarrow> -1)"

fun split_nl :: "string \<Rightarrow> string list" where
  "split_nl [] = [[]]"
| "split_nl (c # cs) = (if c = CHR 0x0A then [] # split_nl cs
     else case split_nl cs of s # ss \<Rightarrow> (c # s) # ss | [] \<Rightarrow> [[c]])"

record parse_state =
  ps_out :: ParsedUnifiedDiff
  ps_current :: DiffHunk
  ps_in_hunk :: bool
  ps_saw_file :: bool
  ps_file_headers :: nat

definition init_parse :: parse_state where
  "init_parse = \<lparr>ps_out = empty_parsed, ps_current = empty_hunk, ps_in_hunk = False, ps_saw_file = False, ps_file_headers = 0\<rparr>"

definition flush_hunk :: "parse_state \<Rightarrow> parse_state" where
  "flush_hunk st =
     (if ps_in_hunk st
      then st\<lparr>ps_out := (ps_out st)\<lparr>pd_hunks := pd_hunks (ps_out st) @ [ps_current st]\<rparr>, ps_current := empty_hunk, ps_in_hunk := False\<rparr>
      else st)"

definition parse_fail :: "string \<Rightarrow> ParsedUnifiedDiff \<Rightarrow> ParsedUnifiedDiff" where
  "parse_fail err out = out\<lparr>pd_hunks := [], pd_error := err\<rparr>"

definition kMultiFileErr :: string where
  "kMultiFileErr = ''multi-file patches are not supported yet; emit one '' @ [CHR 0x60, CHR 0x60, CHR 0x60] @ ''diff fence per file''"

definition hunk_header_body :: "string \<Rightarrow> string" where
  "hunk_header_body raw =
     (let body = (case find_sub ''@@'' (drop 2 raw) of None \<Rightarrow> drop 2 raw | Some n \<Rightarrow> take n (drop 2 raw))
      in rstrip_chars {CHR '' ''} (dropWhile (\<lambda>c. c = CHR '' '') body))"

definition parse_hunk_header :: "string \<Rightarrow> DiffHunk option" where
  "parse_hunk_header raw =
     (let body = hunk_header_body raw in
      if CHR '' '' \<notin> set body then None
      else
        let old_part = takeWhile (\<lambda>c. c \<noteq> CHR '' '') body;
            new_part = takeWhile (\<lambda>c. c \<noteq> CHR '' '') (drop (length old_part + 1) body);
            os = parse_hunk_start old_part; ns = parse_hunk_start new_part;
            oc = parse_hunk_count old_part; nc = parse_hunk_count new_part
        in if os < 0 \<or> ns < 0 \<or> oc < 0 \<or> nc < 0 then None
           else Some \<lparr>h_old_start = os, h_old_count = (if \<not> has_comma old_part \<and> os = 0 then 0 else oc),
                      h_new_start = ns, h_new_count = (if \<not> has_comma new_part \<and> ns = 0 then 0 else nc), h_lines = []\<rparr>)"

definition hunk_body_line :: "string \<Rightarrow> DiffHunkLine option" where
  "hunk_body_line raw =
     (case raw of
        [] \<Rightarrow> None
      | m # text \<Rightarrow>
          if m = CHR 0x5C then None
          else if m = CHR ''+'' then Some \<lparr>hl_tag = Add, hl_text = text\<rparr>
          else if m = CHR ''-'' then Some \<lparr>hl_tag = Remove, hl_text = text\<rparr>
          else if m = CHR '' '' then Some \<lparr>hl_tag = Context, hl_text = text\<rparr>
          else Some \<lparr>hl_tag = Context, hl_text = raw\<rparr>)"

text \<open>One line: \<open>Inl\<close> is an early return.\<close>

definition parse_line :: "string \<Rightarrow> parse_state \<Rightarrow> ParsedUnifiedDiff + parse_state" where
  "parse_line line st =
     (let raw = rstrip_chars {CHR 0x0D} line; out = ps_out st in
      if prefix ''diff --git '' raw then
        (if ps_saw_file st then Inl (parse_fail kMultiFileErr out) else Inr st)
      else if prefix ''Binary files '' raw \<or> prefix ''GIT binary patch'' raw then
        Inl (parse_fail ''binary patches are not supported'' out)
      else if prefix ''rename from '' raw \<or> prefix ''rename to '' raw \<or> prefix ''copy from '' raw \<or> prefix ''copy to '' raw then
        Inl (parse_fail ''rename/copy patches are not supported yet'' out)
      else if prefix ''--- '' raw then
        (let st1 = flush_hunk st in
         if 1 \<le> ps_file_headers st1 then Inl (parse_fail kMultiFileErr (ps_out st1))
         else Inr (st1\<lparr>ps_file_headers := ps_file_headers st1 + 1, ps_saw_file := True,
                       ps_out := (ps_out st1)\<lparr>pd_old_path := strip_path_prefix (drop 4 raw)\<rparr>\<rparr>))
      else if prefix ''+++ '' raw then
        Inr (st\<lparr>ps_saw_file := True, ps_out := out\<lparr>pd_new_path := strip_path_prefix (drop 4 raw)\<rparr>\<rparr>)
      else if prefix ''@@'' raw then
        (let st1 = flush_hunk st in
         case parse_hunk_header raw of
           None \<Rightarrow> Inl (parse_fail (''malformed hunk header: '' @ raw) (ps_out st1))
         | Some h \<Rightarrow> Inr (st1\<lparr>ps_current := h, ps_in_hunk := True\<rparr>))
      else if ps_in_hunk st then
        (case hunk_body_line raw of
           None \<Rightarrow> Inr st
         | Some hl \<Rightarrow> Inr (st\<lparr>ps_current := (ps_current st)\<lparr>h_lines := h_lines (ps_current st) @ [hl]\<rparr>\<rparr>))
      else Inr st)"

fun parse_lines :: "string list \<Rightarrow> parse_state \<Rightarrow> ParsedUnifiedDiff + parse_state" where
  "parse_lines [] st = Inr st"
| "parse_lines (l # ls) st = (case parse_line l st of Inl out \<Rightarrow> Inl out | Inr st' \<Rightarrow> parse_lines ls st')"

definition patch_target :: "ParsedUnifiedDiff \<Rightarrow> string" where
  "patch_target p = (if pd_is_delete p then pd_old_path p else pd_new_path p)"

definition rename_arrow :: string where "rename_arrow = [CHR '' '', CHR 0xE2, CHR 0x86, CHR 0x92, CHR '' '']"

definition parse_unified_diff :: "string \<Rightarrow> ParsedUnifiedDiff" where
  "parse_unified_diff patch =
     (if patch = [] then empty_parsed\<lparr>pd_error := ''empty patch''\<rparr>
      else case parse_lines (split_nl patch) init_parse of
        Inl out \<Rightarrow> out
      | Inr st \<Rightarrow>
          let o1 = ps_out (flush_hunk st);
              out = o1\<lparr>pd_is_new_file := (pd_old_path o1 = [] \<and> pd_new_path o1 \<noteq> []),
                       pd_is_delete := (pd_new_path o1 = [] \<and> pd_old_path o1 \<noteq> [])\<rparr>
          in if pd_old_path out = [] \<and> pd_new_path out = [] then parse_fail ''patch missing --- / +++ file headers'' out
             else if pd_hunks out = [] then out\<lparr>pd_error := ''patch has no hunks''\<rparr>
             else if path_has_traversal (patch_target out) then
               parse_fail (''path escapes workspace or is absolute: '' @ patch_target out) out
             else if pd_old_path out \<noteq> [] \<and> pd_new_path out \<noteq> [] \<and> pd_old_path out \<noteq> pd_new_path out then
               parse_fail (''rename patches are not supported yet ('' @ pd_old_path out @ rename_arrow @ pd_new_path out @ '')'') out
             else out)"

section \<open>Matching and splicing\<close>

fun split_lines_keep_nl :: "string \<Rightarrow> string list" where
  "split_lines_keep_nl [] = []"
| "split_lines_keep_nl (c # cs) =
     (if c = CHR 0x0A then [] # split_lines_keep_nl cs
      else case cs of
             [] \<Rightarrow> [[c]]
           | d # ds \<Rightarrow> (case split_lines_keep_nl cs of s # ss \<Rightarrow> (c # s) # ss | [] \<Rightarrow> [[c]]))"

fun join_lines :: "string list \<Rightarrow> bool \<Rightarrow> string" where
  "join_lines [] nl = []"
| "join_lines [l] nl = l @ (if nl then [CHR 0x0A] else [])"
| "join_lines (l # ls) nl = l @ [CHR 0x0A] @ join_lines ls nl"

definition old_side :: "DiffHunk \<Rightarrow> string list" where
  "old_side h = map hl_text (filter (\<lambda>l. hl_tag l \<noteq> Add) (h_lines h))"

definition new_side :: "DiffHunk \<Rightarrow> string list" where
  "new_side h = map hl_text (filter (\<lambda>l. hl_tag l \<noteq> Remove) (h_lines h))"

definition match_hunk_at :: "string list \<Rightarrow> nat \<Rightarrow> DiffHunk \<Rightarrow> bool" where
  "match_hunk_at file_lines pos h \<longleftrightarrow>
     pos + length (old_side h) \<le> length file_lines \<and> take (length (old_side h)) (drop pos file_lines) = old_side h"

definition hunk_sites :: "string list \<Rightarrow> DiffHunk \<Rightarrow> nat list" where
  "hunk_sites file_lines h =
     (let n = length (old_side h); limit = (if length file_lines < n then 0 else length file_lines - n + 1)
      in filter (\<lambda>pos. match_hunk_at file_lines pos h) [0..<limit])"

definition find_hunk :: "string list \<Rightarrow> DiffHunk \<Rightarrow> nat option" where
  "find_hunk file_lines h =
     (if old_side h = [] then
        (if h_old_count h \<noteq> 0 then None
         else if h_old_start h = 0 then (if file_lines \<noteq> [] then None else Some 0)
         else if length file_lines < nat (h_old_start h) then None
         else Some (nat (h_old_start h)))
      else if 0 < h_old_start h \<and> match_hunk_at file_lines (nat (h_old_start h - 1)) h
      then Some (nat (h_old_start h - 1))
      else case hunk_sites file_lines h of [pos] \<Rightarrow> Some pos | _ \<Rightarrow> None)"

definition apply_hunk :: "DiffHunk \<Rightarrow> nat \<Rightarrow> string list \<Rightarrow> string list" where
  "apply_hunk h pos lines = take pos lines @ new_side h @ drop (pos + length (old_side h)) lines"

text \<open>The loop over the sorted hunks: \<open>Inl h\<close> for the first hunk without a site, with the lines at that point.\<close>

fun apply_hunks :: "DiffHunk list \<Rightarrow> string list \<Rightarrow> (DiffHunk \<times> string list) + string list" where
  "apply_hunks [] lines = Inr lines"
| "apply_hunks (h # hs) lines =
     (case find_hunk lines h of
        None \<Rightarrow> Inl (h, lines)
      | Some pos \<Rightarrow> apply_hunks hs (apply_hunk h pos lines))"

definition bottom_up :: "DiffHunk list \<Rightarrow> DiffHunk list" where
  "bottom_up hs = sort_key (\<lambda>h. - h_old_start h) hs"

section \<open>Applying and undoing\<close>

type_synonym files = "string \<Rightarrow> string option"

record diff_env =
  de_canonical_root :: "string \<Rightarrow> string + string"             \<comment> \<open>\<open>canonical_workspace_root\<close>\<close>
  de_canonicalise :: "string \<Rightarrow> string \<Rightarrow> string + string"     \<comment> \<open>the symlink check and \<open>fs::canonical\<close> of root and path\<close>
  de_is_directory :: "string \<Rightarrow> bool"
  de_read_error :: "string \<Rightarrow> string option"
  de_write_error :: "string \<Rightarrow> string option"
  de_remove_error :: "string \<Rightarrow> string option"
  de_filename :: "string \<Rightarrow> string"

definition resolve_workspace_path :: "diff_env \<Rightarrow> string \<Rightarrow> string \<Rightarrow> string + string" where
  "resolve_workspace_path env rel root =
     (if path_has_traversal rel then Inl (''path escapes workspace or is absolute: '' @ rel)
      else case de_canonical_root env root of
        Inl err \<Rightarrow> Inl (if err = [] then ''invalid workspace root'' else err)
      | Inr root_str \<Rightarrow>
          if root_str = [] then Inl ''invalid workspace root'' else
          (case de_canonicalise env root_str rel of
             Inl err \<Rightarrow> Inl err
           | Inr resolved \<Rightarrow> if path_within_canonical_root root_str resolved then Inr resolved
                             else Inl ''path escapes project directory''))"

record DiffApplyResult =
  dr_ok :: bool
  dr_path :: string
  dr_resolved_path :: string
  dr_error :: string
  dr_had_file :: bool
  dr_pre_image :: string
  dr_post_image :: string

definition no_result :: DiffApplyResult where
  "no_result = \<lparr>dr_ok = False, dr_path = [], dr_resolved_path = [], dr_error = [], dr_had_file = False,
     dr_pre_image = [], dr_post_image = []\<rparr>"

definition kMaxDiffFileBytes :: nat where "kMaxDiffFileBytes = 10 * 1024 * 1024"

definition hunk_error :: "string \<Rightarrow> DiffHunk \<Rightarrow> string list \<Rightarrow> string" where
  "hunk_error rel h lines =
     (let matches = (if old_side h \<noteq> [] \<and> length (old_side h) \<le> length lines then length (hunk_sites lines h) else 0)
      in if 1 < matches
         then ''ambiguous patch: hunk context matches '' @ to_string (int matches) @ '' sites in '' @ rel
              @ '' (regenerate with more unique context)''
         else ''stale patch: hunk context does not match '' @ rel @ '' (re-read the file and emit a fresh ''
              @ [CHR 0x60, CHR 0x60, CHR 0x60] @ ''diff)'')"

definition write_post :: "diff_env \<Rightarrow> string \<Rightarrow> string \<Rightarrow> DiffApplyResult \<Rightarrow> files \<Rightarrow> DiffApplyResult \<times> files" where
  "write_post env path post res fs =
     (case de_write_error env path of
        Some err \<Rightarrow> (res\<lparr>dr_error := err\<rparr>, fs)
      | None \<Rightarrow> (res\<lparr>dr_post_image := post, dr_ok := True\<rparr>, fs(path \<mapsto> post)))"

definition create_from_patch :: "diff_env \<Rightarrow> ParsedUnifiedDiff \<Rightarrow> string \<Rightarrow> string \<Rightarrow> DiffApplyResult \<Rightarrow> files \<Rightarrow> DiffApplyResult \<times> files" where
  "create_from_patch env p rel path res fs =
     (if 1 < length (pd_hunks p) \<and> \<not> pd_is_new_file p then
        (res\<lparr>dr_error := ''cannot create missing file from multi-hunk edit patch: '' @ rel
               @ '' (gaps between hunks are unknown; use a single hunk or --- /dev/null new-file patch)''\<rparr>, fs)
      else write_post env path (join_lines (concat (map new_side (sort_key h_new_start (pd_hunks p)))) True) res fs)"

definition delete_by_patch :: "diff_env \<Rightarrow> ParsedUnifiedDiff \<Rightarrow> string \<Rightarrow> string \<Rightarrow> string \<Rightarrow> DiffApplyResult \<Rightarrow> files \<Rightarrow> DiffApplyResult \<times> files" where
  "delete_by_patch env p rel path pre res fs =
     (if list_ex (\<lambda>h. find_hunk (split_lines_keep_nl pre) h = None) (pd_hunks p) then
        (res\<lparr>dr_error := ''stale patch: hunk context does not match '' @ rel\<rparr>, fs)
      else case de_remove_error env path of
        Some err \<Rightarrow> (res\<lparr>dr_error := ''cannot delete: '' @ err\<rparr>, fs)
      | None \<Rightarrow> (res\<lparr>dr_post_image := [], dr_ok := True\<rparr>, fs(path := None)))"

definition edit_by_patch :: "diff_env \<Rightarrow> ParsedUnifiedDiff \<Rightarrow> string \<Rightarrow> string \<Rightarrow> string \<Rightarrow> DiffApplyResult \<Rightarrow> files \<Rightarrow> DiffApplyResult \<times> files" where
  "edit_by_patch env p rel path pre res fs =
     (let trailing_nl = (if pre = [] then True else last pre = CHR 0x0A) in
      case apply_hunks (bottom_up (pd_hunks p)) (split_lines_keep_nl pre) of
        Inl (h, ls) \<Rightarrow> (res\<lparr>dr_error := hunk_error rel h ls\<rparr>, fs)
      | Inr ls \<Rightarrow> write_post env path (join_lines ls (trailing_nl \<and> ls \<noteq> [])) res fs)"

definition apply_unified_diff :: "diff_env \<Rightarrow> string \<Rightarrow> string \<Rightarrow> files \<Rightarrow> DiffApplyResult \<times> files" where
  "apply_unified_diff env patch root fs =
     (let p = parse_unified_diff patch; rel = patch_target p; res0 = no_result\<lparr>dr_path := rel\<rparr> in
      if pd_error p \<noteq> [] then (no_result\<lparr>dr_error := pd_error p\<rparr>, fs)
      else case resolve_workspace_path env rel root of
        Inl err \<Rightarrow> (res0\<lparr>dr_error := err\<rparr>, fs)
      | Inr path \<Rightarrow>
          let res = res0\<lparr>dr_resolved_path := path\<rparr> in
          if de_is_directory env path then (res\<lparr>dr_error := ''target is a directory: '' @ rel\<rparr>, fs)
          else case fs path of
            Some pre \<Rightarrow>
              if kMaxDiffFileBytes < length pre then (res\<lparr>dr_error := ''file exceeds 10 MiB apply cap: '' @ rel\<rparr>, fs)
              else (case de_read_error env path of
                      Some err \<Rightarrow> (res\<lparr>dr_error := err\<rparr>, fs)
                    | None \<Rightarrow>
                        let res1 = res\<lparr>dr_had_file := True, dr_pre_image := pre\<rparr> in
                        if pd_is_delete p then delete_by_patch env p rel path pre res1 fs
                        else edit_by_patch env p rel path pre res1 fs)
          | None \<Rightarrow>
              if pd_is_delete p then (res\<lparr>dr_error := ''cannot delete missing file: '' @ rel\<rparr>, fs)
              else create_from_patch env p rel path res fs)"

record DiffUndoSnapshot =
  us_resolved_path :: string
  us_had_file :: bool
  us_pre_image :: string
  us_post_image :: string

definition undo_unified_diff :: "diff_env \<Rightarrow> DiffUndoSnapshot \<Rightarrow> files \<Rightarrow> DiffApplyResult \<times> files" where
  "undo_unified_diff env snap fs =
     (let path = us_resolved_path snap; res0 = no_result\<lparr>dr_resolved_path := path\<rparr>; res = res0\<lparr>dr_path := de_filename env path\<rparr> in
      if path = [] then (res0\<lparr>dr_error := ''empty undo snapshot''\<rparr>, fs)
      else if fs path \<noteq> None \<and> de_read_error env path \<noteq> None then
        (res\<lparr>dr_error := the (de_read_error env path)\<rparr>, fs)
      else if (case fs path of Some c \<Rightarrow> c | None \<Rightarrow> []) \<noteq> us_post_image snap then
        (res\<lparr>dr_error := ''file changed since apply; refuse to undo (resolve manually)''\<rparr>, fs)
      else if \<not> us_had_file snap then
        (if fs path \<noteq> None then
           (case de_remove_error env path of
              Some err \<Rightarrow> (res\<lparr>dr_error := ''cannot remove created file: '' @ err\<rparr>, fs)
            | None \<Rightarrow> (res\<lparr>dr_ok := True, dr_post_image := us_pre_image snap\<rparr>, fs(path := None)))
         else (res\<lparr>dr_ok := True, dr_post_image := us_pre_image snap\<rparr>, fs))
      else case de_write_error env path of
        Some err \<Rightarrow> (res\<lparr>dr_error := err\<rparr>, fs)
      | None \<Rightarrow> (res\<lparr>dr_had_file := True, dr_pre_image := us_post_image snap, dr_post_image := us_pre_image snap,
                      dr_ok := True\<rparr>, fs(path \<mapsto> us_pre_image snap)))"

section \<open>Lemmas\<close>

lemma split_lines_ne: "s \<noteq> [] \<Longrightarrow> split_lines_keep_nl s \<noteq> []"
proof (cases s)
  case (Cons c cs)
  then show ?thesis by (cases cs; cases "split_lines_keep_nl cs") auto
qed simp

lemma split_lines_other: "c \<noteq> CHR 0x0A \<Longrightarrow> split_lines_keep_nl cs = l # ls \<Longrightarrow> split_lines_keep_nl (c # cs) = (c # l) # ls"
  by (cases cs) simp_all

lemma join_lines_push: "join_lines ((c # l) # ls) b = c # join_lines (l # ls) b"
  by (cases ls) simp_all

lemma join_lines_nl: "join_lines ([] # l # ls) b = CHR 0x0A # join_lines (l # ls) b"
  by simp

lemma join_split_lines: "join_lines (split_lines_keep_nl s) (s \<noteq> [] \<and> last s = CHR 0x0A) = s"
proof (induction s)
  case (Cons c cs)
  show ?case
  proof (cases "cs = []")
    case False
    then obtain l ls where l: "split_lines_keep_nl cs = l # ls" using split_lines_ne by (meson neq_Nil_conv)
    have ih: "join_lines (l # ls) (last cs = CHR 0x0A) = cs" using Cons.IH False unfolding l by simp
    have last: "(c # cs \<noteq> [] \<and> last (c # cs) = CHR 0x0A) = (last cs = CHR 0x0A)" using False by simp
    show ?thesis
    proof (cases "c = CHR 0x0A")
      case True
      then have "split_lines_keep_nl (c # cs) = [] # l # ls" using l by simp
      then show ?thesis unfolding last using ih True by (simp only: join_lines_nl)
    next
      case nc: False
      show ?thesis unfolding last split_lines_other [OF nc l] join_lines_push ih by (rule refl)
    qed
  qed simp
qed simp

lemma match_old_side: "match_hunk_at (a @ old_side h @ b) (length a) h"
  by (simp add: match_hunk_at_def)

lemma match_split:
  "match_hunk_at ls pos h \<Longrightarrow> ls = take pos ls @ old_side h @ drop (pos + length (old_side h)) ls"
  unfolding match_hunk_at_def by (metis append_take_drop_id drop_drop add.commute)

lemma hunk_sites_match: "pos \<in> set (hunk_sites ls h) \<longleftrightarrow> match_hunk_at ls pos h"
  by (auto simp: hunk_sites_def match_hunk_at_def Let_def)

lemma find_hunk_sound:
  assumes "find_hunk ls h = Some pos" "0 \<le> h_old_start h"
  shows "match_hunk_at ls pos h"
    "old_side h \<noteq> [] \<Longrightarrow> int pos = h_old_start h - 1 \<or> (\<forall>q. match_hunk_at ls q h \<longleftrightarrow> q = pos)"
proof -
  have "match_hunk_at ls pos h \<and> (old_side h \<noteq> [] \<longrightarrow> int pos = h_old_start h - 1 \<or> (\<forall>q. match_hunk_at ls q h \<longleftrightarrow> q = pos))"
  proof (cases "old_side h = []")
    case True
    then show ?thesis using assms by (auto simp: find_hunk_def match_hunk_at_def split: if_splits)
  next
    case ne: False
    show ?thesis
    proof (cases "0 < h_old_start h \<and> match_hunk_at ls (nat (h_old_start h - 1)) h")
      case True
      then show ?thesis using assms(1) ne by (auto simp: find_hunk_def)
    next
      case False
      then have "hunk_sites ls h = [pos]" using assms(1) ne
        by (auto simp: find_hunk_def split: list.splits if_splits)
      then show ?thesis using hunk_sites_match [of _ ls h] by auto
    qed
  qed
  then show "match_hunk_at ls pos h"
    "old_side h \<noteq> [] \<Longrightarrow> int pos = h_old_start h - 1 \<or> (\<forall>q. match_hunk_at ls q h \<longleftrightarrow> q = pos)" by blast+
qed

text \<open>
  The specification of an edit: the file as unchanged gaps alternating with the old sides of the
  hunks, and the same with the new sides.
\<close>

type_synonym edit_script = "(string list \<times> DiffHunk) list"

fun old_text :: "edit_script \<Rightarrow> string list \<Rightarrow> string list" where
  "old_text [] tail = tail"
| "old_text ((g, h) # es) tail = g @ old_side h @ old_text es tail"

fun new_text :: "edit_script \<Rightarrow> string list \<Rightarrow> string list" where
  "new_text [] tail = tail"
| "new_text ((g, h) # es) tail = g @ new_side h @ new_text es tail"

text \<open>The headers name the places of the hunks; a pure insertion names the line before it.\<close>

fun headers_ok :: "nat \<Rightarrow> edit_script \<Rightarrow> bool" where
  "headers_ok pos [] = True"
| "headers_ok pos ((g, h) # es) =
     ((if old_side h = [] then h_old_count h = 0 \<and> 0 < pos + length g \<and> h_old_start h = int (pos + length g)
       else h_old_start h = int (pos + length g) + 1)
      \<and> headers_ok (pos + length g + length (old_side h)) es)"

lemma text_snoc:
  "old_text (es @ [(g, h)]) tail = old_text es (g @ old_side h @ tail)"
  "new_text (es @ [(g, h)]) tail = new_text es (g @ new_side h @ tail)"
  by (induction es) auto

lemma old_text_append: "old_text es tail = old_text es [] @ tail"
  by (induction es) auto

lemma headers_snoc:
  "headers_ok pos (es @ [(g, h)]) \<longleftrightarrow> headers_ok pos es \<and> headers_ok (pos + length (old_text es [])) [(g, h)]"
  by (induction es arbitrary: pos) (auto simp: add.assoc add.left_commute)

lemma find_hunk_header:
  assumes "headers_ok (length a) [(g, h)]"
  shows "find_hunk (a @ g @ old_side h @ b) h = Some (length a + length g)"
proof (cases "old_side h = []")
  case True
  then have s: "h_old_start h = int (length a + length g)" "0 < length a + length g" "h_old_count h = 0" using assms by auto
  then have "nat (h_old_start h) = length a + length g" "h_old_start h \<noteq> 0" by linarith+
  then show ?thesis using True s(3) by (simp add: find_hunk_def)
next
  case False
  then have s: "h_old_start h = int (length a + length g) + 1" using assms by simp
  then have n: "nat (h_old_start h - 1) = length a + length g" "0 < h_old_start h" by linarith+
  have "match_hunk_at ((a @ g) @ old_side h @ b) (length (a @ g)) h" by (rule match_old_side)
  then show ?thesis using False n by (simp add: find_hunk_def)
qed

lemma apply_rev_script:
  "headers_ok 0 es \<Longrightarrow> apply_hunks (rev (map snd es)) (old_text es tail) = Inr (new_text es tail)"
proof (induction es arbitrary: tail rule: rev_induct)
  case (snoc e es)
  obtain g h where e: "e = (g, h)" by (cases e)
  let ?a = "old_text es []"
  have hd: "headers_ok 0 es" "headers_ok (length ?a) [(g, h)]" using snoc.prems unfolding e headers_snoc add_0 by blast+
  have t: "old_text (es @ [e]) tail = ?a @ g @ old_side h @ tail"
    unfolding e text_snoc old_text_append [of es "g @ old_side h @ tail"] by (rule refl)
  have "apply_hunk h (length ?a + length g) (?a @ g @ old_side h @ tail) = ?a @ g @ new_side h @ tail"
    by (simp add: apply_hunk_def)
  also have "\<dots> = old_text es (g @ new_side h @ tail)" by (metis old_text_append)
  finally have "apply_hunks (rev (map snd (es @ [e]))) (old_text (es @ [e]) tail)
      = apply_hunks (rev (map snd es)) (old_text es (g @ new_side h @ tail))"
    unfolding t using find_hunk_header [OF hd(2), of tail] by (simp add: e)
  then show ?case using snoc.IH [OF hd(1)] by (simp add: e text_snoc)
qed simp

lemma insort_key_last: "(\<And>y. y \<in> set ys \<Longrightarrow> k y < k x) \<Longrightarrow> insort_key k x ys = ys @ [x]"
  by (induction ys) (force simp: not_le)+

lemma sort_key_decreasing: "sorted_wrt (\<lambda>x y. k y < k x) xs \<Longrightarrow> sort_key k xs = rev xs"
proof (induction xs)
  case (Cons x xs)
  then show ?case using insort_key_last [of "rev xs" k x] by simp
qed simp

lemma bottom_up_rev: "sorted_wrt (<) (map h_old_start hs) \<Longrightarrow> bottom_up hs = rev hs"
  unfolding bottom_up_def by (rule sort_key_decreasing) (simp add: sorted_wrt_map)

end
