(* ===== verification/Diff_Correct.thy ===== *)
theory Diff_Correct
  imports Diff_Apply
begin

text \<open>
  The patch engine end to end: a printer of single-file patches that the parser inverts, and the
  text that applying a printed edit script leaves in the file.
\<close>

section \<open>Printing a patch\<close>

definition marker :: "hunk_tag \<Rightarrow> char" where
  "marker t = (case t of Context \<Rightarrow> CHR '' '' | Add \<Rightarrow> CHR ''+'' | Remove \<Rightarrow> CHR ''-'')"

definition render_line :: "DiffHunkLine \<Rightarrow> string" where
  "render_line l = marker (hl_tag l) # hl_text l"

definition render_range :: "int \<Rightarrow> int \<Rightarrow> string" where
  "render_range s n = to_string s @ '','' @ to_string n"

definition render_header :: "DiffHunk \<Rightarrow> string" where
  "render_header h = ''@@ -'' @ render_range (h_old_start h) (h_old_count h) @ '' +''
     @ render_range (h_new_start h) (h_new_count h) @ '' @@''"

definition render_hunk :: "DiffHunk \<Rightarrow> string list" where
  "render_hunk h = render_header h # map render_line (h_lines h)"

definition render_patch :: "string list \<Rightarrow> DiffHunk list \<Rightarrow> string" where
  "render_patch ss hs = join_lines ([''--- a/'' @ join_segments ss, ''+++ b/'' @ join_segments ss] @ concat (map render_hunk hs)) True"

text \<open>
  What can be printed: path segments of plain characters, and hunk lines that do not end in a
  carriage return, hold no newline and are not read as file headers once marked.
\<close>

definition plain_segment :: "string \<Rightarrow> bool" where
  "plain_segment s \<longleftrightarrow> s \<noteq> [] \<and> s \<noteq> ''.'' \<and> s \<noteq> ''..''
     \<and> list_all (\<lambda>c. c \<notin> {CHR ''/'', CHR 0x5C, CHR 0x09, CHR 0x0D, CHR 0x0A, CHR '' '', CHR 0x22, CHR '':''}) s"

definition plain_line :: "DiffHunkLine \<Rightarrow> bool" where
  "plain_line l \<longleftrightarrow> CHR 0x0A \<notin> set (hl_text l) \<and> (hl_text l = [] \<or> last (hl_text l) \<noteq> CHR 0x0D)
     \<and> (hl_tag l = Add \<longrightarrow> \<not> prefix ''++ '' (hl_text l)) \<and> (hl_tag l = Remove \<longrightarrow> \<not> prefix ''-- '' (hl_text l))"

definition printable_int :: "int \<Rightarrow> bool" where "printable_int v \<longleftrightarrow> 0 \<le> v \<and> in_int32 v"

definition plain_hunk :: "DiffHunk \<Rightarrow> bool" where
  "plain_hunk h \<longleftrightarrow> printable_int (h_old_start h) \<and> printable_int (h_old_count h) \<and> printable_int (h_new_start h)
     \<and> printable_int (h_new_count h) \<and> list_all plain_line (h_lines h)"

section \<open>The parser inverts the printer\<close>

lemma to_string_digits: "0 \<le> n \<Longrightarrow> list_all is_digit (to_string n)" "to_string n \<noteq> []"
  using nat_digits_all_digits [of "nat n"] by (auto simp: to_string_def)

lemma stoi_to_string:
  assumes "printable_int n"
  shows "stoi (to_string n) = Some n"
proof -
  have n: "0 \<le> n" "in_int32 n" using assms by (auto simp: printable_int_def)
  note ds = to_string_digits(1) [OF n(1)] to_string_digits(2) [of n]
  obtain c cs where c: "to_string n = c # cs" using ds(2) by (cases "to_string n") auto
  then have "is_digit c" using ds by simp
  then have "\<not> is_space c" "c \<noteq> CHR ''-''" "c \<noteq> CHR ''+''" by (auto simp: is_digit_def is_space_def)
  moreover have "takeWhile is_digit (c # cs) = c # cs" using ds(1) unfolding c by (simp add: takeWhile_eq_all_conv list_all_iff)
  moreover have "digits_val (c # cs) = n" using n(1) unfolding c [symmetric] by (simp add: to_string_def digits_val_nat_digits)
  ultimately show ?thesis using n(2) unfolding stoi_def strtol10_def c by simp
qed

lemma digits_avoid: "0 \<le> n \<Longrightarrow> \<not> is_digit c \<Longrightarrow> c \<notin> set (to_string n)"
  using to_string_digits(1) [of n] by (auto simp: list_all_iff)

lemma not_digits: "\<not> is_digit CHR '',''" "\<not> is_digit CHR '' ''" "\<not> is_digit CHR ''@''" "\<not> is_digit CHR ''-''" "\<not> is_digit CHR ''+''"
  "\<not> is_digit CHR 0x0A" "\<not> is_digit CHR 0x0D"
  by (simp_all add: is_digit_def)

lemma takeWhile_until: "c \<notin> set a \<Longrightarrow> takeWhile (\<lambda>x. x \<noteq> c) (a @ c # b) = a"
  by (rule takeWhile_append_neq) (auto simp: list_all_iff)

lemma parse_range:
  assumes "printable_int s" "printable_int n" "m = CHR ''-'' \<or> m = CHR ''+''"
  shows "parse_hunk_start (m # render_range s n) = s" "parse_hunk_count (m # render_range s n) = n"
    "has_comma (m # render_range s n)" "CHR '' '' \<notin> set (m # render_range s n)"
proof -
  have nn: "0 \<le> s" "0 \<le> n" using assms by (auto simp: printable_int_def)
  have d: "drop_sign (m # render_range s n) = to_string s @ CHR '','' # to_string n" using assms(3) by (auto simp: drop_sign_def render_range_def)
  have b: "before_comma (to_string s @ CHR '','' # to_string n) = to_string s"
    unfolding before_comma_def by (rule takeWhile_until [OF digits_avoid [OF nn(1) not_digits(1)]])
  show "parse_hunk_start (m # render_range s n) = s"
    unfolding parse_hunk_start_def d b using assms(1) by (simp add: stoi_to_string)
  show "parse_hunk_count (m # render_range s n) = n"
    unfolding parse_hunk_count_def Let_def d after_comma_def b using assms(2) by (simp add: stoi_to_string has_comma_def to_string_digits)
  show "has_comma (m # render_range s n)" by (simp add: has_comma_def render_range_def)
  show "CHR '' '' \<notin> set (m # render_range s n)"
    using assms(3) digits_avoid [OF nn(1) not_digits(2)] digits_avoid [OF nn(2) not_digits(2)] by (auto simp: render_range_def)
qed

lemma find_sub_fresh: "c \<notin> set a \<Longrightarrow> find_sub (c # n) (a @ c # n @ b) = Some (length a)"
  by (induction a) (auto intro: find_sub_prefix)

lemma rstrip_chars_id: "s = [] \<or> last s \<notin> cs \<Longrightarrow> rstrip_chars cs s = s"
  by (cases s rule: rev_cases) (auto simp: rstrip_chars_def)

lemma rstrip_one: "c \<in> cs \<Longrightarrow> s = [] \<or> last s \<notin> cs \<Longrightarrow> rstrip_chars cs (s @ [c]) = s"
  using rstrip_chars_id [of s cs] by (simp add: rstrip_chars_def)

lemma header_body_until:
  assumes "drop 2 raw = a @ ''@@''" "CHR ''@'' \<notin> set a"
  shows "hunk_header_body raw = rstrip_chars {CHR '' ''} (dropWhile (\<lambda>c. c = CHR '' '') a)"
  using find_sub_fresh [OF assms(2), of "''@''" "[]"] unfolding hunk_header_body_def Let_def assms(1) by simp

lemma parse_header:
  assumes "plain_hunk h"
  shows "parse_hunk_header (render_header h) = Some (h\<lparr>h_lines := []\<rparr>)"
proof -
  let ?o = "CHR ''-'' # render_range (h_old_start h) (h_old_count h)"
  let ?n = "CHR ''+'' # render_range (h_new_start h) (h_new_count h)"
  have pr: "printable_int (h_old_start h)" "printable_int (h_old_count h)" "printable_int (h_new_start h)" "printable_int (h_new_count h)"
    using assms by (auto simp: plain_hunk_def)
  note ro = parse_range [OF pr(1,2), of "CHR ''-''", OF disjI1 [OF refl]]
  note rn = parse_range [OF pr(3,4), of "CHR ''+''", OF disjI2 [OF refl]]
  have nn: "0 \<le> h_old_start h" "0 \<le> h_old_count h" "0 \<le> h_new_start h" "0 \<le> h_new_count h" using pr by (auto simp: printable_int_def)
  let ?a = "CHR '' '' # ?o @ CHR '' '' # ?n @ '' ''"
  have "CHR ''@'' \<notin> set ?a"
    using digits_avoid [OF _ not_digits(3)] nn by (auto simp: render_range_def)
  moreover have "drop 2 (render_header h) = ?a @ ''@@''" by (simp add: render_header_def)
  ultimately have hb: "hunk_header_body (render_header h) = rstrip_chars {CHR '' ''} (dropWhile (\<lambda>c. c = CHR '' '') ?a)"
    by (intro header_body_until)
  have "last ?n \<noteq> CHR '' ''"
    using rn(4) last_in_set [of ?n] by (metis list.distinct(1))
  then have body: "hunk_header_body (render_header h) = ?o @ CHR '' '' # ?n"
    unfolding hb using rstrip_one [of "CHR '' ''" "{CHR '' ''}" "?o @ CHR '' '' # ?n"] by simp
  have old: "takeWhile (\<lambda>c. c \<noteq> CHR '' '') (?o @ CHR '' '' # ?n) = ?o" by (rule takeWhile_until [OF ro(4)])
  have new: "takeWhile (\<lambda>c. c \<noteq> CHR '' '') (drop (length ?o + 1) (?o @ CHR '' '' # ?n)) = ?n"
    using rn(4) by (simp add: takeWhile_eq_all_conv) metis
  show ?thesis unfolding parse_hunk_header_def Let_def body old new ro rn using nn ro(3) rn(3) by (simp add: not_less)
qed

lemma segments_plain: "list_all (\<lambda>c. \<not> is_sep c) s \<Longrightarrow> segments s = [s]"
  by (induction s) auto

lemma segments_sep: "list_all (\<lambda>c. \<not> is_sep c) s \<Longrightarrow> segments (s @ CHR ''/'' # r) = s # segments r"
  by (induction s) (auto simp: is_sep_def)

lemma plain_no_sep: "plain_segment s \<Longrightarrow> list_all (\<lambda>c. \<not> is_sep c) s"
  by (auto simp: plain_segment_def list_all_iff is_sep_def)

lemma segments_join: "list_all plain_segment ss \<Longrightarrow> ss \<noteq> [] \<Longrightarrow> segments (join_segments ss) = ss"
  by (induction ss rule: join_segments.induct) (auto simp: segments_plain segments_sep plain_no_sep)

lemma join_segments_start:
  assumes "list_all plain_segment ss" "ss \<noteq> []"
  shows "join_segments ss = hd ss @ (if tl ss = [] then [] else CHR ''/'' # join_segments (tl ss))"
  using assms by (cases ss rule: join_segments.cases) auto

lemma join_segments_chars:
  "list_all plain_segment ss \<Longrightarrow> c \<in> set (join_segments ss) \<Longrightarrow> c \<notin> {CHR 0x5C, CHR 0x09, CHR 0x0D, CHR 0x0A, CHR '' '', CHR 0x22, CHR '':''}"
  by (induction ss rule: join_segments.induct) (auto simp: plain_segment_def list_all_iff)

lemma strip_dot_slash_id: "s = [] \<or> hd s \<noteq> CHR ''.'' \<or> (2 \<le> length s \<longrightarrow> s ! 1 \<noteq> CHR ''/'') \<Longrightarrow> strip_dot_slash s = s"
  by (cases s rule: strip_dot_slash.cases) auto

lemma join_segments_no_dot:
  assumes "list_all plain_segment ss" "ss \<noteq> []"
  shows "join_segments ss \<noteq> []" "\<not> is_sep (hd (join_segments ss))" "strip_dot_slash (join_segments ss) = join_segments ss"
proof -
  obtain s r where ss: "ss = s # r" "plain_segment s" using assms by (cases ss) auto
  then obtain c cs where s: "s = c # cs" "\<not> is_sep c" using plain_no_sep [OF ss(2)] by (cases s) (auto simp: plain_segment_def)
  note st = join_segments_start [OF assms, unfolded ss(1) list.sel s]
  show "join_segments ss \<noteq> []" "\<not> is_sep (hd (join_segments ss))" unfolding ss(1) s st using s(2) by simp_all
  have "c = CHR ''.'' \<Longrightarrow> cs \<noteq> [] \<and> hd cs \<noteq> CHR ''/''"
    using ss(2) plain_no_sep [OF ss(2)] unfolding s by (cases cs) (auto simp: plain_segment_def is_sep_def)
  then show "strip_dot_slash (join_segments ss) = join_segments ss" unfolding ss(1) s st
    by (intro strip_dot_slash_id) (cases cs; auto)
qed

lemma strip_prefixed:
  assumes "list_all plain_segment ss" "ss \<noteq> []" "m = CHR ''a'' \<or> m = CHR ''b''"
  shows "strip_path_prefix (m # CHR ''/'' # join_segments ss) = join_segments ss"
proof -
  let ?j = "join_segments ss" and ?r = "m # CHR ''/'' # join_segments ss"
  note nd = join_segments_no_dot [OF assms(1,2)]
  have chars: "c \<in> set ?r \<Longrightarrow> c \<notin> {CHR 0x09, CHR 0x0D, CHR '' '', CHR 0x22}" for c
    using join_segments_chars [OF assms(1), of c] assms(3) by auto
  have l: "last ?r \<notin> {CHR 0x09, CHR 0x0D, CHR '' '', CHR 0x22}" by (rule chars) (metis last_in_set list.distinct(1))
  have r1: "rstrip_chars {CHR 0x0D, CHR '' ''} ?r = ?r" "rstrip_chars {CHR '' ''} ?r = ?r" using l by (auto intro!: rstrip_chars_id)
  have r2: "takeWhile (\<lambda>c. c \<noteq> CHR 0x09) ?r = ?r" using chars by (auto simp: takeWhile_eq_all_conv)
  have r3: "unquote ?r = ?r" using l by (simp add: unquote_def)
  have r4: "?r \<noteq> ''/dev/null''" "\<not> is_sep (hd ?r)" using assms(3) by (auto simp: is_sep_def)
  have "filter (\<lambda>s. s \<noteq> [] \<and> s \<noteq> ''.'') ss = ss" using assms(1) by (auto simp: filter_id_conv plain_segment_def list_all_iff)
  then have r5: "collapse_segments ?j = ?j" using segments_join [OF assms(1,2)] by (simp add: collapse_segments_def)
  have r6: "(if 2 \<le> length ?r \<and> ?r ! 1 = CHR ''/'' \<and> (hd ?r = CHR ''a'' \<or> hd ?r = CHR ''b'') then drop 2 ?r else ?r) = ?j"
    using assms(3) by simp
  have r7: "hd ?j \<noteq> CHR ''/''" using nd(2) by (auto simp: is_sep_def)
  show ?thesis unfolding strip_path_prefix_def Let_def r1 r2 r3 r6 nd(3) r5 using r4 r7 by simp
qed

lemma plain_path_no_traversal:
  assumes "list_all plain_segment ss" "ss \<noteq> []"
  shows "\<not> path_has_traversal (join_segments ss)"
proof -
  have "''..'' \<notin> set ss" using assms(1) by (auto simp: list_all_iff plain_segment_def)
  moreover have "2 \<le> length (join_segments ss) \<Longrightarrow> join_segments ss ! 1 \<noteq> CHR '':''"
    using join_segments_chars [OF assms(1), of "join_segments ss ! 1"] by auto
  ultimately show ?thesis using join_segments_no_dot [OF assms] segments_join [OF assms] by (auto simp: path_has_traversal_def)
qed

lemma split_nl_line: "CHR 0x0A \<notin> set l \<Longrightarrow> split_nl (l @ CHR 0x0A # r) = l # split_nl r"
  by (induction l) auto

lemma split_nl_join: "\<forall>l\<in>set ls. CHR 0x0A \<notin> set l \<Longrightarrow> ls \<noteq> [] \<Longrightarrow> split_nl (join_lines ls True) = ls @ [[]]"
  by (induction ls True rule: join_lines.induct) (auto simp: split_nl_line)

lemma parse_lines_append:
  "parse_lines (as @ bs) st = (case parse_lines as st of Inl e \<Rightarrow> Inl e | Inr st' \<Rightarrow> parse_lines bs st')"
  by (induction as arbitrary: st) (auto split: sum.splits)

lemma parse_body_line:
  assumes "plain_line l" "ps_in_hunk st"
  shows "parse_line (render_line l) st = Inr (st\<lparr>ps_current := (ps_current st)\<lparr>h_lines := h_lines (ps_current st) @ [l]\<rparr>\<rparr>)"
proof -
  have r: "rstrip_chars {CHR 0x0D} (render_line l) = render_line l"
    using assms(1) by (intro rstrip_chars_id) (auto simp: render_line_def marker_def plain_line_def split: hunk_tag.splits)
  show ?thesis
    using assms unfolding parse_line_def Let_def r
    by (cases "hl_tag l") (simp_all add: render_line_def marker_def plain_line_def hunk_body_line_def)
qed

lemma parse_body:
  "list_all plain_line ls \<Longrightarrow> ps_in_hunk st \<Longrightarrow>
   parse_lines (map render_line ls) st = Inr (st\<lparr>ps_current := (ps_current st)\<lparr>h_lines := h_lines (ps_current st) @ ls\<rparr>\<rparr>)"
  by (induction ls arbitrary: st) (simp_all add: parse_body_line)

lemma parse_header_line:
  assumes "plain_hunk h"
  shows "parse_line (render_header h) st = Inr ((flush_hunk st)\<lparr>ps_current := h\<lparr>h_lines := []\<rparr>, ps_in_hunk := True\<rparr>)"
proof -
  have r: "rstrip_chars {CHR 0x0D} (render_header h) = render_header h" by (intro rstrip_chars_id) (simp add: render_header_def)
  have "\<exists>t. render_header h = CHR ''@'' # CHR ''@'' # t" by (simp add: render_header_def)
  then obtain t where t: "render_header h = CHR ''@'' # CHR ''@'' # t" by blast
  show ?thesis unfolding parse_line_def Let_def r parse_header [OF assms] unfolding t by simp
qed

lemma parse_hunk:
  assumes "plain_hunk h"
  shows "parse_lines (render_hunk h) st = Inr ((flush_hunk st)\<lparr>ps_current := h, ps_in_hunk := True\<rparr>)"
proof -
  have "list_all plain_line (h_lines h)" using assms by (simp add: plain_hunk_def)
  then show ?thesis unfolding render_hunk_def by (simp add: parse_header_line [OF assms] parse_body)
qed

lemma parse_hunks:
  "list_all plain_hunk hs \<Longrightarrow> \<exists>st'. parse_lines (concat (map render_hunk hs)) st = Inr st'
     \<and> ps_out (flush_hunk st') = (ps_out (flush_hunk st))\<lparr>pd_hunks := pd_hunks (ps_out (flush_hunk st)) @ hs\<rparr>"
proof (induction hs arbitrary: st)
  case (Cons h hs)
  let ?st = "(flush_hunk st)\<lparr>ps_current := h, ps_in_hunk := True\<rparr>"
  obtain st' where st': "parse_lines (concat (map render_hunk hs)) ?st = Inr st'"
    "ps_out (flush_hunk st') = (ps_out (flush_hunk ?st))\<lparr>pd_hunks := pd_hunks (ps_out (flush_hunk ?st)) @ hs\<rparr>"
    using Cons.IH [of ?st] Cons.prems by auto
  have "ps_out (flush_hunk ?st) = (ps_out (flush_hunk st))\<lparr>pd_hunks := pd_hunks (ps_out (flush_hunk st)) @ [h]\<rparr>"
    by (simp add: flush_hunk_def)
  then have "ps_out (flush_hunk st') = (ps_out (flush_hunk st))\<lparr>pd_hunks := pd_hunks (ps_out (flush_hunk st)) @ h # hs\<rparr>"
    using st'(2) by simp
  then show ?case using Cons.prems st'(1) by (auto simp: parse_lines_append parse_hunk)
qed simp

lemma parse_file_headers:
  assumes "list_all plain_segment ss" "ss \<noteq> []"
  shows "parse_lines [''--- a/'' @ join_segments ss, ''+++ b/'' @ join_segments ss] init_parse
    = Inr (init_parse\<lparr>ps_out := empty_parsed\<lparr>pd_old_path := join_segments ss, pd_new_path := join_segments ss\<rparr>,
                      ps_saw_file := True, ps_file_headers := 1\<rparr>)"
proof -
  have l: "join_segments ss \<noteq> []" "last (join_segments ss) \<noteq> CHR 0x0D"
    using join_segments_no_dot(1) [OF assms] join_segments_chars [OF assms(1), of "last (join_segments ss)"] by auto
  have r: "rstrip_chars {CHR 0x0D} (''--- a/'' @ join_segments ss) = ''--- a/'' @ join_segments ss"
    "rstrip_chars {CHR 0x0D} (''+++ b/'' @ join_segments ss) = ''+++ b/'' @ join_segments ss"
    using l by (auto intro!: rstrip_chars_id)
  have "parse_line (''--- a/'' @ join_segments ss) init_parse = Inr (init_parse\<lparr>ps_file_headers := 1, ps_saw_file := True,
      ps_out := empty_parsed\<lparr>pd_old_path := join_segments ss\<rparr>\<rparr>)"
    unfolding parse_line_def Let_def r by (simp add: init_parse_def flush_hunk_def strip_prefixed [OF assms])
  moreover have "parse_line (''+++ b/'' @ join_segments ss) st = Inr (st\<lparr>ps_saw_file := True, ps_out := (ps_out st)\<lparr>pd_new_path := join_segments ss\<rparr>\<rparr>)" for st
    unfolding parse_line_def Let_def r by (simp add: strip_prefixed [OF assms])
  ultimately show ?thesis by simp
qed

lemma render_no_newline:
  assumes "list_all plain_segment ss" "list_all plain_hunk hs"
    "l \<in> set ([''--- a/'' @ join_segments ss, ''+++ b/'' @ join_segments ss] @ concat (map render_hunk hs))"
  shows "CHR 0x0A \<notin> set l"
proof -
  have "CHR 0x0A \<notin> set (join_segments ss)" using join_segments_chars [OF assms(1)] by auto
  moreover have "CHR 0x0A \<notin> set (render_header h)" if "plain_hunk h" for h
    using that digits_avoid [OF _ not_digits(6)] by (auto simp: plain_hunk_def printable_int_def render_header_def render_range_def)
  moreover have "CHR 0x0A \<notin> set (render_line x)" if "plain_hunk h" "x \<in> set (h_lines h)" for h x
    using that by (cases "hl_tag x") (auto simp: plain_hunk_def list_all_iff plain_line_def render_line_def marker_def)
  ultimately show ?thesis using assms(2,3) by (auto simp: list_all_iff render_hunk_def)
qed

lemma render_patch_ne: "render_patch ss hs \<noteq> []"
  by (cases "concat (map render_hunk hs)") (simp_all add: render_patch_def)

lemma parse_render:
  assumes "list_all plain_segment ss" "ss \<noteq> []" "list_all plain_hunk hs" "hs \<noteq> []"
  shows "parse_unified_diff (render_patch ss hs)
    = empty_parsed\<lparr>pd_old_path := join_segments ss, pd_new_path := join_segments ss, pd_hunks := hs\<rparr>"
proof -
  let ?fh = "[''--- a/'' @ join_segments ss, ''+++ b/'' @ join_segments ss]" and ?body = "concat (map render_hunk hs)"
  let ?st = "init_parse\<lparr>ps_out := empty_parsed\<lparr>pd_old_path := join_segments ss, pd_new_path := join_segments ss\<rparr>,
                      ps_saw_file := True, ps_file_headers := 1\<rparr>"
  have sp: "split_nl (render_patch ss hs) = ?fh @ ?body @ [[]]"
    unfolding render_patch_def using split_nl_join [of "?fh @ ?body"] render_no_newline [OF assms(1,3)] by simp
  note ne = render_patch_ne [of ss hs]
  obtain st' where st': "parse_lines ?body ?st = Inr st'"
    "ps_out (flush_hunk st') = (ps_out (flush_hunk ?st))\<lparr>pd_hunks := pd_hunks (ps_out (flush_hunk ?st)) @ hs\<rparr>"
    using parse_hunks [OF assms(3)] by blast
  have "parse_line [] st' = Inr st'" by (simp add: parse_line_def rstrip_chars_def hunk_body_line_def)
  then have all: "parse_lines (split_nl (render_patch ss hs)) init_parse = Inr st'"
    unfolding sp parse_lines_append parse_file_headers [OF assms(1,2)] sum.case st'(1) by simp
  have out: "ps_out (flush_hunk st') = empty_parsed\<lparr>pd_old_path := join_segments ss, pd_new_path := join_segments ss, pd_hunks := hs\<rparr>"
    unfolding st'(2) by (simp add: flush_hunk_def init_parse_def empty_parsed_def)
  show ?thesis unfolding parse_unified_diff_def all sum.case out Let_def
    using ne assms(4) join_segments_no_dot(1) [OF assms(1,2)] plain_path_no_traversal [OF assms(1,2)]
    by (simp add: patch_target_def empty_parsed_def)
qed

text \<open>C19. The parser reads back a printed single-file patch: same path on both sides, same hunks, no error.\<close>

theorem printed_patch_parses:
  assumes "list_all plain_segment ss" "ss \<noteq> []" "list_all plain_hunk hs" "hs \<noteq> []"
  shows "parse_unified_diff (render_patch ss hs)
    = \<lparr>pd_old_path = join_segments ss, pd_new_path = join_segments ss, pd_is_new_file = False, pd_is_delete = False,
       pd_hunks = hs, pd_error = []\<rparr>"
  using parse_render [OF assms] by (simp add: empty_parsed_def)

definition sample_hunk :: DiffHunk where
  "sample_hunk = \<lparr>h_old_start = 1, h_old_count = 2, h_new_start = 1, h_new_count = 2,
     h_lines = [\<lparr>hl_tag = Context, hl_text = ''int x;''\<rparr>, \<lparr>hl_tag = Remove, hl_text = ''x++;''\<rparr>, \<lparr>hl_tag = Add, hl_text = ''x += 2;''\<rparr>]\<rparr>"

lemma sample_plain: "list_all plain_segment [''src'', ''a.c'']" "list_all plain_hunk [sample_hunk]"
  by (simp_all add: plain_segment_def plain_hunk_def sample_hunk_def printable_int_def in_int32_def int_limits plain_line_def)

theorem printed_patch_parses_witness:
  "pd_hunks (parse_unified_diff (render_patch [''src'', ''a.c''] [sample_hunk])) = [sample_hunk]
   \<and> pd_new_path (parse_unified_diff (render_patch [''src'', ''a.c''] [sample_hunk])) = ''src/a.c''"
  using printed_patch_parses [OF sample_plain(1) _ sample_plain(2)] by simp

section \<open>Applying a printed edit script\<close>

lemma apply_edit:
  assumes "parse_unified_diff patch = p" "pd_error p = []" "\<not> pd_is_delete p"
    and "resolve_workspace_path env (patch_target p) root = Inr path" "\<not> de_is_directory env path"
    and "fs path = Some pre" "length pre \<le> kMaxDiffFileBytes" "de_read_error env path = None" "de_write_error env path = None"
    and "apply_hunks (bottom_up (pd_hunks p)) (split_lines_keep_nl pre) = Inr ls"
  shows "\<exists>r. apply_unified_diff env patch root fs = (r, fs(path \<mapsto> join_lines ls ((pre = [] \<or> last pre = CHR 0x0A) \<and> ls \<noteq> []))) \<and> dr_ok r"
  using assms by (simp add: apply_unified_diff_def Let_def edit_by_patch_def write_post_def not_less)

text \<open>
  C18. A patch printed from an edit script of the file, with headers that name the places of its
  hunks, turns the old text into the new text: the bottom-up splicing refines the simultaneous
  replacement of every old side by the new one, and the final newline is kept.
\<close>

theorem apply_refines_edit_script:
  assumes "list_all plain_segment ss" "ss \<noteq> []" "list_all (\<lambda>e. plain_hunk (snd e)) es" "es \<noteq> []"
    and "headers_ok 0 es" "sorted_wrt (<) (map (\<lambda>e. h_old_start (snd e)) es)"
    and "resolve_workspace_path env (join_segments ss) root = Inr path" "\<not> de_is_directory env path"
    and "fs path = Some pre" "length pre \<le> kMaxDiffFileBytes" "de_read_error env path = None" "de_write_error env path = None"
    and "split_lines_keep_nl pre = old_text es tail"
  shows "\<exists>r. apply_unified_diff env (render_patch ss (map snd es)) root fs
           = (r, fs(path \<mapsto> join_lines (new_text es tail) ((pre = [] \<or> last pre = CHR 0x0A) \<and> new_text es tail \<noteq> []))) \<and> dr_ok r"
proof -
  let ?p = "empty_parsed\<lparr>pd_old_path := join_segments ss, pd_new_path := join_segments ss, pd_hunks := map snd es\<rparr>"
  have p: "parse_unified_diff (render_patch ss (map snd es)) = ?p"
    using assms(1-4) by (intro parse_render) (auto simp: list_all_iff)
  have "bottom_up (map snd es) = rev (map snd es)" using assms(6) by (intro bottom_up_rev) (simp add: comp_def)
  then have "apply_hunks (bottom_up (pd_hunks ?p)) (split_lines_keep_nl pre) = Inr (new_text es tail)"
    unfolding assms(13) using apply_rev_script [OF assms(5)] by simp
  moreover have "patch_target ?p = join_segments ss" by (simp add: patch_target_def empty_parsed_def)
  ultimately show ?thesis using assms(7-12) by (intro apply_edit [OF p]) (simp_all add: empty_parsed_def)
qed

definition sample_env :: diff_env where
  "sample_env = \<lparr>de_canonical_root = Inr, de_canonicalise = (\<lambda>root rel. Inr (root @ ''/'' @ rel)), de_is_directory = (\<lambda>_. False),
     de_read_error = Map.empty, de_write_error = Map.empty, de_remove_error = Map.empty, de_filename = id\<rparr>"

definition sample_file :: string where
  "sample_file = join_lines [''int x;'', ''x++;'', ''done'', ''x++;'', ''eof''] True"

lemma sample_file_facts:
  "split_lines_keep_nl sample_file = old_text [([], sample_hunk)] [''done'', ''x++;'', ''eof'']"
  "last sample_file = CHR 0x0A" "length sample_file \<le> kMaxDiffFileBytes"
  "resolve_workspace_path sample_env (join_segments [''src'', ''a.c'']) ''/w'' = Inr ''/w/src/a.c''"
  by (simp_all add: sample_file_def sample_hunk_def old_side_def resolve_workspace_path_def sample_env_def path_has_traversal_def
      is_sep_def is_alpha_def path_within_canonical_root_def kMaxDiffFileBytes_def)

lemma sample_applies:
  "dr_ok (fst (apply_unified_diff sample_env (render_patch [''src'', ''a.c''] [sample_hunk]) ''/w'' [''/w/src/a.c'' \<mapsto> sample_file]))"
proof -
  have "headers_ok 0 [([], sample_hunk)]" by (simp add: sample_hunk_def old_side_def)
  then have "apply_hunks (bottom_up [sample_hunk]) (split_lines_keep_nl sample_file) = Inr (new_text [([], sample_hunk)] [''done'', ''x++;'', ''eof''])"
    using apply_rev_script [of "[([], sample_hunk)]"] unfolding sample_file_facts(1) by (simp add: bottom_up_def)
  then obtain r fs where "apply_unified_diff sample_env (render_patch [''src'', ''a.c''] [sample_hunk]) ''/w'' [''/w/src/a.c'' \<mapsto> sample_file] = (r, fs)" "dr_ok r"
    using apply_edit [OF parse_render [OF sample_plain(1) _ sample_plain(2)], of sample_env "''/w''" "''/w/src/a.c''" "[''/w/src/a.c'' \<mapsto> sample_file]" sample_file]
      sample_file_facts(3,4) by (auto simp: empty_parsed_def patch_target_def sample_env_def)
  then show ?thesis by simp
qed

theorem apply_refines_edit_script_witness:
  "the (snd (apply_unified_diff sample_env (render_patch [''src'', ''a.c''] [sample_hunk]) ''/w'' [''/w/src/a.c'' \<mapsto> sample_file]) ''/w/src/a.c'')
     = join_lines [''int x;'', ''x += 2;'', ''done'', ''x++;'', ''eof''] True"
proof -
  let ?es = "[([], sample_hunk)]" and ?tail = "[''done'', ''x++;'', ''eof'']"
  have h: "headers_ok 0 ?es" by (simp add: sample_hunk_def old_side_def)
  have env: "\<not> de_is_directory sample_env ''/w/src/a.c''" "de_read_error sample_env ''/w/src/a.c'' = None" "de_write_error sample_env ''/w/src/a.c'' = None"
    by (simp_all add: sample_env_def)
  have new: "new_text ?es ?tail = [''int x;'', ''x += 2;'', ''done'', ''x++;'', ''eof'']"
    by (simp add: sample_hunk_def new_side_def)
  obtain r where "apply_unified_diff sample_env (render_patch [''src'', ''a.c''] (map snd ?es)) ''/w'' [''/w/src/a.c'' \<mapsto> sample_file]
      = (r, [''/w/src/a.c'' \<mapsto> sample_file](''/w/src/a.c'' \<mapsto> join_lines (new_text ?es ?tail)
               ((sample_file = [] \<or> last sample_file = CHR 0x0A) \<and> new_text ?es ?tail \<noteq> [])))"
    using apply_refines_edit_script [OF sample_plain(1) _ _ _ h _ sample_file_facts(4) env(1) _ sample_file_facts(3) env(2,3) sample_file_facts(1),
        of "[''/w/src/a.c'' \<mapsto> sample_file]"] sample_plain(2) by auto
  then show ?thesis using new sample_file_facts(2) by simp
qed

section \<open>Patches without a second header\<close>

lemma rstrip_prefix: "prefix p (rstrip_chars cs s) \<Longrightarrow> prefix p s"
proof -
  have "s = rstrip_chars cs s @ rev (takeWhile (\<lambda>c. c \<in> cs) (rev s))"
    unfolding rstrip_chars_def by (metis rev_append rev_rev_ident takeWhile_dropWhile_id)
  then have "prefix (rstrip_chars cs s) s" by (metis prefixI)
  then show "prefix p (rstrip_chars cs s) \<Longrightarrow> prefix p s" by (rule prefix_order.trans [rotated])
qed

lemma parse_line_no_new_header:
  assumes "\<not> prefix ''+++ '' l"
  shows "case parse_line l st of Inl out \<Rightarrow> pd_error out \<noteq> [] | Inr st' \<Rightarrow> pd_new_path (ps_out st') = pd_new_path (ps_out st)"
proof -
  have n: "\<not> prefix ''+++ '' (rstrip_chars {CHR 0x0D} l)" using assms rstrip_prefix by blast
  have [simp]: "pd_new_path (ps_out (flush_hunk st)) = pd_new_path (ps_out st)" by (simp add: flush_hunk_def)
  show ?thesis unfolding parse_line_def Let_def if_not_P [OF n]
    by (auto simp: parse_fail_def kMultiFileErr_def split: option.split)
qed

lemma parse_lines_no_new_header:
  "\<forall>l\<in>set ls. \<not> prefix ''+++ '' l \<Longrightarrow>
   (case parse_lines ls st of Inl out \<Rightarrow> pd_error out \<noteq> [] | Inr st' \<Rightarrow> pd_new_path (ps_out st') = pd_new_path (ps_out st))"
proof (induction ls arbitrary: st)
  case (Cons l ls)
  then show ?case using parse_line_no_new_header [of l st] Cons.IH by (cases "parse_line l st") (fastforce split: sum.splits)+
qed simp

text \<open>
  A patch without any \<open>+++\<close> line that the parser accepts is a deletion of the file its
  \<open>---\<close> line names; a header lost from an edit is not reported as malformed.
\<close>

lemma missing_new_header_is_delete:
  assumes "\<forall>l\<in>set (split_nl patch). \<not> prefix ''+++ '' l" "pd_error (parse_unified_diff patch) = []"
  shows "pd_is_delete (parse_unified_diff patch)"
proof -
  obtain st where st: "parse_lines (split_nl patch) init_parse = Inr st" "pd_new_path (ps_out st) = []" "patch \<noteq> []"
    using assms parse_lines_no_new_header [OF assms(1), of init_parse]
    by (cases "parse_lines (split_nl patch) init_parse"; cases "patch = []")
       (simp_all add: parse_unified_diff_def init_parse_def empty_parsed_def)
  have "pd_new_path (ps_out (flush_hunk st)) = []" using st(2) by (simp add: flush_hunk_def)
  then show ?thesis using assms(2) st(1,3)
    by (auto simp: parse_unified_diff_def Let_def parse_fail_def split: if_splits)
qed

definition headerless_patch :: string where
  "headerless_patch = join_lines [''--- a/notes'', ''@@ -1 +1 @@'', ''-x'', ''+y''] True"

end
