(* ===== verification/Diff_Proposals.thy ===== *)
theory Diff_Proposals
  imports Diff_Correct
begin

text \<open>
  The patch proposals of a pane (\<open>src/repl/diff_proposals.cpp\<close>) and the commands that work on them:
  \<open>apply_diff_proposal\<close> and \<open>handle_diff_decision\<close> of \<open>src/repl/interactive_prompts.cpp\<close>, and the
  \<open>/diff\<close> command of \<open>src/repl/slash_commands.cpp\<close>.  The root of the conversation's workspace is a
  parameter, a pair of a path (empty when there is none) and the error that explains it.
\<close>

section \<open>The store\<close>

datatype DiffProposalStatus = Pending | Applied | Rejected | Failed

record DiffProposal =
  p_id :: int
  p_path :: string
  p_patch :: string
  p_status :: DiffProposalStatus
  p_error :: string
  p_undo :: DiffUndoSnapshot

record DiffProposalStore =
  next_id :: int
  items :: "DiffProposal list"

definition empty_snapshot :: DiffUndoSnapshot where
  "empty_snapshot = \<lparr>us_resolved_path = [], us_had_file = False, us_pre_image = [], us_post_image = []\<rparr>"

definition status_label :: "DiffProposalStatus \<Rightarrow> string" where
  "status_label s = (case s of Pending \<Rightarrow> ''pending'' | Applied \<Rightarrow> ''applied'' | Rejected \<Rightarrow> ''rejected'' | Failed \<Rightarrow> ''failed'')"

definition add_patch :: "string \<Rightarrow> DiffProposalStore \<Rightarrow> DiffProposal option \<times> DiffProposalStore" where
  "add_patch patch st =
     (if patch = [] then (None, st)
      else let parsed = parse_unified_diff patch;
               p = \<lparr>p_id = next_id st,
                    p_path = (if pd_new_path parsed \<noteq> [] then pd_new_path parsed
                              else if pd_old_path parsed \<noteq> [] then pd_old_path parsed else ''(unknown)''),
                    p_patch = patch,
                    p_status = (if pd_error parsed \<noteq> [] then Failed else Pending),
                    p_error = pd_error parsed, p_undo = empty_snapshot\<rparr>
           in (Some p, \<lparr>next_id = next_id st + 1, items = items st @ [p]\<rparr>))"

definition get :: "int \<Rightarrow> DiffProposalStore \<Rightarrow> DiffProposal option" where
  "get i st = find (\<lambda>p. p_id p = i) (items st)"

definition latest_pending :: "DiffProposalStore \<Rightarrow> DiffProposal option" where
  "latest_pending st = find (\<lambda>p. p_status p = Pending) (rev (items st))"

definition latest_applied :: "DiffProposalStore \<Rightarrow> DiffProposal option" where
  "latest_applied st = find (\<lambda>p. p_status p = Applied) (rev (items st))"

text \<open>The loop the four markers share: the first item with the id is updated, or refused by \<open>None\<close>.\<close>

fun update_first :: "int \<Rightarrow> (DiffProposal \<Rightarrow> DiffProposal option) \<Rightarrow> DiffProposal list \<Rightarrow> bool \<times> DiffProposal list" where
  "update_first i f [] = (False, [])"
| "update_first i f (p # ps) =
     (if p_id p = i then (case f p of None \<Rightarrow> (False, p # ps) | Some q \<Rightarrow> (True, q # ps))
      else let (b, qs) = update_first i f ps in (b, p # qs))"

definition update_store :: "int \<Rightarrow> (DiffProposal \<Rightarrow> DiffProposal option) \<Rightarrow> DiffProposalStore \<Rightarrow> bool \<times> DiffProposalStore" where
  "update_store i f st = (let (b, ps) = update_first i f (items st) in (b, st\<lparr>items := ps\<rparr>))"

definition mark_rejected :: "int \<Rightarrow> DiffProposalStore \<Rightarrow> bool \<times> DiffProposalStore" where
  "mark_rejected i = update_store i (\<lambda>p. if p_status p \<noteq> Pending \<and> p_status p \<noteq> Failed then None
                                         else Some (p\<lparr>p_status := Rejected, p_error := []\<rparr>))"

definition mark_applied :: "int \<Rightarrow> DiffUndoSnapshot \<Rightarrow> DiffProposalStore \<Rightarrow> bool \<times> DiffProposalStore" where
  "mark_applied i u = update_store i (\<lambda>p. Some (p\<lparr>p_status := Applied, p_error := [], p_undo := u\<rparr>))"

definition mark_failed :: "int \<Rightarrow> string \<Rightarrow> DiffProposalStore \<Rightarrow> bool \<times> DiffProposalStore" where
  "mark_failed i e = update_store i (\<lambda>p. Some (p\<lparr>p_status := Failed, p_error := e\<rparr>))"

definition clear_undo_after_revert :: "int \<Rightarrow> DiffProposalStore \<Rightarrow> bool \<times> DiffProposalStore" where
  "clear_undo_after_revert i = update_store i (\<lambda>p. if p_status p \<noteq> Applied then None
     else Some (p\<lparr>p_status := Pending, p_undo := empty_snapshot, p_error := []\<rparr>))"

definition clear_store :: "DiffProposalStore \<Rightarrow> DiffProposalStore" where
  "clear_store st = \<lparr>next_id = 1, items = []\<rparr>"

section \<open>The commands\<close>

record diff_session =
  ds_store :: DiffProposalStore
  ds_files :: files

type_synonym ws_root = "string \<times> string"

definition dash :: string where "dash = [CHR '' '', CHR 0xE2, CHR 0x80, CHR 0x94, CHR '' '']"

definition result_snapshot :: "DiffApplyResult \<Rightarrow> DiffUndoSnapshot" where
  "result_snapshot r = \<lparr>us_resolved_path = dr_resolved_path r, us_had_file = dr_had_file r,
     us_pre_image = dr_pre_image r, us_post_image = dr_post_image r\<rparr>"

definition apply_diff_proposal :: "diff_env \<Rightarrow> ws_root \<Rightarrow> int \<Rightarrow> diff_session \<Rightarrow> string \<times> diff_session" where
  "apply_diff_proposal env root i s =
     (let n = to_string i in
      case get i (ds_store s) of
        None \<Rightarrow> (''ERR: no patch #'' @ n, s)
      | Some p \<Rightarrow>
          if p_status p = Applied then
            (''ERR: patch #'' @ n @ '' already applied'' @ dash @ ''/diff undo '' @ n @ '' to revert'', s)
          else if p_status p = Rejected then (''ERR: patch #'' @ n @ '' was rejected'', s)
          else if fst root = [] then
            (let detail = (if snd root = [] then ''conversation workspace unavailable'' else snd root)
             in (''ERR: apply #'' @ n @ '' failed: '' @ detail, s\<lparr>ds_store := snd (mark_failed i detail (ds_store s))\<rparr>))
          else
            (let (r, fs) = apply_unified_diff env (p_patch p) (fst root) (ds_files s) in
             if \<not> dr_ok r then
               (''ERR: apply #'' @ n @ '' failed: '' @ dr_error r,
                \<lparr>ds_store = snd (mark_failed i (dr_error r) (ds_store s)), ds_files = fs\<rparr>)
             else
               (''applied patch #'' @ n @ '': '' @ dr_path r @ (if dr_had_file r then [] else '' (created)'') @ [CHR 0x0A]
                  @ ''  /diff undo '' @ n @ '' to restore the previous contents'',
                \<lparr>ds_store = snd (mark_applied i (result_snapshot r) (ds_store s)), ds_files = fs\<rparr>)))"

datatype InteractiveDecision = Allow | AllowAll | Deny | Cancel

definition handle_diff_decision :: "diff_env \<Rightarrow> ws_root \<Rightarrow> int \<Rightarrow> InteractiveDecision \<Rightarrow> diff_session \<Rightarrow> string option \<times> diff_session" where
  "handle_diff_decision env root i d s =
     (if d = Allow \<or> d = AllowAll then (let (m, s') = apply_diff_proposal env root i s in (Some m, s'))
      else if d = Deny then
        (let (b, st) = mark_rejected i (ds_store s) in
         if b then (Some (''rejected patch #'' @ to_string i @ (case get i st of Some p \<Rightarrow> '': '' @ p_path p | None \<Rightarrow> [])), s\<lparr>ds_store := st\<rparr>)
         else (Some (''ERR: could not reject patch #'' @ to_string i), s\<lparr>ds_store := st\<rparr>))
      else (None, s))"

text \<open>The id argument of a subcommand: a number when a token is there, else the latest proposal of the wanted status.\<close>

definition resolve_id :: "string \<Rightarrow> bool \<Rightarrow> DiffProposalStore \<Rightarrow> int option" where
  "resolve_id tok prefer_pending st =
     (if tok \<noteq> [] then stoi tok
      else map_option p_id (if prefer_pending then latest_pending st else latest_applied st))"

text \<open>The subcommands; the message for a missing id is the usage text, here \<open>None\<close>.\<close>

definition diff_reject :: "string \<Rightarrow> diff_session \<Rightarrow> string option \<times> diff_session" where
  "diff_reject tok s =
     (case resolve_id tok True (ds_store s) of
        None \<Rightarrow> (None, s)
      | Some i \<Rightarrow>
          (case get i (ds_store s) of
             None \<Rightarrow> (Some (''ERR: no patch #'' @ to_string i), s)
           | Some p \<Rightarrow>
               (let (b, st) = mark_rejected i (ds_store s) in
                if \<not> b then (Some (''ERR: patch #'' @ to_string i @ '' is '' @ status_label (p_status p) @ dash
                                 @ ''only pending/failed can be rejected''), s\<lparr>ds_store := st\<rparr>)
                else (Some (''rejected patch #'' @ to_string i @ '': '' @ p_path p), s\<lparr>ds_store := st\<rparr>))))"

definition diff_apply :: "diff_env \<Rightarrow> ws_root \<Rightarrow> string \<Rightarrow> diff_session \<Rightarrow> string option \<times> diff_session" where
  "diff_apply env root tok s =
     (case resolve_id tok True (ds_store s) of
        None \<Rightarrow> (None, s)
      | Some i \<Rightarrow> (let (m, s') = apply_diff_proposal env root i s in (Some m, s')))"

definition diff_undo_id :: "diff_env \<Rightarrow> int \<Rightarrow> diff_session \<Rightarrow> string \<times> diff_session" where
  "diff_undo_id env i s =
     (let n = to_string i in
      case get i (ds_store s) of
        None \<Rightarrow> (''ERR: no patch #'' @ n, s)
      | Some p \<Rightarrow>
          if p_status p \<noteq> Applied then
            (''ERR: patch #'' @ n @ '' is '' @ status_label (p_status p) @ dash @ ''nothing to undo'', s)
          else
            (let (r, fs) = undo_unified_diff env (p_undo p) (ds_files s) in
             if \<not> dr_ok r then (''ERR: undo #'' @ n @ '' failed: '' @ dr_error r, s\<lparr>ds_files := fs\<rparr>)
             else (''undid patch #'' @ n @ '': '' @ p_path p @ '' (pending again)'',
                   \<lparr>ds_store = snd (clear_undo_after_revert i (ds_store s)), ds_files = fs\<rparr>)))"

definition diff_undo :: "diff_env \<Rightarrow> string \<Rightarrow> diff_session \<Rightarrow> string option \<times> diff_session" where
  "diff_undo env tok s =
     (case resolve_id tok False (ds_store s) of
        None \<Rightarrow> (None, s)
      | Some i \<Rightarrow> (let (m, s') = diff_undo_id env i s in (Some m, s')))"

text \<open>
  The review loop of \<open>/diff review\<close>: the answers of the prompt are a list of one decision for each
  proposal shown; a missing answer cancels.  The store is read again for every id.
\<close>

definition reviewable :: "DiffProposal \<Rightarrow> bool" where
  "reviewable p \<longleftrightarrow> p_status p = Pending \<or> p_status p = Failed"

fun review_loop :: "diff_env \<Rightarrow> ws_root \<Rightarrow> int list \<Rightarrow> InteractiveDecision list \<Rightarrow> diff_session \<Rightarrow> diff_session" where
  "review_loop env root [] ds s = s"
| "review_loop env root (i # is) ds s =
     (case get i (ds_store s) of
        None \<Rightarrow> review_loop env root is ds s
      | Some p \<Rightarrow>
          if \<not> reviewable p then review_loop env root is ds s
          else case ds of
            [] \<Rightarrow> s
          | d # ds' \<Rightarrow>
              if d = Allow \<or> d = AllowAll then review_loop env root is ds' (snd (apply_diff_proposal env root i s))
              else if d = Deny then review_loop env root is ds' (s\<lparr>ds_store := snd (mark_rejected i (ds_store s))\<rparr>)
              else s)"

definition run_interactive_review :: "diff_env \<Rightarrow> ws_root \<Rightarrow> int option \<Rightarrow> InteractiveDecision list \<Rightarrow> diff_session \<Rightarrow> diff_session" where
  "run_interactive_review env root only ds s =
     (case only of
        Some i \<Rightarrow> (case get i (ds_store s) of
                     None \<Rightarrow> s
                   | Some p \<Rightarrow> if reviewable p then review_loop env root [i] ds s else s)
      | None \<Rightarrow> review_loop env root (map p_id (filter reviewable (items (ds_store s)))) ds s)"

section \<open>Sessions\<close>

text \<open>One step of a session; the files may also change under it.\<close>

inductive diff_step :: "diff_env \<Rightarrow> ws_root \<Rightarrow> diff_session \<Rightarrow> diff_session \<Rightarrow> bool" for env root where
  add_step: "diff_step env root s (s\<lparr>ds_store := snd (add_patch patch (ds_store s))\<rparr>)"
| decide_step: "diff_step env root s (snd (handle_diff_decision env root i d s))"
| review_step: "diff_step env root s (run_interactive_review env root only ds s)"
| reject_step: "diff_step env root s (snd (diff_reject tok s))"
| apply_step: "diff_step env root s (snd (diff_apply env root tok s))"
| undo_step: "diff_step env root s (snd (diff_undo env tok s))"
| clear_step: "diff_step env root s (s\<lparr>ds_store := clear_store (ds_store s)\<rparr>)"
| external_step: "diff_step env root s (s\<lparr>ds_files := fs\<rparr>)"

inductive diff_reach :: "diff_env \<Rightarrow> ws_root \<Rightarrow> diff_session \<Rightarrow> bool" for env root where
  start: "diff_reach env root \<lparr>ds_store = \<lparr>next_id = 1, items = []\<rparr>, ds_files = fs\<rparr>"
| more: "diff_reach env root s \<Longrightarrow> diff_step env root s s' \<Longrightarrow> diff_reach env root s'"

text \<open>The proposals are numbered from 1 in order, and exactly the applied ones hold an undo snapshot.\<close>

definition proposal_ok :: "DiffProposal \<Rightarrow> bool" where
  "proposal_ok p \<longleftrightarrow> (if p_status p = Applied then us_resolved_path (p_undo p) \<noteq> [] else p_undo p = empty_snapshot)"

definition store_ok :: "DiffProposalStore \<Rightarrow> bool" where
  "store_ok st \<longleftrightarrow> map p_id (items st) = map int [1..<Suc (length (items st))] \<and> next_id st = int (length (items st)) + 1
     \<and> list_all proposal_ok (items st)"

lemma update_first_ids: "(\<And>p q. f p = Some q \<Longrightarrow> p_id q = p_id p) \<Longrightarrow> map p_id (snd (update_first i f ps)) = map p_id ps"
  by (induction ps) (auto split: option.splits prod.splits)

lemma update_first_set:
  "q \<in> set (snd (update_first i f ps)) \<Longrightarrow> q \<in> set ps \<or> (\<exists>p. find (\<lambda>p. p_id p = i) ps = Some p \<and> f p = Some q)"
  by (induction ps) (auto split: option.splits prod.splits if_splits)

lemma update_first_length [simp]: "length (snd (update_first i f ps)) = length ps"
  by (induction ps) (auto split: option.splits prod.splits)

lemma snd_update_store: "snd (update_store i f st) = st\<lparr>items := snd (update_first i f (items st))\<rparr>"
  by (simp add: update_store_def split: prod.splits)

lemma get_in: "get i st = Some p \<Longrightarrow> p \<in> set (items st) \<and> p_id p = i"
  by (auto simp: get_def find_Some_iff)

lemma update_store_ok:
  assumes "store_ok st" "\<And>p q. f p = Some q \<Longrightarrow> p_id q = p_id p"
    and "\<And>p q. get i st = Some p \<Longrightarrow> proposal_ok p \<Longrightarrow> f p = Some q \<Longrightarrow> proposal_ok q"
  shows "store_ok (snd (update_store i f st))"
proof -
  let ?ps = "snd (update_first i f (items st))"
  have ok: "proposal_ok p" if "p \<in> set (items st)" for p using assms(1) that by (auto simp: store_ok_def list_all_iff)
  have "proposal_ok q" if q: "q \<in> set ?ps" for q
  proof (cases "q \<in> set (items st)")
    case False
    then obtain p where p: "get i st = Some p" "f p = Some q" using update_first_set [OF q] unfolding get_def by blast
    then show ?thesis using assms(3) ok get_in by blast
  qed (rule ok)
  moreover have "map p_id ?ps = map p_id (items st)" by (rule update_first_ids) (rule assms(2))
  ultimately show ?thesis using assms(1) by (simp add: store_ok_def list_all_iff snd_update_store)
qed

lemma mark_rejected_ok: "store_ok st \<Longrightarrow> store_ok (snd (mark_rejected i st))"
  unfolding mark_rejected_def by (erule update_store_ok) (auto simp: proposal_ok_def split: if_splits)

lemma mark_applied_ok: "store_ok st \<Longrightarrow> us_resolved_path u \<noteq> [] \<Longrightarrow> store_ok (snd (mark_applied i u st))"
  unfolding mark_applied_def by (erule update_store_ok) (auto simp: proposal_ok_def)

lemma mark_failed_ok: "store_ok st \<Longrightarrow> get i st = Some p \<Longrightarrow> p_status p \<noteq> Applied \<Longrightarrow> store_ok (snd (mark_failed i e st))"
  unfolding mark_failed_def by (erule update_store_ok) (auto simp: proposal_ok_def)

lemma clear_undo_ok: "store_ok st \<Longrightarrow> store_ok (snd (clear_undo_after_revert i st))"
  unfolding clear_undo_after_revert_def by (erule update_store_ok) (auto simp: proposal_ok_def split: if_splits)

lemma add_patch_ok: "store_ok st \<Longrightarrow> store_ok (snd (add_patch patch st))"
  by (auto simp: add_patch_def Let_def store_ok_def proposal_ok_def)

lemma clear_store_ok: "store_ok (clear_store st)"
  by (simp add: clear_store_def store_ok_def)

lemma within_root_ne: "path_within_canonical_root root p \<Longrightarrow> root \<noteq> [] \<Longrightarrow> p \<noteq> []"
  by (auto simp: path_within_canonical_root_def)

lemma resolve_path_ne: "resolve_workspace_path env rel root = Inr path \<Longrightarrow> path \<noteq> []"
  unfolding resolve_workspace_path_def by (auto simp: within_root_ne split: if_splits sum.splits)

text \<open>What a successful apply reports of the file, before and after.\<close>

lemma apply_ok_shape:
  assumes "apply_unified_diff env patch root fs = (r, fs')" "dr_ok r"
  shows "dr_resolved_path r \<noteq> [] \<and> fs' = fs(dr_resolved_path r := fs' (dr_resolved_path r))
     \<and> (dr_had_file r \<longleftrightarrow> fs (dr_resolved_path r) \<noteq> None)
     \<and> (dr_had_file r \<longrightarrow> fs (dr_resolved_path r) = Some (dr_pre_image r))
     \<and> dr_post_image r = (case fs' (dr_resolved_path r) of Some c \<Rightarrow> c | None \<Rightarrow> [])
     \<and> (\<not> dr_had_file r \<longrightarrow> fs' (dr_resolved_path r) \<noteq> None)"
  using assms
  by (auto simp: apply_unified_diff_def Let_def no_result_def delete_by_patch_def edit_by_patch_def create_from_patch_def write_post_def
      resolve_path_ne split: if_splits sum.splits option.splits prod.splits)

lemma apply_proposal_ok: "store_ok (ds_store s) \<Longrightarrow> store_ok (ds_store (snd (apply_diff_proposal env root i s)))"
  by (auto simp: apply_diff_proposal_def Let_def result_snapshot_def mark_failed_ok
      dest: apply_ok_shape intro!: mark_applied_ok split: option.splits prod.splits)

lemma review_loop_ok: "store_ok (ds_store s) \<Longrightarrow> store_ok (ds_store (review_loop env root is ds s))"
  by (induction env root "is" ds s rule: review_loop.induct)
     (auto simp: apply_proposal_ok mark_rejected_ok split: option.splits list.splits)

lemma decision_ok: "store_ok (ds_store s) \<Longrightarrow> store_ok (ds_store (snd (handle_diff_decision env root i d s)))"
  using apply_proposal_ok [of s env root i] mark_rejected_ok [of "ds_store s" i]
  by (cases d; cases "apply_diff_proposal env root i s"; cases "mark_rejected i (ds_store s)") (simp_all add: handle_diff_decision_def)

lemma review_ok: "store_ok (ds_store s) \<Longrightarrow> store_ok (ds_store (run_interactive_review env root only ds s))"
  unfolding run_interactive_review_def by (auto simp: review_loop_ok simp del: review_loop.simps split: option.split)

lemma diff_reject_cases:
  "snd (diff_reject tok s) = s \<or> (\<exists>i. snd (diff_reject tok s) = s\<lparr>ds_store := snd (mark_rejected i (ds_store s))\<rparr>)"
proof (cases "resolve_id tok True (ds_store s)")
  case (Some i)
  then show ?thesis by (cases "get i (ds_store s)"; cases "mark_rejected i (ds_store s)") (auto simp: diff_reject_def intro!: exI [of _ i])
qed (simp add: diff_reject_def)

lemma diff_apply_cases: "snd (diff_apply env root tok s) = s \<or> (\<exists>i. snd (diff_apply env root tok s) = snd (apply_diff_proposal env root i s))"
proof (cases "resolve_id tok True (ds_store s)")
  case (Some i)
  then have "snd (diff_apply env root tok s) = snd (apply_diff_proposal env root i s)" by (simp add: diff_apply_def split: prod.split)
  then show ?thesis by blast
qed (simp add: diff_apply_def)

lemma undo_id_cases:
  "ds_store (snd (diff_undo_id env i s)) = ds_store s \<or> ds_store (snd (diff_undo_id env i s)) = snd (clear_undo_after_revert i (ds_store s))"
  by (auto simp: diff_undo_id_def Let_def split: option.split prod.split)

lemma diff_undo_cases: "snd (diff_undo env tok s) = s \<or> (\<exists>i. snd (diff_undo env tok s) = snd (diff_undo_id env i s))"
proof (cases "resolve_id tok False (ds_store s)")
  case (Some i)
  then have "snd (diff_undo env tok s) = snd (diff_undo_id env i s)" by (simp add: diff_undo_def split: prod.split)
  then show ?thesis by blast
qed (simp add: diff_undo_def)

lemma diff_step_ok: "diff_step env root s s' \<Longrightarrow> store_ok (ds_store s) \<Longrightarrow> store_ok (ds_store s')"
proof (induction rule: diff_step.induct)
  case (reject_step s tok)
  then show ?case using diff_reject_cases [of tok s] by (auto simp: mark_rejected_ok)
next
  case (apply_step s tok)
  then show ?case using diff_apply_cases [of env root tok s] by (auto simp: apply_proposal_ok)
next
  case (undo_step s tok)
  then show ?case using diff_undo_cases [of env tok s] undo_id_cases [of env _ s] by (metis clear_undo_ok)
qed (simp_all add: add_patch_ok decision_ok review_ok clear_store_ok)

text \<open>
  Whatever the commands, the decisions and the file changes of a session, the proposals stay
  numbered 1, 2, 3 in order, the next id is fresh, and a proposal holds an undo snapshot with a
  path exactly while it is applied.
\<close>

lemma proposals_numbered_and_undoable: "diff_reach env root s \<Longrightarrow> store_ok (ds_store s)"
proof (induction rule: diff_reach.induct)
  case (start fs)
  then show ?case by (simp add: store_ok_def)
next
  case (more s s')
  then show ?case using diff_step_ok by blast
qed

section \<open>Undo\<close>

definition quiet_env :: "diff_env \<Rightarrow> bool" where
  "quiet_env env \<longleftrightarrow> de_read_error env = Map.empty \<and> de_write_error env = Map.empty \<and> de_remove_error env = Map.empty"

lemma undo_restores:
  assumes "apply_unified_diff env patch root fs = (r, fs')" "dr_ok r" "quiet_env env"
  shows "\<exists>u. undo_unified_diff env (result_snapshot r) fs' = (u, fs) \<and> dr_ok u"
proof -
  let ?p = "dr_resolved_path r"
  note sh = apply_ok_shape [OF assms(1,2)]
  have upd: "fs'(?p := fs ?p) = fs" using sh by (metis fun_upd_triv fun_upd_upd)
  show ?thesis
  proof (cases "dr_had_file r")
    case True
    then show ?thesis using sh upd assms(3)
      by (auto simp: undo_unified_diff_def Let_def result_snapshot_def quiet_env_def)
  next
    case False
    then show ?thesis using sh upd assms(3)
      by (auto simp: undo_unified_diff_def Let_def result_snapshot_def quiet_env_def)
  qed
qed

lemma get_update:
  assumes "get i st = Some p" "f p = Some q" "p_id q = i"
  shows "get i (snd (update_store i f st)) = Some q"
proof -
  have "find (\<lambda>p. p_id p = i) ps = Some p \<Longrightarrow> find (\<lambda>p. p_id p = i) (snd (update_first i f ps)) = Some q" for ps
    using assms(2,3) by (induction ps) (auto split: prod.splits if_splits)
  then show ?thesis using assms(1) by (simp add: get_def snd_update_store)
qed

lemma update_back:
  assumes "get i st = Some p" "f p = Some q" "p_id q = i" "g q = Some p"
  shows "snd (update_store i g (snd (update_store i f st))) = st"
proof -
  have "find (\<lambda>p. p_id p = i) ps = Some p \<Longrightarrow> snd (update_first i g (snd (update_first i f ps))) = ps" for ps
    using assms(2-4) by (induction ps) (auto split: prod.splits if_splits)
  then show ?thesis using assms(1) by (simp add: get_def snd_update_store)
qed

definition fresh_proposal :: "int \<Rightarrow> diff_session \<Rightarrow> bool" where
  "fresh_proposal i s \<longleftrightarrow> (case get i (ds_store s) of Some p \<Rightarrow> p_status p = Pending \<and> p_error p = [] | None \<Rightarrow> False)"

definition applied_proposal :: "int \<Rightarrow> diff_session \<Rightarrow> bool" where
  "applied_proposal i s \<longleftrightarrow> (case get i (ds_store s) of Some p \<Rightarrow> p_status p = Applied | None \<Rightarrow> False)"

lemma apply_then_undo:
  assumes "store_ok (ds_store s)" "fresh_proposal i s" "applied_proposal i (snd (apply_diff_proposal env root i s))" "quiet_env env"
  shows "snd (diff_undo_id env i (snd (apply_diff_proposal env root i s))) = s"
proof -
  obtain p where p: "get i (ds_store s) = Some p" "p_status p = Pending" "p_error p = []"
    using assms(2) by (auto simp: fresh_proposal_def split: option.splits)
  then have pid: "p_id p = i" and pu: "p_undo p = empty_snapshot"
    using get_in assms(1) by (fastforce simp: store_ok_def list_all_iff proposal_ok_def)+
  have failed: "\<not> applied_proposal i (s\<lparr>ds_store := snd (mark_failed i e (ds_store s))\<rparr>)"
    "\<not> applied_proposal i \<lparr>ds_store = snd (mark_failed i e (ds_store s)), ds_files = fs\<rparr>" for e fs
    using get_update [OF p(1)] pid by (simp_all add: applied_proposal_def mark_failed_def)
  obtain r fs where a: "apply_unified_diff env (p_patch p) (fst root) (ds_files s) = (r, fs)" by fastforce
  let ?q = "p\<lparr>p_status := Applied, p_error := [], p_undo := result_snapshot r\<rparr>"
  let ?s = "\<lparr>ds_store = snd (mark_applied i (result_snapshot r) (ds_store s)), ds_files = fs\<rparr>"
  have ok: "dr_ok r" "snd (apply_diff_proposal env root i s) = ?s"
    using assms(3) p a failed
    by (auto simp: apply_diff_proposal_def Let_def split: if_splits)
  obtain u where u: "undo_unified_diff env (result_snapshot r) fs = (u, ds_files s)" "dr_ok u"
    using undo_restores [OF a ok(1) assms(4)] by blast
  have q: "get i (ds_store ?s) = Some ?q" using get_update [OF p(1)] pid by (simp add: mark_applied_def)
  have restored: "snd (clear_undo_after_revert i (ds_store ?s)) = ds_store s"
    unfolding clear_undo_after_revert_def mark_applied_def diff_session.simps
    by (rule update_back [OF p(1), of _ ?q]) (use p pid pu in simp_all)
  show ?thesis unfolding ok(2) diff_undo_id_def Let_def q using u restored by simp
qed

fun apply_all :: "diff_env \<Rightarrow> ws_root \<Rightarrow> int list \<Rightarrow> diff_session \<Rightarrow> diff_session" where
  "apply_all env root [] s = s"
| "apply_all env root (i # is) s = apply_all env root is (snd (apply_diff_proposal env root i s))"

fun undo_all :: "diff_env \<Rightarrow> int list \<Rightarrow> diff_session \<Rightarrow> diff_session" where
  "undo_all env [] s = s"
| "undo_all env (i # is) s = undo_all env is (snd (diff_undo_id env i s))"

text \<open>Every proposal of the list is pending when its turn comes, and its apply succeeds.\<close>

fun all_applied :: "diff_env \<Rightarrow> ws_root \<Rightarrow> int list \<Rightarrow> diff_session \<Rightarrow> bool" where
  "all_applied env root [] s = True"
| "all_applied env root (i # is) s =
     (let s' = snd (apply_diff_proposal env root i s)
      in fresh_proposal i s \<and> applied_proposal i s' \<and> all_applied env root is s')"

lemma undo_all_append: "undo_all env (as @ bs) s = undo_all env bs (undo_all env as s)"
  by (induction as arbitrary: s) auto

text \<open>
  C20. Undoing a run of applied patches in the opposite order gives back the session as it was, the
  files and the proposals: created files are gone, deleted files are back, edits are reverted, also
  when several patches touch one file.
\<close>

theorem undo_in_reverse_restores:
  assumes "store_ok (ds_store s)" "all_applied env root is s" "quiet_env env"
  shows "undo_all env (rev is) (apply_all env root is s) = s"
  using assms(1,2)
proof (induction "is" arbitrary: s)
  case (Cons i "is")
  let ?s = "snd (apply_diff_proposal env root i s)"
  have "undo_all env (rev is) (apply_all env root is ?s) = ?s"
    using Cons apply_proposal_ok [of s env root i] by (simp add: Let_def)
  then show ?case using Cons.prems apply_then_undo [OF Cons.prems(1) _ _ assms(3), of i root]
    by (simp add: undo_all_append Let_def)
qed simp

definition sample_session :: diff_session where
  "sample_session = \<lparr>ds_store = snd (add_patch (render_patch [''src'', ''a.c''] [sample_hunk]) \<lparr>next_id = 1, items = []\<rparr>),
     ds_files = [''/w/src/a.c'' \<mapsto> sample_file]\<rparr>"

lemma sample_session_store:
  "ds_store sample_session = \<lparr>next_id = 2, items = [\<lparr>p_id = 1, p_path = ''src/a.c'', p_patch = render_patch [''src'', ''a.c''] [sample_hunk],
     p_status = Pending, p_error = [], p_undo = empty_snapshot\<rparr>]\<rparr>"
  using parse_render [OF sample_plain(1) _ sample_plain(2)] by (simp add: sample_session_def add_patch_def render_patch_ne empty_parsed_def Let_def)

lemma sample_session_applied: "all_applied sample_env (''/w'', []) [1] sample_session"
proof -
  obtain r fs where r: "apply_unified_diff sample_env (render_patch [''src'', ''a.c''] [sample_hunk]) ''/w'' (ds_files sample_session) = (r, fs)" "dr_ok r"
    using sample_applies by (metis diff_session.select_convs(2) prod.collapse sample_session_def)
  have "fresh_proposal 1 sample_session" by (simp add: fresh_proposal_def sample_session_store get_def)
  moreover have "applied_proposal 1 (snd (apply_diff_proposal sample_env (''/w'', []) 1 sample_session))"
    using r by (simp add: applied_proposal_def apply_diff_proposal_def sample_session_store get_def mark_applied_def update_store_def Let_def)
  ultimately show ?thesis by simp
qed

theorem undo_in_reverse_restores_witness:
  "undo_all sample_env [1] (apply_all sample_env (''/w'', []) [1] sample_session) = sample_session
   \<and> all_applied sample_env (''/w'', []) [1] sample_session"
proof -
  have "store_ok (ds_store sample_session)" unfolding sample_session_def by (simp add: add_patch_ok clear_store_ok [unfolded clear_store_def])
  moreover have "quiet_env sample_env" by (simp add: quiet_env_def sample_env_def)
  ultimately show ?thesis using undo_in_reverse_restores [of sample_session sample_env "(''/w'', [])" "[1]"] sample_session_applied by simp
qed

end
