(* ===== verification/Writ_Parser.thy ===== *)
theory Writ_Parser
  imports Prelude
begin

text \<open>
  The writ parser (\<open>parse_agent_commands\<close> of \<open>src/commands.cpp\<close>): the commands an agent's reply
  carries, one per line or in blocks closed by a sentinel line, with fenced code skipped.  The
  stream of \<open>std::getline\<close> calls is the list of the lines still to read; going back with \<open>seekg\<close>
  is keeping the old list.
\<close>

section \<open>Lines\<close>

text \<open>The lines \<open>std::getline\<close> delivers: an empty piece after the last newline is not one.\<close>

fun getlines :: "string \<Rightarrow> string list" where
  "getlines [] = []"
| "getlines (c # cs) =
     (if c = CHR 0x0A then [] # getlines cs
      else case getlines cs of
             [] \<Rightarrow> [[c]]
           | l # ls \<Rightarrow> (c # l) # ls)"

definition concat_nl :: "string list \<Rightarrow> string" where
  "concat_nl ls = concat (map (\<lambda>l. l @ [CHR 0x0A]) ls)"

definition chomp :: "string \<Rightarrow> string" where
  "chomp s = (if s \<noteq> [] \<and> last s = CHR 0x0A then butlast s else s)"

definition pop_cr :: "string \<Rightarrow> string" where
  "pop_cr l = (if l \<noteq> [] \<and> last l = CHR 0x0D then butlast l else l)"

definition rtrim_cr :: "string \<Rightarrow> string" where
  "rtrim_cr l = rev (dropWhile (\<lambda>c. c = CHR '' '' \<or> c = CHR 0x0D) (rev l))"

definition first_token :: "string \<Rightarrow> string" where
  "first_token s = takeWhile (\<lambda>c. \<not> is_space c) (dropWhile is_space s)"

section \<open>Commands\<close>

record AgentCommand =
  c_name :: string
  c_args :: string
  c_content :: string
  c_truncated :: bool

definition mk_cmd :: "string \<Rightarrow> string \<Rightarrow> AgentCommand" where
  "mk_cmd n a = \<lparr>c_name = n, c_args = a, c_content = [], c_truncated = False\<rparr>"

definition kWritPrefixes :: "string list" where
  "kWritPrefixes = [''/todo'', ''/endtodo'', ''/agent '', ''/parallel'', ''/endparallel'', ''/pane '', ''/write'', ''/endwrite'',
     ''/read '', ''/list'', ''/map'', ''/search '', ''/fetch '', ''/browse '', ''/exec '', ''/mem'', ''/endmem'', ''/mcp '',
     ''/a2a'', ''/schedule'', ''/lesson'', ''/endlesson'', ''/advise'', ''/help'']"

definition starts_with_writ :: "string \<Rightarrow> bool" where
  "starts_with_writ l \<longleftrightarrow> list_ex (\<lambda>p. prefix p l \<or> (last p = CHR '' '' \<and> l = butlast p)) kWritPrefixes"

text \<open>What a line asks for: nothing, a command complete on its line, or a block to read.\<close>

datatype writ_line = NoWrit | OneLine AgentCommand | TodoAdd string | LessonBlock string | MemEntry string | ParallelBlock | WriteBlock string

definition has_arg :: "string \<Rightarrow> string \<Rightarrow> bool" where
  "has_arg p l \<longleftrightarrow> length p < length l \<and> take (length p) l = p"

definition lesson_line :: "string \<Rightarrow> writ_line" where
  "lesson_line head =
     (let f = first_token head in
      if f = ''list'' \<or> f = ''search'' \<or> f = ''delete'' \<or> CHR '':'' \<in> set head then OneLine (mk_cmd ''lesson'' head)
      else LessonBlock head)"

definition classify_line :: "string \<Rightarrow> writ_line" where
  "classify_line l =
     (if has_arg ''/fetch '' l then OneLine (mk_cmd ''fetch'' (drop 7 l))
      else if has_arg ''/search '' l then OneLine (mk_cmd ''search'' (drop 8 l))
      else if has_arg ''/browse '' l then OneLine (mk_cmd ''browse'' (drop 8 l))
      else if has_arg ''/read '' l then OneLine (mk_cmd ''read'' (drop 6 l))
      else if l = ''/list'' then OneLine (mk_cmd ''list'' [])
      else if l = ''/map'' \<or> has_arg ''/map '' l then
        OneLine (mk_cmd ''map'' (dropWhile (\<lambda>c. c = CHR '' '' \<or> c = CHR 0x09) (drop 5 l)))
      else if has_arg ''/mcp '' l then OneLine (mk_cmd ''mcp'' (drop 5 l))
      else if has_arg ''/a2a '' l then OneLine (mk_cmd ''a2a'' (drop 5 l))
      else if l = ''/a2a list'' then OneLine (mk_cmd ''a2a'' ''list'')
      else if l = ''/todo list'' then OneLine (mk_cmd ''todo'' ''list'')
      else if has_arg ''/todo add'' l then TodoAdd (drop 5 l)
      else if has_arg ''/todo '' l then OneLine (mk_cmd ''todo'' (drop 6 l))
      else if l = ''/lesson list'' then OneLine (mk_cmd ''lesson'' ''list'')
      else if has_arg ''/lesson '' l then lesson_line (drop 8 l)
      else if l = ''/schedule list'' then OneLine (mk_cmd ''schedule'' ''list'')
      else if has_arg ''/schedule '' l then OneLine (mk_cmd ''schedule'' (drop 10 l))
      else if has_arg ''/mem add entry'' l then MemEntry (drop 5 l)
      else if has_arg ''/mem '' l then OneLine (mk_cmd ''mem'' (drop 5 l))
      else if has_arg ''/agent '' l then OneLine (mk_cmd ''agent'' (drop 7 l))
      else if l = ''/parallel'' then ParallelBlock
      else if has_arg ''/pane '' l then OneLine (mk_cmd ''pane'' (drop 6 l))
      else if has_arg ''/advise '' l then OneLine (mk_cmd ''advise'' (drop 8 l))
      else if has_arg ''/exec '' l then OneLine (mk_cmd ''exec'' (drop 6 l))
      else if l = ''/help'' \<or> prefix ''/help '' l then OneLine (mk_cmd ''help'' (drop 6 l))
      else if has_arg ''/write '' l \<and> rtrim_cr (drop 7 l) \<noteq> [] then WriteBlock (rtrim_cr (drop 7 l))
      else NoWrit)"

section \<open>Blocks\<close>

text \<open>The lines up to the sentinel, whether it came, and the lines after it.\<close>

fun read_block :: "string \<Rightarrow> string list \<Rightarrow> string list \<times> bool \<times> string list" where
  "read_block stop [] = ([], False, [])"
| "read_block stop (l # ls) =
     (if pop_cr l = stop then ([], True, ls)
      else let (body, closed, rest) = read_block stop ls in (pop_cr l # body, closed, rest))"

definition block_cmd :: "string \<Rightarrow> string \<Rightarrow> string \<Rightarrow> string list \<Rightarrow> AgentCommand \<times> string list" where
  "block_cmd n a stop ls =
     (let (body, closed, rest) = read_block stop ls
      in (\<lparr>c_name = n, c_args = a, c_content = chomp (concat_nl body), c_truncated = \<not> closed\<rparr>, rest))"

text \<open>The block form of \<open>/todo add\<close> and \<open>/lesson\<close>: entered unless the next line is empty or a writ.\<close>

definition peek_block :: "string \<Rightarrow> string \<Rightarrow> string \<Rightarrow> string list \<Rightarrow> AgentCommand \<times> string list" where
  "peek_block n a stop ls =
     (case ls of
        [] \<Rightarrow> (mk_cmd n a, [])
      | l # _ \<Rightarrow> if pop_cr l = [] \<or> starts_with_writ (pop_cr l) then (mk_cmd n a, ls) else block_cmd n a stop ls)"

definition parallel_block :: "string list \<Rightarrow> AgentCommand \<times> string list" where
  "parallel_block ls =
     (let (body, closed, rest) = read_block ''/endparallel'' ls
      in (\<lparr>c_name = ''parallel'', c_args = [], c_content = concat_nl body, c_truncated = \<not> closed\<rparr>, rest))"

lemma read_block_rest: "length (snd (snd (read_block stop ls))) \<le> length ls"
  by (induction ls) (auto split: prod.split)

lemma block_cmd_rest: "length (snd (block_cmd n a stop ls)) \<le> length ls"
  using read_block_rest [of stop ls] by (cases "read_block stop ls") (simp add: block_cmd_def)

lemma peek_block_rest: "length (snd (peek_block n a stop ls)) \<le> length ls"
  using block_cmd_rest [of n a stop ls] by (cases ls) (simp_all add: peek_block_def)

lemma parallel_block_rest: "length (snd (parallel_block ls)) \<le> length ls"
  using read_block_rest [of "''/endparallel''" ls] by (cases "read_block ''/endparallel'' ls") (simp add: parallel_block_def)

lemma block_rests:
  "block_cmd n a stop ls = (c, rest) \<Longrightarrow> length rest \<le> length ls"
  "peek_block n a stop ls = (c, rest) \<Longrightarrow> length rest \<le> length ls"
  "parallel_block ls = (c, rest) \<Longrightarrow> length rest \<le> length ls"
  by (metis snd_conv block_cmd_rest, metis snd_conv peek_block_rest, metis snd_conv parallel_block_rest)

section \<open>The parser\<close>

definition fence_mark :: "string \<Rightarrow> string option" where
  "fence_mark l =
     (let p = take 3 l in
      if p = [CHR 0x60, CHR 0x60, CHR 0x60] \<or> p = ''~~~'' then Some p else None)"

text \<open>The writ of a line together with the lines left after it.\<close>

definition take_writ :: "string \<Rightarrow> string list \<Rightarrow> (AgentCommand \<times> string list) option" where
  "take_writ l ls =
     (case classify_line l of
        NoWrit \<Rightarrow> None
      | OneLine c \<Rightarrow> Some (c, ls)
      | TodoAdd a \<Rightarrow> Some (peek_block ''todo'' a ''/endtodo'' ls)
      | LessonBlock a \<Rightarrow> Some (peek_block ''lesson'' a ''/endlesson'' ls)
      | MemEntry a \<Rightarrow> Some (block_cmd ''mem'' a ''/endmem'' ls)
      | ParallelBlock \<Rightarrow> Some (parallel_block ls)
      | WriteBlock p \<Rightarrow> Some (block_cmd ''write'' p ''/endwrite'' ls))"

lemma take_writ_rest: "take_writ l ls = Some (c, rest) \<Longrightarrow> length rest \<le> length ls"
  by (cases "classify_line l") (auto simp: take_writ_def dest: block_rests)

function parse_from :: "string \<Rightarrow> string list \<Rightarrow> AgentCommand list" where
  "parse_from fence [] = []"
| "parse_from fence (l # ls) =
     (case fence_mark l of
        Some p \<Rightarrow> parse_from (if fence = [] then p else if fence = p then [] else fence) ls
      | None \<Rightarrow>
          if fence \<noteq> [] then parse_from fence ls
          else case take_writ (rtrim_cr l) ls of
            None \<Rightarrow> parse_from fence ls
          | Some (c, rest) \<Rightarrow> c # parse_from fence rest)"
  by pat_completeness auto
termination
  by (relation "measure (\<lambda>(fence, ls). length ls)") (auto dest: take_writ_rest)

definition parse_agent_commands :: "string \<Rightarrow> AgentCommand list" where
  "parse_agent_commands response = parse_from [] (getlines response)"

section \<open>Replies and the commands in them\<close>

text \<open>
  A reply as its author sees it: prose lines, fenced code, and writs in their printed form.
\<close>

datatype reply_item = Prose string | Fenced string "string list" | Writ AgentCommand

definition one_line_names :: "string list" where
  "one_line_names = [''fetch'', ''search'', ''browse'', ''read'', ''mcp'', ''a2a'', ''schedule'', ''agent'', ''pane'', ''advise'', ''exec'']"

fun item_lines :: "reply_item \<Rightarrow> string list" where
  "item_lines (Prose l) = [l]"
| "item_lines (Fenced m ls) = [m] @ ls @ [m]"
| "item_lines (Writ c) =
     (if c_name c = ''write'' then [''/write '' @ c_args c] @ getlines (c_content c) @ [''/endwrite'']
      else if c_name c = ''mem'' then [''/mem '' @ c_args c] @ getlines (c_content c) @ [''/endmem'']
      else [''/'' @ c_name c @ '' '' @ c_args c])"

definition plain_args :: "string \<Rightarrow> bool" where
  "plain_args a \<longleftrightarrow> a \<noteq> [] \<and> CHR 0x0A \<notin> set a \<and> last a \<noteq> CHR '' '' \<and> last a \<noteq> CHR 0x0D"

definition plain_body :: "string \<Rightarrow> string \<Rightarrow> bool" where
  "plain_body stop t \<longleftrightarrow> (t = [] \<or> last t \<noteq> CHR 0x0A) \<and> list_all (\<lambda>l. l \<noteq> stop \<and> (l = [] \<or> last l \<noteq> CHR 0x0D)) (getlines t)"

definition no_fence :: "string \<Rightarrow> string \<Rightarrow> bool" where
  "no_fence m l \<longleftrightarrow> fence_mark l \<noteq> Some (take 3 m)"

fun item_ok :: "reply_item \<Rightarrow> bool" where
  "item_ok (Prose l) = (CHR 0x0A \<notin> set l \<and> fence_mark l = None \<and> classify_line (rtrim_cr l) = NoWrit)"
| "item_ok (Fenced m ls) = (fence_mark m \<noteq> None \<and> CHR 0x0A \<notin> set m \<and> list_all (\<lambda>l. CHR 0x0A \<notin> set l \<and> no_fence m l) ls)"
| "item_ok (Writ c) =
     (\<not> c_truncated c \<and> plain_args (c_args c)
      \<and> (if c_name c = ''write'' then plain_body ''/endwrite'' (c_content c)
         else if c_name c = ''mem'' then has_arg ''add entry'' (c_args c) \<and> plain_body ''/endmem'' (c_content c)
         else c_name c \<in> set one_line_names \<and> c_content c = []))"

fun item_cmds :: "reply_item \<Rightarrow> AgentCommand list" where
  "item_cmds (Writ c) = [c]"
| "item_cmds _ = []"

lemma getlines_line: "CHR 0x0A \<notin> set l \<Longrightarrow> getlines (l @ CHR 0x0A # r) = l # getlines r"
  by (induction l) auto

lemma getlines_concat_nl: "list_all (\<lambda>l. CHR 0x0A \<notin> set l) ls \<Longrightarrow> getlines (concat_nl ls) = ls"
  by (induction ls) (simp_all add: concat_nl_def getlines_line)

lemma getlines_no_nl: "l \<in> set (getlines t) \<Longrightarrow> CHR 0x0A \<notin> set l"
  by (induction t arbitrary: l) (auto split: list.splits if_splits)

lemma getlines_Nil_iff [simp]: "getlines t = [] \<longleftrightarrow> t = []"
  by (cases t) (auto split: list.split)

lemma concat_getlines: "t = [] \<or> last t \<noteq> CHR 0x0A \<Longrightarrow> t \<noteq> [] \<Longrightarrow> concat_nl (getlines t) = t @ [CHR 0x0A]"
proof (induction t)
  case (Cons c cs)
  then show ?case by (cases "cs = []") (auto simp: concat_nl_def split: list.split)
qed simp

lemma chomp_getlines: "t = [] \<or> last t \<noteq> CHR 0x0A \<Longrightarrow> chomp (concat_nl (getlines t)) = t"
  using concat_getlines [of t] by (cases "t = []") (simp_all add: chomp_def concat_nl_def)

lemma read_block_closed:
  "list_all (\<lambda>l. l \<noteq> stop \<and> (l = [] \<or> last l \<noteq> CHR 0x0D)) ls \<Longrightarrow> stop = [] \<or> last stop \<noteq> CHR 0x0D \<Longrightarrow>
   read_block stop (ls @ stop # rest) = (ls, True, rest)"
  by (induction ls) (auto simp: pop_cr_def)

lemma block_cmd_closed:
  assumes "plain_body stop t" "stop = [] \<or> last stop \<noteq> CHR 0x0D"
  shows "block_cmd n a stop (getlines t @ stop # rest) = (\<lparr>c_name = n, c_args = a, c_content = t, c_truncated = False\<rparr>, rest)"
  using assms read_block_closed [of stop "getlines t" rest] chomp_getlines [of t] by (simp add: block_cmd_def plain_body_def)

lemma rtrim_args: "plain_args a \<Longrightarrow> rtrim_cr (p @ a) = p @ a"
  by (cases a rule: rev_cases) (auto simp: plain_args_def rtrim_cr_def)

lemma fence_none: "hd l = CHR ''/'' \<Longrightarrow> fence_mark l = None"
  by (cases l) (auto simp: fence_mark_def Let_def)

lemma has_arg_simps [simp]:
  "has_arg [] l \<longleftrightarrow> l \<noteq> []" "has_arg (c # p) [] \<longleftrightarrow> False" "has_arg (c # p) (d # l) \<longleftrightarrow> c = d \<and> has_arg p l"
  by (auto simp: has_arg_def)

lemma classify_one_line:
  assumes "n \<in> set one_line_names" "a \<noteq> []"
  shows "classify_line (''/'' @ n @ '' '' @ a) = OneLine (mk_cmd n a)"
proof -
  have "n = ''fetch'' \<or> n = ''search'' \<or> n = ''browse'' \<or> n = ''read'' \<or> n = ''mcp'' \<or> n = ''a2a'' \<or> n = ''schedule'' \<or> n = ''agent''
      \<or> n = ''pane'' \<or> n = ''advise'' \<or> n = ''exec''"
    using assms(1) by (simp add: one_line_names_def)
  then show ?thesis using assms(2) by (elim disjE) (simp_all add: classify_line_def)
qed

lemma classify_write:
  assumes "plain_args a"
  shows "classify_line (''/write '' @ a) = WriteBlock a"
proof -
  have "rtrim_cr a = a" using rtrim_args [OF assms, of "[]"] by simp
  then show ?thesis using assms by (simp add: classify_line_def plain_args_def)
qed

lemma classify_mem_entry:
  assumes "has_arg ''add entry'' a"
  shows "classify_line (''/mem '' @ a) = MemEntry a"
  using assms by (simp add: classify_line_def)

lemma fence_mark_take: "fence_mark l = Some p \<Longrightarrow> p = take 3 l \<and> p \<noteq> []"
  by (auto simp: fence_mark_def Let_def split: if_splits)

lemma skip_fenced:
  assumes "fence_mark m = Some p" "list_all (no_fence m) ls"
  shows "parse_from p (ls @ m # rest) = parse_from [] rest"
  using assms(2)
proof (induction ls)
  case Nil
  then show ?case using assms(1) fence_mark_take by fastforce
next
  case (Cons l ls)
  then show ?case using fence_mark_take [OF assms(1)] by (auto simp: no_fence_def split: option.split)
qed

lemma parse_item:
  assumes "item_ok i"
  shows "parse_from [] (item_lines i @ rest) = item_cmds i @ parse_from [] rest"
proof (cases i)
  case (Prose l)
  then show ?thesis using assms by (simp add: take_writ_def)
next
  case (Fenced m ls)
  then have "list_all (no_fence m) ls" using assms by (auto simp: list_all_iff)
  then show ?thesis using assms Fenced skip_fenced [of m _ ls rest] by auto
next
  case (Writ c)
  have a: "plain_args (c_args c)" "c_args c \<noteq> []" using assms Writ by (auto simp: plain_args_def)
  consider "c_name c = ''write''" | "c_name c = ''mem''" | "c_name c \<noteq> ''write''" "c_name c \<noteq> ''mem''" by blast
  then show ?thesis
  proof cases
    case 1
    have "take_writ (''/write '' @ c_args c) (getlines (c_content c) @ ''/endwrite'' # rest) = Some (c, rest)"
      using assms Writ 1 by (simp add: take_writ_def classify_write [OF a(1), simplified] block_cmd_closed)
    then show ?thesis using Writ 1 rtrim_args [OF a(1), of "''/write ''"] by (simp add: fence_none)
  next
    case 2
    have "take_writ (''/mem '' @ c_args c) (getlines (c_content c) @ ''/endmem'' # rest) = Some (c, rest)"
      using assms Writ 2 by (simp add: take_writ_def classify_mem_entry [simplified] block_cmd_closed)
    then show ?thesis using Writ 2 rtrim_args [OF a(1), of "''/mem ''"] by (simp add: fence_none)
  next
    case 3
    then have n: "c_name c \<in> set one_line_names" "c_content c = []" "\<not> c_truncated c" using assms Writ by auto
    have "take_writ (''/'' @ c_name c @ '' '' @ c_args c) rest = Some (c, rest)"
      unfolding take_writ_def classify_one_line [OF n(1) a(2)] using n by (simp add: mk_cmd_def)
    then show ?thesis using Writ 3 rtrim_args [OF a(1), of "''/'' @ c_name c @ '' ''"] by (simp add: fence_none)
  qed
qed

lemma item_lines_no_nl:
  assumes "item_ok i" "l \<in> set (item_lines i)"
  shows "CHR 0x0A \<notin> set l"
proof (cases i)
  case (Writ c)
  have "c_name c \<in> set one_line_names \<Longrightarrow> CHR 0x0A \<notin> set (c_name c)" by (auto simp: one_line_names_def)
  then show ?thesis using assms Writ by (auto simp: plain_args_def dest: getlines_no_nl split: if_splits)
qed (use assms in \<open>auto simp: list_all_iff\<close>)


definition sample_write :: AgentCommand where
  "sample_write = \<lparr>c_name = ''write'', c_args = ''a.md'', c_content = [CHR 0x60, CHR 0x60, CHR 0x60] @ [CHR 0x0A] @ ''/exec rm'', c_truncated = False\<rparr>"


lemma read_block_open: "stop \<notin> set (map pop_cr ls) \<Longrightarrow> read_block stop ls = (map pop_cr ls, False, [])"
  by (induction ls) auto

text \<open>
  The single-line form of \<open>/todo add\<close> has no terminator, but a following line of prose opens
  the block form: without an \<open>/endtodo\<close> the rest of the reply, every later writ included, becomes
  the truncated body of that one command.
\<close>

lemma todo_add_swallows_reply:
  assumes "plain_args s" "p \<noteq> []" "last p \<noteq> CHR 0x0D" "\<not> starts_with_writ p"
    and "list_all (\<lambda>l. CHR 0x0A \<notin> set l) (p # ls)" "''/endtodo'' \<notin> set (map pop_cr ls)"
  shows "parse_agent_commands (concat_nl ((''/todo add '' @ s) # p # ls))
    = [\<lparr>c_name = ''todo'', c_args = '' add '' @ s, c_content = chomp (concat_nl (p # map pop_cr ls)), c_truncated = True\<rparr>]"
proof -
  have cl: "classify_line (''/todo add '' @ s) = TodoAdd ('' add '' @ s)"
    using assms(1) by (auto simp: classify_line_def plain_args_def)
  have pp: "pop_cr p = p" using assms(3) by (simp add: pop_cr_def)
  have "p \<noteq> ''/endtodo''" using assms(4) by (auto simp: starts_with_writ_def kWritPrefixes_def)
  then have "read_block ''/endtodo'' (p # ls) = (p # map pop_cr ls, False, [])"
    using read_block_open [of "''/endtodo''" "p # ls"] assms(6) pp by simp
  then have "take_writ (''/todo add '' @ s) (p # ls) = Some (\<lparr>c_name = ''todo'', c_args = '' add '' @ s,
      c_content = chomp (concat_nl (p # map pop_cr ls)), c_truncated = True\<rparr>, [])"
    unfolding take_writ_def cl using assms(2,4) pp by (simp add: peek_block_def block_cmd_def)
  then have "parse_from [] ((''/todo add '' @ s) # p # ls) = [\<lparr>c_name = ''todo'', c_args = '' add '' @ s,
      c_content = chomp (concat_nl (p # map pop_cr ls)), c_truncated = True\<rparr>]"
    using rtrim_args [OF assms(1), of "''/todo add ''"] by (simp add: fence_none)
  moreover have "list_all (\<lambda>l. CHR 0x0A \<notin> set l) ((''/todo add '' @ s) # p # ls)" using assms(1,5) by (simp add: plain_args_def)
  ultimately show ?thesis by (simp add: parse_agent_commands_def getlines_concat_nl)
qed

end
