(* ===== verification/Exec_Guard.thy ===== *)
theory Exec_Guard
  imports Prelude
begin

text \<open>
  The guard of the \<open>/exec\<close> writ (\<open>cmd_exec\<close>, \<open>is_destructive_exec\<close> and their helpers in
  \<open>src/commands.cpp\<close>): splitting a command line into an argument vector without a shell, and the
  classification that decides whether it may run unconfirmed.  Starting the process
  (\<open>capture_spawn\<close>) is the value \<open>Inr argv\<close>; a refusal is \<open>Inl\<close> with its message.
\<close>

section \<open>Splitting\<close>

definition ascii_lower_copy :: "string \<Rightarrow> string" where "ascii_lower_copy s = map to_lower s"

definition exec_basename :: "string \<Rightarrow> string" where
  "exec_basename path = ascii_lower_copy (rev (takeWhile (\<lambda>c. c \<noteq> CHR ''/'') (rev path)))"

definition shell_metas :: string where
  "shell_metas = ''|&;<>'' @ [CHR 0x60] @ ''$()'' @ [CHR 0x5C] @ ''*?[{'' @ [CHR 0x0A, CHR 0x0D]"

definition is_unquoted_shell_meta :: "char \<Rightarrow> bool" where "is_unquoted_shell_meta c \<longleftrightarrow> c \<in> set shell_metas"

definition blank :: "char \<Rightarrow> bool" where "blank c \<longleftrightarrow> c = CHR '' '' \<or> c = CHR 0x09"

definition squote :: char where "squote = CHR 0x27"

definition dquote :: char where "dquote = CHR 0x22"

definition no_dquote :: string where
  "no_dquote = [CHR ''$'', CHR 0x60, CHR 0x5C, CHR 0x0A, CHR 0x0D]"

text \<open>After an opening quote: the quoted text and what follows the closing quote.\<close>

fun single_quoted :: "string \<Rightarrow> (string \<times> string) option" where
  "single_quoted [] = None"
| "single_quoted (c # cs) =
     (if c = squote then Some ([], cs)
      else case single_quoted cs of None \<Rightarrow> None | Some (w, r) \<Rightarrow> Some (c # w, r))"

fun double_quoted :: "string \<Rightarrow> (string \<times> string) option" where
  "double_quoted [] = None"
| "double_quoted (c # cs) =
     (if c = dquote then Some ([], cs)
      else if c \<in> set no_dquote then None
      else case double_quoted cs of None \<Rightarrow> None | Some (w, r) \<Rightarrow> Some (c # w, r))"

lemma quoted_shorter:
  "single_quoted s = Some (w, r) \<Longrightarrow> length r < length s"
  "double_quoted s = Some (w, r) \<Longrightarrow> length r < length s"
  by (induction s arbitrary: w) (auto split: if_splits option.splits prod.splits)

text \<open>One word, up to a blank or the end; \<open>None\<close> is \<open>NeedsShell\<close>.\<close>

function read_word :: "string \<Rightarrow> (string \<times> string) option" where
  "read_word [] = Some ([], [])"
| "read_word (c # cs) =
     (if blank c then Some ([], c # cs)
      else if c = squote then
        (case single_quoted cs of
           None \<Rightarrow> None
         | Some (q, r) \<Rightarrow> (case read_word r of None \<Rightarrow> None | Some (w, r') \<Rightarrow> Some (q @ w, r')))
      else if c = dquote then
        (case double_quoted cs of
           None \<Rightarrow> None
         | Some (q, r) \<Rightarrow> (case read_word r of None \<Rightarrow> None | Some (w, r') \<Rightarrow> Some (q @ w, r')))
      else if is_unquoted_shell_meta c then None
      else case read_word cs of None \<Rightarrow> None | Some (w, r') \<Rightarrow> Some (c # w, r'))"
  by pat_completeness auto
termination
  by (relation "measure length") (auto dest: quoted_shorter)

text \<open>The three ways a word goes on.\<close>

lemma read_word_cases:
  assumes "read_word (c # cs) = Some (w, r)" "\<not> blank c"
  obtains q r1 w1 where "c = squote" "single_quoted cs = Some (q, r1)" "read_word r1 = Some (w1, r)" "w = q @ w1"
  | q r1 w1 where "c \<noteq> squote" "c = dquote" "double_quoted cs = Some (q, r1)" "read_word r1 = Some (w1, r)" "w = q @ w1"
  | w1 where "c \<noteq> squote" "c \<noteq> dquote" "\<not> is_unquoted_shell_meta c" "read_word cs = Some (w1, r)" "w = c # w1"
  using assms by (auto split: if_splits option.splits prod.splits)

lemma read_word_rest: "read_word s = Some (w, r) \<Longrightarrow> length r \<le> length s"
proof (induction s arbitrary: w r rule: length_induct)
  case (1 s)
  note ih = "1.IH" and res = "1.prems"
  show ?case
  proof (cases s)
    case (Cons c cs)
    show ?thesis
    proof (cases "blank c")
      case True
      then show ?thesis using res Cons by simp
    next
      case False
      have sm: "length r1 \<le> length cs \<Longrightarrow> read_word r1 = Some (w1, r) \<Longrightarrow> length r \<le> length s" for r1 w1
        using ih Cons by (metis le_imp_less_Suc le_trans length_Cons less_imp_le_nat)
      from res [unfolded Cons] False show ?thesis
        by (rule read_word_cases) (blast intro: sm less_imp_le quoted_shorter)+
    qed
  qed (use res in simp)
qed

lemma read_word_shorter:
  assumes "read_word (c # cs) = Some (w, r)" "\<not> blank c"
  shows "length r < Suc (length cs)"
  using assms
proof (cases rule: read_word_cases)
  case (1 q r1 w1)
  then show ?thesis using read_word_rest quoted_shorter(1) by (metis less_SucI order_le_less_trans)
next
  case (2 q r1 w1)
  then show ?thesis using read_word_rest quoted_shorter(2) by (metis less_SucI order_le_less_trans)
next
  case (3 w1)
  then show ?thesis using read_word_rest by (simp add: le_imp_less_Suc)
qed

lemma dropWhile_head: "dropWhile P s = c # cs \<Longrightarrow> \<not> P c \<and> length cs < length s"
  using hd_dropWhile [of P s] length_dropWhile_le [of P s] by simp

lemma split_smaller: "dropWhile blank s = c # cs \<Longrightarrow> read_word (c # cs) = Some (w, r) \<Longrightarrow> length r < length s"
  using dropWhile_head [of blank s c cs] read_word_shorter [of c cs w r] by linarith

function split_words :: "string \<Rightarrow> string list option" where
  "split_words s =
     (case dropWhile blank s of
        [] \<Rightarrow> Some []
      | c # cs \<Rightarrow>
          if c = CHR ''#'' \<or> c = CHR ''~'' then None
          else (case read_word (c # cs) of
                  None \<Rightarrow> None
                | Some (w, r) \<Rightarrow> (case split_words r of None \<Rightarrow> None | Some ws \<Rightarrow> Some (w # ws))))"
  by pat_completeness auto
termination
  by (relation "measure length") (auto dest: split_smaller simp del: read_word.simps)

declare split_words.simps [simp del]

definition parse_exec_argv :: "string \<Rightarrow> string list option" where
  "parse_exec_argv cmd = (case split_words cmd of None \<Rightarrow> None | Some [] \<Rightarrow> None | Some (w # ws) \<Rightarrow> Some (w # ws))"

section \<open>Programs\<close>

definition name_is :: "string \<Rightarrow> string \<Rightarrow> bool" where
  "name_is base name \<longleftrightarrow> prefix name base \<and>
     (length base = length name \<or> (let c = base ! length name in is_digit c \<or> c = CHR ''.'' \<or> c = CHR ''-''))"

definition short_cluster_has :: "string \<Rightarrow> char \<Rightarrow> bool" where
  "short_cluster_has arg b \<longleftrightarrow> \<not> (length arg < 2 \<or> hd arg \<noteq> CHR ''-'' \<or> arg ! 1 = CHR ''-'') \<and> b \<in> set arg"

definition is_shell_basename :: "string \<Rightarrow> bool" where
  "is_shell_basename base \<longleftrightarrow> list_ex (name_is base)
     [''sh'', ''bash'', ''dash'', ''zsh'', ''ksh'', ''mksh'', ''ash'', ''csh'', ''tcsh'', ''fish'']"

definition is_awk_basename :: "string \<Rightarrow> bool" where
  "is_awk_basename base \<longleftrightarrow> base \<in> set [''awk'', ''gawk'', ''nawk'', ''mawk''] \<or> list_ex (name_is base) [''gawk'', ''nawk'', ''mawk'']"

definition is_interpreter_basename :: "string \<Rightarrow> bool" where
  "is_interpreter_basename base \<longleftrightarrow> is_shell_basename base \<or> is_awk_basename base
     \<or> list_ex (name_is base) [''python'', ''pypy'', ''perl'', ''ruby'', ''node'', ''php'', ''lua'', ''luajit'', ''deno'', ''bun'',
         ''tclsh'', ''julia'', ''dart'']
     \<or> base \<in> set [''nodejs'', ''osascript'', ''wish'', ''rscript'', ''elixir'', ''erl'', ''escript'', ''guile'', ''racket'', ''scheme'',
         ''pwsh'', ''powershell'', ''groovy'']"

text \<open>
  The argument is compared after lower-casing, so the test for \<open>-V\<close> in the source never holds by
  itself; it is the test for \<open>-v\<close>.
\<close>

definition is_version_query :: "string \<Rightarrow> string list \<Rightarrow> bool" where
  "is_version_query base argv =
     (let v_is_version = (\<not> is_shell_basename base \<and> \<not> is_awk_basename base \<and> \<not> name_is base ''python'' \<and> \<not> name_is base ''pypy'') in
      2 \<le> length argv \<and>
      list_all (\<lambda>x. let a = ascii_lower_copy x in
          a = ''--version'' \<or> a = ''--help'' \<or> a = ''--usage'' \<or> a = ''-V'' \<or> (a = ''-v'' \<and> v_is_version)) (tl argv))"

definition is_eval_payload_flag :: "string \<Rightarrow> bool" where
  "is_eval_payload_flag a \<longleftrightarrow> a \<in> set [''-c'', ''-e'', ''-r'', ''-m'']
     \<or> list_ex (\<lambda>p. prefix p a) [''--eval'', ''--command'', ''--source'', ''--module'', ''--execute'']
     \<or> (2 < length a \<and> hd a = CHR ''-'' \<and> a ! 1 \<noteq> CHR ''-'' \<and> a ! 1 \<in> set ''cer'' \<and> a ! 2 \<noteq> CHR ''-'')"

definition interpreter_runs_program :: "string list \<Rightarrow> bool" where
  "interpreter_runs_program argv =
     (if argv = [] then True
      else let base = exec_basename (hd argv) in
        if \<not> is_interpreter_basename base then False
        else if is_version_query base argv then False
        else if is_awk_basename base then True
        else if is_shell_basename base then 1 < length argv
        else list_ex (\<lambda>x. let a = ascii_lower_copy x in
               a \<noteq> [] \<and> (is_eval_payload_flag a \<or> a = ''-'' \<or> hd a \<noteq> CHR ''-'')) (tl argv))"

definition is_env_assignment :: "string \<Rightarrow> bool" where
  "is_env_assignment a \<longleftrightarrow> \<not> (a = [] \<or> hd a = CHR ''-'' \<or> hd a = CHR ''='') \<and> CHR ''='' \<in> set a"

text \<open>The loop of \<open>unwrap_env\<close> over the arguments after \<open>env\<close>; \<open>None\<close> is a hazard.\<close>

fun skip_env_args :: "string list \<Rightarrow> string list option" where
  "skip_env_args [] = Some []"
| "skip_env_args (raw # rest) =
     (let a = ascii_lower_copy raw in
      if a = ''--'' then Some rest
      else if a = ''-s'' \<or> a = ''--split-string'' \<or> prefix ''--split-string='' a then None
      else if a \<in> set [''-i'', ''--ignore-environment'', ''-'', ''-0'', ''--null'', ''-v'', ''--debug'', ''--help'', ''--version''] then skip_env_args rest
      else if a \<in> set [''-u'', ''--unset'', ''-C'', ''--chdir'', ''--argv0'', ''-P'', ''--default-signal'', ''--ignore-signal'', ''--block-signal''] then
        (case rest of [] \<Rightarrow> None | x # rest' \<Rightarrow> skip_env_args rest')
      else if list_ex (\<lambda>p. prefix p a) [''--unset='', ''--chdir='', ''--argv0='', ''--default-signal='', ''--ignore-signal='', ''--block-signal=''] then skip_env_args rest
      else if 2 < length a \<and> hd a = CHR ''-'' \<and> a ! 1 \<noteq> CHR ''-'' \<and> (a ! 1 = CHR ''u'' \<or> a ! 1 = CHR ''C'' \<or> a ! 1 = CHR ''P'') then skip_env_args rest
      else if 2 < length a \<and> hd a = CHR ''-'' \<and> a ! 1 = CHR ''S'' then None
      else if a \<noteq> [] \<and> hd a = CHR ''-'' then None
      else if is_env_assignment raw then skip_env_args rest
      else Some (raw # rest))"

definition unwrap_env :: "string list \<Rightarrow> string list option" where
  "unwrap_env argv =
     (case skip_env_args (tl argv) of
        None \<Rightarrow> None
      | Some out \<Rightarrow> if out = [] \<or> hd out = [] then None else Some out)"

fun go_subcommand_run :: "string list \<Rightarrow> bool" where
  "go_subcommand_run [] = False"
| "go_subcommand_run (a # rest) =
     (if a = ''-C'' then (case rest of [] \<Rightarrow> False | x # rest' \<Rightarrow> go_subcommand_run rest')
      else if prefix ''-C='' a then go_subcommand_run rest
      else if a \<noteq> [] \<and> hd a = CHR ''-'' then go_subcommand_run rest
      else a = ''run'')"

definition go_run_executes :: "string list \<Rightarrow> bool" where
  "go_run_executes argv \<longleftrightarrow> argv \<noteq> [] \<and> exec_basename (hd argv) = ''go'' \<and> go_subcommand_run (tl argv)"

section \<open>Classification\<close>

definition kAlways :: "string list" where
  "kAlways = [''rm'', ''rmdir'', ''unlink'', ''shred'', ''truncate'', ''dd'', ''sudo'', ''doas'', ''su'', ''chmod'', ''chown'', ''chgrp'',
     ''wipefs'', ''fdisk'', ''parted'', ''tee'', ''xargs'', ''nice'', ''nohup'', ''stdbuf'', ''ionice'', ''busybox'']"

definition download_writes :: "string list \<Rightarrow> bool" where
  "download_writes args = list_ex (\<lambda>x. let a = ascii_lower_copy x in
     a = ''-o'' \<or> a = ''-O'' \<or> a = ''--output'' \<or> prefix ''--output='' a
     \<or> (2 < length a \<and> hd a = CHR ''-'' \<and> (a ! 1 = CHR ''o'' \<or> a ! 1 = CHR ''O'') \<and> a ! 2 \<noteq> CHR ''-'')) args"

definition find_acts :: "string list \<Rightarrow> bool" where
  "find_acts args = list_ex (\<lambda>x. ascii_lower_copy x \<in>
     set [''-delete'', ''-exec'', ''-execdir'', ''-ok'', ''-okdir'', ''-fprint'', ''-fls'', ''-fprintf'']) args"

text \<open>The arguments from the git subcommand on.\<close>

fun git_subcommand :: "string list \<Rightarrow> string list" where
  "git_subcommand [] = []"
| "git_subcommand (x # rest) =
     (let a = ascii_lower_copy x in
      if a = ''-c'' \<or> a = ''-C'' \<or> a = ''--git-dir'' \<or> a = ''--work-tree'' then (case rest of [] \<Rightarrow> [] | y # rest' \<Rightarrow> git_subcommand rest')
      else if prefix ''-c'' a \<or> prefix ''--git-dir='' a \<or> prefix ''--work-tree='' a then git_subcommand rest
      else if a \<noteq> [] \<and> hd a = CHR ''-'' then git_subcommand rest
      else x # rest)"

definition git_acts :: "string list \<Rightarrow> bool" where
  "git_acts args =
     (case git_subcommand args of
        [] \<Rightarrow> False
      | s # rest \<Rightarrow>
          let sub = ascii_lower_copy s in
          list_ex (\<lambda>x. let a = ascii_lower_copy x in
            (sub = ''reset'' \<and> a = ''--hard'')
            \<or> (sub = ''clean'' \<and> (prefix ''--force'' a \<or> short_cluster_has a CHR ''f''))
            \<or> (sub = ''push'' \<and> (a = ''-f'' \<or> prefix ''--force'' a \<or> short_cluster_has a CHR ''f''))
            \<or> (sub = ''branch'' \<and> (a = ''-d'' \<or> a = ''-D'' \<or> a = ''--delete''))
            \<or> (sub = ''checkout'' \<and> a = ''--'')
            \<or> (sub = ''restore'' \<and> a = ''.'')) rest)"

text \<open>At most four layers of \<open>env\<close> are taken off; \<open>None\<close> when one of them is a hazard or more are left.\<close>

fun strip_env :: "nat \<Rightarrow> string list \<Rightarrow> string list option" where
  "strip_env 0 cur = (if exec_basename (hd cur) = ''env'' then None else Some cur)"
| "strip_env (Suc n) cur =
     (if exec_basename (hd cur) \<noteq> ''env'' then Some cur
      else case unwrap_env cur of None \<Rightarrow> None | Some nxt \<Rightarrow> strip_env n nxt)"

definition argv_is_destructive :: "string list \<Rightarrow> bool" where
  "argv_is_destructive argv =
     (if argv = [] then True
      else case strip_env 4 argv of
        None \<Rightarrow> True
      | Some cur \<Rightarrow>
          let base = exec_basename (hd cur) in
          base \<in> set kAlways \<or> prefix ''mkfs'' base \<or> interpreter_runs_program cur \<or> go_run_executes cur
          \<or> ((base = ''curl'' \<or> base = ''wget'') \<and> download_writes (tl cur))
          \<or> (base = ''find'' \<and> find_acts (tl cur))
          \<or> (base = ''git'' \<and> git_acts (tl cur)))"

definition is_destructive_exec :: "string \<Rightarrow> bool" where
  "is_destructive_exec cmd =
     (if cmd = [] then False
      else case parse_exec_argv cmd of None \<Rightarrow> True | Some argv \<Rightarrow> argv_is_destructive argv)"

definition exec_refusal :: string where
  "exec_refusal = ''ERR: destructive command blocked'' @ [CHR '' '', CHR 0xE2, CHR 0x80, CHR 0x94, CHR '' ''] @ ''requires confirmation''"

definition cmd_exec :: "string \<Rightarrow> bool \<Rightarrow> string + string list" where
  "cmd_exec command confirmed =
     (if list_all blank command then Inl ''ERR: empty command''
      else let parsed = parse_exec_argv command;
               destructive = (case parsed of None \<Rightarrow> True | Some argv \<Rightarrow> argv_is_destructive argv)
           in if \<not> confirmed \<and> destructive then Inl exec_refusal
              else case parsed of
                None \<Rightarrow> Inr [''/bin/sh'', ''-c'', command @ '' 2>&1'']
              | Some argv \<Rightarrow> Inr argv)"

section \<open>The language the splitter accepts\<close>

text \<open>
  A word of a shell command without expansions: bare characters, single-quoted and double-quoted
  pieces; the pieces denote themselves.
\<close>

datatype piece = Bare char | Single string | Double string

fun piece_ok :: "piece \<Rightarrow> bool" where
  "piece_ok (Bare c) \<longleftrightarrow> \<not> blank c \<and> c \<noteq> squote \<and> c \<noteq> dquote \<and> \<not> is_unquoted_shell_meta c"
| "piece_ok (Single w) \<longleftrightarrow> squote \<notin> set w"
| "piece_ok (Double w) \<longleftrightarrow> dquote \<notin> set w \<and> set w \<inter> set no_dquote = {}"

fun piece_text :: "piece \<Rightarrow> string" where
  "piece_text (Bare c) = [c]"
| "piece_text (Single w) = [squote] @ w @ [squote]"
| "piece_text (Double w) = [dquote] @ w @ [dquote]"

fun piece_value :: "piece \<Rightarrow> string" where
  "piece_value (Bare c) = [c]"
| "piece_value (Single w) = w"
| "piece_value (Double w) = w"

abbreviation word_text :: "piece list \<Rightarrow> string" where "word_text ps \<equiv> concat (map piece_text ps)"
abbreviation word_value :: "piece list \<Rightarrow> string" where "word_value ps \<equiv> concat (map piece_value ps)"

definition word_ok :: "piece list \<Rightarrow> bool" where
  "word_ok ps \<longleftrightarrow> ps \<noteq> [] \<and> list_all piece_ok ps \<and> hd ps \<noteq> Bare CHR ''#'' \<and> hd ps \<noteq> Bare CHR ''~''"

text \<open>A command line: words, each after blanks (at least one, except before the first).\<close>

fun laid_out :: "bool \<Rightarrow> (string \<times> piece list) list \<Rightarrow> bool" where
  "laid_out first [] = True"
| "laid_out first ((b, ps) # ws) \<longleftrightarrow> list_all blank b \<and> (first \<or> b \<noteq> []) \<and> word_ok ps \<and> laid_out False ws"

definition line_text :: "(string \<times> piece list) list \<Rightarrow> string" where
  "line_text ws = concat (map (\<lambda>(b, ps). b @ word_text ps) ws)"

lemma blank_distinct [simp]: "\<not> blank squote" "\<not> blank dquote" "squote \<noteq> dquote" "dquote \<noteq> squote" "\<not> blank CHR ''#''" "\<not> blank CHR ''~''"
  by (simp_all add: blank_def squote_def dquote_def)

lemma single_quoted_iff: "single_quoted s = Some (w, r) \<longleftrightarrow> squote \<notin> set w \<and> s = w @ squote # r"
proof
  show "single_quoted s = Some (w, r) \<Longrightarrow> squote \<notin> set w \<and> s = w @ squote # r"
    by (induction s arbitrary: w) (auto split: if_splits option.splits)
  have "squote \<notin> set w \<Longrightarrow> single_quoted (w @ squote # r) = Some (w, r)" by (induction w) auto
  then show "squote \<notin> set w \<and> s = w @ squote # r \<Longrightarrow> single_quoted s = Some (w, r)" by simp
qed

lemma double_quoted_iff: "double_quoted s = Some (w, r) \<longleftrightarrow> dquote \<notin> set w \<and> set w \<inter> set no_dquote = {} \<and> s = w @ dquote # r"
proof
  show "double_quoted s = Some (w, r) \<Longrightarrow> dquote \<notin> set w \<and> set w \<inter> set no_dquote = {} \<and> s = w @ dquote # r"
    by (induction s arbitrary: w) (auto split: if_splits option.splits)
  have "dquote \<notin> set w \<Longrightarrow> set w \<inter> set no_dquote = {} \<Longrightarrow> double_quoted (w @ dquote # r) = Some (w, r)" by (induction w) auto
  then show "dquote \<notin> set w \<and> set w \<inter> set no_dquote = {} \<and> s = w @ dquote # r \<Longrightarrow> double_quoted s = Some (w, r)" by simp
qed

lemma read_word_complete:
  "list_all piece_ok ps \<Longrightarrow> r = [] \<or> blank (hd r) \<Longrightarrow> read_word (word_text ps @ r) = Some (word_value ps, r)"
proof (induction ps)
  case Nil
  then show ?case by (cases r) auto
next
  case (Cons p ps)
  have rw: "read_word (word_text ps @ r) = Some (word_value ps, r)" using Cons by simp
  show ?case
  proof (cases p)
    case (Bare c)
    then show ?thesis using Cons.prems(1) rw by simp
  next
    case (Single w)
    then have "single_quoted (w @ squote # word_text ps @ r) = Some (w, word_text ps @ r)"
      using Cons.prems(1) by (simp add: single_quoted_iff)
    then show ?thesis using Single rw by simp
  next
    case (Double w)
    then have "double_quoted (w @ dquote # word_text ps @ r) = Some (w, word_text ps @ r)"
      using Cons.prems(1) by (simp add: double_quoted_iff)
    then show ?thesis using Double rw by simp
  qed
qed

lemma read_word_sound:
  "read_word s = Some (w, r) \<Longrightarrow> \<exists>ps. list_all piece_ok ps \<and> s = word_text ps @ r \<and> w = word_value ps \<and> (r = [] \<or> blank (hd r))"
proof (induction s arbitrary: w r rule: length_induct)
  case (1 s)
  note ih = "1.IH" and res = "1.prems"
  show ?case
  proof (cases "s = [] \<or> blank (hd s)")
    case True
    then show ?thesis using res by (cases s) (auto intro!: exI [of _ "[]"])
  next
    case False
    then obtain c cs where s: "s = c # cs" "\<not> blank c" by (cases s) auto
    have step: "\<exists>ps. list_all piece_ok ps \<and> s = word_text ps @ r \<and> w = word_value ps \<and> (r = [] \<or> blank (hd r))"
      if st: "piece_ok p" "s = piece_text p @ r1" "read_word r1 = Some (w1, r)" "w = piece_value p @ w1" "length r1 < length s" for p r1 w1
    proof -
      obtain ps where "list_all piece_ok ps" "r1 = word_text ps @ r" "w1 = word_value ps" "r = [] \<or> blank (hd r)"
        using ih st(3,5) by blast
      then show ?thesis using st by (intro exI [of _ "p # ps"]) simp
    qed
    from res [unfolded s(1)] s(2) show ?thesis
    proof (rule read_word_cases)
      fix q r1 w1
      assume a: "c = squote" "single_quoted cs = Some (q, r1)" "read_word r1 = Some (w1, r)" "w = q @ w1"
      then show ?thesis using s by (intro step [of "Single q" r1 w1]) (auto simp: single_quoted_iff)
    next
      fix q r1 w1
      assume a: "c \<noteq> squote" "c = dquote" "double_quoted cs = Some (q, r1)" "read_word r1 = Some (w1, r)" "w = q @ w1"
      then show ?thesis using s by (intro step [of "Double q" r1 w1]) (auto simp: double_quoted_iff)
    next
      fix w1
      assume a: "c \<noteq> squote" "c \<noteq> dquote" "\<not> is_unquoted_shell_meta c" "read_word cs = Some (w1, r)" "w = c # w1"
      then show ?thesis using s by (intro step [of "Bare c" cs w1]) auto
    qed
  qed
qed

lemma word_text_head:
  assumes "word_ok ps"
  obtains c cs where "word_text ps = c # cs" "\<not> blank c" "c \<noteq> CHR ''#''" "c \<noteq> CHR ''~''"
proof -
  obtain p ps' where ps: "ps = p # ps'" using assms by (cases ps) (auto simp: word_ok_def)
  have "squote \<noteq> CHR ''#''" "squote \<noteq> CHR ''~''" "dquote \<noteq> CHR ''#''" "dquote \<noteq> CHR ''~''" by (simp_all add: squote_def dquote_def)
  then show thesis using assms that unfolding ps by (cases p) (auto simp: word_ok_def)
qed

lemma dropWhile_blanks: "list_all blank b \<Longrightarrow> dropWhile blank (b @ s) = dropWhile blank s"
  by (induction b) auto

lemma laid_out_rest: "laid_out False ws \<Longrightarrow> list_all blank trail \<Longrightarrow> line_text ws @ trail = [] \<or> blank (hd (line_text ws @ trail))"
proof (cases ws)
  case (Cons w ws')
  obtain b ps where w: "w = (b, ps)" by (cases w)
  assume "laid_out False ws"
  then obtain c b' where "b = c # b'" "blank c" unfolding Cons w by (cases b) auto
  then show ?thesis unfolding Cons w by (simp add: line_text_def)
qed (cases trail; simp add: line_text_def)

lemma split_words_complete:
  "laid_out first ws \<Longrightarrow> list_all blank trail \<Longrightarrow> split_words (line_text ws @ trail) = Some (map (\<lambda>(b, ps). word_value ps) ws)"
proof (induction ws arbitrary: first)
  case Nil
  then have d: "dropWhile blank trail = []" by (simp add: list_all_iff)
  have "split_words trail = Some []" unfolding split_words.simps [of trail] d by simp
  then show ?case by (simp add: line_text_def)
next
  case (Cons w ws)
  obtain b ps where w: "w = (b, ps)" by (cases w)
  let ?r = "line_text ws @ trail"
  have lo: "list_all blank b" "word_ok ps" "laid_out False ws" using Cons.prems(1) unfolding w by auto
  obtain c cs where c: "word_text ps = c # cs" "\<not> blank c" "c \<noteq> CHR ''#''" "c \<noteq> CHR ''~''" using word_text_head [OF lo(2)] .
  have d: "dropWhile blank (line_text (w # ws) @ trail) = c # cs @ ?r"
    using dropWhile_blanks [OF lo(1), of "word_text ps @ ?r"] c unfolding w by (simp add: line_text_def)
  have "read_word (word_text ps @ ?r) = Some (word_value ps, ?r)"
    using lo(2) laid_out_rest [OF lo(3) Cons.prems(2)] by (intro read_word_complete) (auto simp: word_ok_def)
  then have rw: "read_word (c # cs @ ?r) = Some (word_value ps, ?r)" unfolding c(1) by simp
  show ?case unfolding split_words.simps [of "line_text (w # ws) @ trail"] d list.case rw
    using c(3,4) Cons.IH [OF lo(3) Cons.prems(2)] by (simp add: w)
qed

lemma split_words_sound:
  "split_words s = Some argv \<Longrightarrow> \<exists>ws trail. laid_out (first \<or> s = [] \<or> blank (hd s) = False) ws \<and> list_all blank trail \<and> s = line_text ws @ trail
     \<and> argv = map (\<lambda>(b, ps). word_value ps) ws"
proof (induction s arbitrary: argv first rule: length_induct)
  case (1 s)
  note ih = "1.IH" and res = "1.prems"
  let ?b = "takeWhile blank s"
  have s: "s = ?b @ dropWhile blank s" "list_all blank ?b" by (auto simp: list_all_iff dest: set_takeWhileD)
  show ?case
  proof (cases "dropWhile blank s")
    case Nil
    then have "list_all blank s" using s by (metis append_Nil2)
    moreover have "argv = []" using res Nil by (simp add: split_words.simps [of s])
    ultimately show ?thesis by (intro exI [of _ "[]"] exI [of _ s]) (simp add: line_text_def)
  next
    case (Cons c cs)
    obtain w r ws where rw: "read_word (c # cs) = Some (w, r)" "split_words r = Some ws" "argv = w # ws" "c \<noteq> CHR ''#''" "c \<noteq> CHR ''~''"
      using res unfolding split_words.simps [of s] Cons by (auto split: if_splits option.splits simp del: read_word.simps)
    obtain ps where ps: "list_all piece_ok ps" "c # cs = word_text ps @ r" "w = word_value ps" "r = [] \<or> blank (hd r)"
      using read_word_sound [OF rw(1)] by blast
    have nb: "\<not> blank c" using hd_dropWhile [of blank s] Cons by simp
    have pne: "ps \<noteq> []" using ps(2,4) nb by auto
    have "word_ok ps" using ps(1,2) pne rw(4,5) by (cases ps) (auto simp: word_ok_def)
    obtain vs trail where vs: "laid_out False vs" "list_all blank trail" "r = line_text vs @ trail" "ws = map (\<lambda>(b, ps). word_value ps) vs"
    proof (cases "r = []")
      case True
      then have "ws = []" using rw(2) by (simp add: split_words.simps [of "[]"])
      then show ?thesis using True that [of "[]" "[]"] by (simp add: line_text_def)
    next
      case False
      have "length r < length s" by (rule split_smaller [OF Cons rw(1)])
      then show ?thesis using ih [rule_format, OF _ rw(2), of False] False ps(4) that by auto
    qed
    have "laid_out (first \<or> s = [] \<or> blank (hd s) = False) ((?b, ps) # vs)"
      using s vs(1) \<open>word_ok ps\<close> by (cases s) auto
    moreover have "s = line_text ((?b, ps) # vs) @ trail"
      using s(1) Cons ps(2) vs(3) by (simp add: line_text_def)
    ultimately show ?thesis using vs(2,4) rw(3) ps(3) by (intro exI [of _ "(?b, ps) # vs"] exI [of _ trail]) simp
  qed
qed

text \<open>
  The splitter accepts exactly the command lines made of plain words, that is bare characters
  without shell meaning and closed quotes without expansions, and its argument vector is their
  values: everything else needs a shell.
\<close>

lemma parse_exec_argv_grammar:
  "parse_exec_argv cmd = Some argv \<longleftrightarrow>
     (\<exists>ws trail. ws \<noteq> [] \<and> laid_out True ws \<and> list_all blank trail \<and> cmd = line_text ws @ trail
        \<and> argv = map (\<lambda>(b, ps). word_value ps) ws)"
proof
  assume "parse_exec_argv cmd = Some argv"
  then have "split_words cmd = Some argv" "argv \<noteq> []" by (auto simp: parse_exec_argv_def split: option.splits list.splits)
  then show "\<exists>ws trail. ws \<noteq> [] \<and> laid_out True ws \<and> list_all blank trail \<and> cmd = line_text ws @ trail
        \<and> argv = map (\<lambda>(b, ps). word_value ps) ws"
    using split_words_sound [of cmd argv True] by auto
next
  assume "\<exists>ws trail. ws \<noteq> [] \<and> laid_out True ws \<and> list_all blank trail \<and> cmd = line_text ws @ trail
        \<and> argv = map (\<lambda>(b, ps). word_value ps) ws"
  then obtain ws trail where w: "ws \<noteq> []" "laid_out True ws" "list_all blank trail" "cmd = line_text ws @ trail"
    "argv = map (\<lambda>(b, ps). word_value ps) ws" by blast
  then have "split_words cmd = Some argv" using split_words_complete by metis
  then show "parse_exec_argv cmd = Some argv" using w(1,5) by (cases argv) (auto simp: parse_exec_argv_def)
qed

section \<open>The gate\<close>

lemma strip_env_not_env: "strip_env n argv = Some cur \<Longrightarrow> exec_basename (hd cur) \<noteq> ''env''"
  by (induction n arbitrary: argv) (auto split: if_splits option.splits)

lemma strip_env_ne: "argv \<noteq> [] \<Longrightarrow> strip_env n argv = Some cur \<Longrightarrow> cur \<noteq> []"
proof (induction n arbitrary: argv)
  case (Suc n)
  then show ?case by (auto simp: unwrap_env_def split: if_splits option.splits)
qed (simp split: if_splits)

lemma skip_env_step:
  "skip_env_args (raw # rest) = Some rest \<or> skip_env_args (raw # rest) = None \<or> skip_env_args (raw # rest) = skip_env_args rest
   \<or> skip_env_args (raw # rest) = (case rest of [] \<Rightarrow> None | x # rest' \<Rightarrow> skip_env_args rest') \<or> skip_env_args (raw # rest) = Some (raw # rest)"
  by (simp only: skip_env_args.simps Let_def split: if_split) blast

lemma skip_env_suffix: "skip_env_args args = Some out \<Longrightarrow> suffix out args"
proof (induction args rule: length_induct)
  case (1 args)
  note ih = "1.IH" and res = "1.prems"
  show ?case
  proof (cases args)
    case (Cons raw rest)
    consider "out = rest" | "skip_env_args rest = Some out" | x rest' where "rest = x # rest'" "skip_env_args rest' = Some out" | "out = args"
      using skip_env_step [of raw rest] res Cons by (auto split: list.splits simp del: skip_env_args.simps)
    then show ?thesis using ih Cons by cases (auto intro!: suffix_ConsI simp del: skip_env_args.simps)
  qed (use res in simp)
qed

lemma strip_env_suffix: "strip_env n argv = Some cur \<Longrightarrow> suffix cur argv"
proof (induction n arbitrary: argv)
  case (Suc n)
  show ?case
  proof (cases "exec_basename (hd argv) = ''env''")
    case True
    then obtain nxt where "unwrap_env argv = Some nxt" "strip_env n nxt = Some cur" using Suc.prems by (auto split: option.splits)
    moreover from this have "suffix nxt (tl argv)"
      using skip_env_suffix [of "tl argv" nxt] by (auto simp: unwrap_env_def split: option.splits if_splits)
    ultimately show ?thesis using Suc.IH suffix_order.trans [OF _ suffix_order.trans [OF _ suffix_tl]] by blast
  qed (use Suc.prems in simp)
qed (auto split: if_splits)

text \<open>What the classification lets through, of the program left after the \<open>env\<close> layers.\<close>

definition option_only :: "string \<Rightarrow> bool" where
  "option_only x \<longleftrightarrow> x = [] \<or> (hd x = CHR ''-'' \<and> x \<noteq> ''-'' \<and> \<not> is_eval_payload_flag (ascii_lower_copy x))"

definition harmless_program :: "string list \<Rightarrow> bool" where
  "harmless_program cur \<longleftrightarrow>
     (let base = exec_basename (hd cur) in
      base \<noteq> ''env'' \<and> base \<notin> set kAlways \<and> \<not> prefix ''mkfs'' base
      \<and> (is_interpreter_basename base \<longrightarrow> is_version_query base cur \<or>
           (\<not> is_awk_basename base \<and> (is_shell_basename base \<longrightarrow> length cur = 1)
            \<and> list_all option_only (tl cur)))
      \<and> (base = ''go'' \<longrightarrow> \<not> go_subcommand_run (tl cur)) \<and> (base = ''find'' \<longrightarrow> \<not> find_acts (tl cur)) \<and> (base = ''git'' \<longrightarrow> \<not> git_acts (tl cur)))"

lemma lower_dash: "hd (ascii_lower_copy x) = CHR ''-'' \<longleftrightarrow> hd x = CHR ''-''" if "x \<noteq> []"
proof -
  have "to_lower c = CHR ''-'' \<longleftrightarrow> c = CHR ''-''" for c
  proof -
    have "code (to_lower c) = 45 \<longleftrightarrow> code c = 45" by (auto simp: code_to_lower)
    moreover have "(45::nat) = code CHR ''-''" by simp
    ultimately show ?thesis by (simp only: of_char_eq_iff)
  qed
  then show ?thesis using that by (cases x) (simp_all add: ascii_lower_copy_def)
qed

lemma option_only_lower:
  "ascii_lower_copy x = [] \<or> \<not> (is_eval_payload_flag (ascii_lower_copy x) \<or> ascii_lower_copy x = ''-'' \<or> hd (ascii_lower_copy x) \<noteq> CHR ''-'') \<Longrightarrow> option_only x"
  using lower_dash [of x] by (auto simp: option_only_def ascii_lower_copy_def to_lower_def)

lemma interpreter_idle:
  assumes "cur \<noteq> []" "\<not> interpreter_runs_program cur" "is_interpreter_basename (exec_basename (hd cur))"
    "\<not> is_version_query (exec_basename (hd cur)) cur"
  shows "\<not> is_awk_basename (exec_basename (hd cur))" "is_shell_basename (exec_basename (hd cur)) \<Longrightarrow> length cur = 1" "list_all option_only (tl cur)"
proof -
  let ?b = "exec_basename (hd cur)"
  show a: "\<not> is_awk_basename ?b" using assms by (auto simp: interpreter_runs_program_def Let_def)
  show l: "is_shell_basename ?b \<Longrightarrow> length cur = 1"
    using assms a by (cases cur) (auto simp: interpreter_runs_program_def Let_def)
  show "list_all option_only (tl cur)"
  proof (cases "is_shell_basename ?b")
    case True
    then show ?thesis using l by (cases cur) auto
  next
    case False
    then show ?thesis using assms a
      by (auto simp: interpreter_runs_program_def Let_def list_ex_iff list_all_iff intro!: option_only_lower)
  qed
qed

lemma not_destructive_harmless:
  assumes "argv \<noteq> []" "\<not> argv_is_destructive argv"
  obtains cur where "strip_env 4 argv = Some cur" "suffix cur argv" "cur \<noteq> []" "harmless_program cur"
proof -
  obtain cur where c: "strip_env 4 argv = Some cur" using assms by (auto simp: argv_is_destructive_def split: option.splits)
  note cne = strip_env_ne [OF assms(1) c]
  have "\<not> interpreter_runs_program cur" using assms unfolding argv_is_destructive_def Let_def c by auto
  then have "harmless_program cur"
    using assms interpreter_idle [OF cne] cne strip_env_not_env [OF c]
    unfolding harmless_program_def argv_is_destructive_def Let_def c by (auto simp: go_run_executes_def)
  then show thesis using that c cne strip_env_suffix [OF c] by blast
qed



text \<open>
  Ways around the classification: wrappers that are not listed, a clustered output option, an
  alias given on the command line, and a \<open>find\<close> action that is not listed.
\<close>

lemma unlisted_wrapper_passes: "\<not> is_destructive_exec ''timeout 5 bash x.sh''"
  by code_simp

lemma clustered_output_passes: "\<not> is_destructive_exec ''curl -so out http://h/''"
  by code_simp

lemma git_alias_passes: "\<not> is_destructive_exec ''git -c alias.x=!sh x''"
  by code_simp

lemma find_fprint0_passes: "\<not> is_destructive_exec ''find . -fprint0 out''"
  by code_simp

end
