(* ===== verification/Writ_Dispatch.thy ===== *)
theory Writ_Dispatch
  imports Writ_Parser Exec_Guard Ssrf_Guard
begin

text \<open>
  The writ dispatcher (\<open>execute_agent_commands\<close> of \<open>src/commands.cpp\<close>): capability gate, replay
  cache, per-turn budgets and one handler per command.  What lies behind the callbacks (sub-agents,
  network, file system, stores, the prompt of the user) is a world that answers calls; every call
  is recorded with its answer.  The flags of \<open>wiring\<close> say which callbacks are set.  Labels and
  previews of the tool events, which are only drawn, are left out.
\<close>

section \<open>Calls and answers\<close>

datatype ext_call =
    FetchBytes string | SearchWeb string int | Mcp string string | A2a string string | ScheduleCb string string string
  | TodoCb string string string | LessonCb string string string | Scratchpad string string string | MemFile string string string
  | MemReader string string string | MemWriter string string string string | Confirm string string string | ExecInvoke string
  | Spawn "string list" | Advise string | PaneSpawn string string | Parallel "(string \<times> string) list" | AgentInvoke string string
  | WriteIntercept string string | WriteFile string string string | ArtifactWrite string string | ArtifactRead string int int
  | ArtifactList | WorkspaceRoot | MapTree string string

record FetchedResource =
  fr_ok :: bool
  fr_error :: string
  fr_body :: string
  fr_content_type :: string
  fr_byte_count :: int

datatype answer = AText string | ABool bool | ATexts "string list" | AFetch FetchedResource | AArtifact string string

fun text_of :: "answer \<Rightarrow> string" where
  "text_of (AText s) = s" | "text_of _ = []"

fun yes_of :: "answer \<Rightarrow> bool" where
  "yes_of (ABool b) = b" | "yes_of _ = False"

fun texts_of :: "answer \<Rightarrow> string list" where
  "texts_of (ATexts ts) = ts" | "texts_of _ = []"

fun fetch_of :: "answer \<Rightarrow> FetchedResource" where
  "fetch_of (AFetch r) = r"
| "fetch_of _ = \<lparr>fr_ok = False, fr_error = [], fr_body = [], fr_content_type = [], fr_byte_count = 0\<rparr>"

fun artifact_of :: "answer \<Rightarrow> string \<times> string" where
  "artifact_of (AArtifact b m) = (b, m)" | "artifact_of _ = ([], [])"

record tool_event =
  te_started :: bool
  te_id :: nat
  te_kind :: string
  te_ok :: bool

text \<open>
  The replay cache is one map shared by reference with the turns of delegated agents, so a call gets
  it and may hand back a changed one.
\<close>

type_synonym cache = "(string \<Rightarrow> string option) option"

record 'w wiring =
  w_answer :: "'w \<Rightarrow> cache \<Rightarrow> ext_call \<Rightarrow> answer \<times> 'w \<times> cache"
  w_cancelled :: "'w \<Rightarrow> bool"
  w_agent_id :: string
  w_capabilities :: "string list"
  w_agent :: bool
  w_confirm :: bool
  w_advisor :: bool
  w_pane :: bool
  w_write_interceptor :: bool
  w_exec_disabled :: bool
  w_parallel :: bool
  w_mem_reader :: bool
  w_mem_writer :: bool
  w_mcp :: bool
  w_scratchpad :: bool
  w_search :: bool
  w_artifact_writer :: bool
  w_artifact_reader :: bool
  w_artifact_lister :: bool
  w_a2a :: bool
  w_scheduler :: bool
  w_todo :: bool
  w_lesson :: bool
  w_exec_invoker :: bool
  w_images :: bool
  w_root_provider :: bool
  w_host_exec_surface :: bool
  w_resolver :: resolver
  w_html_to_text :: "string \<Rightarrow> string"
  w_help_index :: string
  w_help_for_topic :: "string \<Rightarrow> string"
  w_hash :: "string \<Rightarrow> int"
  w_display_width :: "string \<Rightarrow> int"
  w_trim_to_cols :: "string \<Rightarrow> int \<Rightarrow> string"

record 'w dstate =
  d_world :: 'w
  d_calls :: "(ext_call \<times> answer) list"
  d_cache :: cache
  d_fetches :: int
  d_searches :: int
  d_advises :: int
  d_images :: "(string \<times> string) list"
  d_out :: string
  d_events :: "tool_event list"
  d_seq :: nat

definition ask :: "'w wiring \<Rightarrow> ext_call \<Rightarrow> 'w dstate \<Rightarrow> answer \<times> 'w dstate" where
  "ask W c s =
     (let (a, x, m) = w_answer W (d_world s) (d_cache s) c in (a, s\<lparr>d_world := x, d_cache := m, d_calls := d_calls s @ [(c, a)]\<rparr>))"

section \<open>Text helpers\<close>

definition nl :: string where "nl = [CHR 0x0A]"

definition em :: string where "em = [CHR '' '', CHR 0xE2, CHR 0x80, CHR 0x94, CHR '' '']"

definition kPerFetchLimit :: nat where "kPerFetchLimit = 16384"
definition kTotalLimit :: nat where "kTotalLimit = 32768"
definition kMaxFetches :: int where "kMaxFetches = 3"
definition kMaxSearches :: int where "kMaxSearches = 4"
definition kMaxAdvise :: int where "kMaxAdvise = 2"
definition kMaxParallelChildren :: nat where "kMaxParallelChildren = 16"

definition cap_body :: "string \<Rightarrow> string" where
  "cap_body b = (if kPerFetchLimit < length b then take kPerFetchLimit b @ nl @ ''... [truncated]'' else b)"

definition with_nl :: "string \<Rightarrow> string" where
  "with_nl b = b @ (if b = [] \<or> last b \<noteq> CHR 0x0A then nl else [])"

definition is_err :: "string \<Rightarrow> bool" where "is_err b \<longleftrightarrow> prefix ''ERR:'' b"

definition sp_arg :: "string \<Rightarrow> string" where "sp_arg a = (if a = [] then [] else '' '' @ a)"

definition drop_space :: "string \<Rightarrow> string" where
  "drop_space r = (if r \<noteq> [] \<and> hd r = CHR '' '' then tl r else r)"

text \<open>\<open>iss >> token\<close> and then \<open>getline\<close>: the first token and the text after it, less one leading blank.\<close>

definition after_token :: "string \<Rightarrow> string" where
  "after_token s = drop (length (first_token s)) (dropWhile is_space s)"

definition rest_of_line :: "string \<Rightarrow> string" where
  "rest_of_line s = drop_space (takeWhile (\<lambda>c. c \<noteq> CHR 0x0A) (after_token s))"

definition is_sptab :: "char \<Rightarrow> bool" where "is_sptab c \<longleftrightarrow> c = CHR '' '' \<or> c = CHR 0x09"

definition ltrim_sptab :: "string \<Rightarrow> string" where "ltrim_sptab s = dropWhile is_sptab s"

definition rtrim_sptab :: "string \<Rightarrow> string" where "rtrim_sptab s = rev (dropWhile is_sptab (rev s))"

text \<open>A block under construction: its text, whether it may be cached, and the state.\<close>

type_synonym 'w step = "(string \<times> bool) \<times> 'w dstate"

definition framed :: "string \<Rightarrow> string \<Rightarrow> 'w step \<Rightarrow> 'w step" where
  "framed head foot r = (case r of ((b, k), s) \<Rightarrow> ((head @ b @ ''[END '' @ foot @ '']'' @ nl @ nl, k), s))"

definition refuse :: "string \<Rightarrow> 'w dstate \<Rightarrow> 'w step" where
  "refuse msg s = ((msg @ nl, False), s)"

text \<open>The tail the callback commands share: cap the body, end the line, do not cache an error.\<close>

definition body_step :: "answer \<times> 'w dstate \<Rightarrow> 'w step" where
  "body_step r = (case r of (a, s) \<Rightarrow> let b = cap_body (text_of a) in ((with_nl b, \<not> is_err b), s))"

definition plain_step :: "answer \<times> 'w dstate \<Rightarrow> 'w step" where
  "plain_step r = (case r of (a, s) \<Rightarrow> ((with_nl (text_of a), \<not> is_err (text_of a)), s))"

section \<open>Capabilities\<close>

definition bundle_of_cap :: "string \<Rightarrow> string" where
  "bundle_of_cap cap =
     (if cap = ''/search'' \<or> cap = ''/fetch'' \<or> cap = ''/browse'' then ''web''
      else if cap = ''/exec'' then ''exec''
      else if prefix ''/write'' cap then ''write''
      else if cap = ''/read'' \<or> cap = ''/list'' \<or> cap = ''/map'' then ''read''
      else if prefix ''/mem'' cap then ''mem''
      else if cap = ''/agent'' \<or> cap = ''/parallel'' \<or> cap = ''/pane'' then ''delegation''
      else if cap = ''/mcp'' then ''mcp''
      else if cap = ''/a2a'' then ''a2a''
      else if cap = ''/advise'' then ''advise''
      else if cap = ''/todo'' then ''todos''
      else if cap = ''/schedule'' then ''schedule''
      else if cap = ''/lesson'' then ''lessons''
      else [])"

definition allowed_bundles :: "string list \<Rightarrow> string list" where
  "allowed_bundles caps = filter (\<lambda>b. b \<noteq> []) (map bundle_of_cap caps)"

definition bundle_of :: "string \<Rightarrow> string" where
  "bundle_of name =
     (if name = ''fetch'' \<or> name = ''search'' \<or> name = ''browse'' then ''web''
      else if name = ''exec'' then ''exec''
      else if name = ''write'' then ''write''
      else if name = ''read'' \<or> name = ''list'' \<or> name = ''map'' then ''read''
      else if name = ''mem'' then ''mem''
      else if name = ''agent'' \<or> name = ''parallel'' \<or> name = ''pane'' then ''delegation''
      else if name = ''mcp'' then ''mcp''
      else if name = ''a2a'' then ''a2a''
      else if name = ''advise'' then ''advise''
      else if name = ''todo'' then ''todos''
      else if name = ''schedule'' then ''schedule''
      else if name = ''lesson'' then ''lessons''
      else [])"

definition capability_refused :: "'w wiring \<Rightarrow> AgentCommand \<Rightarrow> bool" where
  "capability_refused W c \<longleftrightarrow> w_capabilities W \<noteq> [] \<and> bundle_of (c_name c) \<noteq> [] \<and> bundle_of (c_name c) \<notin> set (allowed_bundles (w_capabilities W))"

definition capability_block :: "AgentCommand \<Rightarrow> string" where
  "capability_block c =
     ''[/'' @ c_name c @ '' '' @ c_args c @ '']'' @ nl
     @ ''ERR: capability not granted'' @ em @ ''this agent's `capabilities` does not include /'' @ c_name c
     @ '' (bundle '' @ [CHR 0x27] @ bundle_of (c_name c) @ [CHR 0x27] @ '').  Adapt: stop emitting /'' @ c_name c
     @ '' or delegate via /agent to one that has it.'' @ nl @ ''[END '' @ c_name c @ '']'' @ nl @ nl"

section \<open>Failure detection\<close>

text \<open>An \<open>[exit N]\<close> trailer with another digit than 0 first.\<close>

fun bad_exit :: "string \<Rightarrow> bool" where
  "bad_exit [] = False"
| "bad_exit (c # cs) = ((prefix ''[exit '' (c # cs) \<and> 6 < length (c # cs) \<and> (c # cs) ! 6 \<noteq> CHR ''0'') \<or> bad_exit cs)"

definition is_tool_result_failure :: "string \<Rightarrow> bool" where
  "is_tool_result_failure block \<longleftrightarrow> contains block ''ERR:'' \<or> contains block ''UPSTREAM FAILED'' \<or> contains block ''SKIPPED:''
     \<or> contains block ''TRUNCATED:'' \<or> bad_exit block"

section \<open>Base64\<close>

definition kAlphabet :: string where
  "kAlphabet = ''ABCDEFGHIJKLMNOPQRSTUVWXYZabcdefghijklmnopqrstuvwxyz0123456789+/''"

definition sextet :: "nat \<Rightarrow> nat \<Rightarrow> char" where "sextet v k = kAlphabet ! ((v div 2 ^ k) mod 64)"

fun base64_encode :: "string \<Rightarrow> string" where
  "base64_encode [] = []"
| "base64_encode [a] = (let v = code a * 65536 in [sextet v 18, sextet v 12, CHR ''='', CHR ''=''])"
| "base64_encode [a, b] = (let v = code a * 65536 + code b * 256 in [sextet v 18, sextet v 12, sextet v 6, CHR ''=''])"
| "base64_encode (a # b # c # r) =
     (let v = code a * 65536 + code b * 256 + code c in [sextet v 18, sextet v 12, sextet v 6, sextet v 0] @ base64_encode r)"

section \<open>Web commands\<close>

definition image_note :: "string \<Rightarrow> nat \<Rightarrow> string \<Rightarrow> int \<Rightarrow> string" where
  "image_note verb idx media bytes =
     ''['' @ verb @ '' as image #'' @ to_string (int idx) @ em @ media @ '', '' @ to_string bytes
     @ '' bytes; see image content attached to this turn]'' @ nl"

definition run_fetch :: "'w wiring \<Rightarrow> AgentCommand \<Rightarrow> 'w dstate \<Rightarrow> 'w step" where
  "run_fetch W c s =
     framed (''[/fetch '' @ c_args c @ '']'' @ nl) ''FETCH''
       (if kMaxFetches \<le> d_fetches s then refuse (''SKIPPED: max '' @ to_string kMaxFetches @ '' fetches per turn'') s
        else let (a, s1) = ask W (FetchBytes (c_args c)) (s\<lparr>d_fetches := d_fetches s + 1\<rparr>); fr = fetch_of a in
          if \<not> fr_ok fr then ((''ERR: '' @ fr_error fr @ nl, True), s1)
          else if w_images W \<and> prefix ''image/'' (fr_content_type fr) then
            ((image_note ''fetched'' (length (d_images s1) + 1) (fr_content_type fr) (fr_byte_count fr), True),
             s1\<lparr>d_images := d_images s1 @ [(fr_content_type fr, base64_encode (fr_body fr))]\<rparr>)
          else ((cap_body (w_html_to_text W (fr_body fr)) @ nl, True), s1))"

text \<open>The trailing \<open>top=N\<close> of a search: the query without it and the number of results.\<close>

definition rfind_sub :: "string \<Rightarrow> string \<Rightarrow> nat option" where
  "rfind_sub n s = (case filter (\<lambda>i. prefix n (drop i s)) (rev [0..<Suc (length s)]) of [] \<Rightarrow> None | i # _ \<Rightarrow> Some i)"

definition search_query :: "string \<Rightarrow> string \<times> int" where
  "search_query args =
     (let (q, n) = (case rfind_sub '' top='' args of
                      None \<Rightarrow> (args, 10)
                    | Some pos \<Rightarrow>
                        (case stoi (drop (pos + 5) args) of
                           Some v \<Rightarrow> if 0 < v then (take pos args, min v 20) else (args, 10)
                         | None \<Rightarrow> (args, 10)))
      in (rtrim_sptab q, n))"

definition run_search :: "'w wiring \<Rightarrow> AgentCommand \<Rightarrow> 'w dstate \<Rightarrow> 'w step" where
  "run_search W c s =
     (let (q, n) = search_query (c_args c); head = ''[/search '' @ q @ '']'' @ nl in
      if kMaxSearches \<le> d_searches s then
        framed head ''SEARCH'' (refuse (''SKIPPED: max '' @ to_string kMaxSearches @ '' searches per turn'') s)
      else if q = [] then
        framed (''[/search]'' @ nl) ''SEARCH'' (refuse (''ERR: empty query'' @ em @ ''usage: /search <query> [top=N]'') s)
      else if \<not> w_search W then
        framed head ''SEARCH'' (refuse (''ERR: web search unavailable'' @ em @ ''no search provider is wired.  Configure a Brave Search API key with ''
          @ ''`arbiter --setup-tools` (or set ARBITER_SEARCH_API_KEY / BRAVE_SEARCH_API_KEY) and restart.  Adapt: drop ''
          @ ''the /search step, or fall back to /fetch with a known URL.'') s)
      else framed head ''SEARCH'' (body_step (ask W (SearchWeb q n) (s\<lparr>d_searches := d_searches s + 1\<rparr>))))"

fun escape_url :: "string \<Rightarrow> string" where
  "escape_url [] = []"
| "escape_url (c # cs) =
     (if c = CHR 0x22 \<or> c = CHR 0x5C then [CHR 0x5C, c]
      else if c = CHR 0x0A then [CHR 0x5C, CHR ''n'']
      else if c = CHR 0x0D then [CHR 0x5C, CHR ''r'']
      else if c = CHR 0x09 then [CHR 0x5C, CHR ''t'']
      else [c]) @ escape_url cs"

definition browse_nav_args :: "string \<Rightarrow> string" where
  "browse_nav_args url = ''playwright browser_navigate {'' @ [CHR 0x22] @ ''url'' @ [CHR 0x22] @ '':'' @ [CHR 0x22] @ escape_url url @ [CHR 0x22] @ ''}''"

definition run_browse :: "'w wiring \<Rightarrow> AgentCommand \<Rightarrow> 'w dstate \<Rightarrow> 'w step" where
  "run_browse W c s =
     (let url = ltrim_sptab (rtrim_sptab (c_args c)); head = ''[/browse '' @ url @ '']'' @ nl in
      if kMaxFetches \<le> d_fetches s then
        framed head ''BROWSE'' (refuse (''SKIPPED: max '' @ to_string kMaxFetches @ '' URL reads per turn (shared with /fetch)'') s)
      else if url = [] then framed (''[/browse]'' @ nl) ''BROWSE'' (refuse (''ERR: empty URL'' @ em @ ''usage: /browse <url>'') s)
      else if \<not> w_mcp W then
        framed head ''BROWSE'' (refuse (''ERR: /browse requires a playwright MCP server configured for this deployment.  Adapt: try ''
          @ ''/fetch <url> instead (works for static pages).'') s)
      else let reject = ssrf_preflight_url (w_resolver W) url in
      if reject \<noteq> [] then framed head ''BROWSE'' (refuse (''ERR: refused'' @ em @ reject @ '' (SSRF guard)'') s)
      else framed head ''BROWSE''
        (let (a, s1) = ask W (Mcp ''call'' (browse_nav_args url)) (s\<lparr>d_fetches := d_fetches s + 1\<rparr>); nav = text_of a in
         if is_err nav \<or> contains nav ''[tool reported isError=true]'' then ((with_nl nav, False), s1)
         else body_step (ask W (Mcp ''call'' ''playwright browser_snapshot'') s1)))"

section \<open>Bridged commands\<close>

definition run_mcp :: "'w wiring \<Rightarrow> AgentCommand \<Rightarrow> 'w dstate \<Rightarrow> 'w step" where
  "run_mcp W c s =
     (let sub = first_token (c_args c); rest = rest_of_line (c_args c) in
      framed (''[/mcp '' @ sub @ sp_arg rest @ '']'' @ nl) ''MCP''
        (if sub \<noteq> ''tools'' \<and> sub \<noteq> ''call'' then
           refuse (''ERR: usage: /mcp tools [server]  OR  /mcp call <server> <tool> [json_args]'') s
         else if \<not> w_mcp W then
           refuse (''ERR: MCP unavailable in this context'' @ em @ ''only the HTTP API spawns the per-request MCP manager.  ''
             @ ''Adapt: drop the /mcp step or run under /v1/orchestrate.'') s
         else body_step (ask W (Mcp sub rest) s)))"

definition run_a2a :: "'w wiring \<Rightarrow> AgentCommand \<Rightarrow> 'w dstate \<Rightarrow> 'w step" where
  "run_a2a W c s =
     (let sub = first_token (c_args c); rest = rest_of_line (c_args c) in
      framed (''[/a2a '' @ sub @ sp_arg rest @ '']'' @ nl) ''A2A''
        (if sub \<notin> set [''list'', ''card'', ''call''] then
           refuse (''ERR: usage: /a2a list  OR  /a2a card <name>  OR  /a2a call <name> <message>'') s
         else if \<not> w_a2a W then
           refuse (''ERR: A2A unavailable in this context'' @ em @ ''only the HTTP API spawns the per-request remote-agent ''
             @ ''manager.  Adapt: drop the /a2a step or run under /v1/orchestrate.'') s
         else body_step (ask W (A2a sub rest) s)))"

definition run_schedule :: "'w wiring \<Rightarrow> AgentCommand \<Rightarrow> 'w dstate \<Rightarrow> 'w step" where
  "run_schedule W c s =
     (let sub = first_token (c_args c);
          (kind, args) = (if sub \<in> set [''list'', ''cancel'', ''pause'', ''resume''] then (sub, rest_of_line (c_args c)) else (''create'', c_args c)) in
      framed (''[/schedule '' @ kind @ sp_arg args @ '']'' @ nl) ''SCHEDULE''
        (if \<not> w_scheduler W then
           refuse (''ERR: scheduling unavailable in this context'' @ em @ ''no scheduler bridge is wired (TUI and --api both ''
             @ ''start a ticker; --send persists tasks but does not fire them).'') s
         else body_step (ask W (ScheduleCb kind args (w_agent_id W)) s)))"

definition before_blank_line :: "string \<Rightarrow> string" where
  "before_blank_line a = (case find_sub (nl @ nl) a of None \<Rightarrow> a | Some n \<Rightarrow> take n a)"

definition run_todo :: "'w wiring \<Rightarrow> AgentCommand \<Rightarrow> 'w dstate \<Rightarrow> 'w step" where
  "run_todo W c s =
     (let sub = first_token (c_args c); rest = rest_of_line (c_args c);
          args = rest @ (if sub = ''add'' \<and> c_content c \<noteq> [] then nl @ nl @ c_content c else []) in
      framed (''[/todo '' @ sub @ sp_arg rest @ '']'' @ nl) ''TODO''
        (if sub \<notin> set [''add'', ''list'', ''start'', ''done'', ''cancel'', ''delete'', ''describe'', ''subject''] then
           refuse (''ERR: usage: /todo (add|list|start|done|cancel|delete|describe|subject) [args]'') s
         else if take 3 (c_args c) = ''add'' \<and> c_truncated c then
           (let warn = ''WARN: missing /endtodo terminator'' @ em @ ''subject committed, partial body dropped.  Use /todo ''
                  @ ''describe <id>: <text> to fill in the body.'' @ nl in
            if w_todo W then (let (a, s1) = ask W (TodoCb ''add'' (before_blank_line args) (w_agent_id W)) s
                              in ((with_nl (text_of a) @ warn, False), s1))
            else ((warn, False), s))
         else if \<not> w_todo W then
           refuse (''ERR: todos unavailable in this context'' @ em @ ''only the HTTP API wires the per-tenant todo store.  Run ''
             @ ''under /v1/orchestrate.'') s
         else body_step (ask W (TodoCb sub args (w_agent_id W)) s)))"

definition run_lesson :: "'w wiring \<Rightarrow> AgentCommand \<Rightarrow> 'w dstate \<Rightarrow> 'w step" where
  "run_lesson W c s =
     (let sub = first_token (c_args c);
          (kind, args) = (if sub \<in> set [''list'', ''search'', ''delete''] then (sub, rest_of_line (c_args c))
                          else (''create'', c_args c @ (if c_content c \<noteq> [] then nl @ nl @ c_content c else []))) in
      framed (''[/lesson '' @ kind @ sp_arg args @ '']'' @ nl) ''LESSON''
        (if kind = ''create'' \<and> c_truncated c then refuse ''ERR: missing /endlesson terminator on block-form lesson'' s
         else if \<not> w_lesson W then
           refuse (''ERR: lesson store unavailable in this context'' @ em @ ''the /lesson writ requires the HTTP API.  Run under ''
             @ ''/v1/orchestrate.'') s
         else body_step (ask W (LessonCb kind args (w_agent_id W)) s)))"

section \<open>Memory\<close>

definition scratch :: "'w wiring \<Rightarrow> string \<Rightarrow> string \<Rightarrow> 'w dstate \<Rightarrow> string \<times> 'w dstate" where
  "scratch W kind txt s =
     (let (a, s1) = ask W (if w_scratchpad W then Scratchpad kind (w_agent_id W) txt else MemFile kind (w_agent_id W) txt) s
      in (if \<not> w_scratchpad W \<and> kind = ''clear'' then ''OK: memory cleared'' else text_of a, s1))"

definition mem_note :: "string \<Rightarrow> string \<times> 'w dstate \<Rightarrow> 'w step" where
  "mem_note head r = (case r of (t, s) \<Rightarrow> ((head @ '' '' @ t @ nl @ nl, True), s))"

definition mem_show :: "string \<Rightarrow> string \<Rightarrow> string \<Rightarrow> string \<times> 'w dstate \<Rightarrow> 'w step" where
  "mem_show head none foot r = (case r of (t, s) \<Rightarrow> ((head @ nl @ (if t = [] then none else t) @ nl @ foot @ nl @ nl, True), s))"

definition mem_unavailable :: "string \<Rightarrow> string" where
  "mem_unavailable step = ''ERR: structured memory unavailable in this context'' @ em @ ''this surface is only available when running under ''
     @ ''the HTTP API with a tenant token.  Adapt: drop the /mem '' @ step @ '' step.''"

definition run_mem_shared :: "'w wiring \<Rightarrow> AgentCommand \<Rightarrow> 'w dstate \<Rightarrow> 'w step" where
  "run_mem_shared W c s =
     (let tail = after_token (c_args c); action = first_token tail in
      if action = ''write'' then mem_note ''[/mem shared write]'' (scratch W ''shared-write'' (rest_of_line tail) s)
      else if action = ''read'' \<or> action = ''show'' then
        mem_show ''[/mem shared read]'' ''(shared scratchpad empty)'' ''[END SHARED MEMORY]'' (scratch W ''shared-read'' [] s)
      else if action = ''clear'' then mem_note ''[/mem shared clear]'' (scratch W ''shared-clear'' [] s)
      else ((''[/mem shared] ERR: unknown action '' @ [CHR 0x27] @ action @ [CHR 0x27] @ em @ ''use write, read, or clear'' @ nl @ nl, False), s))"

definition run_mem_add :: "'w wiring \<Rightarrow> AgentCommand \<Rightarrow> 'w dstate \<Rightarrow> 'w step" where
  "run_mem_add W c s =
     (let tail = after_token (c_args c); kind = first_token tail; args = rest_of_line tail in
      framed (''[/mem add '' @ kind @ sp_arg args @ '']'' @ nl) ''MEMORY''
        (if kind \<noteq> ''entry'' \<and> kind \<noteq> ''link'' then
           refuse (''ERR: usage: /mem add entry <type> <title> (then body, then /endmem) OR /mem add link <src_id> <relation> <dst_id>'') s
         else if \<not> w_mem_writer W then refuse (mem_unavailable ''add'') s
         else if kind = ''entry'' \<and> c_truncated c then
           refuse (''ERR: /mem add entry block was not closed with /endmem; entry not written.  Re-emit the full block in the next turn.'') s
         else if kind = ''entry'' \<and> c_content c = [] then
           refuse (''ERR: /mem add entry requires a content body between the header and /endmem.  Synthesise ''
             @ ''the substance of the finding (key facts, numbers, sources) so future /mem search and /mem entry calls return useful context.'') s
         else plain_step (ask W (MemWriter (if kind = ''entry'' then ''add-entry'' else ''add-link'') args (c_content c) (w_agent_id W)) s)))"

definition run_mem :: "'w wiring \<Rightarrow> AgentCommand \<Rightarrow> 'w dstate \<Rightarrow> 'w step" where
  "run_mem W c s =
     (let sub = first_token (c_args c); args = rest_of_line (c_args c) in
      if sub = ''shared'' then run_mem_shared W c s
      else if sub = ''write'' then mem_note ''[/mem write]'' (scratch W ''write'' args s)
      else if sub = ''read'' then mem_show ''[/mem read]'' ''(no memory)'' ''[END MEMORY]'' (scratch W ''read'' [] s)
      else if sub = ''show'' then mem_show ''[/mem show]'' ''(no memory)'' ''[END MEMORY]'' (scratch W ''read'' [] s)
      else if sub = ''clear'' then mem_note ''[/mem clear]'' (scratch W ''clear'' [] s)
      else if sub \<in> set [''entries'', ''entry'', ''search'', ''expand'', ''density''] then
        framed (''[/mem '' @ sub @ sp_arg args @ '']'' @ nl) ''MEMORY''
          (if \<not> w_mem_reader W then refuse (mem_unavailable sub) s
           else plain_step (ask W (MemReader sub args (w_agent_id W)) s))
      else if sub = ''invalidate'' then
        framed (''[/mem invalidate'' @ sp_arg args @ '']'' @ nl) ''MEMORY''
          (if \<not> w_mem_writer W then refuse (mem_unavailable ''invalidate'') s
           else if args = [] then refuse ''ERR: usage: /mem invalidate <id>'' s
           else plain_step (ask W (MemWriter ''invalidate'' args [] (w_agent_id W)) s))
      else if sub = ''add'' then run_mem_add W c s
      else ((''[/mem] ERR: unknown subcommand '' @ [CHR 0x27] @ sub @ [CHR 0x27] @ em
              @ ''use read, write, show, clear, shared, entries, entry, search, expand, density, add, or invalidate'' @ nl @ nl, False), s))"

section \<open>Help, shell and advisor\<close>

definition run_help :: "'w wiring \<Rightarrow> AgentCommand \<Rightarrow> 'w dstate \<Rightarrow> 'w step" where
  "run_help W c s =
     (let topic = takeWhile (\<lambda>ch. \<not> is_sptab ch) (lower (c_args c)) in
      framed (''[/help'' @ sp_arg topic @ '']'' @ nl) ''HELP''
        (if topic = [] then ((w_help_index W, True), s)
         else let body = w_help_for_topic W topic in
           if body = [] then refuse (''ERR: unknown topic '' @ [CHR 0x27] @ topic @ [CHR 0x27] @ em
                               @ ''call /help with no args to list available topics'') s
           else ((body, True), s)))"

definition exec_confirm :: "'w wiring \<Rightarrow> string \<Rightarrow> ext_call" where
  "exec_confirm W args =
     (let summary = (if \<not> w_exec_invoker W \<or> w_host_exec_surface W
                     then (if is_destructive_exec args then ''HOST SHELL (unsandboxed)'' @ em @ ''destructive command'' else ''HOST SHELL (unsandboxed)'')
                     else ''sandboxed shell'' @ em @ ''destructive command'')
      in Confirm ''exec'' (if 96 < w_display_width W args then w_trim_to_cols W args 95 @ [CHR 0xE2, CHR 0x80, CHR 0xA6] else args) summary)"

definition exec_now :: "'w wiring \<Rightarrow> string \<Rightarrow> 'w dstate \<Rightarrow> 'w step" where
  "exec_now W args s =
     (if w_exec_invoker W then plain_step (ask W (ExecInvoke args) s)
      else case cmd_exec args True of
        Inl e \<Rightarrow> ((e @ nl, True), s)
      | Inr argv \<Rightarrow> (let (a, s1) = ask W (Spawn argv) s in ((text_of a @ nl, True), s1)))"

definition run_exec :: "'w wiring \<Rightarrow> AgentCommand \<Rightarrow> 'w dstate \<Rightarrow> 'w step" where
  "run_exec W c s =
     framed (''[/exec '' @ c_args c @ '']'' @ nl) ''EXEC''
       (if \<not> w_exec_invoker W \<and> w_exec_disabled W then
          refuse (''ERR: /exec is disabled in this execution context'' @ em @ ''shell commands are not permitted.  Adapt: drop the ''
            @ ''/exec step, use /fetch for URL reads, /write for files, or /agent to delegate analysis that doesn't require the shell.'') s
        else if w_confirm W \<and> (\<not> w_exec_invoker W \<or> is_destructive_exec (c_args c)) then
          (let (a, s1) = ask W (exec_confirm W (c_args c)) s in
           if \<not> yes_of a then refuse ''ERR: user declined'' s1 else exec_now W (c_args c) s1)
        else exec_now W (c_args c) s)"

definition run_advise :: "'w wiring \<Rightarrow> AgentCommand \<Rightarrow> 'w dstate \<Rightarrow> 'w step" where
  "run_advise W c s =
     framed (''[/advise]'' @ nl) ''ADVISE''
       (if \<not> w_advisor W then
          refuse (''ERR: advisor not configured'' @ em @ ''set advisor_model in the agent config to enable /advise.'') s
        else if kMaxAdvise \<le> d_advises s then
          refuse (''SKIPPED: max '' @ to_string kMaxAdvise @ '' advisor consults per turn.  A third call means the ''
            @ ''task is under-scoped'' @ em @ ''deliver what you have and note the open question in your output.'') s
        else let (a, s1) = ask W (Advise (c_args c)) (s\<lparr>d_advises := d_advises s + 1\<rparr>); t = text_of a in
          ((t @ (if t \<noteq> [] \<and> last t \<noteq> CHR 0x0A then nl else [])
            @ (if is_err t then ''UPSTREAM FAILED'' @ em @ ''the advisor returned an error. Same question will fail again.  Do NOT re-issue ''
                 @ ''the identical /advise.  Proceed with your own judgment and note the open question in your output.'' @ nl else []), True), s1))"

section \<open>Delegation\<close>

definition run_pane :: "'w wiring \<Rightarrow> AgentCommand \<Rightarrow> 'w dstate \<Rightarrow> 'w step" where
  "run_pane W c s =
     (let sub = first_token (c_args c); msg = rest_of_line (c_args c) in
      framed (''[/pane '' @ sub @ '']'' @ nl) ''PANE''
        (if \<not> w_pane W then refuse ''ERR: pane spawning unavailable in this context (no interactive REPL)'' s
         else if sub = [] \<or> msg = [] then refuse ''ERR: usage: /pane <agent-id> <message>'' s
         else plain_step (ask W (PaneSpawn sub msg) s)))"

definition parallel_children :: "string \<Rightarrow> (string \<times> string) list" where
  "parallel_children content =
     filter (\<lambda>p. fst p \<noteq> [])
       (map (\<lambda>l. (first_token (drop 7 l), rest_of_line (drop 7 l))) (filter (has_arg ''/agent '') (map pop_cr (getlines content))))"

fun child_blocks :: "nat \<Rightarrow> nat \<Rightarrow> (string \<times> string) list \<Rightarrow> string list \<Rightarrow> string" where
  "child_blocks i n ((sub, msg) # cs) (r # rs) =
     ''[child '' @ to_string (int i) @ ''/'' @ to_string (int n) @ em @ ''/agent '' @ sub @ '']'' @ nl @ r @ nl
     @ ''[END CHILD '' @ to_string (int i) @ '']'' @ nl @ child_blocks (Suc i) n cs rs"
| "child_blocks i n _ _ = []"

definition run_parallel :: "'w wiring \<Rightarrow> AgentCommand \<Rightarrow> 'w dstate \<Rightarrow> 'w step" where
  "run_parallel W c s =
     (let children = parallel_children (c_content c); n = length children in
      framed (''[/parallel '' @ to_string (int n) @ '' children]'' @ nl) ''PARALLEL''
        (if c_truncated c then refuse (''ERR: /parallel block was cut off (missing /endparallel).  Re-emit the block from scratch.'') s
         else if children = [] then
           refuse (''ERR: /parallel block had no /agent lines'' @ em @ ''only /agent <id> <msg> is permitted inside /parallel.../endparallel'') s
         else if kMaxParallelChildren < n then
           refuse (''ERR: /parallel fan-out exceeds '' @ to_string (int kMaxParallelChildren) @ '' children (got '' @ to_string (int n) @ '')'' @ em @ ''split the batch'') s
         else if \<not> w_parallel W then refuse ''ERR: /parallel unavailable in this context'' s
         else let (a, s1) = ask W (Parallel children) s; results = texts_of a in
           if length results \<noteq> n then
             ((''ERR: /parallel rejected the batch (orchestrator returned '' @ to_string (int (length results)) @ '' results for ''
               @ to_string (int n) @ '' children)'' @ nl @ (case results of [] \<Rightarrow> [] | r # _ \<Rightarrow> r @ nl), False), s1)
           else ((child_blocks 1 n children results, \<not> list_ex is_err results), s1)))"

definition run_agent :: "'w wiring \<Rightarrow> AgentCommand \<Rightarrow> 'w dstate \<Rightarrow> 'w step" where
  "run_agent W c s =
     (let sub = first_token (c_args c); msg = rest_of_line (c_args c) in
      framed (''[/agent '' @ sub @ '']'' @ nl) ''AGENT''
        (if \<not> w_agent W then ((''ERR: agent invocation unavailable in this context'' @ nl, True), s)
         else let (a, s1) = ask W (AgentInvoke sub msg) s; t = text_of a in
           ((t @ nl @ (if is_err t then ''UPSTREAM FAILED'' @ em @ ''the sub-agent returned an error after the API client's internal retry/backoff chain. ''
                 @ ''The same brief will fail again.  Do NOT re-invoke /agent '' @ sub @ '' with the same arguments.  Options: adapt the brief ''
                 @ ''(narrower scope, different angle), try a different agent whose capabilities overlap, or proceed with partial results and flag ''
                 @ ''the gap in your synthesis.'' @ nl else []), True), s1)))"

section \<open>Files and artifacts\<close>

definition write_target :: "string \<Rightarrow> bool \<times> string" where
  "write_target args =
     (let path = ltrim_sptab args; flag = ''--persist'' in
      if length flag < length path \<and> prefix flag path \<and> is_sptab (path ! length flag)
      then (True, ltrim_sptab (drop (length flag) path)) else (False, path))"

definition write_summary :: "string \<Rightarrow> string \<Rightarrow> string" where
  "write_summary content root =
     (let lines = length (filter (\<lambda>ch. ch = CHR 0x0A) content) + (if content \<noteq> [] \<and> last content \<noteq> CHR 0x0A then 1 else 0) in
      to_string (int lines) @ '' lines, '' @ to_string (int (length content)) @ '' bytes''
      @ (if root = [] then [] else [CHR '' '', CHR 0xE2, CHR 0x86, CHR 0x92, CHR '' ''] @ root))"

definition write_persist :: "'w wiring \<Rightarrow> bool \<Rightarrow> string \<Rightarrow> string \<Rightarrow> 'w step \<Rightarrow> 'w step" where
  "write_persist W persist path content r =
     (case r of ((b, k), s) \<Rightarrow>
        if \<not> persist then ((b, k), s)
        else if w_artifact_writer W then
          (case plain_step (ask W (ArtifactWrite path content) s) of ((b', k'), s') \<Rightarrow> ((b @ b', k \<and> k'), s'))
        else ((b @ ''WARN: --persist requested but artifact store is unavailable in this context (no conversation, or ''
                @ ''CLI/REPL); the write was ephemeral only.'' @ nl, k), s))"

definition write_now :: "'w wiring \<Rightarrow> bool \<Rightarrow> string \<Rightarrow> string \<Rightarrow> string \<Rightarrow> 'w dstate \<Rightarrow> 'w step" where
  "write_now W persist path content root s =
     (let (a, s1) = ask W (if w_write_interceptor W then WriteIntercept path content else WriteFile path content root) s
      in write_persist W persist path content ((text_of a @ nl, True), s1))"

text \<open>The workspace root, asked for when the write goes to disk and a provider is wired.\<close>

definition write_root :: "'w wiring \<Rightarrow> 'w dstate \<Rightarrow> string option \<times> 'w dstate" where
  "write_root W s =
     (if \<not> w_write_interceptor W \<and> w_root_provider W
      then (let (a, s') = ask W WorkspaceRoot s in (Some (text_of a), s')) else (None, s))"

definition write_in_root :: "'w wiring \<Rightarrow> bool \<Rightarrow> string \<Rightarrow> string \<Rightarrow> string option \<times> 'w dstate \<Rightarrow> 'w step" where
  "write_in_root W persist path content rs =
     (case rs of (root, s) \<Rightarrow>
        if root = Some [] then
          refuse (''ERR: conversation workspace unavailable'' @ em @ ''this conversation's directory is missing or unset; ''
            @ ''refuse to write under process cwd'') s
        else
          let r = (case root of None \<Rightarrow> [] | Some x \<Rightarrow> x) in
          if \<not> w_write_interceptor W \<and> w_confirm W then
            (let (a, s2) = ask W (Confirm ''write'' path (write_summary content r)) s in
             if \<not> yes_of a then refuse ''ERR: user declined'' s2 else write_now W persist path content r s2)
          else write_now W persist path content r s)"

definition run_write :: "'w wiring \<Rightarrow> AgentCommand \<Rightarrow> 'w dstate \<Rightarrow> 'w step" where
  "run_write W c s =
     (let (persist, path) = write_target (c_args c) in
      framed (''[/write '' @ (if persist then ''--persist '' else []) @ path @ '']'' @ nl) ''WRITE''
        (if c_truncated c then
           refuse (''ERR: /write block for '' @ path @ '' was truncated mid-generation (missing /endwrite) and could not be recovered.  ''
             @ ''File NOT written.  Re-emit the full /write block from scratch.'') s
         else write_in_root W persist path (c_content c) (write_root W s)))"

text \<open>The argument of \<open>/read\<close>: a path, or an artifact id with an optional citing entry; or an error.\<close>

definition stoll_or_zero :: "string \<Rightarrow> int" where
  "stoll_or_zero t = (case stoll t of Some (v, _) \<Rightarrow> v | None \<Rightarrow> 0)"

definition read_target :: "string \<Rightarrow> string + (string \<times> int \<times> int)" where
  "read_target args =
     (if args \<noteq> [] \<and> hd args = CHR ''#'' then
        (let rest = tl args; aid = stoll_or_zero (takeWhile (\<lambda>ch. \<not> is_sptab ch) rest);
             tail = rtrim_sptab (ltrim_sptab (dropWhile (\<lambda>ch. \<not> is_sptab ch) rest)) in
         if aid \<le> 0 then Inl (''artifact id after '' @ [CHR 0x27] @ ''#'' @ [CHR 0x27] @ '' must be a positive integer'')
         else if tail = [] then Inr ([], aid, 0)
         else if \<not> prefix ''via=mem:'' tail then
           Inl (''trailing token '' @ [CHR 0x27] @ tail @ [CHR 0x27] @ em @ ''expected '' @ [CHR 0x27] @ ''via=mem:<entry_id>'' @ [CHR 0x27])
         else let mid = stoll_or_zero (drop 8 tail) in
           if mid \<le> 0 then Inl ''via=mem:<id> requires a positive entry id'' else Inr ([], aid, mid))
      else if args = [] then Inl ''usage: /read <path>  OR  /read #<artifact_id> [via=mem:<entry_id>]''
      else Inr (args, 0, 0))"

definition run_read :: "'w wiring \<Rightarrow> AgentCommand \<Rightarrow> 'w dstate \<Rightarrow> 'w step" where
  "run_read W c s =
     (let args = ltrim_sptab (rtrim_sptab (c_args c)) in
      framed (''[/read '' @ args @ '']'' @ nl) ''READ''
        (case read_target args of
           Inl e \<Rightarrow> refuse (''ERR: '' @ e) s
         | Inr (path, aid, mid) \<Rightarrow>
             if \<not> w_artifact_reader W then
               refuse (''ERR: artifact store unavailable in this context'' @ em @ ''/read works only inside an HTTP conversation.  ''
                 @ ''Adapt: drop the /read step.'') s
             else let (a, s1) = ask W (ArtifactRead path aid mid) s; (body, media) = artifact_of a in
               if \<not> is_err body \<and> w_images W \<and> prefix ''image/'' media then
                 ((image_note ''read'' (length (d_images s1) + 1) media (int (length body)), True),
                  s1\<lparr>d_images := d_images s1 @ [(media, base64_encode body)]\<rparr>)
               else ((with_nl (cap_body body), \<not> is_err body), s1)))"

definition run_list :: "'w wiring \<Rightarrow> 'w dstate \<Rightarrow> 'w step" where
  "run_list W s =
     framed (''[/list]'' @ nl) ''LIST''
       (if \<not> w_artifact_lister W then
          refuse (''ERR: artifact store unavailable in this context'' @ em @ ''/list works only inside an HTTP conversation.'') s
        else let (a, s1) = ask W ArtifactList s in
          ((with_nl (if text_of a = [] then ''(no persisted artifacts in this conversation)'' @ nl else text_of a), True), s1))"

definition run_map :: "'w wiring \<Rightarrow> AgentCommand \<Rightarrow> 'w dstate \<Rightarrow> 'w step" where
  "run_map W c s =
     framed (''[/map'' @ sp_arg (c_args c) @ '']'' @ nl) ''MAP''
       (if w_write_interceptor W \<and> \<not> w_root_provider W then
          refuse (''ERR: conversation workspace unavailable'' @ em @ ''refuse to map process cwd'') s
        else if w_root_provider W then
          (let (a, s1) = ask W WorkspaceRoot s in
           if text_of a = [] then
             refuse (''ERR: conversation workspace unavailable'' @ em @ ''this conversation's directory is missing or unset; ''
               @ ''refuse to map process cwd'') s1
           else plain_step (ask W (MapTree (text_of a) (c_args c)) s1))
        else plain_step (ask W (MapTree [] (c_args c)) s))"

section \<open>The loop\<close>

definition run_command :: "'w wiring \<Rightarrow> AgentCommand \<Rightarrow> 'w dstate \<Rightarrow> 'w step" where
  "run_command W c s =
     (let n = c_name c in
      if n = ''fetch'' then run_fetch W c s
      else if n = ''search'' then run_search W c s
      else if n = ''browse'' then run_browse W c s
      else if n = ''mcp'' then run_mcp W c s
      else if n = ''a2a'' then run_a2a W c s
      else if n = ''schedule'' then run_schedule W c s
      else if n = ''todo'' then run_todo W c s
      else if n = ''lesson'' then run_lesson W c s
      else if n = ''mem'' then run_mem W c s
      else if n = ''help'' then run_help W c s
      else if n = ''exec'' then run_exec W c s
      else if n = ''advise'' then run_advise W c s
      else if n = ''pane'' then run_pane W c s
      else if n = ''parallel'' then run_parallel W c s
      else if n = ''agent'' then run_agent W c s
      else if n = ''write'' then run_write W c s
      else if n = ''read'' then run_read W c s
      else if n = ''list'' then run_list W s
      else if n = ''map'' then run_map W c s
      else (([], True), s))"

definition dedup_key :: "'w wiring \<Rightarrow> AgentCommand \<Rightarrow> string" where
  "dedup_key W c = c_name c @ ''|'' @ c_args c @ (if c_name c = ''write'' then ''|'' @ to_string (w_hash W (c_content c)) else [])"

definition emit :: "bool \<Rightarrow> AgentCommand \<Rightarrow> bool \<Rightarrow> 'w dstate \<Rightarrow> 'w dstate" where
  "emit started c ok s = s\<lparr>d_events := d_events s @ [\<lparr>te_started = started, te_id = d_seq s, te_kind = c_name c, te_ok = ok\<rparr>]\<rparr>"

definition put_out :: "string \<Rightarrow> 'w dstate \<Rightarrow> 'w dstate" where
  "put_out t s = s\<lparr>d_out := d_out s @ t\<rparr>"

definition cached :: "'w dstate \<Rightarrow> string \<Rightarrow> string option" where
  "cached s key = (case d_cache s of None \<Rightarrow> None | Some m \<Rightarrow> m key)"

definition remember :: "string \<Rightarrow> string \<Rightarrow> bool \<Rightarrow> 'w dstate \<Rightarrow> 'w dstate" where
  "remember key block keep s = (if keep \<and> block \<noteq> [] then s\<lparr>d_cache := map_option (\<lambda>m. m(key \<mapsto> block)) (d_cache s)\<rparr> else s)"

definition dispatch_one :: "'w wiring \<Rightarrow> AgentCommand \<Rightarrow> 'w dstate \<Rightarrow> 'w dstate" where
  "dispatch_one W c s0 =
     (let s = emit True c True (s0\<lparr>d_seq := d_seq s0 + 1\<rparr>); key = dedup_key W c in
      if capability_refused W c then emit False c False (put_out (capability_block c) s)
      else case cached s key of
        Some b \<Rightarrow> emit False c (\<not> is_tool_result_failure b) (put_out b s)
      | None \<Rightarrow>
          let ((b, keep), s1) = run_command W c s
          in emit False c (b \<noteq> [] \<and> \<not> is_tool_result_failure b) (remember key b keep (put_out b s1)))"

fun dispatch_loop :: "'w wiring \<Rightarrow> AgentCommand list \<Rightarrow> 'w dstate \<Rightarrow> 'w dstate" where
  "dispatch_loop W [] s = s"
| "dispatch_loop W (c # cs) s =
     (if kTotalLimit \<le> length (d_out s) then put_out (''[TOOL RESULTS TRUNCATED: budget exhausted]'' @ nl @ nl) s
      else if w_cancelled W (d_world s) then put_out (''[TOOL RESULTS CANCELLED]'' @ nl @ nl) s
      else dispatch_loop W cs (dispatch_one W c s))"

definition execute_agent_commands :: "'w wiring \<Rightarrow> AgentCommand list \<Rightarrow> 'w dstate \<Rightarrow> 'w dstate" where
  "execute_agent_commands W cmds s =
     put_out ''[END TOOL RESULTS]'' (dispatch_loop W cmds (s\<lparr>d_out := nl, d_fetches := 0, d_searches := 0, d_advises := 0\<rparr>))"

end
