(* ===== verification/Dispatch_Correct.thy ===== *)
theory Dispatch_Correct
  imports Writ_Dispatch
begin

text \<open>
  What a turn of the writ dispatcher can do to the outside: which calls a capability list admits,
  how many budgeted calls a turn makes, what is confirmed before it happens, and what the replay
  cache does.
\<close>

section \<open>Traces\<close>

fun call_bundles :: "ext_call \<Rightarrow> string list" where
  "call_bundles (FetchBytes u) = [''web'']"
| "call_bundles (SearchWeb q n) = [''web'']"
| "call_bundles (Mcp k a) = [''web'', ''mcp'']"
| "call_bundles (A2a k a) = [''a2a'']"
| "call_bundles (ScheduleCb k a i) = [''schedule'']"
| "call_bundles (TodoCb k a i) = [''todos'']"
| "call_bundles (LessonCb k a i) = [''lessons'']"
| "call_bundles (Scratchpad k i t) = [''mem'']"
| "call_bundles (MemFile k i t) = [''mem'']"
| "call_bundles (MemReader k a i) = [''mem'']"
| "call_bundles (MemWriter k a b i) = [''mem'']"
| "call_bundles (Confirm a t m) = [''exec'', ''write'']"
| "call_bundles (ExecInvoke a) = [''exec'']"
| "call_bundles (Spawn v) = [''exec'']"
| "call_bundles (Advise q) = [''advise'']"
| "call_bundles (PaneSpawn i m) = [''delegation'']"
| "call_bundles (Parallel cs) = [''delegation'']"
| "call_bundles (AgentInvoke i m) = [''delegation'']"
| "call_bundles (WriteIntercept p t) = [''write'']"
| "call_bundles (WriteFile p t r) = [''write'']"
| "call_bundles (ArtifactWrite p t) = [''write'']"
| "call_bundles (ArtifactRead p i m) = [''read'']"
| "call_bundles ArtifactList = [''read'']"
| "call_bundles WorkspaceRoot = [''write'', ''read'']"
| "call_bundles (MapTree r a) = [''read'']"

text \<open>Calls that change the host: a file written to disk, a process started.\<close>

fun danger :: "ext_call \<Rightarrow> bool" where
  "danger (WriteFile p t r) = True" | "danger (Spawn v) = True" | "danger _ = False"

fun approves :: "ext_call \<times> answer \<Rightarrow> bool" where
  "approves (Confirm a t m, ABool b) = b" | "approves _ = False"

fun guarded :: "bool \<Rightarrow> (ext_call \<times> answer) list \<Rightarrow> bool" where
  "guarded ok [] = True"
| "guarded ok (x # xs) = ((danger (fst x) \<longrightarrow> ok) \<and> guarded (approves x) xs)"

datatype budget = Fetches | Searches | Advises

fun budget_of :: "ext_call \<Rightarrow> budget option" where
  "budget_of (FetchBytes u) = Some Fetches"
| "budget_of (SearchWeb q n) = Some Searches"
| "budget_of (Advise q) = Some Advises"
| "budget_of _ = None"

definition used :: "budget \<Rightarrow> (ext_call \<times> answer) list \<Rightarrow> int" where
  "used b xs = int (length (filter (\<lambda>x. budget_of (fst x) = Some b) xs))"

fun counter :: "budget \<Rightarrow> 'w dstate \<Rightarrow> int" where
  "counter Fetches s = d_fetches s" | "counter Searches s = d_searches s" | "counter Advises s = d_advises s"

fun limit :: "budget \<Rightarrow> int" where
  "limit Fetches = kMaxFetches" | "limit Searches = kMaxSearches" | "limit Advises = kMaxAdvise"

text \<open>
  What a handler does besides its block: it appends calls of its bundle, guarded when a prompt is
  wired, counts the budgeted ones within their limits, and leaves the loop's own fields alone.
\<close>

definition same_frame :: "'w dstate \<Rightarrow> 'w dstate \<Rightarrow> bool" where
  "same_frame s s' \<longleftrightarrow> d_out s' = d_out s \<and> d_events s' = d_events s \<and> d_seq s' = d_seq s"

definition moves :: "(ext_call \<Rightarrow> bool) \<Rightarrow> 'w wiring \<Rightarrow> 'w dstate \<Rightarrow> 'w dstate \<Rightarrow> bool" where
  "moves P W s s' \<longleftrightarrow>
     (\<exists>xs. d_calls s' = d_calls s @ xs \<and> list_all (\<lambda>x. P (fst x)) xs \<and> (w_confirm W \<longrightarrow> guarded False xs)
        \<and> (\<forall>k. used k xs \<le> counter k s' - counter k s \<and> (counter k s \<le> limit k \<longrightarrow> counter k s' \<le> limit k)))"

text \<open>The states the world can be in after some calls.\<close>

definition world_step :: "'w wiring \<Rightarrow> ('w \<times> 'w) set" where
  "world_step W = {(x, y). \<exists>m c a m'. w_answer W x m c = (a, y, m')}"

definition reaches :: "'w wiring \<Rightarrow> 'w dstate \<Rightarrow> 'w dstate \<Rightarrow> bool" where
  "reaches W s s' \<longleftrightarrow> (d_world s, d_world s') \<in> (world_step W)\<^sup>*"

lemma reaches_refl [simp]: "d_world s' = d_world s \<Longrightarrow> reaches W s s'"
  by (simp add: reaches_def)

lemma reaches_trans: "reaches W s t \<Longrightarrow> reaches W t u \<Longrightarrow> reaches W s u"
  by (simp add: reaches_def)

definition tame :: "'w wiring \<Rightarrow> string \<Rightarrow> 'w dstate \<Rightarrow> 'w dstate \<Rightarrow> bool" where
  "tame W b s s' \<longleftrightarrow> same_frame s s' \<and> reaches W s s' \<and> moves (\<lambda>c. b \<in> set (call_bundles c)) W s s'"

lemma guarded_mono: "guarded False xs \<Longrightarrow> guarded ok xs"
  by (cases xs) auto

lemma guarded_append: "guarded ok xs \<Longrightarrow> guarded False ys \<Longrightarrow> guarded ok (xs @ ys)"
  by (induction xs arbitrary: ok) (auto intro: guarded_mono)

lemma used_append [simp]: "used k (xs @ ys) = used k xs + used k ys"
  by (simp add: used_def)

lemma used_Nil [simp]: "used k [] = 0"
  by (simp add: used_def)

lemma used_single: "used k [x] = (if budget_of (fst x) = Some k then 1 else 0)"
  by (simp add: used_def)

lemma moves_refl: "moves P W s s"
  unfolding moves_def by (simp add: exI [of _ "[]"])

lemma moves_trans:
  assumes "moves P W s t" "moves P W t u"
  shows "moves P W s u"
proof -
  from assms(1) obtain xs where xs: "d_calls t = d_calls s @ xs" "list_all (\<lambda>x. P (fst x)) xs" "w_confirm W \<longrightarrow> guarded False xs"
    "\<And>k. used k xs \<le> counter k t - counter k s" "\<And>k. counter k s \<le> limit k \<longrightarrow> counter k t \<le> limit k"
    unfolding moves_def by blast
  from assms(2) obtain ys where ys: "d_calls u = d_calls t @ ys" "list_all (\<lambda>x. P (fst x)) ys" "w_confirm W \<longrightarrow> guarded False ys"
    "\<And>k. used k ys \<le> counter k u - counter k t" "\<And>k. counter k t \<le> limit k \<longrightarrow> counter k u \<le> limit k"
    unfolding moves_def by blast
  have "used k (xs @ ys) \<le> counter k u - counter k s" for k using xs(4) [of k] ys(4) [of k] by simp
  then show ?thesis unfolding moves_def using xs ys guarded_append by (intro exI [of _ "xs @ ys"]) auto
qed

lemma moves_mono: "moves P W s t \<Longrightarrow> (\<And>c. P c \<Longrightarrow> Q c) \<Longrightarrow> moves Q W s t"
  unfolding moves_def by (fastforce simp: list_all_iff)

lemma tame_refl: "tame W b s s"
  by (simp add: tame_def same_frame_def moves_refl)

lemma tame_trans: "tame W b s t \<Longrightarrow> tame W b t u \<Longrightarrow> tame W b s u"
  unfolding tame_def using moves_trans reaches_trans by (fastforce simp: same_frame_def)

lemma ask_fields:
  assumes "ask W c s = (a, s')"
  shows "d_calls s' = d_calls s @ [(c, a)]" "same_frame s s'" "counter k s' = counter k s" "d_images s' = d_images s"
    "reaches W s s'"
proof -
  obtain x m where e: "w_answer W (d_world s) (d_cache s) c = (a, x, m)"
    and s': "s' = s\<lparr>d_world := x, d_cache := m, d_calls := d_calls s @ [(c, a)]\<rparr>"
    using assms by (auto simp: ask_def split: prod.splits)
  show "d_calls s' = d_calls s @ [(c, a)]" "same_frame s s'" "d_images s' = d_images s" by (simp_all add: s' same_frame_def)
  show "counter k s' = counter k s" unfolding s' by (cases k) simp_all
  have "(d_world s, x) \<in> world_step W" unfolding world_step_def using e by blast
  then show "reaches W s s'" by (simp add: s' reaches_def)
qed

text \<open>One call outside the budgets, harmless or unguarded.\<close>

lemma tame_ask:
  assumes "ask W c s = (a, s')" "b \<in> set (call_bundles c)" "budget_of c = None" "\<not> danger c \<or> \<not> w_confirm W"
  shows "tame W b s s'"
  unfolding tame_def moves_def using assms ask_fields [OF assms(1)] by (intro conjI exI [of _ "[(c, a)]"]) (auto simp: used_single)

text \<open>A budgeted call, counted before it is made.\<close>

lemma tame_counted:
  assumes "ask W c t = (a, s')" "b \<in> set (call_bundles c)" "budget_of c = Some k" "counter k s < limit k"
    and "d_calls t = d_calls s" "same_frame s t" "d_world t = d_world s" "counter k t = counter k s + 1" "\<And>j. j \<noteq> k \<Longrightarrow> counter j t = counter j s"
  shows "tame W b s s'"
proof -
  note f = ask_fields [OF assms(1)]
  have nd: "\<not> danger c" using assms(3) by (cases c) auto
  have "used j [(c, a)] \<le> counter j s' - counter j s \<and> (counter j s \<le> limit j \<longrightarrow> counter j s' \<le> limit j)" for j
    using f(3) [of j] assms(3,4,8) assms(9) [of j] by (cases "j = k") (auto simp: used_single)
  then show ?thesis unfolding tame_def moves_def using f(1,2,5) assms(2,5,6,7) nd
    by (intro conjI exI [of _ "[(c, a)]"]) (auto simp: same_frame_def reaches_def)
qed

text \<open>A dangerous call right after the user's approval.\<close>

lemma tame_approved:
  assumes "ask W (Confirm n t m) s = (a, s1)" "yes_of a" "ask W c s1 = (a', s2)"
    and "b \<in> set (call_bundles c)" "b = ''exec'' \<or> b = ''write''" "budget_of c = None"
  shows "tame W b s s2"
proof -
  note f = ask_fields [OF assms(1)] and g = ask_fields [OF assms(3)]
  have "approves (Confirm n t m, a)" using assms(2) by (cases a) auto
  then have "guarded False [(Confirm n t m, a), (c, a')]" by simp
  moreover have "counter k s2 = counter k s" for k using f(3) g(3) by simp
  moreover have "used k [(Confirm n t m, a), (c, a')] = 0" for k using assms(6) by (simp add: used_def)
  ultimately show ?thesis unfolding tame_def moves_def using f(1,2) g(1,2) assms(4,5) reaches_trans [OF f(5) g(5)]
    by (intro conjI exI [of _ "[(Confirm n t m, a), (c, a')]"]) (auto simp: same_frame_def)
qed

lemma tame_images: "tame W b s s' \<Longrightarrow> tame W b s (s'\<lparr>d_images := x\<rparr>)"
proof -
  have "counter k (s'\<lparr>d_images := x\<rparr>) = counter k s'" for k by (cases k) auto
  then show "tame W b s s' \<Longrightarrow> tame W b s (s'\<lparr>d_images := x\<rparr>)" by (simp add: tame_def moves_def same_frame_def reaches_def)
qed

lemma step_state [simp]:
  "snd (framed h f r) = snd r" "snd (refuse msg s) = s" "snd (body_step q) = snd q" "snd (plain_step q) = snd q"
  "snd (mem_note h q2) = snd q2" "snd (mem_show h n f q2) = snd q2"
  by (auto simp: framed_def refuse_def body_step_def plain_step_def mem_note_def mem_show_def Let_def split: prod.splits)

lemma tame_ask_snd:
  "b \<in> set (call_bundles c) \<Longrightarrow> budget_of c = None \<Longrightarrow> \<not> danger c \<or> \<not> w_confirm W \<Longrightarrow> tame W b s (snd (ask W c s))"
  by (cases "ask W c s") (auto intro: tame_ask)

lemma counter_simps [simp]:
  "counter Searches (s\<lparr>d_fetches := n\<rparr>) = counter Searches s" "counter Advises (s\<lparr>d_fetches := n\<rparr>) = counter Advises s"
  "counter Fetches (s\<lparr>d_searches := n\<rparr>) = counter Fetches s" "counter Advises (s\<lparr>d_searches := n\<rparr>) = counter Advises s"
  "counter Fetches (s\<lparr>d_advises := n\<rparr>) = counter Fetches s" "counter Searches (s\<lparr>d_advises := n\<rparr>) = counter Searches s"
  by simp_all

section \<open>The handlers\<close>

lemma tame_fetch: "tame W ''web'' s (snd (run_fetch W c s))"
proof (cases "kMaxFetches \<le> d_fetches s")
  case False
  obtain a s1 where a: "ask W (FetchBytes (c_args c)) (s\<lparr>d_fetches := d_fetches s + 1\<rparr>) = (a, s1)" by fastforce
  have t: "tame W ''web'' s s1"
  proof (rule tame_counted [OF a, of _ Fetches])
    fix j assume "j \<noteq> Fetches"
    then show "counter j (s\<lparr>d_fetches := d_fetches s + 1\<rparr>) = counter j s" by (cases j) auto
  qed (use False in \<open>auto simp: same_frame_def\<close>)
  then show ?thesis using False a by (auto simp: run_fetch_def Let_def intro: tame_images)
qed (simp add: run_fetch_def tame_refl)

lemma tame_search: "tame W ''web'' s (snd (run_search W c s))"
proof (cases "kMaxSearches \<le> d_searches s \<or> fst (search_query (c_args c)) = [] \<or> \<not> w_search W")
  case True
  then show ?thesis by (auto simp: run_search_def Let_def tame_refl split: prod.split)
next
  case False
  obtain q n where q: "search_query (c_args c) = (q, n)" by fastforce
  obtain a s1 where a: "ask W (SearchWeb q n) (s\<lparr>d_searches := d_searches s + 1\<rparr>) = (a, s1)" by fastforce
  have t: "tame W ''web'' s s1"
  proof (rule tame_counted [OF a, of _ Searches])
    fix j assume "j \<noteq> Searches"
    then show "counter j (s\<lparr>d_searches := d_searches s + 1\<rparr>) = counter j s" by (cases j) auto
  qed (use False in \<open>auto simp: same_frame_def\<close>)
  then show ?thesis using False a q by (simp add: run_search_def Let_def)
qed

lemma tame_bump: "d_fetches s < kMaxFetches \<Longrightarrow> tame W b s (s\<lparr>d_fetches := d_fetches s + 1\<rparr>)"
proof -
  assume lt: "d_fetches s < kMaxFetches"
  have "counter k s \<le> counter k (s\<lparr>d_fetches := d_fetches s + 1\<rparr>) \<and> (counter k s \<le> limit k \<longrightarrow> counter k (s\<lparr>d_fetches := d_fetches s + 1\<rparr>) \<le> limit k)" for k
    using lt by (cases k) auto
  then show ?thesis unfolding tame_def moves_def by (intro conjI exI [of _ "[]"]) (auto simp: same_frame_def)
qed

lemma tame_browse: "tame W ''web'' s (snd (run_browse W c s))"
proof -
  let ?url = "ltrim_sptab (rtrim_sptab (c_args c))" and ?s = "s\<lparr>d_fetches := d_fetches s + 1\<rparr>"
  obtain a s1 where a: "ask W (Mcp ''call'' (browse_nav_args ?url)) ?s = (a, s1)" by fastforce
  show ?thesis
  proof (cases "kMaxFetches \<le> d_fetches s \<or> ?url = [] \<or> \<not> w_mcp W \<or> ssrf_preflight_url (w_resolver W) ?url \<noteq> []")
    case True
    then show ?thesis by (auto simp: run_browse_def Let_def tame_refl)
  next
    case False
    have "tame W ''web'' s s1" using False by (intro tame_trans [OF tame_bump tame_ask [OF a]]) auto
    moreover have "tame W ''web'' s1 (snd (ask W (Mcp ''call'' ''playwright browser_snapshot'') s1))" by (rule tame_ask_snd) auto
    ultimately show ?thesis using False a tame_trans by (auto simp: run_browse_def Let_def)
  qed
qed

lemma tame_bridges:
  "tame W ''mcp'' s (snd (run_mcp W c s))" "tame W ''a2a'' s (snd (run_a2a W c s))" "tame W ''schedule'' s (snd (run_schedule W c s))"
  "tame W ''lessons'' s (snd (run_lesson W c s))"
  by (auto simp: run_mcp_def run_a2a_def run_schedule_def run_lesson_def Let_def tame_refl intro!: tame_ask_snd)

lemma tame_todo: "tame W ''todos'' s (snd (run_todo W c s))"
  by (auto simp: run_todo_def Let_def tame_refl intro!: tame_ask_snd split: prod.split intro: tame_ask)

lemma tame_scratch: "tame W ''mem'' s (snd (scratch W kind txt s))"
  by (auto simp: scratch_def Let_def split: prod.split intro: tame_ask)

lemma tame_mem: "tame W ''mem'' s (snd (run_mem W c s))"
  by (simp add: run_mem_def run_mem_shared_def run_mem_add_def Let_def tame_refl tame_scratch tame_ask_snd)

lemma tame_exec_now: "w_exec_invoker W \<or> \<not> w_confirm W \<Longrightarrow> tame W ''exec'' s (snd (exec_now W args s))"
  by (auto simp: exec_now_def tame_refl split: sum.split prod.split intro!: tame_ask_snd intro: tame_ask)

lemma tame_exec_approved:
  assumes "ask W (Confirm n t m) s = (a, s1)" "yes_of a"
  shows "tame W ''exec'' s (snd (exec_now W args s1))"
proof -
  have via: "tame W ''exec'' s (snd (ask W c s1))" if "''exec'' \<in> set (call_bundles c)" "budget_of c = None" for c
    using tame_approved [OF assms, of c] that by (cases "ask W c s1") auto
  have "tame W ''exec'' s s1" using tame_ask [OF assms(1)] by simp
  then show ?thesis unfolding exec_now_def using via
    by (cases "w_exec_invoker W"; cases "cmd_exec args True") (auto split: prod.split intro: tame_approved [OF assms])
qed

lemma tame_exec: "tame W ''exec'' s (snd (run_exec W c s))"
proof (cases "\<not> w_exec_invoker W \<and> w_exec_disabled W")
  case False
  show ?thesis
  proof (cases "w_confirm W \<and> (\<not> w_exec_invoker W \<or> is_destructive_exec (c_args c))")
    case True
    obtain n t m where e: "exec_confirm W (c_args c) = Confirm n t m" by (simp add: exec_confirm_def Let_def)
    obtain a s1 where a: "ask W (Confirm n t m) s = (a, s1)" by fastforce
    have "tame W ''exec'' s s1" using tame_ask [OF a] by simp
    then show ?thesis using False True e a tame_exec_approved [OF a] tame_refl [of W _ s] by (simp add: run_exec_def)
  next
    case unasked: False
    then have "snd (run_exec W c s) = snd (exec_now W (c_args c) s)" using False by (auto simp: run_exec_def)
    then show ?thesis using unasked tame_exec_now by auto
  qed
qed (simp add: run_exec_def tame_refl)

lemma tame_advise: "tame W ''advise'' s (snd (run_advise W c s))"
proof (cases "\<not> w_advisor W \<or> kMaxAdvise \<le> d_advises s")
  case False
  obtain a s1 where a: "ask W (Advise (c_args c)) (s\<lparr>d_advises := d_advises s + 1\<rparr>) = (a, s1)" by fastforce
  have t: "tame W ''advise'' s s1"
  proof (rule tame_counted [OF a, of _ Advises])
    fix j assume "j \<noteq> Advises"
    then show "counter j (s\<lparr>d_advises := d_advises s + 1\<rparr>) = counter j s" by (cases j) auto
  qed (use False in \<open>auto simp: same_frame_def\<close>)
  then show ?thesis using False a by (auto simp: run_advise_def Let_def)
qed (auto simp: run_advise_def tame_refl)

lemma tame_delegation:
  "tame W ''delegation'' s (snd (run_pane W c s))" "tame W ''delegation'' s (snd (run_agent W c s))"
  by (auto simp: run_pane_def run_agent_def Let_def tame_refl split: prod.split intro!: tame_ask_snd intro: tame_ask)

lemma tame_parallel: "tame W ''delegation'' s (snd (run_parallel W c s))"
proof -
  obtain a s1 where a: "ask W (Parallel (parallel_children (c_content c))) s = (a, s1)" by fastforce
  have "tame W ''delegation'' s s1" using tame_ask [OF a] by simp
  then show ?thesis using a by (simp add: run_parallel_def Let_def tame_refl)
qed

lemma tame_persist: "tame W ''write'' s (snd r) \<Longrightarrow> tame W ''write'' s (snd (write_persist W persist path content r))"
proof -
  assume t: "tame W ''write'' s (snd r)"
  obtain b k s1 where r: "r = ((b, k), s1)" by (metis surj_pair)
  obtain b' k' s2 where p: "plain_step (ask W (ArtifactWrite path content) s1) = ((b', k'), s2)" by (metis surj_pair)
  then have "s2 = snd (ask W (ArtifactWrite path content) s1)" by (metis snd_conv step_state(4))
  then have "tame W ''write'' s1 s2" by (simp add: tame_ask_snd)
  then show ?thesis using t tame_trans p unfolding r write_persist_def by auto
qed

lemma tame_write_now: "w_write_interceptor W \<or> \<not> w_confirm W \<Longrightarrow> tame W ''write'' s (snd (write_now W persist path content root s))"
  unfolding write_now_def Let_def by (auto split: prod.split intro!: tame_persist intro: tame_ask)

lemma tame_write_approved:
  assumes "ask W (Confirm n t m) s = (a, s1)" "yes_of a"
  shows "tame W ''write'' s (snd (write_now W persist path content root s1))"
  unfolding write_now_def Let_def by (auto split: prod.split intro!: tame_persist intro: tame_approved [OF assms])

lemma tame_write_root: "tame W ''write'' s (snd (write_root W s))"
  by (auto simp: write_root_def tame_refl split: prod.split intro: tame_ask)

lemma tame_write_in_root: "tame W ''write'' (snd rs) (snd (write_in_root W persist path content rs))"
proof -
  obtain root s where rs: "rs = (root, s)" by (cases rs)
  let ?r = "case root of None \<Rightarrow> [] | Some x \<Rightarrow> x"
  obtain a s2 where a: "ask W (Confirm ''write'' path (write_summary content ?r)) s = (a, s2)" by fastforce
  have "tame W ''write'' s s2" using tame_ask [OF a] by simp
  then show ?thesis unfolding rs write_in_root_def Let_def
    using a tame_write_approved [OF a] tame_write_now [of W s] by (simp add: tame_refl)
qed

lemma tame_write: "tame W ''write'' s (snd (run_write W c s))"
proof -
  obtain persist path where wt: "write_target (c_args c) = (persist, path)" by fastforce
  have "tame W ''write'' s (snd (write_in_root W persist path (c_content c) (write_root W s)))"
    by (rule tame_trans [OF tame_write_root tame_write_in_root])
  then show ?thesis by (simp add: run_write_def wt tame_refl)
qed

lemma tame_read: "tame W ''read'' s (snd (run_read W c s))"
  by (auto simp: run_read_def Let_def tame_refl split: prod.split sum.split intro!: tame_images intro: tame_ask)

lemma tame_list: "tame W ''read'' s (snd (run_list W s))"
  by (auto simp: run_list_def Let_def tame_refl split: prod.split intro: tame_ask)

lemma tame_map: "tame W ''read'' s (snd (run_map W c s))"
proof -
  obtain a s1 where a: "ask W WorkspaceRoot s = (a, s1)" by fastforce
  have "tame W ''read'' s s1" using tame_ask [OF a] by simp
  moreover from this have "tame W ''read'' s (snd (ask W (MapTree (text_of a) (c_args c)) s1))" by (rule tame_trans) (simp add: tame_ask_snd)
  ultimately show ?thesis using a by (simp add: run_map_def tame_refl tame_ask_snd)
qed

lemmas tame_handlers = tame_fetch tame_search tame_browse tame_bridges tame_todo tame_mem tame_exec tame_advise tame_delegation
  tame_parallel tame_write tame_read tame_list tame_map

lemma help_state: "snd (run_help W c s) = s"
  by (simp add: run_help_def Let_def)

lemma run_command_tame: "tame W (bundle_of (c_name c)) s (snd (run_command W c s)) \<or> snd (run_command W c s) = s"
  unfolding run_command_def Let_def bundle_of_def by (auto simp: tame_handlers help_state)

section \<open>The loop\<close>

definition granted :: "'w wiring \<Rightarrow> ext_call \<Rightarrow> bool" where
  "granted W x \<longleftrightarrow> w_capabilities W = [] \<or> list_ex (\<lambda>b. b \<in> set (allowed_bundles (w_capabilities W))) (call_bundles x)"

lemma counter_frame [simp]:
  "counter k (emit st c ok s) = counter k s" "counter k (put_out t s) = counter k s" "counter k (remember key b keep s) = counter k s"
  "counter k (s\<lparr>d_seq := n\<rparr>) = counter k s"
  by (cases k; simp add: emit_def put_out_def remember_def)+

lemma calls_frame [simp]:
  "d_calls (emit st c ok s) = d_calls s" "d_calls (put_out t s) = d_calls s" "d_calls (remember key b keep s) = d_calls s"
  by (simp_all add: emit_def put_out_def remember_def)

lemma moves_frame:
  assumes "d_calls s' = d_calls s" "\<And>k. counter k s' = counter k s"
  shows "moves P W s s'"
  unfolding moves_def using assms by (simp add: exI [of _ "[]"])

lemma run_command_moves:
  assumes "\<not> capability_refused W c"
  shows "moves (granted W) W s (snd (run_command W c s))"
proof (cases "snd (run_command W c s) = s")
  case False
  then have t: "moves (\<lambda>x. bundle_of (c_name c) \<in> set (call_bundles x)) W s (snd (run_command W c s))"
    using run_command_tame by (auto simp: tame_def)
  have "bundle_of (c_name c) \<noteq> [] \<or> snd (run_command W c s) = s"
    unfolding run_command_def Let_def bundle_of_def by (auto simp: help_state)
  then have "bundle_of (c_name c) \<in> set (call_bundles x) \<Longrightarrow> granted W x" for x
    using assms False by (auto simp: granted_def capability_refused_def list_ex_iff)
  then show ?thesis using moves_mono [OF t] by blast
qed (simp add: moves_refl)

lemma dispatch_one_moves: "moves (granted W) W s (dispatch_one W c s)"
proof -
  let ?s = "emit True c True (s\<lparr>d_seq := d_seq s + 1\<rparr>)"
  have s: "moves (granted W) W s ?s" by (rule moves_frame) simp_all
  obtain b k s1 where r: "run_command W c ?s = ((b, k), s1)" by (metis surj_pair)
  have "\<not> capability_refused W c \<Longrightarrow> moves (granted W) W s s1" using moves_trans [OF s run_command_moves] r by (metis snd_conv)
  moreover have "moves (granted W) W s1 (emit False c ok (remember key b k (put_out b s1)))" for ok key by (rule moves_frame) simp_all
  ultimately have "\<not> capability_refused W c \<Longrightarrow> moves (granted W) W s (emit False c ok (remember key b k (put_out b s1)))" for ok key
    using moves_trans by blast
  then show ?thesis unfolding dispatch_one_def Let_def r by (auto intro!: moves_frame split: option.split)
qed

lemma dispatch_loop_moves: "moves (granted W) W s (dispatch_loop W cs s)"
proof (induction cs arbitrary: s)
  case (Cons c cs)
  have "moves (granted W) W s (put_out t s)" for t by (rule moves_frame) simp_all
  then show ?case using moves_trans [OF dispatch_one_moves Cons.IH] by simp
qed (simp add: moves_refl)

lemma execute_moves:
  obtains xs where "d_calls (execute_agent_commands W cmds s) = d_calls s @ xs" "list_all (\<lambda>x. granted W (fst x)) xs"
    "w_confirm W \<Longrightarrow> guarded False xs" "\<And>k. used k xs \<le> limit k"
proof -
  let ?s = "s\<lparr>d_out := nl, d_fetches := 0, d_searches := 0, d_advises := 0\<rparr>"
  obtain xs where xs: "d_calls (dispatch_loop W cmds ?s) = d_calls ?s @ xs" "list_all (\<lambda>x. granted W (fst x)) xs" "w_confirm W \<longrightarrow> guarded False xs"
    "\<And>k. used k xs \<le> counter k (dispatch_loop W cmds ?s) - counter k ?s"
    "\<And>k. counter k ?s \<le> limit k \<longrightarrow> counter k (dispatch_loop W cmds ?s) \<le> limit k"
    using dispatch_loop_moves [of W ?s cmds] unfolding moves_def by blast
  have "counter k ?s = 0 \<and> 0 \<le> limit k" for k by (cases k) (simp_all add: kMaxFetches_def kMaxSearches_def kMaxAdvise_def)
  then have "used k xs \<le> limit k" for k using xs(4) [of k] xs(5) [of k] by simp
  then show thesis using that xs(1-3) by (simp add: execute_agent_commands_def)
qed

lemma guarded_nth:
  "guarded ok xs \<Longrightarrow> i < length xs \<Longrightarrow> danger (fst (xs ! i)) \<Longrightarrow> (if i = 0 then ok else approves (xs ! (i - 1)))"
proof (induction xs arbitrary: ok i)
  case (Cons x xs)
  show ?case
  proof (cases i)
    case (Suc j)
    then show ?thesis using Cons.IH [of "approves x" j] Cons.prems by (cases j) auto
  qed (use Cons.prems in simp)
qed simp

lemma approves_shape: "approves x \<Longrightarrow> \<exists>act tgt m. x = (Confirm act tgt m, ABool True)"
  by (cases x rule: approves.cases) auto

section \<open>Properties\<close>

text \<open>
  C23. An agent with a capability list reaches nothing outside it: whatever commands its reply
  holds, every call of the turn belongs to a bundle that the list grants.
\<close>

theorem capabilities_confine_calls:
  assumes "w_capabilities W \<noteq> []"
  shows "\<exists>xs. d_calls (execute_agent_commands W cmds s) = d_calls s @ xs
    \<and> list_all (\<lambda>x. list_ex (\<lambda>b. b \<in> set (map bundle_of_cap (w_capabilities W))) (call_bundles (fst x))) xs"
proof -
  obtain xs where xs: "d_calls (execute_agent_commands W cmds s) = d_calls s @ xs" "list_all (\<lambda>x. granted W (fst x)) xs"
    using execute_moves [of W cmds s] by metis
  then show ?thesis using assms by (fastforce simp: list_all_iff list_ex_iff granted_def allowed_bundles_def)
qed

definition demo_wiring :: "unit wiring" where
  "demo_wiring = \<lparr>w_answer = (\<lambda>w m c. (case c of Confirm _ _ _ \<Rightarrow> ABool True | Parallel cs \<Rightarrow> ATexts (map snd cs) | _ \<Rightarrow> AText ''OK'', w, m)),
     w_cancelled = (\<lambda>_. False), w_agent_id = ''a'', w_capabilities = [''/todo'', ''/parallel''], w_agent = True, w_confirm = True, w_advisor = True,
     w_pane = True, w_write_interceptor = False, w_exec_disabled = False, w_parallel = True, w_mem_reader = True, w_mem_writer = True, w_mcp = True,
     w_scratchpad = True, w_search = True, w_artifact_writer = True, w_artifact_reader = True, w_artifact_lister = True, w_a2a = True,
     w_scheduler = True, w_todo = True, w_lesson = True, w_exec_invoker = False, w_images = False, w_root_provider = False,
     w_host_exec_surface = False, w_resolver = \<lparr>rv_pton4 = Map.empty, rv_pton6 = Map.empty, rv_getaddrinfo = (\<lambda>_. Inr [])\<rparr>,
     w_html_to_text = id, w_help_index = [], w_help_for_topic = (\<lambda>_. []), w_hash = (\<lambda>_. 0), w_display_width = (\<lambda>_. 0), w_trim_to_cols = (\<lambda>t n. t)\<rparr>"

definition demo_dispatch :: "unit dstate" where
  "demo_dispatch = \<lparr>d_world = (), d_calls = [], d_cache = Some Map.empty, d_fetches = 0, d_searches = 0, d_advises = 0, d_images = [],
     d_out = [], d_events = [], d_seq = 0\<rparr>"

theorem capabilities_confine_calls_witness:
  "\<exists>xs. d_calls (execute_agent_commands demo_wiring [mk_cmd ''exec'' ''ls'', mk_cmd ''todo'' ''list''] demo_dispatch) = xs
    \<and> list_all (\<lambda>x. list_ex (\<lambda>b. b = ''todos'' \<or> b = ''delegation'') (call_bundles (fst x))) xs"
  using capabilities_confine_calls [of demo_wiring "[mk_cmd ''exec'' ''ls'', mk_cmd ''todo'' ''list'']" demo_dispatch]
  by (simp add: demo_wiring_def demo_dispatch_def bundle_of_cap_def)

text \<open>
  The per-turn budgets hold for every list of commands, also when commands repeat, fail or are
  replayed: at most three fetches, four searches and two advisor consults.
\<close>

lemma turn_budgets:
  "\<exists>xs. d_calls (execute_agent_commands W cmds s) = d_calls s @ xs \<and> used Fetches xs \<le> 3 \<and> used Searches xs \<le> 4 \<and> used Advises xs \<le> 2"
proof -
  obtain xs where "d_calls (execute_agent_commands W cmds s) = d_calls s @ xs" "\<And>k. used k xs \<le> limit k"
    using execute_moves [of W cmds s] by metis
  from this(1) this(2) [of Fetches] this(2) [of Searches] this(2) [of Advises] show ?thesis
    by (auto simp: kMaxFetches_def kMaxSearches_def kMaxAdvise_def)
qed



section \<open>Replay and truncation\<close>

text \<open>
  The replay key has no body except for \<open>/write\<close>: once a command's block is cached, a later
  command with the same name and arguments and another body is not run, its output is the block of
  the first.  Two different \<open>/parallel\<close> blocks, whose arguments are always empty, are such a pair.
\<close>

lemma replay_ignores_body:
  assumes "c_name c2 = c_name c1" "c_args c2 = c_args c1" "c_name c1 \<noteq> ''write''" "\<not> capability_refused W c1"
    and "run_command W c1 (emit True c1 True (s\<lparr>d_seq := d_seq s + 1\<rparr>)) = ((b, True), t)" "b \<noteq> []"
    and "d_cache s = Some m" "m (dedup_key W c1) = None" "d_cache t = d_cache s"
  shows "d_calls (dispatch_one W c2 (dispatch_one W c1 s)) = d_calls (dispatch_one W c1 s)
    \<and> d_out (dispatch_one W c2 (dispatch_one W c1 s)) = d_out (dispatch_one W c1 s) @ b"
proof -
  have k: "dedup_key W c2 = dedup_key W c1" using assms(1-3) by (simp add: dedup_key_def)
  have "cached (emit True c1 True (s\<lparr>d_seq := d_seq s + 1\<rparr>)) (dedup_key W c1) = None"
    using assms(7,8) by (simp add: cached_def emit_def)
  then have one: "dispatch_one W c1 s = emit False c1 (\<not> is_tool_result_failure b) (remember (dedup_key W c1) b True (put_out b t))"
    using assms(4,5,6) by (simp add: dispatch_one_def)
  have "cached (emit True c2 True (dispatch_one W c1 s\<lparr>d_seq := n\<rparr>)) (dedup_key W c1) = Some b" for n
    unfolding one using assms(6,7,9) by (simp add: cached_def emit_def remember_def put_out_def)
  moreover have "\<not> capability_refused W c2" using assms(1,4) by (simp add: capability_refused_def)
  ultimately show ?thesis unfolding dispatch_one_def [of W c2] Let_def k by (simp add: put_out_def emit_def)
qed

definition parallel_cmd :: "string \<Rightarrow> AgentCommand" where
  "parallel_cmd body = \<lparr>c_name = ''parallel'', c_args = [], c_content = body, c_truncated = False\<rparr>"

lemma todo_args: "plain_args t \<Longrightarrow> first_token ('' add '' @ t) = ''add'' \<and> rest_of_line ('' add '' @ t) = t"
proof -
  assume "plain_args t"
  then have "takeWhile (\<lambda>c. c \<noteq> CHR 0x0A) t = t" by (auto simp: plain_args_def takeWhile_eq_all_conv)
  then show ?thesis by (simp add: first_token_def rest_of_line_def after_token_def drop_space_def is_space_def)
qed

lemma run_truncated_todo:
  assumes "plain_args t" "body \<noteq> []" "w_todo W"
    and "c = \<lparr>c_name = ''todo'', c_args = '' add '' @ t, c_content = body, c_truncated = True\<rparr>"
  shows "snd (run_command W c s) = snd (ask W (TodoCb ''add'' (t @ nl @ nl @ body) (w_agent_id W)) s)"
  using todo_args [OF assms(1)] assms(2-4) by (simp add: run_command_def run_todo_def)

text \<open>
  A \<open>/todo add\<close> whose block was never closed is stored whole: the parser leaves a blank before
  \<open>add\<close>, so the dispatcher's test for a truncated \<open>add\<close> fails and the todo gets the rest of the
  reply, later writs included, as its description instead of the subject alone.
\<close>

lemma truncated_todo_stores_reply:
  assumes "plain_args t" "p \<noteq> []" "last p \<noteq> CHR 0x0D" "\<not> starts_with_writ p"
    and "list_all (\<lambda>l. CHR 0x0A \<notin> set l) (p # ls)" "''/endtodo'' \<notin> set (map pop_cr ls)"
    and "w_todo W" "w_capabilities W = []" "d_cache s = None" "\<not> w_cancelled W (d_world s)"
  shows "\<exists>a. d_calls (execute_agent_commands W (parse_agent_commands (concat_nl ((''/todo add '' @ t) # p # ls))) s)
    = d_calls s @ [(TodoCb ''add'' (t @ nl @ nl @ chomp (concat_nl (p # map pop_cr ls))) (w_agent_id W), a)]"
proof -
  let ?body = "chomp (concat_nl (p # map pop_cr ls))"
  let ?c = "\<lparr>c_name = ''todo'', c_args = '' add '' @ t, c_content = ?body, c_truncated = True\<rparr>"
  let ?s = "s\<lparr>d_out := nl, d_fetches := 0, d_searches := 0, d_advises := 0\<rparr>"
  let ?t = "emit True ?c True (?s\<lparr>d_seq := d_seq ?s + 1\<rparr>)"
  have ne: "?body \<noteq> []" using assms(2) by (cases p) (auto simp: chomp_def concat_nl_def)
  obtain b k t' where r: "run_command W ?c ?t = ((b, k), t')" by (metis surj_pair)
  have t': "t' = snd (ask W (TodoCb ''add'' (t @ nl @ nl @ ?body) (w_agent_id W)) ?t)"
    using run_truncated_todo [OF assms(1) ne assms(7), of ?c ?t] r by simp
  have "\<not> capability_refused W ?c" "cached ?t key = None" for key using assms(8,9) by (simp_all add: capability_refused_def cached_def emit_def)
  then have "d_calls (dispatch_one W ?c ?s) = d_calls t'" unfolding dispatch_one_def Let_def r by simp
  moreover have "\<exists>a. d_calls t' = d_calls s @ [(TodoCb ''add'' (t @ nl @ nl @ ?body) (w_agent_id W), a)]"
    unfolding t' by (simp add: ask_def split: prod.split)
  moreover have "length (d_out ?s) < kTotalLimit" by (simp add: nl_def kTotalLimit_def)
  ultimately show ?thesis unfolding todo_add_swallows_reply [OF assms(1-6)] execute_agent_commands_def
    using assms(10) by (simp del: append.simps)
qed

text \<open>
  Every command of a turn that is not cut off is announced and closed once, in order: the events
  added are pairs of a start and an end with one fresh number.
\<close>

lemma dispatch_one_events:
  "d_seq (dispatch_one W c s) = d_seq s + 1 \<and>
   (\<exists>ok. d_events (dispatch_one W c s) = d_events s @
     [\<lparr>te_started = True, te_id = d_seq s + 1, te_kind = c_name c, te_ok = True\<rparr>, \<lparr>te_started = False, te_id = d_seq s + 1, te_kind = c_name c, te_ok = ok\<rparr>])"
proof -
  let ?s = "emit True c True (s\<lparr>d_seq := d_seq s + 1\<rparr>)"
  obtain b k s1 where r: "run_command W c ?s = ((b, k), s1)" by (metis surj_pair)
  have "same_frame ?s s1" using run_command_tame [of W c ?s] r by (auto simp: tame_def same_frame_def)
  then have "d_seq s1 = d_seq s + 1" "d_events s1 = d_events ?s" by (simp_all add: same_frame_def emit_def)
  then show ?thesis unfolding dispatch_one_def Let_def r by (auto simp: emit_def put_out_def remember_def split: option.split)
qed

section \<open>Where a batch can take the world\<close>

lemma loop_world [simp]:
  "d_world (emit st c ok s) = d_world s" "d_world (put_out t s) = d_world s" "d_world (remember key b keep s) = d_world s"
  "d_out (emit st c ok s) = d_out s" "d_out (put_out t s) = d_out s @ t" "d_out (remember key b keep s) = d_out s"
  by (simp_all add: emit_def put_out_def remember_def)

lemma run_command_reaches: "reaches W s (snd (run_command W c s))" "d_out (snd (run_command W c s)) = d_out s"
  using run_command_tame [of W c s] by (auto simp: tame_def same_frame_def)

lemma dispatch_one_reaches: "reaches W s (dispatch_one W c s) \<and> (\<exists>t. d_out (dispatch_one W c s) = d_out s @ t)"
proof -
  let ?s = "emit True c True (s\<lparr>d_seq := d_seq s + 1\<rparr>)"
  obtain b k s1 where r: "run_command W c ?s = ((b, k), s1)" by (metis surj_pair)
  have "(d_world s, d_world s1) \<in> (world_step W)\<^sup>*" "d_out s1 = d_out s"
    using run_command_reaches(1) [where s = ?s and W = W and c = c] run_command_reaches(2) [where s = ?s and W = W and c = c] r by (simp_all add: reaches_def)
  then show ?thesis unfolding dispatch_one_def Let_def r by (auto simp: reaches_def split: option.split)
qed

lemma dispatch_loop_reaches: "reaches W s (dispatch_loop W cs s) \<and> (\<exists>t. d_out (dispatch_loop W cs s) = d_out s @ t)"
proof (induction cs arbitrary: s)
  case (Cons c cs)
  show ?case using Cons [of "dispatch_one W c s"] dispatch_one_reaches [of W s c] reaches_trans by fastforce
qed simp

lemma execute_reaches:
  "reaches W s (execute_agent_commands W cmds s)" "\<exists>t. d_out (execute_agent_commands W cmds s) = CHR 0x0A # t"
  using dispatch_loop_reaches [of W "s\<lparr>d_out := nl, d_fetches := 0, d_searches := 0, d_advises := 0\<rparr>" cmds]
  by (auto simp: execute_agent_commands_def reaches_def nl_def)

end
