(* ===== verification/Provider_Wire.thy ===== *)
theory Provider_Wire
  imports Message_Codec "HOL-Library.Word"
begin

text \<open>
  What the model-provider client (\<open>src/api_client.cpp\<close>) writes on the wire: the provider
  registry and the routing of model names, the three request bodies, and the HTTP request head.
  A registry is a function of the environment (\<open>OLLAMA_HOST\<close> is read once, when it is first
  used).  The members of a JSON object are listed in the order of the assignments.
\<close>

section \<open>Providers and model names\<close>

datatype wire_format = FORMAT_ANTHROPIC | FORMAT_OPENAI_CHAT | FORMAT_GEMINI

record Provider =
  pv_name :: string
  pv_prefix :: string
  pv_host :: string
  pv_port :: int
  pv_path :: string
  pv_tls :: bool
  pv_uses_api_key :: bool
  pv_format :: wire_format

record ParsedHost =
  ph_scheme :: string
  ph_host :: string
  ph_port :: int

definition parse_host :: "string \<Rightarrow> string \<Rightarrow> int \<Rightarrow> ParsedHost" where
  "parse_host s default_scheme default_port =
     (let (scheme, rest) = (case find_sub ''://'' s of
            None \<Rightarrow> (default_scheme, s)
          | Some i \<Rightarrow> (take i s, drop (i + 3) s));
          (host, port) = (case find_sub '':'' rest of
            None \<Rightarrow> (rest, default_port)
          | Some i \<Rightarrow>
              (take i rest,
               case strtol10 (drop (i + 1) rest) of
                 None \<Rightarrow> default_port
               | Some (parsed, _) \<Rightarrow> if parsed < 1 \<or> 65535 < parsed then default_port else parsed))
      in \<lparr>ph_scheme = scheme, ph_host = (if host = [] then ''localhost'' else host), ph_port = port\<rparr>)"

definition make_openrouter_provider :: "string \<Rightarrow> Provider" where
  "make_openrouter_provider pre =
     \<lparr>pv_name = ''openrouter'', pv_prefix = pre, pv_host = ''openrouter.ai'', pv_port = 443,
      pv_path = ''/api/v1/chat/completions'', pv_tls = True, pv_uses_api_key = True,
      pv_format = FORMAT_OPENAI_CHAT\<rparr>"

definition make_ollama_provider :: "env_map \<Rightarrow> Provider" where
  "make_ollama_provider env =
     (let ph = parse_host (case env ''OLLAMA_HOST'' of Some v \<Rightarrow> v | None \<Rightarrow> ''http://localhost:11434'')
                 ''http'' 11434
      in \<lparr>pv_name = ''ollama'', pv_prefix = ''ollama/'', pv_host = ph_host ph, pv_port = ph_port ph,
          pv_path = ''/v1/chat/completions'', pv_tls = (ph_scheme ph = ''https''),
          pv_uses_api_key = False, pv_format = FORMAT_OPENAI_CHAT\<rparr>)"

definition registry :: "env_map \<Rightarrow> Provider list" where
  "registry env =
     [make_ollama_provider env, make_openrouter_provider ''openrouter/'', make_openrouter_provider []]"

definition provider_for :: "env_map \<Rightarrow> string \<Rightarrow> Provider" where
  "provider_for env model =
     (case find (\<lambda>p. pv_prefix p \<noteq> [] \<and> prefix (pv_prefix p) model) (registry env) of
        Some p \<Rightarrow> p
      | None \<Rightarrow> (case find (\<lambda>p. pv_prefix p = []) (registry env) of
                   Some p \<Rightarrow> p
                 | None \<Rightarrow> hd (registry env)))"

definition strip_known_prefix :: "string \<Rightarrow> string \<Rightarrow> string" where
  "strip_known_prefix model pre = (if prefix pre model then drop (length pre) model else model)"

text \<open>The \<open>MAJOR-MINOR\<close> pair after a family name of the given length becomes \<open>MAJOR.MINOR\<close>.\<close>

definition dot_version :: "nat \<Rightarrow> string \<Rightarrow> string" where
  "dot_version flen m =
     (let major = takeWhile is_digit (drop flen m); rest = dropWhile is_digit (drop flen m)
      in if major = [] \<or> rest = [] \<or> hd rest \<noteq> CHR ''-'' then m
         else if takeWhile is_digit (tl rest) = [] then m
         else take (flen + length major) m @ CHR ''.'' # tl rest)"

definition anthropic_openrouter_slug :: "string \<Rightarrow> string" where
  "anthropic_openrouter_slug m =
     ''anthropic/'' @
     (case find (\<lambda>fam. prefix fam m) [''claude-opus-'', ''claude-sonnet-'', ''claude-haiku-''] of
        None \<Rightarrow> m
      | Some fam \<Rightarrow> dot_version (length fam) m)"

definition openrouter_model_id :: "string \<Rightarrow> string" where
  "openrouter_model_id model =
     (let m = strip_known_prefix model ''openrouter/'' in
      if prefix ''claude-'' m then anthropic_openrouter_slug m
      else if prefix ''gemini/'' m then ''google/'' @ drop (length ''gemini/'') m
      else m)"

definition model_for_provider_request :: "Provider \<Rightarrow> string \<Rightarrow> string" where
  "model_for_provider_request p model =
     (if pv_name p = ''openrouter'' then openrouter_model_id model
      else if pv_prefix p \<noteq> [] \<and> prefix (pv_prefix p) model then drop (length (pv_prefix p)) model
      else model)"

definition is_weak_executor :: "env_map \<Rightarrow> string \<Rightarrow> bool" where
  "is_weak_executor env model \<longleftrightarrow> pv_name (provider_for env model) = ''ollama''"

definition strip_model_prefix :: "env_map \<Rightarrow> string \<Rightarrow> string" where
  "strip_model_prefix env model = model_for_provider_request (provider_for env model) model"

definition path_for :: "Provider \<Rightarrow> ApiRequest \<Rightarrow> bool \<Rightarrow> string" where
  "path_for p req streaming =
     (if pv_format p \<noteq> FORMAT_GEMINI then pv_path p
      else ''/v1beta/models/'' @ model_for_provider_request p (rq_model req)
           @ (if streaming then '':streamGenerateContent?alt=sse'' else '':generateContent''))"

definition header_value_from_env :: "env_map \<Rightarrow> string \<Rightarrow> string \<Rightarrow> string" where
  "header_value_from_env env var fallback =
     (let out = (case env var of Some v \<Rightarrow> if v \<noteq> [] then v else fallback | None \<Rightarrow> fallback)
      in filter (\<lambda>c. c \<noteq> CHR 0x0A) (filter (\<lambda>c. c \<noteq> CHR 0x0D) out))"

section \<open>Request bodies\<close>

text \<open>An optional member, \<open>if (b) m[k] = v\<close>.\<close>

abbreviation opt_member :: "bool \<Rightarrow> string \<Rightarrow> json \<Rightarrow> (string \<times> json) list" where
  "opt_member b k v \<equiv> (if b then [(k, v)] else [])"

definition ephemeral :: json where
  "ephemeral = JObj [(''type'', JStr ''ephemeral'')]"

definition emit_text :: "string \<Rightarrow> bool \<Rightarrow> json" where
  "emit_text t with_cache =
     JObj ([(''type'', JStr ''text''), (''text'', JStr t)] @ opt_member with_cache ''cache_control'' ephemeral)"

definition emit_image :: "ContentPart \<Rightarrow> bool \<Rightarrow> json" where
  "emit_image part with_cache =
     JObj ([(''type'', JStr ''image''),
            (''source'', JObj (if cp_image_url part \<noteq> []
               then [(''type'', JStr ''url''), (''url'', JStr (cp_image_url part))]
               else [(''type'', JStr ''base64''), (''media_type'', JStr (cp_media_type part)),
                     (''data'', JStr (cp_image_data part))]))]
           @ opt_member with_cache ''cache_control'' ephemeral)"

fun anthropic_blocks :: "bool \<Rightarrow> ContentPart list \<Rightarrow> json list" where
  "anthropic_blocks is_tail [] = []"
| "anthropic_blocks is_tail (part # parts) =
     (let last_block = (is_tail \<and> parts = []) in
      (if cp_kind part = TEXT then emit_text (cp_text part) last_block else emit_image part last_block)
      # anthropic_blocks is_tail parts)"

definition anthropic_message :: "bool \<Rightarrow> Message \<Rightarrow> json" where
  "anthropic_message is_tail msg =
     JObj [(''role'', JStr (m_role msg)),
           (''content'',
            if m_parts msg = [] \<and> \<not> is_tail then JStr (m_content msg)
            else if m_parts msg = [] then JArr [emit_text (m_content msg) is_tail]
            else JArr (anthropic_blocks is_tail (m_parts msg)))]"

fun anthropic_messages :: "Message list \<Rightarrow> json list" where
  "anthropic_messages [] = []"
| "anthropic_messages (msg # msgs) = anthropic_message (msgs = []) msg # anthropic_messages msgs"

definition anthropic_body :: "ApiRequest \<Rightarrow> bool \<Rightarrow> json" where
  "anthropic_body req streaming = JObj
     ([(''model'', JStr (rq_model req)), (''max_tokens'', JNum (of_int (rq_max_tokens req)))]
      @ opt_member (rq_include_temperature req) ''temperature'' (JNum (rq_temperature req))
      @ opt_member (rq_system_prompt req \<noteq> []) ''system''
          (JArr [JObj [(''type'', JStr ''text''), (''text'', JStr (rq_system_prompt req)),
                       (''cache_control'', ephemeral)]])
      @ [(''messages'', JArr (anthropic_messages (rq_messages req)))]
      @ opt_member streaming ''stream'' (JBool True))"

definition build_body_anthropic :: "ApiRequest \<Rightarrow> bool \<Rightarrow> string" where
  "build_body_anthropic req streaming = json_serialize (anthropic_body req streaming)"

definition openai_part :: "ContentPart \<Rightarrow> json" where
  "openai_part part =
     (if cp_kind part = TEXT then JObj [(''type'', JStr ''text''), (''text'', JStr (cp_text part))]
      else JObj [(''type'', JStr ''image_url''),
                 (''image_url'', JObj [(''url'', JStr
                    (if cp_image_url part \<noteq> [] then cp_image_url part
                     else ''data:'' @ cp_media_type part @ '';base64,'' @ cp_image_data part))])])"

definition openai_message :: "Message \<Rightarrow> json" where
  "openai_message msg =
     JObj [(''role'', JStr (m_role msg)),
           (''content'', if m_parts msg = [] then JStr (m_content msg)
                         else JArr (map openai_part (m_parts msg)))]"

definition is_reasoning_model :: "string \<Rightarrow> bool" where
  "is_reasoning_model m \<longleftrightarrow> 2 \<le> length m \<and> m ! 0 = CHR ''o'' \<and> is_digit (m ! 1)"

definition openai_messages :: "ApiRequest \<Rightarrow> json list" where
  "openai_messages req =
     (if rq_system_prompt req \<noteq> []
      then [JObj [(''role'', JStr ''system''), (''content'', JStr (rq_system_prompt req))]] else [])
     @ map openai_message (rq_messages req)"

definition openai_body :: "Provider \<Rightarrow> ApiRequest \<Rightarrow> bool \<Rightarrow> json" where
  "openai_body prov req streaming =
     (let is_openai = (pv_name prov = ''openai'');
          stripped = model_for_provider_request prov (rq_model req);
          reasoning = (is_openai \<and> is_reasoning_model stripped);
          top = min (rq_top_logprobs req) 20;
          controls = (pv_name prov = ''openrouter''
                      \<and> (rq_reasoning_effort req \<noteq> [] \<or> rq_reasoning_exclude req));
          effort = rq_reasoning_effort req;
          limit = JNum (of_int (rq_max_tokens req))
      in JObj
        ([(''model'', JStr stripped),
          (if is_openai then ''max_completion_tokens'' else ''max_tokens'', limit)]
         @ opt_member (rq_include_temperature req \<and> \<not> reasoning) ''temperature'' (JNum (rq_temperature req))
         @ opt_member (rq_logprobs req) ''logprobs'' (JBool True)
         @ opt_member (rq_logprobs req \<and> 0 < top) ''top_logprobs'' (JNum (of_int top))
         @ opt_member (controls \<and> effort \<noteq> []) ''reasoning_effort'' (JStr effort)
         @ opt_member controls ''reasoning''
             (JObj (opt_member (effort \<noteq> []) ''effort'' (JStr effort)
                    @ opt_member (rq_reasoning_exclude req) ''exclude'' (JBool True)))
         @ opt_member controls ''max_completion_tokens'' limit
         @ opt_member streaming ''stream'' (JBool True)
         @ opt_member (streaming \<and> is_openai) ''stream_options'' (JObj [(''include_usage'', JBool True)])
         @ [(''messages'', JArr (openai_messages req))]))"

definition build_body_openai :: "Provider \<Rightarrow> ApiRequest \<Rightarrow> bool \<Rightarrow> string" where
  "build_body_openai prov req streaming = json_serialize (openai_body prov req streaming)"

definition gemini_part :: "ContentPart \<Rightarrow> json" where
  "gemini_part part =
     (if cp_kind part = TEXT then JObj [(''text'', JStr (cp_text part))]
      else if cp_image_url part \<noteq> [] then
        JObj [(''fileData'', JObj [(''mimeType'', JStr (cp_media_type part)),
                                   (''fileUri'', JStr (cp_image_url part))])]
      else JObj [(''inlineData'', JObj [(''mimeType'', JStr (cp_media_type part)),
                                        (''data'', JStr (cp_image_data part))])])"

definition gemini_message :: "Message \<Rightarrow> json" where
  "gemini_message msg =
     JObj [(''role'', JStr (if m_role msg = ''assistant'' then ''model'' else m_role msg)),
           (''parts'', JArr (if m_parts msg = [] then [JObj [(''text'', JStr (m_content msg))]]
                             else map gemini_part (m_parts msg)))]"

definition gemini_body :: "env_map \<Rightarrow> ApiRequest \<Rightarrow> json" where
  "gemini_body env req =
     (let stripped = strip_model_prefix env (rq_model req);
          thinking = (contains stripped ''gemini-2.5'' \<or> contains stripped ''gemini-3'');
          lite = (contains stripped ''flash-lite'' \<or> contains stripped ''flash_lite'')
      in JObj
        (opt_member (rq_system_prompt req \<noteq> []) ''systemInstruction''
           (JObj [(''parts'', JArr [JObj [(''text'', JStr (rq_system_prompt req))]])])
         @ [(''contents'', JArr (map gemini_message (rq_messages req))),
            (''generationConfig'', JObj
              ([(''maxOutputTokens'', JNum (of_int (rq_max_tokens req)))]
               @ opt_member (rq_include_temperature req) ''temperature'' (JNum (rq_temperature req))
               @ opt_member thinking ''thinkingConfig''
                   (JObj ([(''includeThoughts'', JBool True)]
                          @ opt_member lite ''thinkingBudget'' (JNum 1024)))))]))"

definition build_body_gemini :: "env_map \<Rightarrow> ApiRequest \<Rightarrow> string" where
  "build_body_gemini env req = json_serialize (gemini_body env req)"

text \<open>The \<open>switch (prov.format)\<close> of \<open>complete\<close> and \<open>stream\<close>.\<close>

definition build_body :: "env_map \<Rightarrow> Provider \<Rightarrow> ApiRequest \<Rightarrow> bool \<Rightarrow> string" where
  "build_body env prov req streaming =
     (case pv_format prov of
        FORMAT_ANTHROPIC \<Rightarrow> build_body_anthropic req streaming
      | FORMAT_GEMINI \<Rightarrow> build_body_gemini env req
      | FORMAT_OPENAI_CHAT \<Rightarrow> build_body_openai prov req streaming)"

section \<open>API keys\<close>

text \<open>
  A key is held XOR-ed with a random buffer of its length, which is an argument.
\<close>

unbundle bit_operations_syntax

record MaskedKey =
  mk_masked :: string
  mk_mask :: string

definition xor_byte :: "char \<Rightarrow> char \<Rightarrow> char" where
  "xor_byte a b = char_of (code a XOR code b)"

definition mask_api_key :: "string \<Rightarrow> string \<Rightarrow> MaskedKey" where
  "mask_api_key random key = \<lparr>mk_masked = map2 xor_byte key random, mk_mask = random\<rparr>"

type_synonym key_store = "string \<Rightarrow> MaskedKey option"

definition unmask_api_key :: "key_store \<Rightarrow> string \<Rightarrow> string" where
  "unmask_api_key keys p =
     (case keys p of None \<Rightarrow> [] | Some mk \<Rightarrow> map2 xor_byte (mk_masked mk) (mk_mask mk))"

lemma xor_byte_cancel [simp]: "xor_byte (xor_byte a b) b = a"
proof -
  have b: "take_bit 8 (code c) = code c" for c
    by (simp add: take_bit_eq_mod)
  have "code (xor_byte a b) = take_bit 8 (code a XOR code b)"
    by (simp add: xor_byte_def take_bit_eq_mod)
  then have "code (xor_byte a b) = code a XOR code b" by (simp add: b)
  then show ?thesis by (simp add: xor_byte_def xor.assoc)
qed

lemma map2_xor_cancel: "length random = length key \<Longrightarrow> map2 xor_byte (map2 xor_byte key random) random = key"
  by (induction random key rule: list_induct2) simp_all

lemma unmask_mask:
  "length random = length key \<Longrightarrow> keys p = Some (mask_api_key random key) \<Longrightarrow> unmask_api_key keys p = key"
  by (simp add: unmask_api_key_def mask_api_key_def map2_xor_cancel)

section \<open>The request on the wire\<close>

abbreviation crlf :: string where "crlf \<equiv> [CHR 0x0D, CHR 0x0A]"

datatype send_error = NoApiKey string | WriteFailed

definition auth_headers :: "env_map \<Rightarrow> Provider \<Rightarrow> string \<Rightarrow> string" where
  "auth_headers env p key =
     (case pv_format p of
        FORMAT_ANTHROPIC \<Rightarrow>
          ''x-api-key: '' @ key @ crlf @ ''anthropic-version: 2023-06-01'' @ crlf
          @ ''anthropic-beta: prompt-caching-2024-07-31'' @ crlf
      | FORMAT_GEMINI \<Rightarrow> ''x-goog-api-key: '' @ key @ crlf
      | FORMAT_OPENAI_CHAT \<Rightarrow>
          ''Authorization: Bearer '' @ key @ crlf
          @ (if pv_name p = ''openrouter'' then
               ''HTTP-Referer: '' @ header_value_from_env env ''ARBITER_OPENROUTER_REFERER''
                                      ''https://github.com/tylerreckart/arbiter'' @ crlf
               @ ''X-OpenRouter-Title: '' @ header_value_from_env env ''ARBITER_OPENROUTER_TITLE''
                                             ''Arbiter'' @ crlf
               @ ''X-OpenRouter-Categories: cli-agent,cloud-agent'' @ crlf
             else []))"

definition host_port :: "Provider \<Rightarrow> string" where
  "host_port p =
     (if (pv_tls p \<and> pv_port p = 443) \<or> (\<not> pv_tls p \<and> pv_port p = 80) then []
      else CHR '':'' # to_string (pv_port p))"

definition request_text ::
  "env_map \<Rightarrow> key_store \<Rightarrow> Provider \<Rightarrow> string \<Rightarrow> string \<Rightarrow> bool \<Rightarrow> send_error + string" where
  "request_text env keys p path body streaming =
     (let key = unmask_api_key keys (pv_name p);
          head = ''POST '' @ path @ '' HTTP/1.1'' @ crlf @ ''Host: '' @ pv_host p @ host_port p @ crlf
                 @ ''Content-Type: application/json'' @ crlf;
          rest = ''Content-Length: '' @ to_string (int (length body)) @ crlf
                 @ (if streaming then ''Accept: text/event-stream'' @ crlf else [])
                 @ ''Connection: keep-alive'' @ crlf @ crlf @ body
      in if \<not> pv_uses_api_key p then Inr (head @ rest)
         else if key = [] then Inl (NoApiKey (pv_name p))
         else Inr (head @ auth_headers env p key @ rest))"

text \<open>
  The write loop.  Each number is what one \<open>conn_send\<close> returned; a call that is not listed fails.
\<close>

fun send_loop :: "int list \<Rightarrow> int \<Rightarrow> bool" where
  "send_loop ns left =
     (if left \<le> 0 then True
      else case ns of [] \<Rightarrow> False | n # ns' \<Rightarrow> if n \<le> 0 then False else send_loop ns' (left - n))"

declare send_loop.simps [simp del]

definition send_request ::
  "env_map \<Rightarrow> key_store \<Rightarrow> Provider \<Rightarrow> int list \<Rightarrow> string \<Rightarrow> string \<Rightarrow> bool \<Rightarrow> send_error + string" where
  "send_request env keys p sends path body streaming =
     (case request_text env keys p path body streaming of
        Inl e \<Rightarrow> Inl e
      | Inr raw \<Rightarrow> if send_loop sends (int (length raw)) then Inr raw else Inl WriteFailed)"

lemma header_value_one_line:
  "CHR 0x0A \<notin> set (header_value_from_env env v d) \<and> CHR 0x0D \<notin> set (header_value_from_env env v d)"
  by (simp add: header_value_from_env_def Let_def)

lemma provider_for_cases:
  "provider_for env model = (if prefix ''ollama/'' model then make_ollama_provider env
     else make_openrouter_provider (if prefix ''openrouter/'' model then ''openrouter/'' else []))"
  by (simp add: provider_for_def registry_def make_ollama_provider_def make_openrouter_provider_def Let_def)

end
