(* ===== verification/Http_Reader.thy ===== *)
theory Http_Reader
  imports Provider_Wire
begin

text \<open>
  How the provider client reads a response (\<open>src/api_client.cpp\<close>): the buffered header reader,
  the body reader for chunked and fixed-length bodies, and \<open>read_response\<close>.

  A connection is the list of what its next reads deliver: one \<open>conn_recv\<close> returns at most the
  bytes of the first segment, as \<open>recv\<close> and \<open>SSL_read\<close> do, and an empty segment is a read that
  returns \<open>0\<close> or an error, as is a read past the last segment.
\<close>

section \<open>C library conversions\<close>

definition wrap32 :: "int \<Rightarrow> int" where
  "wrap32 v = (v + 2 ^ 31) mod 2 ^ 32 - 2 ^ 31"

definition clamp64 :: "int \<Rightarrow> int" where
  "clamp64 v = max int64_min (min int64_max v)"

definition atoi :: "string \<Rightarrow> int" where
  "atoi s = (case strtol10 s of None \<Rightarrow> 0 | Some (v, _) \<Rightarrow> wrap32 (clamp64 v))"

definition hexes_val :: "string \<Rightarrow> int" where
  "hexes_val s = foldl (\<lambda>v c. v * 16 + (case hex_val c of Some d \<Rightarrow> int d | None \<Rightarrow> 0)) 0 s"

definition is_hex :: "char \<Rightarrow> bool" where
  "is_hex c \<longleftrightarrow> hex_val c \<noteq> None"

text \<open>\<open>strtol\<close> with base 16: white space, a sign, an optional \<open>0x\<close> before a digit, digits.\<close>

definition strtol16 :: "string \<Rightarrow> int" where
  "strtol16 s =
     (let t = dropWhile is_space s;
          neg = (t \<noteq> [] \<and> hd t = CHR ''-'');
          u = (if t \<noteq> [] \<and> (hd t = CHR ''-'' \<or> hd t = CHR ''+'') then tl t else t);
          w = (if (prefix ''0x'' u \<or> prefix ''0X'' u) \<and> takeWhile is_hex (drop 2 u) \<noteq> [] then drop 2 u else u);
          v = hexes_val (takeWhile is_hex w)
      in clamp64 (if neg then - v else v))"

section \<open>Connections\<close>

type_synonym conn = "string list"

fun conn_recv :: "nat \<Rightarrow> conn \<Rightarrow> string \<times> conn" where
  "conn_recv n [] = ([], [])"
| "conn_recv n (s # c) = (take n s, if length s \<le> n then c else drop n s # c)"

definition conn_size :: "conn \<Rightarrow> nat" where
  "conn_size c = sum_list (map (\<lambda>s. Suc (length s)) c)"

lemma conn_size_simps [simp]: "conn_size [] = 0" "conn_size (s # c) = Suc (length s + conn_size c)"
  by (simp_all add: conn_size_def)

lemma conn_recv_le: "conn_size (snd (conn_recv n c)) \<le> conn_size c"
  by (cases c) auto

lemma conn_recv_less: "(got, c') = conn_recv n c \<Longrightarrow> got \<noteq> [] \<Longrightarrow> conn_size c' < conn_size c"
  by (cases c; cases n) (auto split: if_splits)

section \<open>Headers\<close>

definition header_end :: string where
  "header_end = [CHR 0x0D, CHR 0x0A, CHR 0x0D, CHR 0x0A]"

definition kMaxHeaderSize :: nat where "kMaxHeaderSize = 65536"

text \<open>The size of the receive buffers, \<open>char buf[4096]\<close>.\<close>

definition buf_size :: nat where "buf_size = 4096"

text \<open>
  The \<open>while (true)\<close> of \<open>read_http_headers\<close>: the headers and the body bytes that came with
  them, or \<open>None\<close>, and the connection after the last read.
\<close>

function read_headers_loop :: "string \<Rightarrow> conn \<Rightarrow> (string \<times> string) option \<times> conn" where
  "read_headers_loop headers c =
     (let (got, c') = conn_recv buf_size c in
      if got = [] then (None, c')
      else
        let h = headers @ got in
        if kMaxHeaderSize < length h then (None, c')
        else case find_from header_end h (if 3 \<le> length headers then length headers - 3 else 0) of
               Some i \<Rightarrow> (Some (take (i + 4) h, drop (i + 4) h), c')
             | None \<Rightarrow> read_headers_loop h c')"
  by pat_completeness auto
termination
  by (relation "measure (conn_size \<circ> snd)") (auto dest: conn_recv_less)

declare read_headers_loop.simps [simp del]

definition read_http_headers :: "conn \<Rightarrow> (string \<times> string) option \<times> conn" where
  "read_http_headers c = read_headers_loop [] c"

definition parse_http_status :: "string \<Rightarrow> int" where
  "parse_http_status headers =
     (case find_sub '' '' headers of None \<Rightarrow> 0 | Some sp \<Rightarrow> atoi (drop (sp + 1) headers))"

definition is_chunked :: "string \<Rightarrow> bool" where
  "is_chunked headers \<longleftrightarrow> contains headers ''Transfer-Encoding: chunked''"

definition content_length :: "string \<Rightarrow> int" where
  "content_length headers =
     (case find_sub ''Content-Length: '' headers of None \<Rightarrow> - 1 | Some i \<Rightarrow> atoi (drop (i + 16) headers))"

section \<open>Bodies\<close>

text \<open>The bytes left over from the header read, then the connection: \<open>PrefixCursor\<close>.\<close>

type_synonym reader = "string \<times> conn"

definition recv_some :: "nat \<Rightarrow> reader \<Rightarrow> string \<times> reader" where
  "recv_some want r =
     (case r of (pre, c) \<Rightarrow>
        if pre \<noteq> [] then (take want pre, (drop want pre, c))
        else let (got, c') = conn_recv want c in (got, ([], c')))"

definition reader_size :: "reader \<Rightarrow> nat" where
  "reader_size r = length (fst r) + conn_size (snd r)"

lemma recv_some_le: "reader_size (snd (recv_some n r)) \<le> reader_size r"
  using conn_recv_le [of n "snd r"]
  by (auto simp: recv_some_def reader_size_def split: prod.splits)

lemma recv_some_less: "(got, r') = recv_some n r \<Longrightarrow> got \<noteq> [] \<Longrightarrow> reader_size r' < reader_size r"
  using conn_recv_less [of got "snd r'" n "snd r"]
  by (cases n) (auto simp: recv_some_def reader_size_def split: prod.splits if_splits)

function read_size_line :: "string \<Rightarrow> reader \<Rightarrow> string option \<times> reader" where
  "read_size_line line r =
     (let (got, r') = recv_some 1 r in
      if got = [] then (None, r')
      else if hd got = CHR 0x0A then (Some line, r')
      else read_size_line (if hd got \<noteq> CHR 0x0D then line @ [hd got] else line) r')"
  by pat_completeness auto
termination
  by (relation "measure (reader_size \<circ> snd)") (auto dest: recv_some_less)

declare read_size_line.simps [simp del]

text \<open>Read until the given number of bytes has come; \<open>False\<close> when a read fails first.\<close>

function read_exact :: "nat \<Rightarrow> string \<Rightarrow> reader \<Rightarrow> bool \<times> string \<times> reader" where
  "read_exact left body r =
     (if left = 0 then (True, body, r)
      else
        let (got, r') = recv_some (min left buf_size) r in
        if got = [] then (False, body, r')
        else read_exact (left - length got) (body @ got) r')"
  by pat_completeness auto
termination
  by (relation "measure (reader_size \<circ> snd \<circ> snd)") (auto dest: recv_some_less)

declare read_exact.simps [simp del]

definition chunk_size :: "string \<Rightarrow> int" where
  "chunk_size line = wrap32 (strtol16 line)"

lemma read_size_line_less: "read_size_line line r = (Some l, r') \<Longrightarrow> reader_size r' < reader_size r"
proof (induction line r rule: read_size_line.induct)
  case (1 line r)
  obtain got r1 where g: "recv_some 1 r = (got, r1)" by (rule prod.exhaust)
  show ?case
  proof (cases "got = [] \<or> hd got = CHR 0x0A")
    case True
    then show ?thesis using 1(2) g recv_some_less [OF g [symmetric]]
      by (subst (asm) read_size_line.simps) (auto split: if_splits)
  next
    case False
    then have "reader_size r' < reader_size r1"
      using 1(2) by (intro "1.IH" [OF g [symmetric]])
        (simp_all add: read_size_line.simps [of line r] g [simplified])
    then show ?thesis using False recv_some_less [OF g [symmetric]] by simp
  qed
qed

lemma read_exact_le: "reader_size (snd (snd (read_exact k body r))) \<le> reader_size r"
proof (induction k body r rule: read_exact.induct)
  case (1 k body r)
  obtain got r1 where g: "recv_some (min k buf_size) r = (got, r1)" by (rule prod.exhaust)
  show ?case
    using "1.IH" [OF _ g [symmetric]] recv_some_le [of "min k buf_size" r] g
    by (subst read_exact.simps) (auto split: if_splits)
qed

function read_chunks :: "string \<Rightarrow> reader \<Rightarrow> string \<times> reader" where
  "read_chunks body r =
     (case read_size_line [] r of
        (None, r1) \<Rightarrow> (body, r1)
      | (Some line, r1) \<Rightarrow>
          if chunk_size line = 0 then (body, r1)
          else case read_exact (nat (chunk_size line)) body r1 of
                 (False, body', r2) \<Rightarrow> (body', r2)
               | (True, body', r2) \<Rightarrow> read_chunks body' (snd (recv_some 2 r2)))"
  by pat_completeness auto
termination
proof (relation "measure (reader_size \<circ> snd)", goal_cases)
  case (2 body r x r1 line y z body' r2)
  then have "reader_size r1 < reader_size r" by (metis read_size_line_less)
  moreover have "reader_size r2 \<le> reader_size r1"
    using read_exact_le [of "nat (chunk_size line)" body r1] 2 by (metis snd_conv)
  ultimately show ?case using recv_some_le [of 2 r2] by simp
qed simp

declare read_chunks.simps [simp del]

text \<open>\<open>read_response_body\<close>, with the reader after the last read.\<close>

definition read_response_body :: "string \<Rightarrow> reader \<Rightarrow> string \<times> reader" where
  "read_response_body headers r =
     (if is_chunked headers then read_chunks [] r
      else if 0 < content_length headers then snd (read_exact (nat (content_length headers)) [] r)
      else ([], r))"

definition http_error_body :: "int \<Rightarrow> string" where
  "http_error_body status =
     ''{'' @ [CHR 0x22] @ ''error'' @ [CHR 0x22] @ '':{'' @ [CHR 0x22] @ ''type'' @ [CHR 0x22] @ '':''
     @ [CHR 0x22] @ ''http_error'' @ [CHR 0x22] @ '','' @ [CHR 0x22] @ ''message'' @ [CHR 0x22] @ '':''
     @ [CHR 0x22] @ ''HTTP '' @ to_string status @ [CHR 0x22] @ ''}}''"

definition quoted_error :: string where
  "quoted_error = [CHR 0x22] @ ''error'' @ [CHR 0x22]"

definition read_response :: "conn \<Rightarrow> string \<times> conn" where
  "read_response c =
     (case read_http_headers c of
        (None, c') \<Rightarrow> ([], c')
      | (Some (headers, leftover), c') \<Rightarrow>
          let status = parse_http_status headers;
              (body, (pre, c'')) = read_response_body headers (leftover, c')
          in (if status \<noteq> 200 \<and> \<not> contains body quoted_error then http_error_body status else body, c''))"

end
