(* ===== verification/Provider_Reply.thy ===== *)
theory Provider_Reply
  imports Http_Reader
begin

text \<open>
  What the provider client makes of a reply (\<open>src/api_client.cpp\<close>): the parsers of a whole body
  for the three wire formats, and the handlers of one server-sent event.  The text and reasoning
  callbacks are a log of what they are called with, in order.
\<close>

section \<open>Numbers in replies\<close>

text \<open>
  \<open>strtod\<close> as \<open>read_json_number\<close> uses it: \<open>None\<close> when nothing was converted or the value is
  not finite.
\<close>

definition sign_of :: "bool \<Rightarrow> rat" where
  "sign_of neg = (if neg then - 1 else 1)"

definition exp_part :: "char \<Rightarrow> char \<Rightarrow> string \<Rightarrow> bool \<times> string" where
  "exp_part e1 e2 s =
     (if s \<noteq> [] \<and> (hd s = e1 \<or> hd s = e2) then
        (let t = tl s; u = (if t \<noteq> [] \<and> (hd t = CHR ''+'' \<or> hd t = CHR ''-'') then tl t else t)
         in (t \<noteq> [] \<and> hd t = CHR ''-'', takeWhile is_digit u))
      else (False, []))"

definition strtod_hex :: "bool \<Rightarrow> string \<Rightarrow> double option" where
  "strtod_hex neg u =
     (let ints = takeWhile is_hex u; r = dropWhile is_hex u;
          dot = (r \<noteq> [] \<and> hd r = CHR ''.'');
          fracs = (if dot then takeWhile is_hex (tl r) else []);
          (eneg, exps) = exp_part (CHR ''p'') (CHR ''P'') (if dot then dropWhile is_hex (tl r) else r);
          e = (if eneg then - digits_val exps else digits_val exps)
      in round_double (sign_of neg * of_int (hexes_val (ints @ fracs)) * pow2 (e - 4 * int (length fracs))))"

definition strtod_dec :: "bool \<Rightarrow> string \<Rightarrow> double option" where
  "strtod_dec neg u =
     (let ints = takeWhile is_digit u; r = dropWhile is_digit u;
          dot = (r \<noteq> [] \<and> hd r = CHR ''.'');
          fracs = (if dot then takeWhile is_digit (tl r) else []);
          (eneg, exps) = exp_part (CHR ''e'') (CHR ''E'') (if dot then dropWhile is_digit (tl r) else r)
      in if ints = [] \<and> fracs = [] then None
         else round_double (decimal_value neg ints fracs eneg exps))"

definition strtod_finite :: "string \<Rightarrow> double option" where
  "strtod_finite s =
     (let t = dropWhile is_space s;
          neg = (t \<noteq> [] \<and> hd t = CHR ''-'');
          u = (if t \<noteq> [] \<and> (hd t = CHR ''-'' \<or> hd t = CHR ''+'') then tl t else t)
      in if (prefix ''0x'' u \<or> prefix ''0X'' u)
            \<and> (takeWhile is_hex (drop 2 u) \<noteq> []
               \<or> (prefix ''.'' (drop 2 u) \<and> takeWhile is_hex (drop 3 u) \<noteq> []))
         then strtod_hex neg (drop 2 u) else strtod_dec neg u)"

definition read_json_number :: "json \<Rightarrow> string \<Rightarrow> double option" where
  "read_json_number obj key =
     (case jget obj key of
        Some (JNum x) \<Rightarrow> Some x
      | Some (JStr s) \<Rightarrow> if s = [] then None else strtod_finite s
      | _ \<Rightarrow> None)"

section \<open>Whole bodies\<close>

text \<open>A member that is present and an object.\<close>

definition get_object :: "json \<Rightarrow> string \<Rightarrow> json option" where
  "get_object v k = (case jget v k of Some (JObj kvs) \<Rightarrow> Some (JObj kvs) | _ \<Rightarrow> None)"

definition get_array :: "json \<Rightarrow> string \<Rightarrow> json list" where
  "get_array v k = (case jget v k of Some (JArr vs) \<Rightarrow> vs | _ \<Rightarrow> [])"

definition parse_failure :: "string \<Rightarrow> parse_error \<Rightarrow> ApiResponse \<Rightarrow> ApiResponse" where
  "parse_failure body e resp =
     resp\<lparr>rs_ok := False, rs_error := ''Parse error: '' @ parse_error_text body e\<rparr>"

definition api_error :: "string \<Rightarrow> string \<Rightarrow> json \<Rightarrow> ApiResponse \<Rightarrow> ApiResponse" where
  "api_error type_key default_text err resp =
     resp\<lparr>rs_ok := False, rs_error_type := get_string err type_key [],
          rs_error := get_string err ''message'' default_text\<rparr>"

definition anthropic_usage :: "json \<Rightarrow> ApiResponse \<Rightarrow> ApiResponse" where
  "anthropic_usage u resp =
     resp\<lparr>rs_input_tokens := get_int u ''input_tokens'' 0,
          rs_output_tokens := get_int u ''output_tokens'' 0,
          rs_cache_read_tokens := get_int u ''cache_read_input_tokens'' 0,
          rs_cache_creation_tokens := get_int u ''cache_creation_input_tokens'' 0\<rparr>"

definition parse_body_anthropic :: "string \<Rightarrow> ApiResponse" where
  "parse_body_anthropic body =
     (let resp = default_response\<lparr>rs_raw_body := body\<rparr> in
      case json_parse body of
        Inl e \<Rightarrow> parse_failure body e resp
      | Inr doc \<Rightarrow>
          (case get_object doc ''error'' of
             Some err \<Rightarrow> api_error ''type'' ''Unknown API error'' err resp
           | None \<Rightarrow>
               let blocks = filter (\<lambda>b. get_string b ''type'' [] = ''text'') (get_array doc ''content'');
                   r1 = resp\<lparr>rs_content := concat (map (\<lambda>b. get_string b ''text'' []) blocks),
                             rs_stop_reason := get_string doc ''stop_reason'' []\<rparr>;
                   r2 = (case get_object doc ''usage'' of None \<Rightarrow> r1 | Some u \<Rightarrow> anthropic_usage u r1)
               in r2\<lparr>rs_ok := True\<rparr>))"

text \<open>The token counts of an OpenAI usage object, shared by whole bodies and stream chunks.\<close>

definition openai_counts :: "json \<Rightarrow> ApiResponse \<Rightarrow> ApiResponse" where
  "openai_counts u resp =
     (let r = resp\<lparr>rs_input_tokens := get_int u ''prompt_tokens'' 0,
                   rs_output_tokens := get_int u ''completion_tokens'' 0\<rparr>
      in case get_object u ''prompt_tokens_details'' of
           None \<Rightarrow> r
         | Some d \<Rightarrow> r\<lparr>rs_cache_read_tokens := get_int d ''cached_tokens'' 0\<rparr>)"

definition parse_openai_usage :: "json \<Rightarrow> ApiResponse \<Rightarrow> ApiResponse" where
  "parse_openai_usage doc resp =
     (case get_object doc ''usage'' of
        None \<Rightarrow> resp
      | Some u \<Rightarrow>
          let r = openai_counts u resp;
              cost = (case read_json_number u ''cost'' of
                        Some x \<Rightarrow> Some x | None \<Rightarrow> read_json_number u ''total_cost'')
          in (case cost of None \<Rightarrow> r | Some x \<Rightarrow> r\<lparr>rs_has_cost := True, rs_cost_usd := x\<rparr>))"

definition top_logprob :: "json \<Rightarrow> TopLogprob option" where
  "top_logprob alt =
     (if \<not> is_object alt then None
      else map_option (\<lambda>p. \<lparr>tl_token = get_string alt ''token'' [], tl_logprob = p\<rparr>)
             (read_json_number alt ''logprob''))"

definition token_logprobs :: "json \<Rightarrow> TokenLogprobs option" where
  "token_logprobs entry =
     (if \<not> is_object entry then None
      else
        let lp = read_json_number entry ''logprob'' in
        Some \<lparr>lp_token = get_string entry ''token'' [],
              lp_logprob = (case lp of Some x \<Rightarrow> x | None \<Rightarrow> 0), lp_has_logprob = (lp \<noteq> None),
              lp_top_logprobs = List.map_filter top_logprob (get_array entry ''top_logprobs'')\<rparr>)"

definition parse_openai_logprobs :: "json \<Rightarrow> ApiResponse \<Rightarrow> ApiResponse" where
  "parse_openai_logprobs choice resp =
     (case get_object choice ''logprobs'' of
        None \<Rightarrow> resp
      | Some lp \<Rightarrow>
          resp\<lparr>rs_logprobs := rs_logprobs resp @ List.map_filter token_logprobs (get_array lp ''content'')\<rparr>)"

definition parse_body_openai :: "string \<Rightarrow> ApiResponse" where
  "parse_body_openai body =
     (let resp = default_response\<lparr>rs_raw_body := body\<rparr> in
      case json_parse body of
        Inl e \<Rightarrow> parse_failure body e resp
      | Inr doc \<Rightarrow>
          let r1 = parse_openai_usage doc (resp\<lparr>rs_served_model := get_string doc ''model'' []\<rparr>) in
          (case get_object doc ''error'' of
             Some err \<Rightarrow> api_error ''type'' ''Unknown API error'' err r1
           | None \<Rightarrow>
               (case get_array doc ''choices'' of
                  [] \<Rightarrow> r1
                | ch0 # _ \<Rightarrow>
                    parse_openai_logprobs ch0
                      ((case jget ch0 ''message'' of
                          None \<Rightarrow> r1
                        | Some msg \<Rightarrow> r1\<lparr>rs_content := get_string msg ''content'' []\<rparr>)
                       \<lparr>rs_stop_reason := get_string ch0 ''finish_reason'' []\<rparr>))
               \<lparr>rs_ok := True\<rparr>))"

text \<open>The non-empty texts of the parts of a Gemini candidate, marked \<open>True\<close> for a thought.\<close>

definition gemini_texts :: "json \<Rightarrow> (bool \<times> string) list" where
  "gemini_texts c0 =
     (case jget c0 ''content'' of
        None \<Rightarrow> []
      | Some cont \<Rightarrow>
          filter (\<lambda>(th, t). t \<noteq> [])
            (map (\<lambda>p. (get_bool p ''thought'' False, get_string p ''text'' [])) (get_array cont ''parts'')))"

definition gemini_usage :: "json \<Rightarrow> ApiResponse \<Rightarrow> ApiResponse" where
  "gemini_usage doc resp =
     (case get_object doc ''usageMetadata'' of
        None \<Rightarrow> resp
      | Some u \<Rightarrow>
          resp\<lparr>rs_input_tokens := get_int u ''promptTokenCount'' 0,
               rs_output_tokens := get_int u ''candidatesTokenCount'' 0,
               rs_cache_read_tokens := get_int u ''cachedContentTokenCount'' 0\<rparr>)"

definition parse_body_gemini :: "string \<Rightarrow> ApiResponse" where
  "parse_body_gemini body =
     (let resp = default_response\<lparr>rs_raw_body := body\<rparr> in
      case json_parse body of
        Inl e \<Rightarrow> parse_failure body e resp
      | Inr doc \<Rightarrow>
          (case get_object doc ''error'' of
             Some err \<Rightarrow> api_error ''status'' ''Unknown API error'' err resp
           | None \<Rightarrow>
               let r1 = (case get_array doc ''candidates'' of
                           [] \<Rightarrow> resp
                         | c0 # _ \<Rightarrow>
                             resp\<lparr>rs_reasoning := concat (map snd (filter fst (gemini_texts c0))),
                                  rs_content := concat (map snd (filter (\<lambda>p. \<not> fst p) (gemini_texts c0))),
                                  rs_stop_reason := get_string c0 ''finishReason'' []\<rparr>)
               in (gemini_usage doc r1)\<lparr>rs_ok := True\<rparr>))"

definition parse_body :: "wire_format \<Rightarrow> string \<Rightarrow> ApiResponse" where
  "parse_body fmt body =
     (case fmt of
        FORMAT_ANTHROPIC \<Rightarrow> parse_body_anthropic body
      | FORMAT_GEMINI \<Rightarrow> parse_body_gemini body
      | FORMAT_OPENAI_CHAT \<Rightarrow> parse_body_openai body)"

section \<open>Server-sent events\<close>

datatype delta = TextDelta string | ReasoningDelta string

record sse_state =
  ss_content :: string
  ss_resp :: ApiResponse
  ss_emitted :: "delta list"

definition emit_content :: "string \<Rightarrow> sse_state \<Rightarrow> sse_state" where
  "emit_content t st = st\<lparr>ss_content := ss_content st @ t, ss_emitted := ss_emitted st @ [TextDelta t]\<rparr>"

definition emit_reasoning :: "string \<Rightarrow> sse_state \<Rightarrow> sse_state" where
  "emit_reasoning t st =
     st\<lparr>ss_resp := (ss_resp st)\<lparr>rs_reasoning := rs_reasoning (ss_resp st) @ t\<rparr>,
        ss_emitted := ss_emitted st @ [ReasoningDelta t]\<rparr>"

abbreviation on_resp :: "(ApiResponse \<Rightarrow> ApiResponse) \<Rightarrow> sse_state \<Rightarrow> sse_state" where
  "on_resp f st \<equiv> st\<lparr>ss_resp := f (ss_resp st)\<rparr>"

definition anthropic_delta :: "json \<Rightarrow> sse_state \<Rightarrow> sse_state" where
  "anthropic_delta d st =
     (let dtype = get_string d ''type'' [] in
      if dtype = ''text_delta'' then emit_content (get_string d ''text'' []) st
      else if dtype = ''thinking_delta'' then
        (let t0 = get_string d ''thinking'' []; think = (if t0 = [] then get_string d ''text'' [] else t0)
         in if think = [] then st else emit_reasoning think st)
      else st)"

definition process_anthropic_event :: "string \<Rightarrow> sse_state \<Rightarrow> sse_state" where
  "process_anthropic_event data st =
     (if data = [] \<or> data = ''[DONE]'' then st
      else case json_parse data of
        Inl _ \<Rightarrow> st
      | Inr doc \<Rightarrow>
          let ty = get_string doc ''type'' [] in
          if ty = ''content_block_delta'' then
            (case jget doc ''delta'' of None \<Rightarrow> st | Some d \<Rightarrow> anthropic_delta d st)
          else if ty = ''message_start'' then
            (case jget doc ''message'' of
               None \<Rightarrow> st
             | Some msg \<Rightarrow>
                 (case jget msg ''usage'' of
                    None \<Rightarrow> st
                  | Some u \<Rightarrow> on_resp (\<lambda>r. r\<lparr>rs_input_tokens := get_int u ''input_tokens'' 0,
                      rs_cache_creation_tokens := get_int u ''cache_creation_input_tokens'' 0,
                      rs_cache_read_tokens := get_int u ''cache_read_input_tokens'' 0\<rparr>) st))
          else if ty = ''message_delta'' then
            on_resp (\<lambda>r.
              let r1 = (case jget doc ''delta'' of
                          None \<Rightarrow> r | Some d \<Rightarrow> r\<lparr>rs_stop_reason := get_string d ''stop_reason'' []\<rparr>)
              in case jget doc ''usage'' of
                   None \<Rightarrow> r1 | Some u \<Rightarrow> r1\<lparr>rs_output_tokens := get_int u ''output_tokens'' 0\<rparr>) st
          else if ty = ''error'' then
            on_resp (\<lambda>r. case jget doc ''error'' of
                None \<Rightarrow> r\<lparr>rs_ok := False\<rparr>
              | Some err \<Rightarrow> r\<lparr>rs_ok := False, rs_error := get_string err ''message'' ''Stream error''\<rparr>) st
          else st)"

definition openai_delta :: "json \<Rightarrow> sse_state \<Rightarrow> sse_state" where
  "openai_delta d st =
     (let t = get_string d ''content'' [];
          st1 = (if t = [] then st else emit_content t st);
          k0 = get_string d ''reasoning_content'' [];
          think = (if k0 = [] then get_string d ''reasoning'' [] else k0)
      in if think = [] then st1 else emit_reasoning think st1)"

definition set_finish :: "string \<Rightarrow> sse_state \<Rightarrow> sse_state" where
  "set_finish fin st = (if fin = [] then st else on_resp (\<lambda>r. r\<lparr>rs_stop_reason := fin\<rparr>) st)"

definition process_openai_event :: "string \<Rightarrow> sse_state \<Rightarrow> sse_state" where
  "process_openai_event data st =
     (if data = [] \<or> data = ''[DONE]'' then st
      else case json_parse data of
        Inl _ \<Rightarrow> st
      | Inr doc \<Rightarrow>
          (case get_object doc ''error'' of
             Some err \<Rightarrow> on_resp (api_error ''type'' ''Stream error'' err) st
           | None \<Rightarrow>
               let st1 = (case get_array doc ''choices'' of
                            [] \<Rightarrow> st
                          | ch0 # _ \<Rightarrow>
                              set_finish (get_string ch0 ''finish_reason'' [])
                                (case jget ch0 ''delta'' of None \<Rightarrow> st | Some d \<Rightarrow> openai_delta d st))
               in case get_object doc ''usage'' of
                    None \<Rightarrow> st1
                  | Some u \<Rightarrow> on_resp (openai_counts u) st1))"

definition emit_gemini :: "bool \<times> string \<Rightarrow> sse_state \<Rightarrow> sse_state" where
  "emit_gemini p st = (if fst p then emit_reasoning (snd p) st else emit_content (snd p) st)"

definition process_gemini_event :: "string \<Rightarrow> sse_state \<Rightarrow> sse_state" where
  "process_gemini_event data st =
     (if data = [] then st
      else case json_parse data of
        Inl _ \<Rightarrow> st
      | Inr doc \<Rightarrow>
          (case get_object doc ''error'' of
             Some err \<Rightarrow> on_resp (api_error ''status'' ''Stream error'' err) st
           | None \<Rightarrow>
               let st1 = (case get_array doc ''candidates'' of
                            [] \<Rightarrow> st
                          | c0 # _ \<Rightarrow> set_finish (get_string c0 ''finishReason'' [])
                                        (fold emit_gemini (gemini_texts c0) st))
               in on_resp (gemini_usage doc) st1))"

definition process_event :: "wire_format \<Rightarrow> string \<Rightarrow> sse_state \<Rightarrow> sse_state" where
  "process_event fmt =
     (case fmt of
        FORMAT_ANTHROPIC \<Rightarrow> process_anthropic_event
      | FORMAT_GEMINI \<Rightarrow> process_gemini_event
      | FORMAT_OPENAI_CHAT \<Rightarrow> process_openai_event)"

end
