(* ===== verification/Provider_Stream.thy ===== *)
theory Provider_Stream
  imports Provider_Reply
begin

text \<open>
  The streaming reader of the provider client (\<open>read_streaming_response\<close> of
  \<open>src/api_client.cpp\<close>): cancellation polls, the line buffer fed from chunked and plain bodies,
  and the response it builds.

  What this thread sees of cancellation is scripted: one value per look at \<open>cancelled_\<close>, the
  hard-cancel bit and the request's token, and one per preflight; a look that is not listed sees
  no cancellation.
\<close>

section \<open>Cancellation\<close>

record polls =
  po_cancel :: "bool list"
  po_preflight_fails :: "bool list"
  po_hard :: bool

definition is_request_cancelled :: "polls \<Rightarrow> bool \<times> polls" where
  "is_request_cancelled p =
     (if po_hard p then (True, p)
      else case po_cancel p of [] \<Rightarrow> (False, p) | b # bs \<Rightarrow> (b, p\<lparr>po_cancel := bs\<rparr>))"

definition latch_sticky_cancel :: "polls \<Rightarrow> bool \<times> polls" where
  "latch_sticky_cancel p =
     (if po_hard p then (True, p)
      else case po_preflight_fails p of
             [] \<Rightarrow> (False, p)
           | b # bs \<Rightarrow> (b, p\<lparr>po_preflight_fails := bs, po_hard := b\<rparr>))"

record stream_io =
  io_reader :: reader
  io_ticks :: nat
  io_polls :: polls

definition should_abort_io :: "stream_io \<Rightarrow> bool \<times> stream_io" where
  "should_abort_io io =
     (let (c, p) = is_request_cancelled (io_polls io) in
      if c then (True, io\<lparr>io_polls := p\<rparr>)
      else
        let t = Suc (io_ticks io); io' = io\<lparr>io_polls := p, io_ticks := t\<rparr> in
        if t mod 32 = 0 then
          (let (h, p') = latch_sticky_cancel p in (h, io'\<lparr>io_polls := p'\<rparr>))
        else (False, io'))"

definition io_recv :: "nat \<Rightarrow> stream_io \<Rightarrow> string \<times> stream_io" where
  "io_recv want io = (let (got, r) = recv_some want (io_reader io) in (got, io\<lparr>io_reader := r\<rparr>))"

section \<open>Lines\<close>

record line_state =
  ls_buf :: string
  ls_sse :: sse_state

definition process_line :: "wire_format \<Rightarrow> string \<Rightarrow> sse_state \<Rightarrow> sse_state" where
  "process_line fmt line st =
     (if line = [] \<or> line = [CHR 0x0D] then st
      else if 6 < length line \<and> prefix ''data: '' line then
        (let data = drop 6 line;
             data' = (if data \<noteq> [] \<and> last data = CHR 0x0D then butlast data else data)
         in process_event fmt data' st)
      else st)"

definition kMaxLineSize :: nat where "kMaxLineSize = 1048576"

text \<open>\<open>line_buf.append\<close>, cut at the line limit.\<close>

definition append_line :: "string \<Rightarrow> string \<Rightarrow> string" where
  "append_line buf run =
     (if run \<noteq> [] \<and> length buf < kMaxLineSize then buf @ take (kMaxLineSize - length buf) run else buf)"

function feed :: "wire_format \<Rightarrow> string \<Rightarrow> line_state \<Rightarrow> line_state" where
  "feed fmt data ls =
     (if data = [] then ls
      else
        let run = takeWhile (\<lambda>c. c \<noteq> CHR 0x0A) data;
            rest = dropWhile (\<lambda>c. c \<noteq> CHR 0x0A) data;
            buf = append_line (ls_buf ls) run
        in if rest \<noteq> []
           then feed fmt (tl rest) \<lparr>ls_buf = [], ls_sse = process_line fmt buf (ls_sse ls)\<rparr>
           else ls\<lparr>ls_buf := buf\<rparr>)"
  by pat_completeness auto
termination
proof (relation "measure (length \<circ> fst \<circ> snd)", goal_cases)
  case (2 fmt data ls run rest buf)
  then have "length rest \<le> length data" "rest \<noteq> []" by (simp_all add: length_dropWhile_le)
  then have "length (tl rest) < length data" by (cases rest) simp_all
  then show ?case by simp
qed simp

declare feed.simps [simp del]

section \<open>Bodies\<close>

lemma abort_reader [simp]: "io_reader (snd (should_abort_io io)) = io_reader io"
  by (auto simp: should_abort_io_def Let_def split: prod.splits)

lemma abort_reader_eq: "(b, io') = should_abort_io io \<Longrightarrow> io_reader io' = io_reader io"
  using abort_reader [of io] by (metis snd_conv)

lemma io_recv_less:
  "(got, io') = io_recv n io \<Longrightarrow> got \<noteq> [] \<Longrightarrow> reader_size (io_reader io') < reader_size (io_reader io)"
  using recv_some_less [of got "io_reader io'" n "io_reader io"]
  by (auto simp: io_recv_def split: prod.splits)

lemma io_recv_le: "reader_size (io_reader (snd (io_recv n io))) \<le> reader_size (io_reader io)"
  using recv_some_le [of n "io_reader io"] by (auto simp: io_recv_def split: prod.splits)

function stream_size_line :: "string \<Rightarrow> stream_io \<Rightarrow> string option \<times> stream_io" where
  "stream_size_line line io =
     (let (got, io1) = io_recv 1 io in
      if got = [] then (None, io1)
      else
        let (ab, io2) = should_abort_io io1 in
        if ab then (None, io2)
        else if hd got = CHR 0x0A then (Some line, io2)
        else stream_size_line (if hd got \<noteq> CHR 0x0D then line @ [hd got] else line) io2)"
  by pat_completeness auto
termination
  by (relation "measure (reader_size \<circ> io_reader \<circ> snd)")
     (auto dest!: abort_reader_eq io_recv_less)

declare stream_size_line.simps [simp del]

text \<open>The data of one chunk; \<open>False\<close> is the jump to \<open>stream_done\<close>.\<close>

function stream_exact ::
  "wire_format \<Rightarrow> nat \<Rightarrow> stream_io \<times> line_state \<Rightarrow> bool \<times> stream_io \<times> line_state" where
  "stream_exact fmt left (io, ls) =
     (if left = 0 then (True, io, ls)
      else
        let (ab, io1) = should_abort_io io in
        if ab then (False, io1, ls)
        else
          let (got, io2) = io_recv (min left buf_size) io1 in
          if got = [] then (False, io2, ls)
          else stream_exact fmt (left - length got) (io2, feed fmt got ls))"
  by pat_completeness auto
termination
  by (relation "measure (reader_size \<circ> io_reader \<circ> fst \<circ> snd \<circ> snd)")
     (auto dest!: abort_reader_eq io_recv_less)

declare stream_exact.simps [simp del]

lemma stream_size_line_less:
  "stream_size_line line io = (Some l, io') \<Longrightarrow> reader_size (io_reader io') < reader_size (io_reader io)"
proof (induction line io rule: stream_size_line.induct)
  case (1 line io)
  obtain got io1 where g: "io_recv 1 io = (got, io1)" by (rule prod.exhaust)
  obtain ab io2 where a: "should_abort_io io1 = (ab, io2)" by (rule prod.exhaust)
  have r: "io_reader io2 = io_reader io1" using abort_reader_eq [OF a [symmetric]] .
  show ?case
  proof (cases "got = [] \<or> ab \<or> hd got = CHR 0x0A")
    case True
    then show ?thesis using 1(2) g a r io_recv_less [OF g [symmetric]]
      by (subst (asm) stream_size_line.simps) (auto split: if_splits)
  next
    case False
    then have "reader_size (io_reader io') < reader_size (io_reader io2)"
      using 1(2) by (intro "1.IH" [OF g [symmetric] refl _ a [symmetric] refl])
        (simp_all add: stream_size_line.simps [of line io] g [simplified] a)
    then show ?thesis using False r io_recv_less [OF g [symmetric]] by simp
  qed
qed

lemma stream_exact_le:
  "reader_size (io_reader (fst (snd (stream_exact fmt k s)))) \<le> reader_size (io_reader (fst s))"
proof (induction fmt k s rule: stream_exact.induct)
  case (1 fmt k io ls)
  obtain ab io1 where a: "should_abort_io io = (ab, io1)" by (rule prod.exhaust)
  obtain got io2 where g: "io_recv (min k buf_size) io1 = (got, io2)" by (rule prod.exhaust)
  have r: "io_reader io1 = io_reader io" using abort_reader_eq [OF a [symmetric]] .
  have l: "reader_size (io_reader io2) \<le> reader_size (io_reader io1)"
    using io_recv_le [of "min k buf_size" io1] g by simp
  show ?case
    using "1.IH" [OF _ a [symmetric] refl _ g [symmetric] refl] r l g a
    by (subst stream_exact.simps) (auto split: if_splits)
qed

text \<open>
  The chunk loop; the flag tells that it was left at its end (the \<open>while\<close> condition or the last
  chunk) rather than by \<open>goto stream_done\<close>.
\<close>

function stream_chunks ::
  "wire_format \<Rightarrow> stream_io \<times> line_state \<Rightarrow> bool \<times> stream_io \<times> line_state" where
  "stream_chunks fmt (io, ls) =
     (case should_abort_io io of
        (True, io1) \<Rightarrow> (True, io1, ls)
      | (False, io1) \<Rightarrow>
          (case stream_size_line [] io1 of
             (None, io2) \<Rightarrow> (False, io2, ls)
           | (Some line, io2) \<Rightarrow>
               if chunk_size line = 0 then (True, io2, ls)
               else case stream_exact fmt (nat (chunk_size line)) (io2, ls) of
                      (False, io3, ls') \<Rightarrow> (False, io3, ls')
                    | (True, io3, ls') \<Rightarrow> stream_chunks fmt (snd (io_recv 2 io3), ls')))"
  by pat_completeness auto
termination
proof (relation "measure (reader_size \<circ> io_reader \<circ> fst \<circ> snd)", goal_cases)
  case (2 fmt io ls x io1 y io2 line z w io3 ls')
  have "reader_size (io_reader io2) < reader_size (io_reader io1)"
    using 2 stream_size_line_less by metis
  moreover have "io_reader io1 = io_reader io" using 2 abort_reader_eq by metis
  moreover have "reader_size (io_reader io3) \<le> reader_size (io_reader io2)"
    using stream_exact_le [of fmt "nat (chunk_size line)" "(io2, ls)"] 2 by (metis fst_conv snd_conv)
  ultimately show ?case using io_recv_le [of 2 io3] by simp
qed simp

declare stream_chunks.simps [simp del]

text \<open>The loop over a body that is not chunked; \<open>left\<close> is \<open>None\<close> without a length.\<close>

function stream_plain ::
  "wire_format \<Rightarrow> int option \<Rightarrow> stream_io \<times> line_state \<Rightarrow> stream_io \<times> line_state" where
  "stream_plain fmt left (io, ls) =
     (if (case left of None \<Rightarrow> False | Some n \<Rightarrow> n \<le> 0) then (io, ls)
      else
        let (ab, io1) = should_abort_io io in
        if ab then (io1, ls)
        else
          let (got, io2) = io_recv buf_size io1 in
          if got = [] then (io2, ls)
          else stream_plain fmt (map_option (\<lambda>n. n - int (length got)) left) (io2, feed fmt got ls))"
  by pat_completeness auto
termination
  by (relation "measure (reader_size \<circ> io_reader \<circ> fst \<circ> snd \<circ> snd)")
     (auto dest!: abort_reader_eq io_recv_less)

declare stream_plain.simps [simp del]

section \<open>The response\<close>

definition cancelled_response :: "ApiResponse \<Rightarrow> ApiResponse" where
  "cancelled_response resp =
     resp\<lparr>rs_ok := False, rs_error_type := ''cancelled'', rs_error := ''request cancelled''\<rparr>"

definition init_lines :: line_state where
  "init_lines = \<lparr>ls_buf = [],
     ls_sse = \<lparr>ss_content = [], ss_resp = default_response\<lparr>rs_ok := True\<rparr>, ss_emitted = []\<rparr>\<rparr>"

text \<open>The body of a \<open>200\<close> response, up to \<open>stream_done\<close>.\<close>

definition stream_body ::
  "wire_format \<Rightarrow> string \<Rightarrow> stream_io \<Rightarrow> stream_io \<times> line_state" where
  "stream_body fmt headers io =
     (if is_chunked headers then
        (case stream_chunks fmt (io, init_lines) of
           (False, io1, ls) \<Rightarrow> (io1, ls)
         | (True, io1, ls) \<Rightarrow>
             let (c, p) = is_request_cancelled (io_polls io1);
                 io2 = io1\<lparr>io_polls := p\<rparr>
             in (if c \<or> po_hard p then io2 else snd (io_recv 2 io2), ls))
      else
        let n = content_length headers in
        stream_plain fmt (if n < 0 then None else Some n) (io, init_lines))"

definition stream_finish :: "wire_format \<Rightarrow> polls \<Rightarrow> line_state \<Rightarrow> sse_state \<times> polls" where
  "stream_finish fmt p0 ls =
     (let st = (if ls_buf ls \<noteq> [] then process_line fmt (ls_buf ls) (ls_sse ls) else ls_sse ls);
          st1 = on_resp (\<lambda>r. r\<lparr>rs_content := ss_content st\<rparr>) st;
          (c, p) = is_request_cancelled p0
      in (if c \<or> po_hard p then on_resp cancelled_response st1 else st1, p))"

text \<open>
  The state carries the response and what the callbacks got; the connection is \<open>None\<close> when it
  was closed.
\<close>

definition read_streaming_response ::
  "wire_format \<Rightarrow> polls \<Rightarrow> conn \<Rightarrow> sse_state \<times> polls \<times> conn option" where
  "read_streaming_response fmt p c =
     (let st0 = ls_sse init_lines in
      case read_http_headers c of
        (None, c') \<Rightarrow>
          (on_resp (\<lambda>r. r\<lparr>rs_ok := False, rs_error := ''Connection closed reading headers''\<rparr>) st0, p, Some c')
      | (Some (headers, leftover), c') \<Rightarrow>
          let status = parse_http_status headers in
          if status \<noteq> 200 then
            (let body = fst (read_response_body headers (leftover, c'));
                 body' = (if body = [] then http_error_body status else body)
             in (on_resp (\<lambda>_. parse_body fmt body') st0, p, None))
          else
            let (io, ls) = stream_body fmt headers
                             \<lparr>io_reader = (leftover, c'), io_ticks = 0, io_polls = p\<rparr>;
                (st, p') = stream_finish fmt (io_polls io) ls
            in (st, p', Some (snd (io_reader io))))"

end
