(* ===== verification/Provider_Call.thy ===== *)
theory Provider_Call
  imports Provider_Stream Circuit_Breaker
begin

text \<open>
  The two calls of the provider client (\<open>ApiClient::complete\<close> and \<open>ApiClient::stream\<close> of
  \<open>src/api_client.cpp\<close>) with their retry loops, on top of the circuit breaker, the wire formats
  and the readers.

  The state holds what a call uses and changes: the breaker and the metrics (both optional), the
  token totals (\<open>atomic<int>\<close>, which wraps), the leased connection, the requests put on the wire,
  the time slept, and the scripts of the outside world: how the next connects end (an error text,
  or what the new connection will deliver), what the sends of the next requests return, and the
  cancellation polls.  The times at which the breaker is asked and told are arguments.
\<close>

section \<open>State\<close>

datatype provider_metric = ProviderCall | ProviderRetry | Provider5xx | Provider429

record call_state =
  cl_breaker :: "breaker option"
  cl_metrics :: "(provider_metric \<Rightarrow> string \<Rightarrow> nat) option"
  cl_total_in :: int
  cl_total_out :: int
  cl_conn :: "conn option"
  cl_last_error :: string
  cl_requests :: "string list"
  cl_slept_us :: int
  cl_polls :: polls
  cl_connects :: "(string + conn) list"
  cl_sends :: "int list list"

record call_env =
  ce_env :: env_map
  ce_keys :: key_store
  ce_scripted :: "(ApiRequest \<Rightarrow> bool \<Rightarrow> ApiResponse \<times> delta list) option"
  ce_asked :: nanos
  ce_told :: nanos

definition inc_metric :: "provider_metric \<Rightarrow> string \<Rightarrow> call_state \<Rightarrow> call_state" where
  "inc_metric k p s =
     s\<lparr>cl_metrics := map_option (\<lambda>m. m(k := (m k)(p := Suc (m k p)))) (cl_metrics s)\<rparr>"

definition on_breaker :: "(breaker \<Rightarrow> breaker) \<Rightarrow> call_state \<Rightarrow> call_state" where
  "on_breaker f s = s\<lparr>cl_breaker := map_option f (cl_breaker s)\<rparr>"

definition ask_breaker :: "call_env \<Rightarrow> string \<Rightarrow> call_state \<Rightarrow> bool \<times> call_state" where
  "ask_breaker e p s =
     (case cl_breaker s of
        None \<Rightarrow> (True, s)
      | Some b \<Rightarrow> let (ok, b') = allow (ce_asked e) p b in (ok, s\<lparr>cl_breaker := Some b'\<rparr>))"

definition tell_success :: "string \<Rightarrow> call_state \<Rightarrow> call_state" where
  "tell_success p = on_breaker (record_success p)"

definition tell_failure :: "call_env \<Rightarrow> string \<Rightarrow> call_state \<Rightarrow> call_state" where
  "tell_failure e p = on_breaker (record_failure (ce_told e) p)"

definition tell_abandoned :: "call_env \<Rightarrow> string \<Rightarrow> call_state \<Rightarrow> call_state" where
  "tell_abandoned e p = on_breaker (record_abandoned (ce_told e) p)"

definition poll_latch :: "call_state \<Rightarrow> bool \<times> call_state" where
  "poll_latch s = (let (b, p) = latch_sticky_cancel (cl_polls s) in (b, s\<lparr>cl_polls := p\<rparr>))"

definition poll_cancelled :: "call_state \<Rightarrow> bool \<times> call_state" where
  "poll_cancelled s = (let (b, p) = is_request_cancelled (cl_polls s) in (b, s\<lparr>cl_polls := p\<rparr>))"

section \<open>Policy\<close>

definition is_retryable :: "string \<Rightarrow> bool" where
  "is_retryable error_type \<longleftrightarrow>
     error_type = ''rate_limit_error'' \<or> error_type = ''overloaded_error'' \<or>
     error_type = ''RESOURCE_EXHAUSTED'' \<or> error_type = ''UNAVAILABLE''"

definition arbiter_offline_env :: "env_map \<Rightarrow> bool" where
  "arbiter_offline_env env =
     (case env ''ARBITER_OFFLINE'' of Some (c # _) \<Rightarrow> c \<noteq> CHR ''0'' | _ \<Rightarrow> False)"

definition kHarnessDummyKey :: string where
  "kHarnessDummyKey = ''dummy-key-no-network''"

definition should_skip_network :: "call_env \<Rightarrow> Provider \<Rightarrow> bool" where
  "should_skip_network e prov \<longleftrightarrow>
     arbiter_offline_env (ce_env e)
     \<or> (pv_uses_api_key prov \<and> unmask_api_key (ce_keys e) (pv_name prov) = kHarnessDummyKey)"

definition offline_auth_failure :: ApiResponse where
  "offline_auth_failure = default_response
     \<lparr>rs_error_type := ''authentication_error'',
      rs_error := ''Authentication header offline: no network (ARBITER_OFFLINE or dummy-key-no-network)''\<rparr>"

definition circuit_open_response :: "string \<Rightarrow> ApiResponse" where
  "circuit_open_response p = default_response
     \<lparr>rs_error_type := ''circuit_open'',
      rs_error := ''circuit breaker open for provider '' @ squote p\<rparr>"

definition send_error_text :: "send_error \<Rightarrow> string" where
  "send_error_text e =
     (case e of NoApiKey p \<Rightarrow> ''No API key configured for provider '' @ squote p
              | WriteFailed \<Rightarrow> ''write failed'')"

section \<open>One attempt\<close>

definition close_connection :: "call_state \<Rightarrow> call_state" where
  "close_connection s = s\<lparr>cl_conn := None\<rparr>"

definition ensure_connection :: "call_state \<Rightarrow> bool \<times> call_state" where
  "ensure_connection s =
     (if cl_conn s \<noteq> None then (True, s)
      else case cl_connects s of
        [] \<Rightarrow> (False, s\<lparr>cl_last_error := ''connect() failed: no usable address returned by getaddrinfo''\<rparr>)
      | Inl err # rest \<Rightarrow> (False, s\<lparr>cl_last_error := err, cl_connects := rest\<rparr>)
      | Inr c # rest \<Rightarrow> (True, s\<lparr>cl_conn := Some c, cl_last_error := [], cl_connects := rest\<rparr>))"

definition connect_error :: "call_state \<Rightarrow> string" where
  "connect_error s = (if cl_last_error s = [] then ''Connection failed'' else cl_last_error s)"

definition put_request ::
  "call_env \<Rightarrow> Provider \<Rightarrow> ApiRequest \<Rightarrow> bool \<Rightarrow> call_state \<Rightarrow> send_error option \<times> call_state" where
  "put_request e prov req streaming s =
     (let body = build_body (ce_env e) prov req streaming; path = path_for prov req streaming;
          sends = (case cl_sends s of [] \<Rightarrow> [] | ns # _ \<Rightarrow> ns);
          s1 = s\<lparr>cl_sends := drop 1 (cl_sends s)\<rparr>
      in case send_request (ce_env e) (ce_keys e) prov sends path body streaming of
           Inl err \<Rightarrow> (Some err, close_connection s1)
         | Inr raw \<Rightarrow> (None, s1\<lparr>cl_requests := cl_requests s1 @ [raw]\<rparr>))"

datatype attempt = ConnectFailed string | Threw string | Replied ApiResponse

definition attempt_complete ::
  "call_env \<Rightarrow> Provider \<Rightarrow> ApiRequest \<Rightarrow> call_state \<Rightarrow> attempt \<times> call_state" where
  "attempt_complete e prov req s =
     (case ensure_connection s of
        (False, s1) \<Rightarrow> (ConnectFailed (connect_error s1), s1)
      | (True, s1) \<Rightarrow>
          (case put_request e prov req False s1 of
             (Some err, s2) \<Rightarrow> (Threw (send_error_text err), s2)
           | (None, s2) \<Rightarrow>
               let (raw, c) = read_response (case cl_conn s2 of Some c \<Rightarrow> c | None \<Rightarrow> [])
               in (Replied (parse_body (pv_format prov) raw), s2\<lparr>cl_conn := Some c\<rparr>)))"

text \<open>A streaming attempt also yields what the callbacks got.\<close>

definition attempt_stream ::
  "call_env \<Rightarrow> Provider \<Rightarrow> ApiRequest \<Rightarrow> call_state \<Rightarrow> attempt \<times> delta list \<times> call_state" where
  "attempt_stream e prov req s =
     (case ensure_connection s of
        (False, s1) \<Rightarrow> (ConnectFailed (connect_error s1), [], s1)
      | (True, s1) \<Rightarrow>
          (case put_request e prov req True s1 of
             (Some err, s2) \<Rightarrow> (Threw (send_error_text err), [], s2)
           | (None, s2) \<Rightarrow>
               let (st, p, c) = read_streaming_response (pv_format prov) (cl_polls s2)
                                  (case cl_conn s2 of Some c \<Rightarrow> c | None \<Rightarrow> [])
               in (Replied (ss_resp st), ss_emitted st, s2\<lparr>cl_polls := p, cl_conn := c\<rparr>)))"

text \<open>The sleep before a retry.\<close>

definition back_off :: "nat \<Rightarrow> string \<Rightarrow> call_state \<Rightarrow> call_state" where
  "back_off attempt p s =
     (if 0 < attempt
      then inc_metric ProviderRetry p (s\<lparr>cl_slept_us := cl_slept_us s + 2 ^ (attempt - 1) * 1000000\<rparr>)
      else s)"

definition count_error :: "string \<Rightarrow> string \<Rightarrow> call_state \<Rightarrow> call_state" where
  "count_error p error_type s =
     (if error_type = ''rate_limit_error'' \<or> error_type = ''RESOURCE_EXHAUSTED''
      then inc_metric Provider429 p s
      else if is_retryable error_type then inc_metric Provider5xx p s
      else s)"

definition add_tokens :: "ApiResponse \<Rightarrow> call_state \<Rightarrow> call_state" where
  "add_tokens r s =
     s\<lparr>cl_total_in := wrap32 (cl_total_in s + rs_input_tokens r),
       cl_total_out := wrap32 (cl_total_out s + rs_output_tokens r)\<rparr>"

text \<open>The two cancellation tests at the top of each attempt.\<close>

definition poll_attempt :: "call_state \<Rightarrow> bool \<times> call_state" where
  "poll_attempt s = (let (h, s1) = poll_latch s in if h then (True, s1) else poll_cancelled s1)"

definition complete_attempts :: nat where "complete_attempts = 4"

definition stream_attempts :: nat where "stream_attempts = 3"

section \<open>The calls\<close>

function complete_loop ::
  "call_env \<Rightarrow> Provider \<Rightarrow> ApiRequest \<Rightarrow> nat \<Rightarrow> call_state \<Rightarrow> ApiResponse \<times> call_state" where
  "complete_loop e prov req attempt s =
     (let p = pv_name prov in
      if complete_attempts \<le> attempt then
        (default_response\<lparr>rs_error := ''Unreachable''\<rparr>, tell_failure e p s)
      else case poll_attempt s of
        (True, s1) \<Rightarrow> (cancelled_response default_response, tell_abandoned e p s1)
      | (False, s1) \<Rightarrow>
          (case attempt_complete e prov req (back_off attempt p s1) of
             (ConnectFailed err, s2) \<Rightarrow> (default_response\<lparr>rs_error := err\<rparr>, tell_failure e p s2)
           | (Threw _, s2) \<Rightarrow>
               let s3 = inc_metric Provider5xx p s2 in
               if complete_attempts - 1 \<le> attempt then
                 (default_response\<lparr>rs_error := ''Request failed after retries''\<rparr>, tell_failure e p s3)
               else complete_loop e prov req (Suc attempt) s3
           | (Replied resp, s2) \<Rightarrow>
               if rs_ok resp then (resp, add_tokens resp (tell_success p s2))
               else
                 let s3 = count_error p (rs_error_type resp) s2 in
                 if \<not> is_retryable (rs_error_type resp) \<or> complete_attempts - 1 \<le> attempt
                 then (resp, tell_failure e p s3)
                 else complete_loop e prov req (Suc attempt) s3))"
  by pat_completeness auto
termination
  by (relation "measure (\<lambda>(e, prov, req, attempt, s). complete_attempts - attempt)") auto

declare complete_loop.simps [simp del]

definition api_complete :: "call_env \<Rightarrow> ApiRequest \<Rightarrow> call_state \<Rightarrow> ApiResponse \<times> call_state" where
  "api_complete e req s =
     (case poll_latch s of
        (True, s1) \<Rightarrow> (cancelled_response default_response, s1)
      | (False, s1) \<Rightarrow>
          (case ce_scripted e of
             Some f \<Rightarrow> (fst (f req False), s1)
           | None \<Rightarrow>
               let prov = provider_for (ce_env e) (rq_model req); p = pv_name prov in
               (case ask_breaker e p s1 of
                  (False, s2) \<Rightarrow> (circuit_open_response p, s2)
                | (True, s2) \<Rightarrow>
                    let s3 = inc_metric ProviderCall p s2 in
                    if should_skip_network e prov then (offline_auth_failure, s3)
                    else case poll_cancelled s3 of
                      (True, s4) \<Rightarrow>
                        (cancelled_response default_response, tell_abandoned e p (snd (poll_latch s4)))
                    | (False, s4) \<Rightarrow> complete_loop e prov req 0 s4)))"

function stream_loop ::
  "call_env \<Rightarrow> Provider \<Rightarrow> ApiRequest \<Rightarrow> nat \<Rightarrow> delta list \<Rightarrow> call_state
     \<Rightarrow> ApiResponse \<times> delta list \<times> call_state" where
  "stream_loop e prov req attempt out s =
     (let p = pv_name prov in
      if stream_attempts \<le> attempt then
        (default_response\<lparr>rs_error := ''Stream failed after retries''\<rparr>, out, tell_failure e p s)
      else case poll_attempt s of
        (True, s1) \<Rightarrow> (cancelled_response default_response, out, tell_abandoned e p s1)
      | (False, s1) \<Rightarrow>
          let (a, ds, s2) = attempt_stream e prov req (back_off attempt p s1);
              threw = (case a of Threw _ \<Rightarrow> True | _ \<Rightarrow> False);
              resp = (case a of
                        ConnectFailed err \<Rightarrow> default_response\<lparr>rs_error := err\<rparr>
                      | Threw err \<Rightarrow> default_response\<lparr>rs_error := ''Stream error: '' @ err\<rparr>
                      | Replied r \<Rightarrow> r)
          in if rs_ok resp then (resp, out @ ds, add_tokens resp (tell_success p s2))
             else
               let s3 = (if threw then inc_metric Provider5xx p s2 else count_error p (rs_error_type resp) s2);
                   can_retry = (rs_content resp = [] \<and> (threw \<or> is_retryable (rs_error_type resp)))
               in if \<not> can_retry \<or> stream_attempts - 1 \<le> attempt
                  then (resp, out @ ds, tell_failure e p s3)
                  else stream_loop e prov req (Suc attempt) (out @ ds) (close_connection s3))"
  by pat_completeness auto
termination
  by (relation "measure (\<lambda>(e, prov, req, attempt, out, s). stream_attempts - attempt)") auto

declare stream_loop.simps [simp del]

definition api_stream :: "call_env \<Rightarrow> ApiRequest \<Rightarrow> call_state \<Rightarrow> ApiResponse \<times> delta list \<times> call_state" where
  "api_stream e req s =
     (case poll_latch s of
        (True, s1) \<Rightarrow> (cancelled_response default_response, [], s1)
      | (False, s1) \<Rightarrow>
          (case ce_scripted e of
             Some f \<Rightarrow> (case f req True of (r, ds) \<Rightarrow> (r, ds, s1))
           | None \<Rightarrow>
               let prov = provider_for (ce_env e) (rq_model req); p = pv_name prov in
               (case ask_breaker e p s1 of
                  (False, s2) \<Rightarrow> (circuit_open_response p, [], s2)
                | (True, s2) \<Rightarrow>
                    let s3 = inc_metric ProviderCall p s2 in
                    if should_skip_network e prov then (offline_auth_failure, [], s3)
                    else case poll_cancelled s3 of
                      (True, s4) \<Rightarrow>
                        (cancelled_response default_response, [], tell_abandoned e p (snd (poll_latch s4)))
                    | (False, s4) \<Rightarrow> stream_loop e prov req 0 [] s4)))"

end
