(* ===== verification/Http_Correct.thy ===== *)
theory Http_Correct
  imports Http_Reader
begin

text \<open>
  Correctness of the response readers: what they return does not depend on how the bytes were cut
  into reads, except that a cut inside the line end after a chunk loses the rest of the body.
\<close>

section \<open>Segments\<close>

text \<open>The reader_segs after \<open>n\<close> bytes, and the positions at which one read ends.\<close>

fun skip_bytes :: "nat \<Rightarrow> string list \<Rightarrow> string list" where
  "skip_bytes n [] = []"
| "skip_bytes n (s # ss) =
     (if n = 0 then s # ss else if length s \<le> n then skip_bytes (n - length s) ss else drop n s # ss)"

fun cut_points :: "string list \<Rightarrow> nat list" where
  "cut_points [] = []"
| "cut_points (s # ss) = length s # map ((+) (length s)) (cut_points ss)"

definition reader_segs :: "reader \<Rightarrow> string list" where
  "reader_segs r = (if fst r = [] then snd r else fst r # snd r)"

lemma skip_bytes_0 [simp]: "skip_bytes 0 ss = ss"
  by (cases ss) simp_all

lemma concat_skip: "concat (skip_bytes n ss) = drop n (concat ss)"
  by (induction n ss rule: skip_bytes.induct) simp_all

lemma skip_add: "skip_bytes (a + b) ss = skip_bytes b (skip_bytes a ss)"
  by (induction a ss arbitrary: b rule: skip_bytes.induct) (auto simp: add.commute)

lemma skip_nonempty: "[] \<notin> set ss \<Longrightarrow> [] \<notin> set (skip_bytes n ss)"
  by (induction n ss rule: skip_bytes.induct) auto

lemma hd_skip_single:
  "[] \<notin> set ss \<Longrightarrow> n < length (concat ss) \<Longrightarrow> length (hd (skip_bytes n ss)) = 1 \<longleftrightarrow> Suc n \<in> set (cut_points ss)"
proof (induction n ss rule: skip_bytes.induct)
  case (2 n s ss)
  have pos: "0 < length s" using 2(2) by (cases s) simp_all
  have z: "0 \<notin> set (cut_points ss)" using 2(2) by (induction ss) auto
  show ?case
  proof (cases "n = 0 \<or> n < length s")
    case True
    have "Suc n = length s + x \<Longrightarrow> x \<in> set (cut_points ss) \<Longrightarrow> False" for x
      using True pos z by (cases x) auto
    then have "Suc n \<in> set (cut_points (s # ss)) \<longleftrightarrow> Suc n = length s" by auto
    moreover have "skip_bytes n (s # ss) = drop n s # ss" using True pos by auto
    ultimately show ?thesis using True pos by auto
  next
    case False
    then have "length (hd (skip_bytes (n - length s) ss)) = 1 \<longleftrightarrow> Suc (n - length s) \<in> set (cut_points ss)"
      using 2 by (intro 2(1)) auto
    moreover have "Suc n = length s + x \<longleftrightarrow> x = Suc (n - length s)" for x using False by arith
    ultimately show ?thesis using False by (auto simp: image_iff)
  qed
qed simp

lemma recv_segments:
  assumes "[] \<notin> set (reader_segs r)" and "0 < n" and "recv_some n r = (got, r')"
  shows "got = take n (hd (reader_segs r @ [[]])) \<and> reader_segs r' = skip_bytes (length got) (reader_segs r)"
proof (cases r)
  case (Pair pre c)
  show ?thesis
  proof (cases pre)
    case Nil
    then show ?thesis using assms Pair
      by (cases c) (auto simp: recv_some_def reader_segs_def split: if_splits)
  next
    case (Cons x xs)
    then show ?thesis using assms Pair
      by (cases n) (auto simp: recv_some_def reader_segs_def)
  qed
qed

lemma recv_nonempty:
  assumes "[] \<notin> set (reader_segs r)" and "0 < n" and "concat (reader_segs r) \<noteq> []" and "recv_some n r = (got, r')"
  shows "got \<noteq> [] \<and> length got \<le> n \<and> got = take (length got) (concat (reader_segs r))
    \<and> reader_segs r' = skip_bytes (length got) (reader_segs r)"
proof -
  from assms(1,3) obtain s ss where ss: "reader_segs r = s # ss" "s \<noteq> []" by (cases "reader_segs r") auto
  with recv_segments [OF assms(1,2,4)] assms(2) show ?thesis by auto
qed

section \<open>Reading a line and a counted run\<close>

lemma read_size_line_segments:
  assumes "[] \<notin> set (reader_segs r)" and "concat (reader_segs r) = line @ crlf @ rest"
    and "CHR 0x0A \<notin> set line" and "CHR 0x0D \<notin> set line"
  shows "\<exists>r'. read_size_line acc r = (Some (acc @ line), r') \<and> reader_segs r' = skip_bytes (length line + 2) (reader_segs r)"
  using assms
proof (induction line arbitrary: acc r)
  case Nil
  obtain g1 r1 where r1: "recv_some 1 r = (g1, r1)" by (rule prod.exhaust)
  have a: "g1 = [CHR 0x0D]" "reader_segs r1 = skip_bytes 1 (reader_segs r)"
    using recv_nonempty [OF Nil(1) _ _ r1] Nil(2) by (auto simp: le_Suc_eq)
  have n1: "[] \<notin> set (reader_segs r1)" using Nil(1) a(2) by (simp add: skip_nonempty)
  have c1: "concat (reader_segs r1) = CHR 0x0A # rest" using Nil(2) a(2) by (simp add: concat_skip)
  obtain g2 r2 where r2: "recv_some 1 r1 = (g2, r2)" by (rule prod.exhaust)
  have b: "g2 = [CHR 0x0A]" "reader_segs r2 = skip_bytes 1 (reader_segs r1)"
    using recv_nonempty [OF n1 _ _ r2] c1 by (auto simp: le_Suc_eq)
  have "read_size_line acc r = (Some acc, r2)"
    by (subst read_size_line.simps, subst read_size_line.simps) (simp add: r1 [simplified] r2 [simplified] a b)
  then show ?case using a b by (auto simp: skip_add [symmetric])
next
  case (Cons x line)
  obtain g1 r1 where r1: "recv_some 1 r = (g1, r1)" by (rule prod.exhaust)
  have a: "g1 = [x]" "reader_segs r1 = skip_bytes 1 (reader_segs r)"
    using recv_nonempty [OF Cons.prems(1) _ _ r1] Cons.prems(2) by (auto simp: le_Suc_eq)
  have "\<exists>r'. read_size_line (acc @ [x]) r1 = (Some ((acc @ [x]) @ line), r')
      \<and> reader_segs r' = skip_bytes (length line + 2) (reader_segs r1)"
    using Cons.prems a by (intro Cons.IH) (auto simp: skip_nonempty concat_skip)
  moreover have "read_size_line acc r = read_size_line (acc @ [x]) r1"
    using Cons.prems(3,4) by (subst read_size_line.simps) (auto simp: r1 [simplified] a)
  ultimately show ?case using a by (auto simp: skip_add [symmetric])
qed

lemma read_exact_segments:
  assumes "[] \<notin> set (reader_segs r)" and "k \<le> length (concat (reader_segs r))"
  shows "\<exists>r'. read_exact k acc r = (True, acc @ take k (concat (reader_segs r)), r')
    \<and> reader_segs r' = skip_bytes k (reader_segs r)"
  using assms
proof (induction k acc r rule: read_exact.induct)
  case (1 k acc r)
  show ?case
  proof (cases "k = 0")
    case True
    then show ?thesis by (subst read_exact.simps) simp
  next
    case False
    obtain g r1 where r1: "recv_some (min k buf_size) r = (g, r1)" by (rule prod.exhaust)
    have ne: "concat (reader_segs r) \<noteq> []" and pos: "0 < min k buf_size"
      using False 1(3) by (fastforce, simp add: buf_size_def)
    have g: "g \<noteq> []" "length g \<le> k" "g = take (length g) (concat (reader_segs r))"
      "reader_segs r1 = skip_bytes (length g) (reader_segs r)"
      using recv_nonempty [OF 1(2) pos ne r1] by auto
    have n1: "[] \<notin> set (reader_segs r1)" using 1(2) g(4) by (simp add: skip_nonempty)
    have l1: "k - length g \<le> length (concat (reader_segs r1))"
      using 1(3) g(4) by (simp add: concat_skip)
    from "1.IH" [OF False r1 [symmetric] refl g(1) n1 l1] obtain r' where
      ih: "read_exact (k - length g) (acc @ g) r1 = (True, (acc @ g) @ take (k - length g) (concat (reader_segs r1)), r')"
        "reader_segs r' = skip_bytes (k - length g) (reader_segs r1)" by blast
    have "take k (concat (reader_segs r)) = g @ take (k - length g) (concat (reader_segs r1))"
      using g by (metis concat_skip le_add_diff_inverse take_add)
    moreover have "skip_bytes (k - length g) (reader_segs r1) = skip_bytes k (reader_segs r)"
      using g(2,4) by (simp add: skip_add [symmetric])
    ultimately show ?thesis
      using ih False g(1) by (subst read_exact.simps) (simp add: r1)
  qed
qed

text \<open>The headers that come with one read.\<close>

lemma read_headers_once:
  assumes "find_sub header_end s = Some i" and "length s \<le> buf_size" and "s \<noteq> []"
  shows "read_http_headers (s # c) = (Some (take (i + 4) s, drop (i + 4) s), c)"
  using assms
  by (simp add: read_http_headers_def read_headers_loop.simps [of "[]"] find_from_def buf_size_def kMaxHeaderSize_def)

section \<open>Chunked bodies\<close>

text \<open>
  A chunk is its size line, without the line end, and its data; a body is its chunks and a line of
  size zero.
\<close>

definition well_framed :: "string \<times> string \<Rightarrow> bool" where
  "well_framed ch \<longleftrightarrow> chunk_size (fst ch) = int (length (snd ch)) \<and> snd ch \<noteq> []
     \<and> CHR 0x0A \<notin> set (fst ch) \<and> CHR 0x0D \<notin> set (fst ch)"

definition last_line :: "string \<Rightarrow> bool" where
  "last_line line \<longleftrightarrow> chunk_size line = 0 \<and> CHR 0x0A \<notin> set line \<and> CHR 0x0D \<notin> set line"

fun chunk_text :: "(string \<times> string) list \<Rightarrow> string" where
  "chunk_text [] = []"
| "chunk_text (ch # chs) = fst ch @ crlf @ snd ch @ crlf @ chunk_text chs"

text \<open>
  The data that arrives when the reads end at the given positions: all of it, up to the first
  chunk whose line end is cut in two.
\<close>

fun delivered :: "nat list \<Rightarrow> nat \<Rightarrow> (string \<times> string) list \<Rightarrow> string" where
  "delivered cuts p [] = []"
| "delivered cuts p (ch # chs) =
     snd ch @ (let q = p + length (fst ch) + length (snd ch) + 2
               in if Suc q \<in> set cuts then [] else delivered cuts (q + 2) chs)"

lemma chunk_size_Nil [simp]: "chunk_size [] = 0"
  by (simp add: chunk_size_def strtol16_def hexes_val_def wrap32_def clamp64_def int_limits)

lemma read_chunks_last:
  assumes "[] \<notin> set (reader_segs r)" and "concat (reader_segs r) = line @ crlf @ rest" and "last_line line"
  shows "fst (read_chunks acc r) = acc"
  using read_size_line_segments [OF assms(1,2), of "[]"] assms(3)
  by (subst read_chunks.simps) (auto simp: last_line_def)

lemma read_chunks_newline:
  assumes "concat (reader_segs r) = CHR 0x0A # rest" and "[] \<notin> set (reader_segs r)"
  shows "fst (read_chunks acc r) = acc"
proof -
  obtain g r1 where r1: "recv_some 1 r = (g, r1)" by (rule prod.exhaust)
  have "g = [CHR 0x0A]" using recv_nonempty [OF assms(2) _ _ r1] assms(1) by (auto simp: le_Suc_eq)
  then have "read_size_line [] r = (Some [], r1)"
    by (subst read_size_line.simps) (simp add: r1 [simplified])
  then show ?thesis by (subst read_chunks.simps) simp
qed

text \<open>What the reader makes of the line end after a chunk.\<close>

lemma read_line_end:
  assumes "[] \<notin> set (reader_segs r)" and "concat (reader_segs r) = crlf @ rest"
  shows "reader_segs (snd (recv_some 2 r)) =
    skip_bytes (if length (hd (reader_segs r)) = 1 then 1 else 2) (reader_segs r)"
proof -
  obtain s ss where ss: "reader_segs r = s # ss" "s \<noteq> []" using assms by (cases "reader_segs r") auto
  obtain g r1 where r1: "recv_some 2 r = (g, r1)" by (rule prod.exhaust)
  have g: "g = take 2 s" "reader_segs r1 = skip_bytes (length g) (reader_segs r)"
    using recv_segments [OF assms(1) _ r1] ss by simp_all
  have "length g = (if length s = 1 then 1 else 2)" using ss(2) g(1) by (cases s; cases "tl s") auto
  then show ?thesis using g ss r1 by simp
qed

lemma read_chunks_delivered:
  assumes "list_all well_framed chs" and "last_line line" and "[] \<notin> set ss"
    and "reader_segs r = skip_bytes p ss" and "drop p (concat ss) = chunk_text chs @ line @ crlf @ rest"
  shows "fst (read_chunks acc r) = acc @ delivered (cut_points ss) p chs"
  using assms(1,4,5)
proof (induction chs arbitrary: p acc r)
  case Nil
  then show ?case using read_chunks_last [of r line rest] assms(2,3)
    by (simp add: concat_skip skip_nonempty)
next
  case (Cons ch chs)
  obtain sz dat where ch: "ch = (sz, dat)" by (cases ch)
  have wf: "chunk_size sz = int (length dat)" "dat \<noteq> []" "CHR 0x0A \<notin> set sz" "CHR 0x0D \<notin> set sz"
    using Cons.prems(1) ch by (simp_all add: well_framed_def)
  let ?tail = "chunk_text chs @ line @ crlf @ rest"
  let ?q = "p + length sz + length dat + 2"
  have n: "[] \<notin> set (reader_segs r)" using Cons.prems(2) assms(3) by (simp add: skip_nonempty)
  have c: "concat (reader_segs r) = sz @ crlf @ dat @ crlf @ ?tail"
    using Cons.prems(2,3) ch by (simp add: concat_skip)
  obtain r1 where r1: "read_size_line [] r = (Some sz, r1)" "reader_segs r1 = skip_bytes (length sz + 2) (reader_segs r)"
    using read_size_line_segments [OF n c wf(3,4), of "[]"] by auto
  have n1: "[] \<notin> set (reader_segs r1)" and c1: "concat (reader_segs r1) = dat @ crlf @ ?tail"
    using n c r1(2) by (simp_all add: skip_nonempty concat_skip)
  obtain r2 where r2: "read_exact (length dat) acc r1 = (True, acc @ dat, r2)" "reader_segs r2 = skip_bytes (length dat) (reader_segs r1)"
    using read_exact_segments [OF n1, of "length dat" acc] c1 by auto
  have n2: "[] \<notin> set (reader_segs r2)" and c2: "concat (reader_segs r2) = crlf @ ?tail"
    using n1 c1 r2(2) by (simp_all add: skip_nonempty concat_skip)
  have s2: "reader_segs r2 = skip_bytes ?q ss"
    using r1(2) r2(2) Cons.prems(2) by (simp add: skip_add [symmetric] ac_simps)
  have step: "read_chunks acc r = read_chunks (acc @ dat) (snd (recv_some 2 r2))"
    using r1(1) r2(1) wf(1,2) by (subst read_chunks.simps) simp
  have dq: "drop ?q (concat ss) = crlf @ ?tail" using s2 c2 by (metis concat_skip)
  then have "?q < length (concat ss)" by (metis append_is_Nil_conv drop_eq_Nil list.distinct(1) not_le)
  then have cut: "length (hd (reader_segs r2)) = 1 \<longleftrightarrow> Suc ?q \<in> set (cut_points ss)"
    using hd_skip_single [OF assms(3)] s2 by simp
  show ?case
  proof (cases "Suc ?q \<in> set (cut_points ss)")
    case True
    then have "reader_segs (snd (recv_some 2 r2)) = skip_bytes (Suc ?q) ss"
      using read_line_end [OF n2 c2] cut s2 skip_add [of ?q 1 ss] by simp
    then have "concat (reader_segs (snd (recv_some 2 r2))) = CHR 0x0A # ?tail" "[] \<notin> set (reader_segs (snd (recv_some 2 r2)))"
      using dq assms(3) by (simp_all add: concat_skip skip_nonempty drop_Suc_Cons) (metis append_Cons drop_Suc_Cons drop_drop plus_1_eq_Suc drop0)
    then have "fst (read_chunks (acc @ dat) (snd (recv_some 2 r2))) = acc @ dat"
      by (intro read_chunks_newline)
    then show ?thesis using True step ch by (simp add: ac_simps)
  next
    case False
    then have "reader_segs (snd (recv_some 2 r2)) = skip_bytes (?q + 2) ss"
      using read_line_end [OF n2 c2] cut s2 by (simp only: skip_add if_False)
    moreover have "drop (?q + 2) (concat ss) = ?tail"
      using arg_cong [OF dq, of "drop 2"] by simp
    ultimately have "fst (read_chunks (acc @ dat) (snd (recv_some 2 r2))) = (acc @ dat) @ delivered (cut_points ss) (?q + 2) chs"
      using Cons.prems(1) by (intro Cons.IH) simp_all
    then show ?thesis using False step ch by (simp add: ac_simps)
  qed
qed

section \<open>Properties\<close>

lemma delivered_all:
  "(\<forall>n. n < length chs \<longrightarrow> Suc (p + length (chunk_text (take n chs)) + length (fst (chs ! n)) + length (snd (chs ! n)) + 2) \<notin> set cuts)
     \<Longrightarrow> delivered cuts p chs = concat (map snd chs)"
proof (induction chs arbitrary: p)
  case (Cons ch chs)
  have "Suc (p + length (fst ch) + length (snd ch) + 2) \<notin> set cuts" using Cons.prems [THEN spec [of _ 0]] by simp
  moreover have "delivered cuts (p + length (fst ch) + length (snd ch) + 4) chs = concat (map snd chs)"
  proof (rule Cons.IH, intro allI impI)
    fix n assume "n < length chs"
    then show "Suc (p + length (fst ch) + length (snd ch) + 4 + length (chunk_text (take n chs))
        + length (fst (chs ! n)) + length (snd (chs ! n)) + 2) \<notin> set cuts"
      using Cons.prems [THEN spec [of _ "Suc n"]] by (simp add: eval_nat_numeral ac_simps)
  qed
  ultimately show ?case by (simp add: Let_def eval_nat_numeral ac_simps)
qed simp

text \<open>
  What the body reader returns of a chunked body, for every way the bytes are cut into reads
  (the first being the bytes that came with the headers): the data of all chunks up to and
  including the first one whose closing line end falls into two reads; when none does, all of it.
\<close>

lemma chunked_body_exact:
  assumes "is_chunked headers" and "list_all well_framed chs" and "last_line line"
    and "[] \<notin> set (reader_segs r)" and "concat (reader_segs r) = chunk_text chs @ line @ crlf @ rest"
  shows "fst (read_response_body headers r) = delivered (cut_points (reader_segs r)) 0 chs"
  using read_chunks_delivered [OF assms(2,3,4), of r 0 rest "[]"] assms(1,5)
  by (simp add: read_response_body_def)

text \<open>A line end cut in two loses every later chunk, and the call does not notice.\<close>

lemma delivered_cut:
  assumes "Suc (p + length (chunk_text xs) + length (fst ch) + length (snd ch) + 2) \<in> set cuts"
  shows "\<exists>n\<le>length xs. delivered cuts p (xs @ ch # ys) = concat (map snd (take (Suc n) (xs @ [ch])))"
  using assms
proof (induction xs arbitrary: p)
  case (Cons x xs)
  let ?q = "p + length (fst x) + length (snd x) + 2"
  show ?case
  proof (cases "Suc ?q \<in> set cuts")
    case True
    then show ?thesis by (intro exI [of _ 0]) (simp add: Let_def)
  next
    case False
    have "Suc (?q + 2 + length (chunk_text xs) + length (fst ch) + length (snd ch) + 2) \<in> set cuts"
      using Cons.prems by (simp add: ac_simps)
    from Cons.IH [OF this] obtain n where "n \<le> length xs"
      "delivered cuts (?q + 2) (xs @ ch # ys) = concat (map snd (take (Suc n) (xs @ [ch])))" by blast
    then show ?thesis using False by (intro exI [of _ "Suc n"]) (simp add: Let_def)
  qed
qed (auto simp: Let_def)

lemma split_line_end_truncates:
  "fst (read_response_body (''Transfer-Encoding: chunked'' @ crlf @ crlf)
     (''2'' @ crlf @ ''he'' @ [CHR 0x0D], [CHR 0x0A # ''3'' @ crlf @ ''llo'' @ crlf @ ''0'' @ crlf @ crlf])) = ''he''"
  by code_simp

end
