(* ===== verification/Stream_Correct.thy ===== *)
theory Stream_Correct
  imports Provider_Stream Http_Correct
begin

text \<open>
  Correctness of the streaming reader: what it builds is a function of the body as one document,
  however it was cut into reads and chunks; and the text and reasoning of the response are exactly
  what the callbacks were given.
\<close>

section \<open>Lines of a document\<close>

fun doc_lines :: "string \<Rightarrow> string list" where
  "doc_lines [] = [[]]"
| "doc_lines (c # cs) =
     (if c = CHR 0x0A then [] # doc_lines cs
      else (c # hd (doc_lines cs)) # tl (doc_lines cs))"

text \<open>The reference: every line of the document, cut at the line limit, in order.\<close>

definition process_document :: "wire_format \<Rightarrow> string \<Rightarrow> sse_state \<Rightarrow> sse_state" where
  "process_document fmt doc = fold (\<lambda>line. process_line fmt (take kMaxLineSize line)) (doc_lines doc)"

lemma doc_lines_ne [simp]: "doc_lines s \<noteq> []"
  by (cases s) auto

lemma doc_lines_run: "CHR 0x0A \<notin> set s \<Longrightarrow> doc_lines s = [s]"
  by (induction s) auto

lemma doc_lines_line: "CHR 0x0A \<notin> set s \<Longrightarrow> doc_lines (s @ CHR 0x0A # t) = s # doc_lines t"
  by (induction s) auto

lemma process_line_Nil [simp]: "process_line fmt [] st = st"
  by (simp add: process_line_def)

lemma append_line_assoc: "append_line (append_line buf x) y = append_line buf (x @ y)"
  by (auto simp: append_line_def)

lemma append_line_Nil [simp]: "append_line buf [] = buf" "append_line [] x = take kMaxLineSize x"
  by (auto simp: append_line_def kMaxLineSize_def)

lemma takeWhile_no_nl:
  assumes "CHR 0x0A \<notin> set s"
  shows "takeWhile (\<lambda>c. c \<noteq> CHR 0x0A) (s @ t) = s @ takeWhile (\<lambda>c. c \<noteq> CHR 0x0A) t"
    and "dropWhile (\<lambda>c. c \<noteq> CHR 0x0A) (s @ t) = dropWhile (\<lambda>c. c \<noteq> CHR 0x0A) t"
  using assms by (induction s) auto

lemma feed_Nil [simp]: "feed fmt [] ls = ls"
  by (simp add: feed.simps)

lemma feed_run: "CHR 0x0A \<notin> set s \<Longrightarrow> feed fmt s ls = ls\<lparr>ls_buf := append_line (ls_buf ls) s\<rparr>"
proof (cases "s = []")
  case False
  assume "CHR 0x0A \<notin> set s"
  then have t: "takeWhile (\<lambda>c. c \<noteq> CHR 0x0A) s = s" "dropWhile (\<lambda>c. c \<noteq> CHR 0x0A) s = []"
    by (induction s) auto
  show ?thesis using False by (simp add: feed.simps [of fmt s] t del: takeWhile_eq_all_conv dropWhile_eq_Nil_conv)
qed simp

lemma feed_line:
  "CHR 0x0A \<notin> set s \<Longrightarrow> feed fmt (s @ CHR 0x0A # t) ls =
     feed fmt t \<lparr>ls_buf = [], ls_sse = process_line fmt (append_line (ls_buf ls) s) (ls_sse ls)\<rparr>"
  by (subst feed.simps) (simp add: takeWhile_no_nl)

text \<open>A document is a run without line ends, or a first line and the rest.\<close>

lemma nl_induct [case_names run line]:
  assumes "\<And>s. CHR 0x0A \<notin> set s \<Longrightarrow> P s"
    and "\<And>s t. CHR 0x0A \<notin> set s \<Longrightarrow> P t \<Longrightarrow> P (s @ CHR 0x0A # t)"
  shows "P s"
proof (induction s rule: length_induct)
  case (1 s)
  show ?case
  proof (cases "CHR 0x0A \<in> set s")
    case True
    then obtain u t where "s = u @ CHR 0x0A # t" "CHR 0x0A \<notin> set u" by (meson split_list_first)
    then show ?thesis using 1 assms(2) by simp
  qed (rule assms(1))
qed

lemma feed_append: "feed fmt (a @ b) ls = feed fmt b (feed fmt a ls)"
proof (induction a arbitrary: ls rule: nl_induct)
  case (run a)
  show ?case
  proof (induction b rule: nl_induct)
    case (run b)
    with \<open>CHR 0x0A \<notin> set a\<close> show ?case by (simp add: feed_run append_line_assoc)
  next
    case (line b t)
    have "feed fmt ((a @ b) @ CHR 0x0A # t) ls = feed fmt (b @ CHR 0x0A # t) (feed fmt a ls)"
      using line(1) \<open>CHR 0x0A \<notin> set a\<close>
      by (subst feed_line, simp, subst feed_line) (simp_all add: feed_run append_line_assoc)
    then show ?case by simp
  qed
qed (simp add: feed_line)

text \<open>Feeding a whole document and finishing the last line is processing its lines.\<close>

lemma feed_document:
  "process_line fmt (ls_buf (feed fmt doc ls)) (ls_sse (feed fmt doc ls)) = process_document fmt doc (ls_sse ls)"
  if "ls_buf ls = []"
  using that
proof (induction doc arbitrary: ls rule: nl_induct)
  case (run s)
  then show ?case by (simp add: feed_run process_document_def doc_lines_run)
next
  case (line s t)
  then show ?case by (simp add: feed_line process_document_def doc_lines_line)
qed

section \<open>The reader without cancellation\<close>

definition quiet :: "polls \<Rightarrow> bool" where
  "quiet p \<longleftrightarrow> \<not> po_hard p \<and> True \<notin> set (po_cancel p) \<and> True \<notin> set (po_preflight_fails p)"

lemma quiet_cancelled: "quiet p \<Longrightarrow> \<exists>p'. is_request_cancelled p = (False, p') \<and> quiet p'"
  by (auto simp: quiet_def is_request_cancelled_def split: list.splits)

lemma quiet_latch: "quiet p \<Longrightarrow> \<exists>p'. latch_sticky_cancel p = (False, p') \<and> quiet p'"
  by (auto simp: quiet_def latch_sticky_cancel_def split: list.splits)

lemma quiet_abort:
  assumes "quiet (io_polls io)"
  obtains io' where "should_abort_io io = (False, io')" "quiet (io_polls io')" "io_reader io' = io_reader io"
proof -
  obtain p where p: "is_request_cancelled (io_polls io) = (False, p)" "quiet p"
    using quiet_cancelled [OF assms] by auto
  obtain p' where p': "latch_sticky_cancel p = (False, p')" "quiet p'"
    using quiet_latch [OF p(2)] by auto
  show thesis
    by (cases "Suc (io_ticks io) mod 32 = 0")
       (use p p' in \<open>auto intro!: that simp: should_abort_io_def\<close>)
qed

lemma io_recv_reader: "recv_some n (io_reader io) = (got, r) \<Longrightarrow> io_recv n io = (got, io\<lparr>io_reader := r\<rparr>)"
  by (simp add: io_recv_def)

lemma io_recv_polls [simp]: "io_polls (snd (io_recv n io)) = io_polls io"
  by (simp add: io_recv_def split: prod.splits)

lemma stream_size_line_quiet:
  assumes "quiet (io_polls io)" and "read_size_line line (io_reader io) = (res, r)"
  shows "\<exists>io'. stream_size_line line io = (res, io') \<and> io_reader io' = r \<and> quiet (io_polls io')"
  using assms
proof (induction line "io_reader io" arbitrary: io rule: read_size_line.induct)
  case (1 line)
  obtain got r1 where g: "recv_some 1 (io_reader io) = (got, r1)" by (rule prod.exhaust)
  let ?io1 = "io\<lparr>io_reader := r1\<rparr>"
  have gi: "io_recv 1 io = (got, ?io1)" using g by (rule io_recv_reader)
  obtain io2 where a: "should_abort_io ?io1 = (False, io2)" "quiet (io_polls io2)" "io_reader io2 = r1"
    using quiet_abort [of ?io1] 1(2) by auto
  show ?case
  proof (cases "got = [] \<or> hd got = CHR 0x0A")
    case True
    then show ?thesis using 1(2,3) g gi a
      by (subst stream_size_line.simps, subst (asm) read_size_line.simps) (auto split: if_splits)
  next
    case False
    let ?l = "if hd got \<noteq> CHR 0x0D then line @ [hd got] else line"
    have "read_size_line ?l (io_reader io2) = (res, r)"
      using 1(3) False a(3) by (subst (asm) read_size_line.simps) (simp add: g [simplified])
    moreover have "(got, io_reader io2) = recv_some 1 (io_reader io)" using g a(3) by simp
    ultimately show ?thesis using "1.hyps" [OF refl, of got io2] a(2) False by (subst stream_size_line.simps) (simp add: gi [simplified] a(1))
  qed
qed

lemma stream_exact_quiet:
  assumes "quiet (io_polls io)" and "read_exact k acc (io_reader io) = (ok, b, r)"
  shows "\<exists>io' d. stream_exact fmt k (io, ls) = (ok, io', feed fmt d ls) \<and> b = acc @ d
    \<and> io_reader io' = r \<and> quiet (io_polls io')"
  using assms
proof (induction k acc "io_reader io" arbitrary: io ls rule: read_exact.induct)
  case (1 k acc)
  show ?case
  proof (cases "k = 0")
    case True
    then have "ok" "b = acc" "r = io_reader io"
      using 1(3) by (subst (asm) read_exact.simps, simp)+
    then show ?thesis using 1(2) True
      by (intro exI [of _ io] exI [of _ "[]"]) (simp add: stream_exact.simps)
  next
    case False
    obtain io1 where a: "should_abort_io io = (False, io1)" "quiet (io_polls io1)" "io_reader io1 = io_reader io"
      using quiet_abort [OF 1(2)] by auto
    obtain got r1 where g: "recv_some (min k buf_size) (io_reader io) = (got, r1)" by (rule prod.exhaust)
    let ?io2 = "io1\<lparr>io_reader := r1\<rparr>"
    have gi: "io_recv (min k buf_size) io1 = (got, ?io2)" using g a(3) by (intro io_recv_reader) simp
    have s: "stream_exact fmt k (io, ls) =
        (if got = [] then (False, ?io2, ls) else stream_exact fmt (k - length got) (?io2, feed fmt got ls))"
      using False by (subst stream_exact.simps) (simp add: a(1) gi)
    have e: "read_exact k acc (io_reader io) =
        (if got = [] then (False, acc, r1) else read_exact (k - length got) (acc @ got) r1)"
      using False by (subst read_exact.simps) (simp add: g)
    show ?thesis
    proof (cases "got = []")
      case True
      then show ?thesis using s e 1(3) a(2) by (intro exI [of _ ?io2] exI [of _ "[]"]) simp
    next
      case got: False
      have "\<exists>io' d. stream_exact fmt (k - length got) (?io2, feed fmt got ls) = (ok, io', feed fmt d (feed fmt got ls))
          \<and> b = (acc @ got) @ d \<and> io_reader io' = r \<and> quiet (io_polls io')"
        using 1(3) e got g a(2) False by (intro "1.hyps" [OF _ refl, of got]) simp_all
      then show ?thesis using s got by (auto simp: feed_append [symmetric])
    qed
  qed
qed

lemma stream_chunks_quiet:
  assumes "quiet (io_polls io)" and "read_chunks acc (io_reader io) = (b, r)"
  shows "\<exists>fl io' d. stream_chunks fmt (io, ls) = (fl, io', feed fmt d ls) \<and> b = acc @ d \<and> quiet (io_polls io')"
  using assms
proof (induction acc "io_reader io" arbitrary: io ls rule: read_chunks.induct)
  case (1 acc)
  obtain io1 where a: "should_abort_io io = (False, io1)" "quiet (io_polls io1)" "io_reader io1 = io_reader io"
    using quiet_abort [OF 1(2)] by auto
  obtain res r1 where l: "read_size_line [] (io_reader io) = (res, r1)" by (rule prod.exhaust)
  obtain io2 where l2: "stream_size_line [] io1 = (res, io2)" "io_reader io2 = r1" "quiet (io_polls io2)"
    using stream_size_line_quiet [OF a(2)] l a(3) by metis
  show ?case
  proof (cases "res = None \<or> chunk_size (the res) = 0")
    case True
    then have "stream_chunks fmt (io, ls) = (res \<noteq> None, io2, feed fmt [] ls)"
      by (subst stream_chunks.simps) (auto simp: a(1) l2(1) split: option.splits)
    moreover have "b = acc" using True 1(3) l
      by (subst (asm) read_chunks.simps) (auto split: option.splits if_splits)
    ultimately show ?thesis using l2(3) by (intro exI [of _ "res \<noteq> None"] exI [of _ io2] exI [of _ "[]"]) simp
  next
    case False
    then obtain line where line: "res = Some line" "chunk_size line \<noteq> 0" by auto
    obtain ok b1 r2 where e: "read_exact (nat (chunk_size line)) acc r1 = (ok, b1, r2)" by (metis prod.exhaust)
    obtain io3 d1 where e3: "stream_exact fmt (nat (chunk_size line)) (io2, ls) = (ok, io3, feed fmt d1 ls)"
        "b1 = acc @ d1" "io_reader io3 = r2" "quiet (io_polls io3)"
      using stream_exact_quiet [OF l2(3)] e l2(2) by metis
    have s: "stream_chunks fmt (io, ls) =
        (if ok then stream_chunks fmt (snd (io_recv 2 io3), feed fmt d1 ls) else (False, io3, feed fmt d1 ls))"
      using line by (subst stream_chunks.simps) (simp add: a(1) l2(1) e3(1))
    have rc: "read_chunks acc (io_reader io) =
        (if ok then read_chunks b1 (snd (recv_some 2 r2)) else (b1, r2))"
      using line by (subst read_chunks.simps) (simp add: l e)
    show ?thesis
    proof (cases ok)
      case True
      have i: "io_reader (snd (io_recv 2 io3)) = snd (recv_some 2 r2)" "io_polls (snd (io_recv 2 io3)) = io_polls io3"
        using e3(3) by (simp_all add: io_recv_def split: prod.splits)
      have "\<exists>fl io' d. stream_chunks fmt (snd (io_recv 2 io3), feed fmt d1 ls) = (fl, io', feed fmt d (feed fmt d1 ls))
          \<and> b = b1 @ d \<and> quiet (io_polls io')"
        using 1(3) rc True i e3(4)
        by (intro "1.hyps" [OF l [symmetric] line e [symmetric] _ refl]) simp_all
      then show ?thesis using s True e3(2) by (auto simp: feed_append [symmetric])
    next
      case False
      then show ?thesis using s rc 1(3) e3 by auto
    qed
  qed
qed

section \<open>What the callbacks get\<close>

fun texts :: "delta list \<Rightarrow> string" where
  "texts [] = []"
| "texts (TextDelta t # ds) = t @ texts ds"
| "texts (ReasoningDelta t # ds) = texts ds"

fun reasons :: "delta list \<Rightarrow> string" where
  "reasons [] = []"
| "reasons (TextDelta t # ds) = reasons ds"
| "reasons (ReasoningDelta t # ds) = t @ reasons ds"

lemma texts_append [simp]: "texts (a @ b) = texts a @ texts b"
  by (induction a rule: texts.induct) simp_all

lemma reasons_append [simp]: "reasons (a @ b) = reasons a @ reasons b"
  by (induction a rule: reasons.induct) simp_all

definition sse_ok :: "sse_state \<Rightarrow> bool" where
  "sse_ok st \<longleftrightarrow> ss_content st = texts (ss_emitted st) \<and> rs_reasoning (ss_resp st) = reasons (ss_emitted st)"

lemma emit_ok [simp]:
  "sse_ok (emit_content t st) = sse_ok st" "sse_ok (emit_reasoning t st) = sse_ok st"
  by (auto simp: sse_ok_def emit_content_def emit_reasoning_def)

lemma on_resp_ok: "rs_reasoning (f (ss_resp st)) = rs_reasoning (ss_resp st) \<Longrightarrow> sse_ok (on_resp f st) = sse_ok st"
  by (simp add: sse_ok_def)

lemma anthropic_delta_ok [simp]: "sse_ok (anthropic_delta d st) = sse_ok st"
  by (simp add: anthropic_delta_def Let_def)

lemma openai_delta_ok [simp]: "sse_ok (openai_delta d st) = sse_ok st"
  by (simp add: openai_delta_def Let_def)

lemma set_finish_ok [simp]: "sse_ok (set_finish fin st) = sse_ok st"
  by (simp add: set_finish_def sse_ok_def)

lemma emit_gemini_ok [simp]: "sse_ok (fold emit_gemini ts st) = sse_ok st"
  by (induction ts arbitrary: st) (simp_all add: emit_gemini_def)

lemma reasoning_kept [simp]:
  "rs_reasoning (api_error k d e r) = rs_reasoning r" "rs_reasoning (openai_counts u r) = rs_reasoning r"
  "rs_reasoning (gemini_usage u r) = rs_reasoning r" "rs_reasoning (cancelled_response r) = rs_reasoning r"
  by (simp_all add: api_error_def openai_counts_def gemini_usage_def cancelled_response_def Let_def split: option.split)

text \<open>A handler of one event keeps the record of what was emitted true.\<close>

locale event_handler =
  fixes handle :: "string \<Rightarrow> sse_state \<Rightarrow> sse_state"
  assumes handle_ok: "sse_ok (handle data st) = sse_ok st"
begin

lemma handle_all_ok: "sse_ok (fold handle ds st) = sse_ok st"
  by (induction ds arbitrary: st) (simp_all add: handle_ok)

end

interpretation anthropic_events: event_handler process_anthropic_event
proof
  show "sse_ok (process_anthropic_event data st) = sse_ok st" for data st
    unfolding process_anthropic_event_def Let_def
    by (simp split: sum.split option.split) (simp add: sse_ok_def split: option.split)
qed

interpretation openai_events: event_handler process_openai_event
proof
  show "sse_ok (process_openai_event data st) = sse_ok st" for data st
    unfolding process_openai_event_def Let_def
    by (simp add: on_resp_ok split: sum.split option.split list.split)
qed

interpretation gemini_events: event_handler process_gemini_event
proof
  show "sse_ok (process_gemini_event data st) = sse_ok st" for data st
    unfolding process_gemini_event_def Let_def
    by (simp add: on_resp_ok split: sum.split option.split list.split)
qed

interpretation any_events: event_handler "process_event fmt" for fmt
proof
  show "sse_ok (process_event fmt data st) = sse_ok st" for data st
    by (simp add: process_event_def anthropic_events.handle_ok openai_events.handle_ok
      gemini_events.handle_ok split: wire_format.split)
qed

lemma process_line_ok [simp]: "sse_ok (process_line fmt line st) = sse_ok st"
  by (simp add: process_line_def Let_def any_events.handle_ok)

lemma feed_ok [simp]: "sse_ok (ls_sse (feed fmt d ls)) = sse_ok (ls_sse ls)"
  by (induction d arbitrary: ls rule: nl_induct) (simp_all add: feed_run feed_line)

lemma stream_exact_ok: "sse_ok (ls_sse (snd (snd (stream_exact fmt k s)))) = sse_ok (ls_sse (snd s))"
proof (induction fmt k s rule: stream_exact.induct)
  case (1 fmt k io ls)
  show ?case
    using "1.IH" by (subst stream_exact.simps) (auto split: prod.splits)
qed

lemma stream_chunks_ok: "sse_ok (ls_sse (snd (snd (stream_chunks fmt s)))) = sse_ok (ls_sse (snd s))"
proof (induction fmt s rule: stream_chunks.induct)
  case (1 fmt io ls)
  obtain ab io1 where a: "should_abort_io io = (ab, io1)" by (rule prod.exhaust)
  obtain res io2 where l: "stream_size_line [] io1 = (res, io2)" by (rule prod.exhaust)
  show ?case
  proof (cases "ab \<or> res = None \<or> chunk_size (the res) = 0")
    case True
    then show ?thesis
      by (subst stream_chunks.simps) (auto simp: a l split: bool.split option.split)
  next
    case False
    then obtain line where line: "res = Some line" "chunk_size line \<noteq> 0" "\<not> ab" by auto
    obtain ok io3 ls3 where e: "stream_exact fmt (nat (chunk_size line)) (io2, ls) = (ok, io3, ls3)"
      by (metis prod.exhaust)
    have ok3: "sse_ok (ls_sse ls3) = sse_ok (ls_sse ls)"
      using stream_exact_ok [of fmt "nat (chunk_size line)" "(io2, ls)"] e by simp
    have "sse_ok (ls_sse (snd (snd (stream_chunks fmt (snd (io_recv 2 io3), ls3))))) = sse_ok (ls_sse ls3)" if ok
      using "1.IH" [OF a [symmetric] _ l [symmetric] line(1,2) e [symmetric]] that line(3) by simp
    then show ?thesis using line ok3
      by (subst stream_chunks.simps) (simp add: a l e split: bool.split)
  qed
qed

lemma stream_plain_ok: "sse_ok (ls_sse (snd (stream_plain fmt left s))) = sse_ok (ls_sse (snd s))"
proof (induction fmt left s rule: stream_plain.induct)
  case (1 fmt left io ls)
  show ?case
    using "1.IH" by (subst stream_plain.simps) (auto split: prod.splits)
qed

lemma stream_body_ok: "sse_ok (ls_sse (snd (stream_body fmt headers io)))"
proof -
  have i: "sse_ok (ls_sse init_lines)" by (simp add: sse_ok_def init_lines_def default_response_def)
  show ?thesis
    using i stream_chunks_ok [of fmt "(io, init_lines)"] stream_plain_ok [of fmt _ "(io, init_lines)"]
    by (auto simp: stream_body_def Let_def split: prod.splits bool.splits)
qed

section \<open>Properties\<close>

text \<open>
  C26. A streamed reply is its document: without cancellation, the state that the streaming reader
  builds from a chunked \<open>200\<close> reply is that of processing, one after the other, the lines of
  the body that the blocking reader would return for the same connection, however the bytes were
  cut into reads and chunks.
\<close>

theorem stream_matches_document:
  assumes "quiet p" and "read_http_headers c = (Some (headers, leftover), c')"
    and "parse_http_status headers = 200" and "is_chunked headers"
  shows "fst (read_streaming_response fmt p c) =
    (let st = process_document fmt (fst (read_response_body headers (leftover, c'))) (ls_sse init_lines)
     in on_resp (\<lambda>r. r\<lparr>rs_content := ss_content st\<rparr>) st)"
proof -
  let ?io = "\<lparr>io_reader = (leftover, c'), io_ticks = 0, io_polls = p\<rparr>"
  obtain b r where b: "read_chunks [] (io_reader ?io) = (b, r)" by (rule prod.exhaust)
  obtain fl io1 where c1: "stream_chunks fmt (?io, init_lines) = (fl, io1, feed fmt b init_lines)" "quiet (io_polls io1)"
    using stream_chunks_quiet [OF _ b, of fmt init_lines] assms(1) by auto
  obtain io2 where b2: "stream_body fmt headers ?io = (io2, feed fmt b init_lines)" "quiet (io_polls io2)"
    using quiet_cancelled [OF c1(2)] c1 assms(4)
    by (cases fl) (auto simp: stream_body_def Let_def)
  have d: "process_line fmt (ls_buf (feed fmt b init_lines)) (ls_sse (feed fmt b init_lines))
      = process_document fmt b (ls_sse init_lines)"
    by (rule feed_document) (simp add: init_lines_def)
  have f: "fst (stream_finish fmt (io_polls io2) (feed fmt b init_lines)) =
      (let st = process_document fmt b (ls_sse init_lines) in on_resp (\<lambda>r. r\<lparr>rs_content := ss_content st\<rparr>) st)"
    using quiet_cancelled [OF b2(2)] d
    by (cases "ls_buf (feed fmt b init_lines) = []") (auto simp: stream_finish_def Let_def quiet_def)
  have "fst (read_response_body headers (leftover, c')) = b" using b assms(4) by (simp add: read_response_body_def)
  then show ?thesis using f b2(1) assms(2,3)
    by (auto simp: read_streaming_response_def Let_def split: prod.splits)
qed

definition demo_head :: string where
  "demo_head = ''HTTP/1.1 200 OK'' @ crlf @ ''Transfer-Encoding: chunked'' @ crlf @ crlf"

definition demo_conn :: conn where
  "demo_conn = [demo_head @ ''7'' @ crlf @ ''da'', ''ta: []'' @ [CHR 0x0D], [CHR 0x0A] @ ''0'' @ crlf @ crlf]"

definition no_polls :: polls where
  "no_polls = \<lparr>po_cancel = [False], po_preflight_fails = [], po_hard = False\<rparr>"

lemma demo_headers:
  "read_http_headers demo_conn = (Some (demo_head, ''7'' @ crlf @ ''da''), tl demo_conn)"
  "parse_http_status demo_head = 200" "is_chunked demo_head"
  by (simp only: demo_conn_def, subst read_headers_once [where i = 43])
     (simp_all add: demo_head_def header_end_def buf_size_def, code_simp+)

theorem stream_matches_document_witness:
  "fst (read_streaming_response FORMAT_GEMINI no_polls demo_conn) =
    (let st = process_document FORMAT_GEMINI
       (fst (read_response_body demo_head (''7'' @ crlf @ ''da'', tl demo_conn))) (ls_sse init_lines)
     in on_resp (\<lambda>r. r\<lparr>rs_content := ss_content st\<rparr>) st)"
  by (rule stream_matches_document [OF _ demo_headers]) (simp add: quiet_def no_polls_def)

text \<open>
  What the user saw is what is kept: for a \<open>200\<close> reply in any of the three formats, however
  the reads fall and whether it ends, breaks off or is cancelled, the content of the response is
  the text given to the callback, in order, and its reasoning the text given to the reasoning
  callback.
\<close>

lemma streamed_content_is_emitted:
  assumes "read_http_headers c = (Some (headers, leftover), c')" and "parse_http_status headers = 200"
    and "read_streaming_response fmt p c = (st, p', c'')"
  shows "rs_content (ss_resp st) = texts (ss_emitted st) \<and> rs_reasoning (ss_resp st) = reasons (ss_emitted st)"
proof -
  let ?io = "\<lparr>io_reader = (leftover, c'), io_ticks = 0, io_polls = p\<rparr>"
  obtain io ls where b: "stream_body fmt headers ?io = (io, ls)" by (rule prod.exhaust)
  have ok: "sse_ok (ls_sse ls)" using stream_body_ok [of fmt headers ?io] b by simp
  have "st = fst (stream_finish fmt (io_polls io) ls)"
    using assms b by (auto simp: read_streaming_response_def Let_def split: prod.splits)
  moreover have "sse_ok (if ls_buf ls \<noteq> [] then process_line fmt (ls_buf ls) (ls_sse ls) else ls_sse ls)"
    using ok by simp
  ultimately show ?thesis
    by (auto simp: stream_finish_def Let_def sse_ok_def cancelled_response_def split: prod.splits)
qed

end
