(* ===== verification/Call_Correct.thy ===== *)
theory Call_Correct
  imports Provider_Call Stream_Correct
begin

text \<open>
  Correctness of the provider calls: every admitted call settles the circuit breaker with exactly
  one verdict, a call puts a bounded number of requests on the wire and sleeps a bounded time, and
  which replies end a call.
\<close>

section \<open>What a step leaves alone\<close>

lemma inc_metric_keeps [simp]:
  "cl_breaker (inc_metric k p s) = cl_breaker s" "cl_requests (inc_metric k p s) = cl_requests s"
  "cl_slept_us (inc_metric k p s) = cl_slept_us s" "cl_conn (inc_metric k p s) = cl_conn s"
  "cl_sends (inc_metric k p s) = cl_sends s" "cl_polls (inc_metric k p s) = cl_polls s"
  by (simp_all add: inc_metric_def)

lemma on_breaker_keeps [simp]:
  "cl_breaker (on_breaker f s) = map_option f (cl_breaker s)" "cl_requests (on_breaker f s) = cl_requests s"
  "cl_slept_us (on_breaker f s) = cl_slept_us s" "cl_conn (on_breaker f s) = cl_conn s"
  by (simp_all add: on_breaker_def)

lemmas tell_defs = tell_success_def tell_failure_def tell_abandoned_def

lemma tell_keeps [simp]:
  "cl_requests (tell_success p s) = cl_requests s" "cl_slept_us (tell_success p s) = cl_slept_us s"
  "cl_requests (tell_failure e p s) = cl_requests s" "cl_slept_us (tell_failure e p s) = cl_slept_us s"
  "cl_requests (tell_abandoned e p s) = cl_requests s" "cl_slept_us (tell_abandoned e p s) = cl_slept_us s"
  by (simp_all add: tell_defs)

lemma count_error_keeps [simp]:
  "cl_breaker (count_error p t s) = cl_breaker s" "cl_requests (count_error p t s) = cl_requests s"
  "cl_slept_us (count_error p t s) = cl_slept_us s" "cl_conn (count_error p t s) = cl_conn s"
  by (simp_all add: count_error_def)

lemma add_tokens_keeps [simp]:
  "cl_breaker (add_tokens r s) = cl_breaker s" "cl_requests (add_tokens r s) = cl_requests s"
  "cl_slept_us (add_tokens r s) = cl_slept_us s"
  by (simp_all add: add_tokens_def)

lemma close_connection_keeps [simp]:
  "cl_breaker (close_connection s) = cl_breaker s" "cl_requests (close_connection s) = cl_requests s"
  "cl_slept_us (close_connection s) = cl_slept_us s"
  by (simp_all add: close_connection_def)

lemma poll_keeps:
  "poll_latch s = (b, s') \<Longrightarrow> cl_breaker s' = cl_breaker s \<and> cl_requests s' = cl_requests s
     \<and> cl_slept_us s' = cl_slept_us s \<and> cl_conn s' = cl_conn s \<and> cl_sends s' = cl_sends s"
  "poll_cancelled s = (b, s') \<Longrightarrow> cl_breaker s' = cl_breaker s \<and> cl_requests s' = cl_requests s
     \<and> cl_slept_us s' = cl_slept_us s \<and> cl_conn s' = cl_conn s \<and> cl_sends s' = cl_sends s"
  by (auto simp: poll_latch_def poll_cancelled_def split: prod.splits)

lemma poll_attempt_keeps:
  "poll_attempt s = (b, s') \<Longrightarrow> cl_breaker s' = cl_breaker s \<and> cl_requests s' = cl_requests s
     \<and> cl_slept_us s' = cl_slept_us s \<and> cl_conn s' = cl_conn s \<and> cl_sends s' = cl_sends s"
  using poll_keeps by (fastforce simp: poll_attempt_def split: prod.splits if_splits)

definition wait_us :: "nat \<Rightarrow> int" where
  "wait_us attempt = (if 0 < attempt then 2 ^ (attempt - 1) * 1000000 else 0)"

lemma back_off_keeps [simp]:
  "cl_breaker (back_off a p s) = cl_breaker s" "cl_requests (back_off a p s) = cl_requests s"
  "cl_slept_us (back_off a p s) = cl_slept_us s + wait_us a"
  "cl_conn (back_off a p s) = cl_conn s" "cl_sends (back_off a p s) = cl_sends s"
  by (simp_all add: back_off_def wait_us_def)

lemma ensure_connection_keeps:
  "ensure_connection s = (b, s') \<Longrightarrow> cl_breaker s' = cl_breaker s \<and> cl_requests s' = cl_requests s
     \<and> cl_slept_us s' = cl_slept_us s"
  by (auto simp: ensure_connection_def split: if_splits list.splits sum.splits)

lemma put_request_keeps:
  "put_request e prov req st s = (x, s') \<Longrightarrow> cl_breaker s' = cl_breaker s \<and> cl_slept_us s' = cl_slept_us s
     \<and> length (cl_requests s') \<le> Suc (length (cl_requests s))"
  by (auto simp: put_request_def Let_def split: sum.splits)

text \<open>One attempt of either call: the breaker and the clock untouched, at most one request.\<close>

definition one_attempt :: "call_state \<Rightarrow> call_state \<Rightarrow> bool" where
  "one_attempt s s' \<longleftrightarrow> cl_breaker s' = cl_breaker s \<and> cl_slept_us s' = cl_slept_us s
     \<and> length (cl_requests s') \<le> Suc (length (cl_requests s))"

lemma attempt_complete_one: "attempt_complete e prov req s = (a, s') \<Longrightarrow> one_attempt s s'"
  unfolding attempt_complete_def one_attempt_def
  by (auto split: prod.splits bool.splits option.splits dest!: ensure_connection_keeps put_request_keeps)

lemma attempt_stream_one: "attempt_stream e prov req s = (a, ds, s') \<Longrightarrow> one_attempt s s'"
  unfolding attempt_stream_def one_attempt_def
  by (auto simp: Let_def split: prod.splits bool.splits option.splits dest!: ensure_connection_keeps put_request_keeps)

section \<open>Verdicts\<close>

definition verdicts :: "call_env \<Rightarrow> string \<Rightarrow> breaker \<Rightarrow> breaker set" where
  "verdicts e p b = {record_success p b, record_failure (ce_told e) p b, record_abandoned (ce_told e) p b}"

lemma verdict_settles: "b' \<in> verdicts e p b \<Longrightarrow> state_of p b' \<noteq> HalfOpen"
  by (auto simp: verdicts_def state_of_entry entry_ops success_entry_def failure_entry_def abandoned_entry_def split: if_splits)

definition settles :: "call_env \<Rightarrow> string \<Rightarrow> call_state \<Rightarrow> call_state \<Rightarrow> bool" where
  "settles e p s s' \<longleftrightarrow> (\<forall>b. cl_breaker s = Some b \<longrightarrow> (\<exists>b'\<in>verdicts e p b. cl_breaker s' = Some b'))"

lemma settles_tell:
  "cl_breaker s1 = cl_breaker s \<Longrightarrow> settles e p s (tell_success p s1)"
  "cl_breaker s1 = cl_breaker s \<Longrightarrow> settles e p s (tell_failure e p s1)"
  "cl_breaker s1 = cl_breaker s \<Longrightarrow> settles e p s (tell_abandoned e p s1)"
  by (auto simp: settles_def verdicts_def tell_defs)

lemma settles_cong: "cl_breaker s1 = cl_breaker s \<Longrightarrow> settles e p s1 s' \<Longrightarrow> settles e p s s'"
  by (simp add: settles_def)

lemma settles_tokens [simp]: "settles e p s (add_tokens r s') = settles e p s s'"
  by (simp add: settles_def)

text \<open>The budget of the attempts from the given one on.\<close>

definition in_budget :: "nat \<Rightarrow> nat \<Rightarrow> call_state \<Rightarrow> call_state \<Rightarrow> bool" where
  "in_budget n a s s' \<longleftrightarrow> length (cl_requests s') \<le> length (cl_requests s) + (n - a)
     \<and> cl_slept_us s' \<le> cl_slept_us s + (\<Sum>i = a..<n. wait_us i)"

lemma wait_nonneg: "0 \<le> (\<Sum>i = a..<n. wait_us i)"
  by (rule sum_nonneg) (simp add: wait_us_def)

lemma in_budget_stop:
  assumes "cl_requests s' = cl_requests s" and "cl_slept_us s' = cl_slept_us s"
  shows "in_budget n a s s'"
  using assms wait_nonneg [of a n] by (simp add: in_budget_def)

lemma in_budget_attempt:
  assumes "a < n" and "one_attempt (back_off a p s) s1" and "cl_requests s' = cl_requests s1" "cl_slept_us s' = cl_slept_us s1"
  shows "in_budget n a s s'"
  using assms wait_nonneg [of "Suc a" n] sum.atLeast_Suc_lessThan [of a n wait_us]
  by (auto simp: in_budget_def one_attempt_def)

lemma in_budget_retry:
  assumes "a < n" and "one_attempt (back_off a p s) s1"
    and "cl_requests s2 = cl_requests s1" "cl_slept_us s2 = cl_slept_us s1" and "in_budget n (Suc a) s2 s'"
  shows "in_budget n a s s'"
  using assms sum.atLeast_Suc_lessThan [of a n wait_us]
  by (auto simp: in_budget_def one_attempt_def)

lemma in_budget_cong:
  "cl_requests s1 = cl_requests s \<Longrightarrow> cl_slept_us s1 = cl_slept_us s \<Longrightarrow> in_budget n a s1 s' \<Longrightarrow> in_budget n a s s'"
  by (simp add: in_budget_def)

lemmas one_attempt_breaker = one_attempt_def [THEN iffD1, THEN conjunct1]

text \<open>The two ways an attempt of either loop ends.\<close>

lemma attempt_stop:
  assumes "poll_attempt s = (c, s1)" and "one_attempt (back_off a p s1) s2" and "\<not> n \<le> a"
    and "cl_requests s' = cl_requests s2" "cl_slept_us s' = cl_slept_us s2"
  shows "in_budget n a s s'"
  using in_budget_attempt [OF _ assms(2,4,5)] assms(3) poll_attempt_keeps [OF assms(1)]
  by (auto intro: in_budget_cong [of s1])

lemma attempt_retry:
  assumes "poll_attempt s = (c, s1)" and "one_attempt (back_off a p s1) s2" and "\<not> n \<le> a"
    and "cl_breaker s3 = cl_breaker s2" "cl_requests s3 = cl_requests s2" "cl_slept_us s3 = cl_slept_us s2"
    and "settles e p s3 s'" "in_budget n (Suc a) s3 s'"
  shows "settles e p s s' \<and> in_budget n a s s'"
  using settles_cong [OF _ assms(7), of s] in_budget_retry [OF _ assms(2,5,6,8)] assms(3,4)
    poll_attempt_keeps [OF assms(1)] one_attempt_breaker [OF assms(2)]
  by (auto intro: in_budget_cong [of s1])

lemma complete_loop_spec:
  "settles e (pv_name prov) s (snd (complete_loop e prov req a s))
     \<and> in_budget complete_attempts a s (snd (complete_loop e prov req a s))"
proof (induction e prov req a s rule: complete_loop.induct)
  case (1 e prov req a s)
  let ?p = "pv_name prov"
  obtain c s1 where pl: "poll_attempt s = (c, s1)" by (rule prod.exhaust)
  obtain oc s2 where oc: "attempt_complete e prov req (back_off a ?p s1) = (oc, s2)" by (rule prod.exhaust)
  note keep = poll_attempt_keeps [OF pl] and one = attempt_complete_one [OF oc]
  note retry = attempt_retry [OF pl one] and stop = attempt_stop [OF pl one]
  have b2: "cl_breaker s2 = cl_breaker s" using one_attempt_breaker [OF one] keep by simp
  show ?case
  proof (cases "complete_attempts \<le> a \<or> c")
    case True
    then show ?thesis using keep
      by (subst (1 2) complete_loop.simps) (auto simp: pl settles_tell Let_def intro!: in_budget_stop)
  next
    case False
    show ?thesis
    proof (cases oc)
      case (ConnectFailed err)
      then show ?thesis using False b2 stop
        by (subst (1 2) complete_loop.simps) (simp add: pl oc settles_tell)
    next
      case (Threw err)
      then show ?thesis
        using False b2 stop "1.IH"(1) [OF refl _ pl [symmetric] _ oc [symmetric] Threw refl]
          retry [of complete_attempts "inc_metric Provider5xx ?p s2" e]
        by (subst (1 2) complete_loop.simps) (simp add: pl oc settles_tell Let_def)
    next
      case (Replied resp)
      then show ?thesis
        using False b2 stop "1.IH"(2) [OF refl _ pl [symmetric] _ oc [symmetric] Replied _ refl]
          retry [of complete_attempts "count_error ?p (rs_error_type resp) s2" e]
        by (subst (1 2) complete_loop.simps) (simp add: pl oc settles_tell Let_def)
    qed
  qed
qed

text \<open>The response and the retry decision of one streaming attempt.\<close>

definition stream_response :: "attempt \<Rightarrow> ApiResponse" where
  "stream_response oc = (case oc of
       ConnectFailed err \<Rightarrow> default_response\<lparr>rs_error := err\<rparr>
     | Threw err \<Rightarrow> default_response\<lparr>rs_error := ''Stream error: '' @ err\<rparr>
     | Replied r \<Rightarrow> r)"

definition stream_counted :: "string \<Rightarrow> attempt \<Rightarrow> call_state \<Rightarrow> call_state" where
  "stream_counted p oc s = (case oc of
       Threw err \<Rightarrow> inc_metric Provider5xx p s
     | _ \<Rightarrow> count_error p (rs_error_type (stream_response oc)) s)"

definition stream_can_retry :: "attempt \<Rightarrow> bool" where
  "stream_can_retry oc \<longleftrightarrow> rs_content (stream_response oc) = []
     \<and> ((case oc of Threw err \<Rightarrow> True | _ \<Rightarrow> False) \<or> is_retryable (rs_error_type (stream_response oc)))"

lemma stream_counted_keeps [simp]:
  "cl_breaker (stream_counted p oc s) = cl_breaker s" "cl_requests (stream_counted p oc s) = cl_requests s"
  "cl_slept_us (stream_counted p oc s) = cl_slept_us s"
  by (simp_all add: stream_counted_def split: attempt.split)

lemma stream_loop_unfold:
  assumes "poll_attempt s = (False, s1)" and "\<not> stream_attempts \<le> a"
    and "attempt_stream e prov req (back_off a (pv_name prov) s1) = (oc, ds, s2)"
  shows "stream_loop e prov req a out s =
    (let p = pv_name prov; resp = stream_response oc in
     if rs_ok resp then (resp, out @ ds, add_tokens resp (tell_success p s2))
     else if \<not> stream_can_retry oc \<or> stream_attempts - 1 \<le> a
     then (resp, out @ ds, tell_failure e p (stream_counted p oc s2))
     else stream_loop e prov req (Suc a) (out @ ds) (close_connection (stream_counted p oc s2)))"
  using assms(2)
  by (subst stream_loop.simps)
     (cases oc; simp add: assms(1,3) Let_def stream_response_def stream_counted_def stream_can_retry_def)

lemma stream_loop_spec:
  "settles e (pv_name prov) s (snd (snd (stream_loop e prov req a out s)))
     \<and> in_budget stream_attempts a s (snd (snd (stream_loop e prov req a out s)))"
proof (induction "stream_attempts - a" arbitrary: a out s rule: less_induct)
  case less
  let ?p = "pv_name prov"
  obtain c s1 where pl: "poll_attempt s = (c, s1)" by (rule prod.exhaust)
  obtain oc ds s2 where oc: "attempt_stream e prov req (back_off a ?p s1) = (oc, ds, s2)" by (rule prod_cases3)
  note keep = poll_attempt_keeps [OF pl] and one = attempt_stream_one [OF oc]
  note stop = attempt_stop [OF pl one]
    and retry = attempt_retry [OF pl one, of stream_attempts "close_connection (stream_counted ?p oc s2)" e]
  have b2: "cl_breaker s2 = cl_breaker s" using one_attempt_breaker [OF one] keep by simp
  show ?case
  proof (cases "stream_attempts \<le> a \<or> c")
    case True
    then show ?thesis using keep
      by (subst (1 2) stream_loop.simps) (auto simp: pl settles_tell Let_def intro!: in_budget_stop)
  next
    case False
    then have d: "stream_attempts - Suc a < stream_attempts - a" by arith
    show ?thesis
      using False b2 stop retry less [OF d, of "close_connection (stream_counted ?p oc s2)" "out @ ds"]
      by (simp add: stream_loop_unfold [OF _ _ oc] pl settles_tell Let_def)
  qed
qed

section \<open>Whole calls\<close>

lemma ask_breaker_keeps:
  "ask_breaker e p s = (ok, s') \<Longrightarrow> cl_requests s' = cl_requests s \<and> cl_slept_us s' = cl_slept_us s
     \<and> cl_breaker s' = map_option (\<lambda>b. snd (allow (ce_asked e) p b)) (cl_breaker s)
     \<and> (\<forall>b. cl_breaker s = Some b \<longrightarrow> ok = fst (allow (ce_asked e) p b))
     \<and> cl_conn s' = cl_conn s \<and> cl_sends s' = cl_sends s"
  by (auto simp: ask_breaker_def split: option.splits prod.splits)

text \<open>What a call does before its attempts: \<open>Inl\<close> when it ends there.\<close>

definition call_entry :: "call_env \<Rightarrow> ApiRequest \<Rightarrow> call_state \<Rightarrow> call_state + call_state" where
  "call_entry e req s =
     (case poll_latch s of
        (True, s1) \<Rightarrow> Inl s1
      | (False, s1) \<Rightarrow>
          let prov = provider_for (ce_env e) (rq_model req); p = pv_name prov in
          (case ask_breaker e p s1 of
             (False, s2) \<Rightarrow> Inl s2
           | (True, s2) \<Rightarrow>
               let s3 = inc_metric ProviderCall p s2 in
               if should_skip_network e prov then Inl s3
               else case poll_cancelled s3 of
                 (True, s4) \<Rightarrow> Inl (tell_abandoned e p (snd (poll_latch s4)))
               | (False, s4) \<Rightarrow> Inr s4))"

lemma api_complete_entry:
  "ce_scripted e = None \<Longrightarrow> snd (api_complete e req s) =
     (case call_entry e req s of Inl s' \<Rightarrow> s'
      | Inr s' \<Rightarrow> snd (complete_loop e (provider_for (ce_env e) (rq_model req)) req 0 s'))"
  by (simp add: api_complete_def call_entry_def Let_def split: prod.split bool.split)

lemma api_stream_entry:
  "ce_scripted e = None \<Longrightarrow> snd (snd (api_stream e req s)) =
     (case call_entry e req s of Inl s' \<Rightarrow> s'
      | Inr s' \<Rightarrow> snd (snd (stream_loop e (provider_for (ce_env e) (rq_model req)) req 0 [] s')))"
  by (simp add: api_stream_def call_entry_def Let_def split: prod.split bool.split)

lemma api_complete_inr:
  "ce_scripted e = None \<Longrightarrow> call_entry e req s = Inr s' \<Longrightarrow>
     api_complete e req s = complete_loop e (provider_for (ce_env e) (rq_model req)) req 0 s'"
  by (auto simp: api_complete_def call_entry_def Let_def split: prod.splits bool.splits if_splits)

lemma api_stream_inr:
  "ce_scripted e = None \<Longrightarrow> call_entry e req s = Inr s' \<Longrightarrow>
     api_stream e req s = stream_loop e (provider_for (ce_env e) (rq_model req)) req 0 [] s'"
  by (auto simp: api_stream_def call_entry_def Let_def split: prod.splits bool.splits if_splits)

lemma call_entry_keeps:
  "case_sum id id (call_entry e req s) = s' \<Longrightarrow> cl_requests s' = cl_requests s \<and> cl_slept_us s' = cl_slept_us s"
  unfolding call_entry_def Let_def
  by (auto split: prod.splits bool.splits if_splits
      dest!: poll_keeps ask_breaker_keeps) (metis poll_keeps(1) surjective_pairing)+

lemma call_entry_breaker:
  assumes "cl_breaker s = Some b" and "\<not> fst (poll_latch s)" and "p = pv_name (provider_for (ce_env e) (rq_model req))"
    and "\<not> should_skip_network e (provider_for (ce_env e) (rq_model req))"
    and "allow (ce_asked e) p b = (ok, b1)"
  shows "case call_entry e req s of
      Inl s' \<Rightarrow> if ok then \<exists>b'\<in>verdicts e p b1. cl_breaker s' = Some b' else cl_breaker s' = Some b1
    | Inr s' \<Rightarrow> ok \<and> cl_breaker s' = Some b1"
proof -
  obtain s1 where s1: "poll_latch s = (False, s1)" using assms(2) by (cases "poll_latch s") auto
  obtain a s2 where s2: "ask_breaker e p s1 = (a, s2)" by (rule prod.exhaust)
  have k: "a = ok" "cl_breaker s2 = Some b1"
    using ask_breaker_keeps [OF s2] poll_keeps(1) [OF s1] assms(1,5) by auto
  obtain c s4 where s4: "poll_cancelled (inc_metric ProviderCall p s2) = (c, s4)" by (rule prod.exhaust)
  obtain d s5 where s5: "poll_latch s4 = (d, s5)" by (rule prod.exhaust)
  have b4: "cl_breaker s4 = Some b1" "cl_breaker s5 = Some b1"
    using poll_keeps(2) [OF s4] poll_keeps(1) [OF s5] k by simp_all
  show ?thesis using s1 s2 s4 s5 k b4 assms(3,4)
    by (cases a; cases c) (auto simp: call_entry_def Let_def verdicts_def tell_defs)
qed

section \<open>Properties\<close>


definition demo_call_env :: call_env where
  "demo_call_env = \<lparr>ce_env = (\<lambda>_. None), ce_keys = (\<lambda>_. None), ce_scripted = None, ce_asked = 0, ce_told = 1\<rparr>"

definition demo_request :: ApiRequest where
  "demo_request = default_request\<lparr>rq_model := ''ollama/llama3'', rq_include_temperature := False\<rparr>"

definition demo_provider :: Provider where
  "demo_provider = provider_for (ce_env demo_call_env) (rq_model demo_request)"

definition demo_raw :: "bool \<Rightarrow> string" where
  "demo_raw st = projr (request_text (ce_env demo_call_env) (ce_keys demo_call_env) demo_provider
     (path_for demo_provider demo_request st) (build_body (ce_env demo_call_env) demo_provider demo_request st) st)"

definition demo_sends :: "int list" where
  "demo_sends = [int (length (demo_raw False)) + int (length (demo_raw True)) + 1]"

definition demo_call_state :: call_state where
  "demo_call_state = \<lparr>cl_breaker = Some (new_breaker default_cb_config), cl_metrics = None, cl_total_in = 0,
     cl_total_out = 0, cl_conn = Some [], cl_last_error = [], cl_requests = [], cl_slept_us = 0,
     cl_polls = no_polls, cl_connects = [], cl_sends = [demo_sends]\<rparr>"

lemma demo_call_provider:
  "pv_name (provider_for (ce_env demo_call_env) (rq_model demo_request)) = ''ollama''"
  "\<not> should_skip_network demo_call_env (provider_for (ce_env demo_call_env) (rq_model demo_request))"
  by code_simp+

lemma demo_call_allowed:
  "allow (ce_asked demo_call_env) ''ollama'' (new_breaker default_cb_config)
     = (True, put_entry ''ollama'' fresh_entry (new_breaker default_cb_config))"
  by (simp add: allow_def entry_locked_def new_breaker_def fresh_entry_def)


text \<open>
  Bounded work: whatever happens, a blocking call puts at most four requests on the wire and
  sleeps at most seven seconds between them, a streaming call at most three requests and three
  seconds.
\<close>

lemma call_retry_budget:
  "length (cl_requests (snd (api_complete e req s))) \<le> length (cl_requests s) + 4
   \<and> cl_slept_us (snd (api_complete e req s)) \<le> cl_slept_us s + 7000000
   \<and> length (cl_requests (snd (snd (api_stream e req s)))) \<le> length (cl_requests s) + 3
   \<and> cl_slept_us (snd (snd (api_stream e req s))) \<le> cl_slept_us s + 3000000"
proof (cases "ce_scripted e")
  case None
  have w: "(\<Sum>i = 0..<complete_attempts. wait_us i) = 7000000" "(\<Sum>i = 0..<stream_attempts. wait_us i) = 3000000"
    by (simp_all add: complete_attempts_def stream_attempts_def wait_us_def eval_nat_numeral)
  note k = call_entry_keeps [of e req s, OF refl]
  show ?thesis
  proof (cases "call_entry e req s")
    case (Inl s1)
    then show ?thesis using k None by (simp add: api_complete_entry api_stream_entry)
  next
    case (Inr s1)
    let ?prov = "provider_for (ce_env e) (rq_model req)"
    have "in_budget complete_attempts 0 s1 (snd (api_complete e req s))"
      "in_budget stream_attempts 0 s1 (snd (snd (api_stream e req s)))"
      using complete_loop_spec [of e ?prov s1 req 0] stream_loop_spec [of e ?prov s1 req 0 "[]"] Inr None
      by (simp_all add: api_complete_entry api_stream_entry)
    then show ?thesis using k Inr w
      by (simp add: in_budget_def) (simp add: complete_attempts_def stream_attempts_def)
  qed
next
  case (Some f)
  obtain h s1 where s1: "poll_latch s = (h, s1)" by (rule prod.exhaust)
  show ?thesis using poll_keeps(1) [OF s1] Some
    by (simp add: api_complete_def api_stream_def s1 split: bool.split prod.split)
qed

lemma quiet_poll:
  assumes "quiet (cl_polls s)"
  shows "\<exists>p'. poll_latch s = (False, s\<lparr>cl_polls := p'\<rparr>) \<and> quiet p'"
    and "\<exists>p'. poll_cancelled s = (False, s\<lparr>cl_polls := p'\<rparr>) \<and> quiet p'"
    and "\<exists>p'. poll_attempt s = (False, s\<lparr>cl_polls := p'\<rparr>) \<and> quiet p'"
proof -
  show l: "\<exists>p'. poll_latch s = (False, s\<lparr>cl_polls := p'\<rparr>) \<and> quiet p'"
    using quiet_latch [OF assms] by (auto simp: poll_latch_def)
  show "\<exists>p'. poll_cancelled s = (False, s\<lparr>cl_polls := p'\<rparr>) \<and> quiet p'"
    using quiet_cancelled [OF assms] by (auto simp: poll_cancelled_def)
  show "\<exists>p'. poll_attempt s = (False, s\<lparr>cl_polls := p'\<rparr>) \<and> quiet p'"
    using l quiet_cancelled by (fastforce simp: poll_attempt_def poll_cancelled_def)
qed

text \<open>A quiet call that is admitted reaches its first attempt with the connection it leased.\<close>

lemma call_entry_quiet:
  assumes "cl_breaker s = Some b" and "quiet (cl_polls s)"
    and "p = pv_name (provider_for (ce_env e) (rq_model req))"
    and "\<not> should_skip_network e (provider_for (ce_env e) (rq_model req))"
    and "allow (ce_asked e) p b = (True, b1)"
  shows "\<exists>s'. call_entry e req s = Inr s' \<and> cl_breaker s' = Some b1 \<and> cl_conn s' = cl_conn s
    \<and> cl_sends s' = cl_sends s \<and> cl_requests s' = cl_requests s \<and> quiet (cl_polls s')"
proof -
  obtain p1 where s1: "poll_latch s = (False, s\<lparr>cl_polls := p1\<rparr>)" "quiet p1"
    using quiet_poll(1) [OF assms(2)] by auto
  let ?s3 = "inc_metric ProviderCall p (s\<lparr>cl_polls := p1, cl_breaker := Some b1\<rparr>)"
  have ask: "ask_breaker e p (s\<lparr>cl_polls := p1\<rparr>) = (True, s\<lparr>cl_polls := p1, cl_breaker := Some b1\<rparr>)"
    using assms(1,5) by (simp add: ask_breaker_def)
  obtain p2 where s4: "poll_cancelled ?s3 = (False, ?s3\<lparr>cl_polls := p2\<rparr>)" "quiet p2"
    using quiet_poll(2) [of ?s3] s1(2) by auto
  have "call_entry e req s = Inr (?s3\<lparr>cl_polls := p2\<rparr>)"
    using s1(1) ask s4(1) assms(3,4) by (simp add: call_entry_def Let_def)
  then show ?thesis using s4(2) by simp
qed

lemma read_response_closed: "read_response [] = ([], [])"
  by (simp add: read_response_def read_http_headers_def read_headers_loop.simps)

lemma read_streaming_closed:
  "read_streaming_response fmt p [] =
     (on_resp (\<lambda>r. r\<lparr>rs_ok := False, rs_error := ''Connection closed reading headers''\<rparr>) (ls_sse init_lines), p, Some [])"
  by (simp add: read_streaming_response_def read_http_headers_def read_headers_loop.simps Let_def)

lemma back_off_0 [simp]: "back_off 0 p s = s"
  by (simp add: back_off_def)

lemma parse_body_closed: "\<not> rs_ok (parse_body fmt [])" "rs_error_type (parse_body fmt []) = []"
proof -
  have "isl (json_parse [])" by code_simp
  then obtain err where "json_parse [] = Inl err" by (cases "json_parse []") auto
  then show "\<not> rs_ok (parse_body fmt [])" "rs_error_type (parse_body fmt []) = []"
    by (cases fmt; simp add: parse_body_def parse_body_anthropic_def parse_body_openai_def parse_body_gemini_def
      parse_failure_def default_response_def)+
qed

lemma not_retryable_Nil [simp]: "\<not> is_retryable []"
  by (simp add: is_retryable_def)

lemma put_request_sent:
  assumes "cl_sends s = ns # rest"
    and "send_request (ce_env e) (ce_keys e) prov ns (path_for prov req st) (build_body (ce_env e) prov req st) st = Inr raw"
  shows "put_request e prov req st s = (None, s\<lparr>cl_sends := rest, cl_requests := cl_requests s @ [raw]\<rparr>)"
  using assms by (simp add: put_request_def)

lemma complete_loop_closed:
  assumes "quiet (cl_polls s)" and "cl_conn s = Some []" and "cl_sends s = ns # rest"
    and "send_request (ce_env e) (ce_keys e) prov ns (path_for prov req False) (build_body (ce_env e) prov req False) False = Inr raw"
  shows "\<exists>r s'. complete_loop e prov req 0 s = (r, s') \<and> \<not> rs_ok r \<and> cl_requests s' = cl_requests s @ [raw]
    \<and> cl_conn s' = Some [] \<and> cl_breaker s' = map_option (record_failure (ce_told e) (pv_name prov)) (cl_breaker s)"
proof -
  obtain p1 where s1: "poll_attempt s = (False, s\<lparr>cl_polls := p1\<rparr>)" using quiet_poll(3) [OF assms(1)] by auto
  let ?s1 = "s\<lparr>cl_polls := p1\<rparr>"
  have "attempt_complete e prov req ?s1 = (Replied (parse_body (pv_format prov) []),
      ?s1\<lparr>cl_sends := rest, cl_requests := cl_requests s @ [raw], cl_conn := Some []\<rparr>)"
    using assms put_request_sent [of ?s1, OF _ assms(4)]
    by (simp add: attempt_complete_def ensure_connection_def read_response_closed)
  then show ?thesis using s1
    by (subst complete_loop.simps)
       (simp add: back_off_def complete_attempts_def parse_body_closed Let_def tell_defs count_error_def)
qed

lemma stream_loop_closed:
  assumes "quiet (cl_polls s)" and "cl_conn s = Some []" and "cl_sends s = ns # rest"
    and "send_request (ce_env e) (ce_keys e) prov ns (path_for prov req True) (build_body (ce_env e) prov req True) True = Inr raw"
  shows "\<exists>r s'. stream_loop e prov req 0 [] s = (r, [], s') \<and> \<not> rs_ok r \<and> cl_requests s' = cl_requests s @ [raw]
    \<and> cl_conn s' = Some [] \<and> cl_breaker s' = map_option (record_failure (ce_told e) (pv_name prov)) (cl_breaker s)"
proof -
  obtain p1 where s1: "poll_attempt s = (False, s\<lparr>cl_polls := p1\<rparr>)" using quiet_poll(3) [OF assms(1)] by auto
  let ?s1 = "s\<lparr>cl_polls := p1\<rparr>"
  let ?r = "default_response\<lparr>rs_ok := False, rs_error := ''Connection closed reading headers''\<rparr>"
  have a: "attempt_stream e prov req (back_off 0 (pv_name prov) ?s1) = (Replied ?r, [],
      ?s1\<lparr>cl_sends := rest, cl_requests := cl_requests s @ [raw], cl_conn := Some []\<rparr>)"
    using assms put_request_sent [of ?s1, OF _ assms(4)]
    by (simp add: attempt_stream_def ensure_connection_def read_streaming_closed init_lines_def default_response_def)
  have ok: "stream_response (Replied ?r) = ?r" "\<not> rs_ok ?r" "rs_error_type ?r = []"
    by (simp_all add: stream_response_def default_response_def)
  then have "\<not> stream_can_retry (Replied ?r)" "stream_counted p (Replied ?r) t = t" for p t
    by (simp_all add: stream_can_retry_def stream_counted_def count_error_def)
  then show ?thesis using ok
    by (subst stream_loop_unfold [OF s1 _ a]) (simp_all add: stream_attempts_def Let_def tell_defs)
qed

text \<open>
  A kept-alive connection that the server has closed costs the next call: its request is
  written, the closed connection is read as an empty reply, the call fails after this one attempt,
  the breaker counts a failure of the provider, and the dead connection goes back as connected.
  This holds for the blocking and for the streaming call.
\<close>

lemma stale_connection_fails_call:
  assumes "cl_breaker s = Some b" and "ce_scripted e = None" and "quiet (cl_polls s)"
    and "prov = provider_for (ce_env e) (rq_model req)" and "\<not> should_skip_network e prov"
    and "allow (ce_asked e) (pv_name prov) b = (True, b1)"
    and "cl_conn s = Some []" and "cl_sends s = ns # rest"
    and "\<And>st. send_request (ce_env e) (ce_keys e) prov ns (path_for prov req st)
           (build_body (ce_env e) prov req st) st = Inr (raw st)"
  shows "(\<exists>r s'. api_complete e req s = (r, s') \<and> \<not> rs_ok r \<and> cl_requests s' = cl_requests s @ [raw False]
      \<and> cl_conn s' = Some [] \<and> cl_breaker s' = Some (record_failure (ce_told e) (pv_name prov) b1))
    \<and> (\<exists>r s'. api_stream e req s = (r, [], s') \<and> \<not> rs_ok r \<and> cl_requests s' = cl_requests s @ [raw True]
      \<and> cl_conn s' = Some [] \<and> cl_breaker s' = Some (record_failure (ce_told e) (pv_name prov) b1))"
proof -
  let ?p = "pv_name prov"
  obtain s1 where s1: "call_entry e req s = Inr s1" "cl_breaker s1 = Some b1" "cl_conn s1 = Some []"
      "cl_sends s1 = ns # rest" "cl_requests s1 = cl_requests s" "quiet (cl_polls s1)"
    using call_entry_quiet [OF assms(1,3), of ?p e req b1] assms(4-8) by auto
  show ?thesis
    using complete_loop_closed [OF s1(6,3,4) assms(9)] stream_loop_closed [OF s1(6,3,4) assms(9)]
      api_complete_inr [OF assms(2) s1(1)] api_stream_inr [OF assms(2) s1(1)] assms(4) s1(2,5)
    by auto
qed

lemma demo_sent:
  "send_request (ce_env demo_call_env) (ce_keys demo_call_env) demo_provider demo_sends
     (path_for demo_provider demo_request st) (build_body (ce_env demo_call_env) demo_provider demo_request st) st
   = Inr (demo_raw st)"
proof -
  have k: "\<not> pv_uses_api_key demo_provider"
    by (simp add: demo_provider_def demo_request_def demo_call_env_def provider_for_cases make_ollama_provider_def Let_def)
  then have "request_text (ce_env demo_call_env) (ce_keys demo_call_env) demo_provider
      (path_for demo_provider demo_request st) (build_body (ce_env demo_call_env) demo_provider demo_request st) st
      = Inr (demo_raw st)"
    by (simp add: demo_raw_def request_text_def Let_def)
  moreover have "send_loop demo_sends (int (length (demo_raw st)))"
    by (cases st) (simp_all add: demo_sends_def send_loop.simps)
  ultimately show ?thesis by (simp add: send_request_def)
qed

lemma parse_body_no_error:
  assumes "json_parse body = Inr doc" and "get_object doc ''error'' = None"
  shows "rs_ok (parse_body fmt body)"
  using assms
  by (cases fmt) (simp_all add: parse_body_def parse_body_anthropic_def parse_body_openai_def parse_body_gemini_def Let_def)


definition demo_error_body :: string where
  "demo_error_body = ''{'' @ quoted_error @ '':'' @ [CHR 0x22] @ ''no such model'' @ [CHR 0x22] @ ''}''"

definition demo_error_head :: string where
  "demo_error_head = ''HTTP/1.1 404 Not Found'' @ crlf @ ''Content-Length: 25'' @ crlf @ crlf"

lemma demo_error_headers:
  "read_http_headers [demo_error_head @ demo_error_body] = (Some (demo_error_head, demo_error_body), [])"
  by (subst read_headers_once [where i = 42])
     (simp_all add: demo_error_head_def demo_error_body_def quoted_error_def header_end_def buf_size_def)

lemma demo_error_status: "parse_http_status demo_error_head \<noteq> 200"
  by code_simp

lemma demo_error_read: "demo_error_body = fst (read_response_body demo_error_head (demo_error_body, []))"
  by code_simp

lemma demo_error_nonempty: "demo_error_body \<noteq> []"
  by code_simp

lemma demo_error_contains: "contains demo_error_body quoted_error"
  by code_simp

lemma demo_error_doc: "json_parse demo_error_body = Inr (JObj [(''error'', JStr ''no such model'')])"
  by code_simp


text \<open>
  A stream that the user cancels is a failure of the provider for the breaker, unlike a call that
  is cancelled between attempts, which is abandoned.
\<close>

lemma cancelled_stream_counts_as_failure:
  assumes "poll_attempt s = (False, s1)" and "\<not> stream_attempts \<le> a"
    and "attempt_stream e prov req (back_off a (pv_name prov) s1) = (Replied (cancelled_response r), ds, s2)"
  shows "cl_breaker (snd (snd (stream_loop e prov req a out s))) =
    map_option (record_failure (ce_told e) (pv_name prov)) (cl_breaker s2)"
  by (simp add: stream_loop_unfold [OF assms] Let_def stream_response_def stream_can_retry_def
      cancelled_response_def is_retryable_def tell_defs)

end
