(* ===== verification/Advisor_Gate.thy ===== *)
theory Advisor_Gate
  imports Compaction
begin

text \<open>
  The advisor gate (\<open>src/advisor_gate.cpp\<close>, \<open>src/advisor.cpp\<close>): the caps on what the advisor is
  shown, the parser of its one-signal reply, and the call itself.  The provider client is a
  parameter \<open>call\<close> that threads a state of its own.
\<close>

section \<open>Caps\<close>

definition lf :: string where "lf = [CHR 0x0A]"

definition kAdvisorGateMaxOriginalTask :: nat where "kAdvisorGateMaxOriginalTask = 32768"
definition kAdvisorGateMaxTerminatingText :: nat where "kAdvisorGateMaxTerminatingText = 32768"
definition kAdvisorGateMaxToolSummary :: nat where "kAdvisorGateMaxToolSummary = 8192"
definition kAdvisorGateMaxPromptOverride :: nat where "kAdvisorGateMaxPromptOverride = 16384"

definition kMarker :: string where "kMarker = lf @ ''... [truncated]''"

text \<open>The bytes \<open>need\<close> that a lead byte announces; \<open>0\<close> for an invalid one.\<close>

definition lead_need :: "char \<Rightarrow> nat" where
  "lead_need lead =
     (if code lead div 32 = 6 then 2 else if code lead div 16 = 14 then 3 else if code lead div 8 = 30 then 4
      else if 0x80 \<le> code lead then 0 else 1)"

text \<open>The index \<open>i\<close> where the run of continuation bytes at the end begins.\<close>

definition tail_start :: "string \<Rightarrow> nat" where
  "tail_start s = length s - length (takeWhile is_cont (rev s))"

definition trim_cut :: "string \<Rightarrow> string" where
  "trim_cut s =
     (if s = [] then s
      else let i = tail_start s in
        if i = length s then (if 0xC0 \<le> code (last s) then butlast s else s)
        else if lead_need (s ! i) = 0 \<or> length s - i < lead_need (s ! i) then take i s else s)"

definition cap_bytes :: "string \<Rightarrow> nat \<Rightarrow> string" where
  "cap_bytes s limit =
     (if length s \<le> limit then s
      else let keep = (if length kMarker < limit then limit - length kMarker else limit)
           in trim_cut (take keep s) @ (if length kMarker < limit then kMarker else []))"

record AdvisorGateInput =
  gi_original_task :: string
  gi_terminating_text :: string
  gi_tool_summary :: string

definition cap_advisor_gate_input :: "AdvisorGateInput \<Rightarrow> AdvisorGateInput" where
  "cap_advisor_gate_input i =
     \<lparr>gi_original_task = cap_bytes (gi_original_task i) kAdvisorGateMaxOriginalTask,
      gi_terminating_text = cap_bytes (gi_terminating_text i) kAdvisorGateMaxTerminatingText,
      gi_tool_summary = cap_bytes (gi_tool_summary i) kAdvisorGateMaxToolSummary\<rparr>"

definition cap_advisor_prompt_override :: "string \<Rightarrow> string" where
  "cap_advisor_prompt_override prompt = cap_bytes prompt kAdvisorGateMaxPromptOverride"

section \<open>The signal\<close>

datatype gate_kind = Continue | Redirect | Halt

record AdvisorGateOutput =
  go_kind :: gate_kind
  go_text :: string
  go_raw :: string
  go_malformed :: bool

definition gate_default :: AdvisorGateOutput where
  "gate_default = \<lparr>go_kind = Continue, go_text = [], go_raw = [], go_malformed = False\<rparr>"

definition extract_tag :: "string \<Rightarrow> string \<Rightarrow> string" where
  "extract_tag s tag =
     (let otag = ''<'' @ tag @ ''>''; ctag = ''</'' @ tag @ ''>'' in
      case find_sub otag s of
        None \<Rightarrow> []
      | Some a0 \<Rightarrow>
          let a = a0 + length otag in
          (case find_from ctag s a of
             None \<Rightarrow> []
           | Some b \<Rightarrow> trim (take (b - a) (drop a s))))"

definition parse_advisor_signal :: "string \<Rightarrow> AdvisorGateOutput" where
  "parse_advisor_signal reply =
     (let out = gate_default\<lparr>go_raw := reply\<rparr>; sig = extract_tag reply ''signal''; up = map to_upper sig in
      if sig = [] then out\<lparr>go_malformed := True\<rparr>
      else if up = ''CONTINUE'' then out\<lparr>go_kind := Continue\<rparr>
      else if up = ''REDIRECT'' then
        (let t = extract_tag reply ''guidance'' in out\<lparr>go_kind := Redirect, go_text := t, go_malformed := (t = [])\<rparr>)
      else if up = ''HALT'' then
        (let t = extract_tag reply ''reason'' in out\<lparr>go_kind := Halt, go_text := t, go_malformed := (t = [])\<rparr>)
      else out\<lparr>go_malformed := True\<rparr>)"

section \<open>The call\<close>

definition default_gate_prompt :: string where
  "default_gate_prompt =
     ''You are a runtime gate evaluating whether an executor agent's ''
     @ ''terminating turn is acceptable to return to the caller.'' @ lf @ lf
     @ ''Inputs you receive (in this order):'' @ lf
     @ ''  - The original user task.'' @ lf
     @ ''  - The executor's outputs for the terminating turn (text only '' @ em_dash @ '' ''
     @ ''no reasoning, no prior turns).'' @ lf
     @ ''  - A structured summary of tool calls made this turn.'' @ lf @ lf
     @ ''You will respond with EXACTLY ONE signal on its own line:'' @ lf @ lf
     @ ''  <signal>CONTINUE</signal>'' @ lf
     @ ''    The terminating turn satisfies the task; let the executor return.'' @ lf @ lf
     @ ''  <signal>REDIRECT</signal>'' @ lf
     @ ''  <guidance>...</guidance>'' @ lf
     @ ''    The executor is on the wrong track or stopped early.  Provide a ''
     @ ''concrete next step in <guidance>.  This will be injected as a ''
     @ ''synthetic user turn back to the executor.'' @ lf @ lf
     @ ''  <signal>HALT</signal>'' @ lf
     @ ''  <reason>...</reason>'' @ lf
     @ ''    The executor produced something the user must see before any ''
     @ ''further work '' @ em_dash @ '' irreversible footgun about to commit, scope ''
     @ ''explosion, confidential data leak, fundamentally wrong premise. ''
     @ ''This will be surfaced to the user as an escalation.'' @ lf @ lf
     @ ''No preamble.  No markdown.  Output exactly one signal.  Default ''
     @ ''to CONTINUE when the turn is merely terse but correct.  Default ''
     @ ''to HALT when in doubt about safety; default to REDIRECT when in ''
     @ ''doubt about correctness.''"

definition kAdvisorProviderError :: string where "kAdvisorProviderError = ''advisor API error''"

definition gate_question :: "AdvisorGateInput \<Rightarrow> string" where
  "gate_question i =
     ''[ORIGINAL TASK]'' @ lf @ gi_original_task i @ lf @ ''[END ORIGINAL TASK]'' @ lf @ lf
     @ ''[EXECUTOR TERMINATING TURN]'' @ lf @ gi_terminating_text i
     @ lf @ ''[END EXECUTOR TERMINATING TURN]'' @ lf @ lf
     @ ''[TOOL CALLS THIS TURN]'' @ lf
     @ (if gi_tool_summary i = [] then ''(none)'' @ lf else gi_tool_summary i)
     @ ''[END TOOL CALLS]'' @ lf"

definition gate_request :: "string \<Rightarrow> string \<Rightarrow> AdvisorGateInput \<Rightarrow> ApiRequest" where
  "gate_request advisor_model prompt_override i =
     (let prompt = cap_advisor_prompt_override prompt_override in
      default_request\<lparr>rq_model := advisor_model, rq_max_tokens := 512, rq_include_temperature := False,
        rq_system_prompt := (if prompt = [] then default_gate_prompt else prompt),
        rq_messages := [mk_message ''user'' (gate_question (cap_advisor_gate_input i))]\<rparr>)"

text \<open>
  The response handed to \<open>on_response\<close> is returned beside the verdict; \<open>None\<close> when no call was made.
\<close>

definition run_advisor_gate ::
  "(ApiRequest \<Rightarrow> 'w \<Rightarrow> ApiResponse \<times> 'w) \<Rightarrow> string \<Rightarrow> string \<Rightarrow> AdvisorGateInput \<Rightarrow> 'w
   \<Rightarrow> AdvisorGateOutput \<times> ApiResponse option \<times> 'w" where
  "run_advisor_gate call advisor_model prompt_override i w =
     (if advisor_model = [] then
        (gate_default\<lparr>go_kind := Halt, go_text := ''no advisor model configured for gate'', go_malformed := True\<rparr>, None, w)
      else let (resp, w') = call (gate_request advisor_model prompt_override i) w in
        if \<not> rs_ok resp then
          (gate_default\<lparr>go_kind := Halt, go_text := kAdvisorProviderError, go_malformed := True\<rparr>, Some resp, w')
        else (parse_advisor_signal (rs_content resp), Some resp, w'))"

record AdvisorGateHttpAbort =
  ab_status :: int
  ab_error :: "string option"

definition advisor_gate_http_abort :: "bool \<Rightarrow> bool \<Rightarrow> AdvisorGateHttpAbort" where
  "advisor_gate_http_abort tenant_alive cancelled =
     (if \<not> tenant_alive then \<lparr>ab_status = 401, ab_error = Some ''missing or invalid bearer token''\<rparr>
      else if cancelled then \<lparr>ab_status = 409, ab_error = Some ''request cancelled''\<rparr>
      else \<lparr>ab_status = 200, ab_error = None\<rparr>)"

section \<open>What the caps keep\<close>

lemma trim_cut_prefix: "prefix (trim_cut s) s"
  by (auto simp: trim_cut_def Let_def take_is_prefix butlast_conv_take split: if_splits)

lemma length_kMarker [simp]: "length kMarker = 16"
  by (simp add: kMarker_def lf_def)

lemma cap_bytes_length: "length (cap_bytes s limit) \<le> limit"
  using prefix_length_le [OF trim_cut_prefix [of "take (limit - 16) s"]]
    prefix_length_le [OF trim_cut_prefix [of "take limit s"]]
  by (auto simp: cap_bytes_def Let_def)

lemma cap_bytes_idem [simp]: "cap_bytes (cap_bytes s limit) limit = cap_bytes s limit"
  using cap_bytes_length [of s limit] by (simp add: cap_bytes_def [of "cap_bytes s limit"])

lemma cap_advisor_gate_input_idem: "cap_advisor_gate_input (cap_advisor_gate_input i) = cap_advisor_gate_input i"
  by (simp add: cap_advisor_gate_input_def)

lemma tail_start_split:
  assumes "list_all is_cont cs" and "\<not> is_cont l"
  shows "tail_start (a @ l # cs) = length a + 1"
proof -
  have "takeWhile is_cont (rev cs @ l # rev a) = rev cs"
    using assms by (subst takeWhile_append2) (auto simp: list_all_iff)
  then show ?thesis by (simp add: tail_start_def)
qed

lemma lead_need_cont: "is_cont c \<Longrightarrow> lead_need c = 0"
  by (auto simp: is_cont_def lead_need_def)

lemma trim_cut_keeps_lead:
  assumes "list_all is_cont cs" and "\<not> is_cont l" and "cs \<noteq> []"
  shows "trim_cut (a @ l # cs) = a @ [l]"
  using assms by (cases cs) (auto simp: trim_cut_def Let_def tail_start_split nth_append lead_need_cont)

lemma utf8_stray_lead:
  assumes "0xC0 \<le> code l" and "code m < 0x80"
  shows "\<not> utf8_valid (a @ l # m # r)"
proof (induction "a" rule: length_induct)
  case (1 a)
  show ?case
  proof (cases a)
    case Nil
    have "utf8_need l (m # r) = None"
      using assms by (auto simp: utf8_need_def utf8_lead_def is_cont_def split: option.splits)
    with Nil assms show ?thesis by simp
  next
    case (Cons c b)
    show ?thesis
    proof (cases "code c < 0x80")
      case True
      with 1 Cons show ?thesis by simp
    next
      case False
      have "n \<le> length b" if n: "utf8_need c (b @ l # m # r) = Some n" for n
      proof (rule ccontr)
        assume "\<not> n \<le> length b"
        then have "l \<in> set (take n (b @ l # m # r))" by (cases "n - length b") auto
        moreover have "list_all is_cont (take n (b @ l # m # r))"
          using n by (auto simp: utf8_need_def split: option.splits if_splits)
        ultimately have "is_cont l" by (auto simp: list_all_iff)
        with assms(1) show False by (auto simp: is_cont_def)
      qed
      moreover have "\<not> utf8_valid (drop n b @ l # m # r)" for n
        using 1 [rule_format, of "drop n b"] Cons by simp
      ultimately show ?thesis using False Cons by (auto split: option.splits)
    qed
  qed
qed

text \<open>
  A cut that falls right after a complete multi-byte character leaves its lead byte alone: the
  index \<open>i\<close> that \<open>cap_bytes\<close> stops at is the first continuation byte, not the lead before it.
\<close>

lemma cap_bytes_splits_utf8:
  assumes "limit < length s" and "16 < limit" and cut: "take (limit - 16) s = a @ l # c # cs"
    and "list_all is_cont (c # cs)" and "0xC0 \<le> code l"
  shows "cap_bytes s limit = a @ l # kMarker" and "\<not> utf8_valid (cap_bytes s limit)"
proof -
  have "\<not> is_cont l" using assms(5) by (auto simp: is_cont_def)
  then have "trim_cut (a @ l # c # cs) = a @ [l]" using assms(4) by (intro trim_cut_keeps_lead) auto
  then show e: "cap_bytes s limit = a @ l # kMarker" using assms(1,2) cut by (simp add: cap_bytes_def)
  show "\<not> utf8_valid (cap_bytes s limit)"
    unfolding e using utf8_stray_lead [of l "CHR 0x0A" a "''... [truncated]''"] assms(5)
    by (simp add: kMarker_def lf_def)
qed

end
