(* ===== verification/Presence.thy ===== *)
theory Presence
  imports Advisor_Gate Writ_Parser
begin

text \<open>
  Always-on peer review (\<open>src/presence.cpp\<close>): which watchers look at an agent, what they are
  shown, how their reply is parsed, and how an untrusted note is made safe before it is put in
  front of the working agent's tool results.  The shell matcher \<open>fnmatch\<close> and the provider client
  are parameters.
\<close>

section \<open>Configuration\<close>

record PresenceConfig =
  pc_mode :: string
  pc_watch :: "string list"
  pc_interject :: string
  pc_model :: string
  pc_prompt :: string
  pc_max_notes_per_turn :: int

definition default_presence :: PresenceConfig where
  "default_presence = \<lparr>pc_mode = ''off'', pc_watch = [], pc_interject = ''context'', pc_model = [], pc_prompt = [],
     pc_max_notes_per_turn = 1\<rparr>"

definition presence_is_active :: "PresenceConfig \<Rightarrow> bool" where
  "presence_is_active cfg \<longleftrightarrow> pc_mode cfg = ''always_on'' \<and> pc_interject cfg \<noteq> ''off''"

definition presence_model :: "PresenceConfig \<Rightarrow> string \<Rightarrow> string" where
  "presence_model cfg fallback_model = (if pc_model cfg = [] then fallback_model else pc_model cfg)"

definition presence_watch_matches :: "(string \<Rightarrow> string \<Rightarrow> bool) \<Rightarrow> PresenceConfig \<Rightarrow> string \<Rightarrow> bool" where
  "presence_watch_matches fnmatch cfg agent_id \<longleftrightarrow>
     agent_id \<noteq> [] \<and> (pc_watch cfg = [] \<or> list_ex (\<lambda>p. p \<noteq> [] \<and> fnmatch p agent_id) (pc_watch cfg))"

record PresenceInput =
  pi_watcher_id :: string
  pi_watcher_name :: string
  pi_watcher_goal :: string
  pi_watcher_rules :: string
  pi_working_agent_id :: string
  pi_working_agent_role :: string
  pi_original_task :: string
  pi_recent_text :: string
  pi_tool_summary :: string

datatype presence_kind = Silent | Context

record PresenceOutput =
  po_kind :: presence_kind
  po_text :: string
  po_raw :: string
  po_malformed :: bool

definition kPresenceMaxOriginalTask :: nat where "kPresenceMaxOriginalTask = 16384"
definition kPresenceMaxRecentText :: nat where "kPresenceMaxRecentText = 16384"
definition kPresenceMaxToolSummary :: nat where "kPresenceMaxToolSummary = 8192"
definition kPresenceMaxPromptOverride :: nat where "kPresenceMaxPromptOverride = 8192"
definition kPresenceMaxNote :: nat where "kPresenceMaxNote = 2048"
definition kMaxPresenceWatchersPerCheckpoint :: nat where "kMaxPresenceWatchersPerCheckpoint = 3"

section \<open>Caps\<close>

definition kMark :: string where "kMark = lf @ ''[truncated]''"

text \<open>The walk back over continuation bytes: the new value of \<open>keep\<close>.\<close>

fun back_to_start :: "string \<Rightarrow> nat \<Rightarrow> nat" where
  "back_to_start field 0 = 0"
| "back_to_start field (Suc k) = (if is_cont (field ! Suc k) then back_to_start field k else Suc k)"

definition truncate_field :: "string \<Rightarrow> nat \<Rightarrow> string" where
  "truncate_field field budget =
     (if length field \<le> budget then field
      else take (back_to_start field (if length kMark < budget then budget - length kMark else 0)) field @ kMark)"

definition cap_presence_input :: "PresenceInput \<Rightarrow> PresenceInput" where
  "cap_presence_input i =
     i\<lparr>pi_original_task := truncate_field (pi_original_task i) kPresenceMaxOriginalTask,
       pi_recent_text := truncate_field (pi_recent_text i) kPresenceMaxRecentText,
       pi_tool_summary := truncate_field (pi_tool_summary i) kPresenceMaxToolSummary,
       pi_watcher_rules := truncate_field (pi_watcher_rules i) kPresenceMaxRecentText,
       pi_watcher_goal := truncate_field (pi_watcher_goal i) 2048\<rparr>"

definition cap_presence_prompt_override :: "string \<Rightarrow> string" where
  "cap_presence_prompt_override prompt = truncate_field prompt kPresenceMaxPromptOverride"

section \<open>The signal\<close>

definition first_tag_body :: "string \<Rightarrow> string \<Rightarrow> string" where
  "first_tag_body t tag =
     (let otag = lower (''<'' @ tag @ ''>''); ctag = lower (''</'' @ tag @ ''>''); low = lower t in
      case find_sub otag low of
        None \<Rightarrow> []
      | Some a \<Rightarrow>
          let body = a + length otag in
          (case find_from ctag low body of
             None \<Rightarrow> []
           | Some b \<Rightarrow> trim (take (b - body) (drop body t))))"

definition presence_out :: "string \<Rightarrow> presence_kind \<Rightarrow> string \<Rightarrow> bool \<Rightarrow> PresenceOutput" where
  "presence_out raw k t bad = \<lparr>po_kind = k, po_text = t, po_raw = raw, po_malformed = bad\<rparr>"

definition parse_presence_signal :: "string \<Rightarrow> PresenceOutput" where
  "parse_presence_signal reply =
     (let token = lower (first_tag_body reply ''signal'') in
      if token = [] then presence_out reply Silent [] True
      else if token = ''silent'' then presence_out reply Silent [] False
      else if token = ''context'' then
        (let note = first_tag_body reply ''note'' in
         if note = [] then presence_out reply Silent [] True
         else presence_out reply Context (truncate_field note kPresenceMaxNote) False)
      else presence_out reply Silent [] True)"

section \<open>Making a note safe\<close>

definition presence_line_is_writ :: "string \<Rightarrow> bool" where
  "presence_line_is_writ line =
     starts_with_writ (dropWhile (\<lambda>c. c = CHR '' '' \<or> c = CHR 0x09) line)"

definition name_gap :: "char \<Rightarrow> bool" where
  "name_gap c \<longleftrightarrow> code c < 0x20 \<or> code c = 0x7F \<or> c \<in> set [CHR 0x5B, CHR 0x5D, CHR ''/'', CHR 0x5C]
     \<or> c = CHR '' '' \<or> c = CHR 0x09"

fun name_loop :: "string \<Rightarrow> bool \<Rightarrow> string \<Rightarrow> string" where
  "name_loop [] spaced out = out"
| "name_loop (c # cs) spaced out =
     (if name_gap c then name_loop cs True out
      else let out' = (if spaced \<and> out \<noteq> [] then out @ '' '' else out) @ [c]
           in if 64 \<le> length out' then out' else name_loop cs False out')"

definition sanitize_presence_name :: "string \<Rightarrow> string" where
  "sanitize_presence_name raw = (let out = name_loop raw False [] in if out = [] then ''presence'' else out)"

lemma find_sub_drop_less: "find_sub n s = Some i \<Longrightarrow> n \<noteq> [] \<Longrightarrow> length (drop (i + length n) s) < length s"
  using find_sub_Some [of n s i] by (cases n) auto

function replace_all :: "string \<Rightarrow> string \<Rightarrow> string \<Rightarrow> string" where
  "replace_all pat rep s =
     (if pat = [] then s
      else case find_sub pat s of
             None \<Rightarrow> s
           | Some i \<Rightarrow> take i s @ rep @ replace_all pat rep (drop (i + length pat) s))"
  by pat_completeness auto
termination
  by (relation "measure (\<lambda>(pat, rep, s). length s)") (auto dest: find_sub_drop_less)

declare replace_all.simps [simp del]

definition zwsp :: string where "zwsp = [CHR 0xE2, CHR 0x80, CHR 0x8B]"

definition drop_controls :: "string \<Rightarrow> string" where
  "drop_controls note =
     filter (\<lambda>c. \<not> (code c = 0 \<or> c = CHR 0x0D \<or> code c = 0x7F) \<and> \<not> (code c < 0x20 \<and> c \<noteq> CHR 0x0A \<and> c \<noteq> CHR 0x09)) note"

definition break_frames :: "string \<Rightarrow> string" where
  "break_frames s =
     replace_all ''[END '' (''[END'' @ zwsp @ '' '')
       (replace_all ''[/'' (''['' @ zwsp @ ''/'')
         (replace_all ''[PRESENCE:'' (''[PRESENCE'' @ zwsp @ '':'')
           (replace_all ''[END PRESENCE]'' (''[END'' @ zwsp @ '' PRESENCE]'') s)))"

text \<open>A writ line with its slash turned into a fullwidth solidus.\<close>

definition defuse_line :: "string \<Rightarrow> string" where
  "defuse_line line =
     (if presence_line_is_writ line then
        (let sp = takeWhile (\<lambda>c. c = CHR '' '' \<or> c = CHR 0x09) line; rest = dropWhile (\<lambda>c. c = CHR '' '' \<or> c = CHR 0x09) line in
         if rest \<noteq> [] \<and> hd rest = CHR ''/'' then sp @ [CHR 0xEF, CHR 0xBC, CHR 0x8F] @ tl rest else line)
      else line)"

function defuse_lines :: "string \<Rightarrow> string" where
  "defuse_lines s =
     (let line = takeWhile (\<lambda>c. c \<noteq> CHR 0x0A) s in
      case dropWhile (\<lambda>c. c \<noteq> CHR 0x0A) s of
        [] \<Rightarrow> defuse_line line
      | x # rest \<Rightarrow> defuse_line line @ lf @ (if rest = [] then [] else defuse_lines rest))"
  by pat_completeness auto
termination
proof (relation "measure length")
  fix s x :: "char list" and y z rest
  assume "y = takeWhile (\<lambda>c. c \<noteq> CHR 0x0A) s" "dropWhile (\<lambda>c. c \<noteq> CHR 0x0A) s = z # rest"
  then show "(rest, s) \<in> measure length"
    using length_dropWhile_le [of "\<lambda>c. c \<noteq> CHR 0x0A" s] by simp
qed simp

declare defuse_lines.simps [simp del]

definition neutralize_presence_note :: "string \<Rightarrow> string" where
  "neutralize_presence_note note = defuse_lines (break_frames (drop_controls note))"

definition format_presence_injection :: "string \<Rightarrow> string \<Rightarrow> string" where
  "format_presence_injection watcher_name note =
     ''[PRESENCE: '' @ sanitize_presence_name watcher_name @ '']'' @ lf
     @ neutralize_presence_note note @ lf @ ''[END PRESENCE]'' @ lf @ lf"

section \<open>The review call\<close>

definition presence_question :: "PresenceInput \<Rightarrow> string" where
  "presence_question i =
     ''[WATCHER]'' @ lf @ ''id: '' @ pi_watcher_id i @ lf @ ''name: '' @ pi_watcher_name i @ lf
     @ ''goal: '' @ (if pi_watcher_goal i = [] then ''(none)'' else pi_watcher_goal i) @ lf
     @ (if pi_watcher_rules i = [] then [] else ''rules:'' @ lf @ pi_watcher_rules i @ lf)
     @ ''[END WATCHER]'' @ lf @ lf @ ''[WORKING AGENT]'' @ lf @ pi_working_agent_id i
     @ (if pi_working_agent_role i = [] then [] else '' ['' @ pi_working_agent_role i @ '']'')
     @ lf @ ''[END WORKING AGENT]'' @ lf @ lf
     @ ''[ORIGINAL TASK]'' @ lf @ pi_original_task i @ lf @ ''[END ORIGINAL TASK]'' @ lf @ lf
     @ ''[RECENT ASSISTANT TEXT]'' @ lf @ (if pi_recent_text i = [] then ''(none)'' @ lf else pi_recent_text i)
     @ lf @ ''[END RECENT ASSISTANT TEXT]'' @ lf @ lf
     @ ''[TOOL CALLS THIS TURN]'' @ lf @ (if pi_tool_summary i = [] then ''(none)'' @ lf else pi_tool_summary i)
     @ ''[END TOOL CALLS]'' @ lf"

definition default_presence_prompt :: string where
  "default_presence_prompt =
     ''You are a pair colleague sitting beside another agent while they ''
     @ ''work.  You look over their shoulder.  You do not own the turn, ''
     @ ''do not take the keyboard, and cannot halt or redirect them.  ''
     @ ''You may only offer a short piece of context that helps them ''
     @ ''finish the task at hand, or stay silent.'' @ lf @ lf
     @ ''You are not specialized in programming unless they are ''
     @ ''programming.  Match whatever they are in the middle of '' @ em_dash @ '' ''
     @ ''prose, research, ops, planning, code.'' @ lf @ lf
     @ ''Inputs you receive:'' @ lf
     @ ''  - Your own goal and rules (how you pair).'' @ lf
     @ ''  - The working agent's id and role.'' @ lf
     @ ''  - The original user task.'' @ lf
     @ ''  - The working agent's most recent assistant text.'' @ lf
     @ ''  - A structured summary of tools it just ran.'' @ lf @ lf
     @ ''Respond with EXACTLY ONE signal:'' @ lf @ lf
     @ ''  <signal>SILENT</signal>'' @ lf
     @ ''    Nothing useful to add.  Let them keep working.'' @ lf
     @ ''    Default here.  Silence is correct when the next action is ''
     @ ''already clear, when you would only repeat the tool output, or ''
     @ ''when you are unsure.'' @ lf @ lf
     @ ''  <signal>CONTEXT</signal>'' @ lf
     @ ''  <note>one or two sentences that help them finish this task</note>'' @ lf
     @ ''    Speak when you can save a step: a missed connection, a ''
     @ ''relevant prior decision, a sibling result, an artifact already ''
     @ ''on disk, or a constraint from the original task they are ''
     @ ''drifting past.  No preamble.  No markdown.  No questions.'' @ lf @ lf
     @ ''Do not judge whether the work is good enough to return '' @ em_dash @ '' that ''
     @ ''is the advisor gate (CONTINUE / REDIRECT / HALT).  Do not ''
     @ ''verdict footguns, retries, or incomplete work.  Do not invent ''
     @ ''facts.  Do not restate the tool summary.  Do not congratulate.  ''
     @ ''Prefer SILENT.''"

definition presence_request :: "string \<Rightarrow> string \<Rightarrow> PresenceInput \<Rightarrow> ApiRequest" where
  "presence_request model prompt_override i =
     (let prompt = cap_presence_prompt_override prompt_override in
      default_request\<lparr>rq_model := model, rq_max_tokens := 256, rq_include_temperature := False,
        rq_system_prompt := (if prompt = [] then default_presence_prompt else prompt),
        rq_messages := [mk_message ''user'' (presence_question (cap_presence_input i))]\<rparr>)"

definition run_presence_review ::
  "(ApiRequest \<Rightarrow> 'w \<Rightarrow> ApiResponse \<times> 'w) \<Rightarrow> string \<Rightarrow> string \<Rightarrow> PresenceInput \<Rightarrow> 'w
   \<Rightarrow> PresenceOutput \<times> ApiResponse option \<times> 'w" where
  "run_presence_review call model prompt_override i w =
     (if model = [] then (presence_out [] Silent [] True, None, w)
      else let (resp, w') = call (presence_request model prompt_override i) w in
        if \<not> rs_ok resp then (presence_out [] Silent [] True, Some resp, w')
        else (parse_presence_signal (rs_content resp), Some resp, w'))"

section \<open>Replacing a marker removes it\<close>

lemma replace_all_Nil [simp]: "replace_all pat rep [] = []"
  by (simp add: replace_all.simps)

lemma replace_all_step:
  assumes "pat \<noteq> []"
  shows "replace_all pat rep (c # s) =
    (if prefix pat (c # s) then rep @ replace_all pat rep (drop (length pat) (c # s)) else c # replace_all pat rep s)"
proof (cases "prefix pat (c # s)")
  case True
  with assms show ?thesis by (subst replace_all.simps) (simp add: find_sub_prefix)
next
  case False
  with assms show ?thesis
    by (subst (1 2) replace_all.simps) (auto split: option.splits)
qed

text \<open>
  Patterns that begin with the same character \<open>b\<close> and have it nowhere else.  A piece without \<open>b\<close> is
  copied; a pattern \<open>b # q\<close> that no replacement spells out is one that stood in the text.
\<close>

lemma replace_all_copies:
  assumes "pat = b # f" and "rep = b # r" and "b \<notin> set q" and "prefix q (replace_all pat rep s)"
  shows "prefix q s"
  using assms(3,4)
proof (induction q arbitrary: s)
  case (Cons x q)
  then obtain c s' where s: "s = c # s'" by (cases s) auto
  have "\<not> prefix pat s" using Cons.prems assms(1,2) s replace_all_step [of pat rep c s'] by auto
  with Cons s assms(1) replace_all_step [of pat rep c s'] show ?case by auto
qed simp

lemma replace_all_removes:
  assumes pat: "pat = b # f" and rep: "rep = b # r" "b \<notin> set r" and q: "b \<notin> set q"
    and mis: "\<And>u. \<not> prefix (b # q) (rep @ u)" and orig: "b # q = pat \<or> \<not> sublist (b # q) s"
  shows "\<not> sublist (b # q) (replace_all pat rep s)"
  using orig
proof (induction s rule: length_induct)
  case (1 s)
  show ?case
  proof (cases s)
    case Nil
    then show ?thesis by simp
  next
    case (Cons c s')
    show ?thesis
    proof (cases "prefix pat s")
      case True
      let ?t = "drop (length pat) s"
      have "length ?t < length s" using Cons pat by simp
      moreover have "b # q = pat \<or> \<not> sublist (b # q) ?t"
        using 1(2) sublist_order.order.trans [OF _ sublist_drop, of "b # q" "length pat" s] by blast
      ultimately have "\<not> sublist (b # q) (replace_all pat rep ?t)" using 1(1) by blast
      moreover have "sublist (b # q) (r @ u) \<Longrightarrow> sublist (b # q) u" for u
        using rep(2) by (induction r) (auto simp: sublist_Cons_right)
      ultimately have "\<not> sublist (b # q) (rep @ replace_all pat rep ?t)"
        using mis [of "replace_all pat rep ?t"] rep(1) by (auto simp: sublist_Cons_right)
      with True Cons pat show ?thesis by (simp add: replace_all_step)
    next
      case False
      have "\<not> sublist (b # q) (replace_all pat rep s')"
        using 1 Cons by (auto simp: sublist_Cons_right)
      moreover have "\<not> prefix (b # q) (c # replace_all pat rep s')"
      proof
        assume "prefix (b # q) (c # replace_all pat rep s')"
        then have "c = b" "prefix q (replace_all pat rep s')" by auto
        with replace_all_copies [OF pat rep(1) q] Cons have "prefix (b # q) s" by auto
        with 1(2) False show False by auto
      qed
      ultimately show ?thesis using False Cons pat by (auto simp: replace_all_step sublist_Cons_right)
    qed
  qed
qed

text \<open>After \<open>break_frames\<close> a note has no tool frame and no end marker.\<close>

lemma break_frames_clean:
  "\<not> sublist ''[/'' (break_frames s)" "\<not> sublist ''[END '' (break_frames s)"
proof -
  let ?b = "CHR ''[''"
  let ?s2 = "replace_all ''[PRESENCE:'' (''[PRESENCE'' @ zwsp @ '':'') (replace_all ''[END PRESENCE]'' (''[END'' @ zwsp @ '' PRESENCE]'') s)"
  have "\<not> sublist (?b # ''/'') (replace_all ''[/'' (''['' @ zwsp @ ''/'') ?s2)"
    by (rule replace_all_removes [where f = "''/''" and r = "zwsp @ ''/''"]) (simp_all add: zwsp_def)
  then show "\<not> sublist ''[/'' (break_frames s)" unfolding break_frames_def
    by (intro replace_all_removes [where f = "''END ''" and r = "''END'' @ zwsp @ '' ''"]) (simp_all add: zwsp_def)
  show "\<not> sublist ''[END '' (break_frames s)" unfolding break_frames_def
    by (intro replace_all_removes [where f = "''END ''" and r = "''END'' @ zwsp @ '' ''"]) (simp_all add: zwsp_def)
qed

section \<open>Defused lines are not writs\<close>

definition no_writ_head :: "string \<Rightarrow> bool" where
  "no_writ_head l \<longleftrightarrow> list_all (\<lambda>w. \<not> prefix w l) kWritPrefixes"

lemma not_writ_facts:
  assumes "no_writ_head l" and "list_ex (\<lambda>w. prefix w p) kWritPrefixes"
  shows "\<not> has_arg p l" and "l \<noteq> p" and "\<not> prefix p l"
proof -
  from assms obtain w where "prefix w p" "\<not> prefix w l"
    by (auto simp: no_writ_head_def list_ex_iff list_all_iff)
  then show "\<not> prefix p l" "l \<noteq> p" by auto
  then show "\<not> has_arg p l" by (metis has_arg_def take_is_prefix)
qed

lemma classify_not_writ: "no_writ_head l \<Longrightarrow> classify_line l = NoWrit"
  by (simp add: classify_line_def not_writ_facts kWritPrefixes_def)

lemma no_writ_head_prefix: "no_writ_head l \<Longrightarrow> prefix l' l \<Longrightarrow> no_writ_head l'"
  by (auto simp: no_writ_head_def list_all_iff intro: prefix_order.trans)

lemma rtrim_cr_prefix: "prefix (rtrim_cr l) l"
  unfolding rtrim_cr_def by (metis rev_rev_ident suffix_dropWhile suffix_to_prefix)

lemma parse_no_writs: "list_all no_writ_head ls \<Longrightarrow> parse_from fence ls = []"
  by (induction ls arbitrary: fence)
    (auto simp: take_writ_def classify_not_writ no_writ_head_prefix [OF _ rtrim_cr_prefix] split: option.splits)

lemma writ_heads: "w \<in> set kWritPrefixes \<Longrightarrow> \<exists>u. w = CHR ''/'' # u"
  by (auto simp: kWritPrefixes_def)

lemma no_writ_other: "l = [] \<or> hd l \<noteq> CHR ''/'' \<Longrightarrow> no_writ_head l"
  by (cases l) (auto simp: no_writ_head_def list_all_iff dest!: writ_heads)

abbreviation is_sp :: "char \<Rightarrow> bool" where "is_sp c \<equiv> c = CHR '' '' \<or> c = CHR 0x09"

lemma writ_line_slash: "presence_line_is_writ l \<Longrightarrow> \<exists>u. dropWhile is_sp l = CHR ''/'' # u"
proof -
  assume "presence_line_is_writ l"
  then obtain w where w: "w \<in> set kWritPrefixes"
    and p: "prefix w (dropWhile is_sp l) \<or> (last w = CHR '' '' \<and> dropWhile is_sp l = butlast w)"
    by (auto simp: presence_line_is_writ_def starts_with_writ_def list_ex_iff)
  obtain u where u: "w = CHR ''/'' # u" using writ_heads [OF w] by blast
  show ?thesis
  proof (cases "prefix w (dropWhile is_sp l)")
    case True
    then show ?thesis using u by (auto simp: prefix_def)
  next
    case False
    with p u show ?thesis by (cases u) auto
  qed
qed

text \<open>A defused line is the line itself, not a writ, or it starts with blanks and the solidus.\<close>

lemma defuse_line_cases:
  obtains (keep) "defuse_line l = l" "\<not> presence_line_is_writ l"
  | (change) sp u where "list_all is_sp sp" "l = sp @ CHR ''/'' # u" "defuse_line l = sp @ [CHR 0xEF, CHR 0xBC, CHR 0x8F] @ u"
proof (cases "presence_line_is_writ l")
  case True
  then obtain u where u: "dropWhile is_sp l = CHR ''/'' # u" using writ_line_slash by blast
  then have "l = takeWhile is_sp l @ CHR ''/'' # u" by (metis takeWhile_dropWhile_id)
  moreover have "list_all is_sp (takeWhile is_sp l)" by (auto simp: list_all_iff dest: set_takeWhileD)
  ultimately show thesis using change True u by (simp add: defuse_line_def)
next
  case False
  with keep show thesis by (simp add: defuse_line_def)
qed

lemma defuse_line_safe: "no_writ_head (defuse_line l)"
proof (cases l rule: defuse_line_cases)
  case keep
  have "no_writ_head l"
  proof (cases "l = [] \<or> hd l \<noteq> CHR ''/''")
    case True
    then show ?thesis by (rule no_writ_other)
  next
    case False
    then have "dropWhile is_sp l = l" by (cases l) auto
    with keep(2) show ?thesis
      by (auto simp: presence_line_is_writ_def starts_with_writ_def no_writ_head_def list_all_iff list_ex_iff)
  qed
  with keep show ?thesis by simp
next
  case (change sp u)
  then show ?thesis by (intro no_writ_other) (cases sp, auto)
qed

lemma defuse_line_no_nl: "CHR 0x0A \<notin> set l \<Longrightarrow> CHR 0x0A \<notin> set (defuse_line l)"
  by (cases l rule: defuse_line_cases) auto

lemma getlines_one: "CHR 0x0A \<notin> set l \<Longrightarrow> getlines l = (if l = [] then [] else [l])"
  by (induction l) auto

lemma nl_split:
  obtains (one) "CHR 0x0A \<notin> set s" "takeWhile (\<lambda>c. c \<noteq> CHR 0x0A) s = s" "dropWhile (\<lambda>c. c \<noteq> CHR 0x0A) s = []"
  | (more) l r where "CHR 0x0A \<notin> set l" "s = l @ CHR 0x0A # r"
      "takeWhile (\<lambda>c. c \<noteq> CHR 0x0A) s = l" "dropWhile (\<lambda>c. c \<noteq> CHR 0x0A) s = CHR 0x0A # r"
proof (cases "CHR 0x0A \<in> set s")
  case True
  then obtain l r where s: "s = l @ CHR 0x0A # r" "CHR 0x0A \<notin> set l" by (meson split_list_first)
  moreover from s have "list_all (\<lambda>c. c \<noteq> CHR 0x0A) l" by (auto simp: list_all_iff)
  ultimately show thesis
    using more [of l r] takeWhile_append_neq [of "\<lambda>c. c \<noteq> CHR 0x0A" l "CHR 0x0A # r"]
      dropWhile_append_neq [of "\<lambda>c. c \<noteq> CHR 0x0A" l "CHR 0x0A # r"] by simp
next
  case False
  then have "takeWhile (\<lambda>c. c \<noteq> CHR 0x0A) s = s" "dropWhile (\<lambda>c. c \<noteq> CHR 0x0A) s = []"
    by (auto simp: takeWhile_eq_all_conv dropWhile_eq_Nil_conv)
  with one False show thesis by blast
qed

lemma defuse_lines_one: "CHR 0x0A \<notin> set s \<Longrightarrow> defuse_lines s = defuse_line s"
proof -
  assume "CHR 0x0A \<notin> set s"
  then have e: "takeWhile (\<lambda>c. c \<noteq> CHR 0x0A) s = s" "dropWhile (\<lambda>c. c \<noteq> CHR 0x0A) s = []"
    by (auto simp: takeWhile_eq_all_conv dropWhile_eq_Nil_conv)
  show ?thesis unfolding defuse_lines.simps [of s] e by simp
qed

lemma defuse_lines_more:
  "CHR 0x0A \<notin> set l \<Longrightarrow> defuse_lines (l @ CHR 0x0A # r) = defuse_line l @ CHR 0x0A # (if r = [] then [] else defuse_lines r)"
proof -
  assume "CHR 0x0A \<notin> set l"
  then have "list_all (\<lambda>c. c \<noteq> CHR 0x0A) l" by (auto simp: list_all_iff)
  then have e: "takeWhile (\<lambda>c. c \<noteq> CHR 0x0A) (l @ CHR 0x0A # r) = l"
    "dropWhile (\<lambda>c. c \<noteq> CHR 0x0A) (l @ CHR 0x0A # r) = CHR 0x0A # r"
    by (simp_all add: takeWhile_append_neq dropWhile_append_neq)
  show ?thesis unfolding defuse_lines.simps [of "l @ CHR 0x0A # r"] e by (simp add: lf_def)
qed

lemma lines_induct [case_names one more]:
  assumes "\<And>s. CHR 0x0A \<notin> set s \<Longrightarrow> P s" and "\<And>l r. CHR 0x0A \<notin> set l \<Longrightarrow> P r \<Longrightarrow> P (l @ CHR 0x0A # r)"
  shows "P s"
proof (induction s rule: length_induct)
  case (1 s)
  show ?case
  proof (cases s rule: nl_split)
    case one
    with assms(1) show ?thesis by blast
  next
    case (more l r)
    with 1 have "P r" by simp
    with assms(2) more show ?thesis by blast
  qed
qed

lemma no_writ_Nil [simp]: "no_writ_head []"
  by (simp add: no_writ_other)

lemma defuse_lines_safe:
  "list_all no_writ_head (getlines t) \<Longrightarrow> list_all no_writ_head (getlines (defuse_lines s @ CHR 0x0A # t))"
proof (induction s rule: lines_induct)
  case (one s)
  then show ?case by (simp add: defuse_lines_one getlines_line defuse_line_no_nl defuse_line_safe)
next
  case (more l r)
  then show ?case
    by (cases "r = []") (simp_all add: defuse_lines_more getlines_line defuse_line_no_nl defuse_line_safe)
qed

lemma sublist_mid: "x \<notin> set p \<Longrightarrow> sublist p (a @ x # b) \<longleftrightarrow> sublist p a \<or> sublist p b"
proof (induction a)
  case Nil
  then show ?case by (cases p) (auto simp: sublist_Cons_right)
next
  case (Cons y a)
  have "prefix p (y # a @ x # b) \<longleftrightarrow> prefix p (y # a)"
    using Cons.prems prefix_append [of p "y # a" "x # b"] by (auto simp: prefix_Cons)
  with Cons show ?case by (auto simp: sublist_Cons_right)
qed

lemma defuse_lines_sublist:
  assumes "CHR 0x0A \<notin> set p" and "CHR 0xEF \<notin> set p" and "CHR 0xBC \<notin> set p" and "CHR 0x8F \<notin> set p"
    and "\<not> sublist p s"
  shows "\<not> sublist p (defuse_lines s)"
proof -
  have line: "sublist p (defuse_line l) \<Longrightarrow> sublist p l" for l
  proof (cases l rule: defuse_line_cases)
    case (change sp u)
    assume "sublist p (defuse_line l)"
    with change assms(2-4) sublist_mid [of "CHR 0xBC" p "[]"] sublist_mid [of "CHR 0x8F" p "[]"]
    have "sublist p sp \<or> p = [] \<or> sublist p u" by (auto simp: sublist_mid)
    with change show "sublist p l" by (auto simp: sublist_append sublist_Cons_right)
  qed simp
  show ?thesis using assms(5)
  proof (induction s rule: lines_induct)
    case (one s)
    with line show ?case by (auto simp: defuse_lines_one)
  next
    case (more l r)
    then have "\<not> sublist p l" "\<not> sublist p r" using assms(1) by (simp_all add: sublist_mid)
    with more line [of l] assms(1) show ?case by (auto simp: defuse_lines_more sublist_mid)
  qed
qed

lemma find_sub_first:
  assumes "b \<notin> set q" and "\<not> sublist (b # q) a"
  shows "find_sub (b # q) (a @ (b # q) @ r) = Some (length a)"
proof (rule find_sub_append)
  fix j assume j: "j < length a"
  show "\<not> prefix (b # q) (drop j (a @ (b # q) @ r))"
  proof
    assume p: "prefix (b # q) (drop j (a @ (b # q) @ r))"
    have "\<not> prefix (b # q) (drop j a)"
      using assms(2) sublist_order.order.trans [OF prefix_imp_sublist sublist_drop] by blast
    moreover have "prefix (b # q) (drop j a @ (b # q) @ r)" using p j by simp
    ultimately obtain d where d: "b # q = drop j a @ d" "prefix d ((b # q) @ r)"
      unfolding prefix_append by blast
    have "d \<noteq> []" using d(1) \<open>\<not> prefix (b # q) (drop j a)\<close> by auto
    with d(2) have "b \<in> set d" by (cases d) auto
    moreover have "set d \<subseteq> set q" using d(1) j by (cases "drop j a") auto
    ultimately show False using assms(1) by blast
  qed
qed

lemma find_sub_no_occurrence: "\<not> sublist n s \<Longrightarrow> find_sub n s = None"
  by (induction n s rule: find_sub.induct) (auto simp: sublist_Cons_right)

lemma name_loop_chars: "c \<in> set (name_loop cs sp out) \<Longrightarrow> c \<in> set out \<or> \<not> name_gap c \<or> c = CHR '' ''"
  by (induction cs sp out rule: name_loop.induct) (auto simp: Let_def split: if_splits)

lemma presence_name_plain: "CHR ''['' \<notin> set (sanitize_presence_name n)" "CHR 0x0A \<notin> set (sanitize_presence_name n)"
  using name_loop_chars [of "CHR ''[''" n False "[]"] name_loop_chars [of "CHR 0x0A" n False "[]"]
  by (auto simp: sanitize_presence_name_def Let_def name_gap_def)

section \<open>Truncation keeps whole characters\<close>

lemma back_to_start_le: "back_to_start f k \<le> k"
  by (induction k) auto

lemma back_to_start_stops: "back_to_start f k = 0 \<or> \<not> is_cont (f ! back_to_start f k)"
  by (induction k) auto

lemma utf8_take:
  assumes "utf8_valid s" and "k = 0 \<or> (k < length s \<and> \<not> is_cont (s ! k))"
  shows "utf8_valid (take k s)"
  using assms
proof (induction s arbitrary: k rule: utf8_valid.induct)
  case (2 c cs)
  show ?case
  proof (cases k)
    case (Suc j)
    show ?thesis
    proof (cases "code c < 0x80")
      case True
      then have "utf8_valid (take j cs)"
        using 2 Suc by (cases j) auto
      with True Suc show ?thesis by simp
    next
      case False
      with "2.prems" obtain n where n: "utf8_need c cs = Some n" "utf8_valid (drop n cs)"
        by (auto split: option.splits)
      have conts: "list_all is_cont (take n cs)" "n \<le> length cs"
        using n(1) by (auto simp: utf8_need_def split: option.splits if_splits)
      have "n \<le> j"
      proof (rule ccontr)
        assume "\<not> n \<le> j"
        then have "cs ! j \<in> set (take n cs)" using conts(2) by (auto simp: in_set_conv_nth intro!: exI [of _ j])
        with conts(1) have "is_cont (cs ! j)" by (auto simp: list_all_iff)
        with "2.prems"(2) Suc show False by simp
      qed
      have "utf8_valid (take (j - n) (drop n cs))"
        using "2.IH"(2) [OF False n(1), of "j - n"] n(2) "2.prems"(2) Suc \<open>n \<le> j\<close>
        by (cases "j = n") auto
      then have "utf8_valid (c # take n cs @ take (j - n) (drop n cs))" by (rule utf8_valid_seq [OF n(1)])
      moreover have "take n cs @ take (j - n) (drop n cs) = take j cs" using \<open>n \<le> j\<close> by (metis take_add le_add_diff_inverse)
      ultimately show ?thesis using Suc by simp
    qed
  qed simp
qed simp

lemma truncate_field_utf8:
  assumes "utf8_valid field"
  shows "utf8_valid (truncate_field field budget)" and "12 \<le> budget \<Longrightarrow> length (truncate_field field budget) \<le> budget"
proof -
  let ?n = "if length kMark < budget then budget - length kMark else 0"
  let ?k = "back_to_start field ?n"
  have m: "length kMark = 12" "utf8_valid kMark" by (simp_all add: kMark_def lf_def)
  have "utf8_valid (take ?k field @ kMark)" if "budget < length field"
  proof -
    have "?k < length field" using back_to_start_le [of field ?n] that by (auto split: if_splits)
    then have "utf8_valid (take ?k field)" using back_to_start_stops [of field ?n] by (intro utf8_take [OF assms]) blast
    with m(2) show ?thesis by (rule utf8_valid_append [rotated])
  qed
  with assms show "utf8_valid (truncate_field field budget)" by (simp add: truncate_field_def not_le)
  show "length (truncate_field field budget) \<le> budget" if "12 \<le> budget"
    using back_to_start_le [of field ?n] m that by (auto simp: truncate_field_def split: if_splits)
qed

section \<open>The injected block\<close>


end
