(* ===== verification/Agent_Turn.thy ===== *)
theory Agent_Turn
  imports Presence
begin

text \<open>
  An agent and its model calls (\<open>src/agent.cpp\<close>, \<open>include/agent.h\<close>): the per-conversation history,
  compaction state, token counters and notices, the commit of user messages, and the blocking and
  streaming calls with their continuation of cut-off replies.

  What the source keeps thread-local (the conversation key, the executor model of the turn) and
  the provider client are fields of a turn context.  The client threads a state \<open>'w\<close>; a streaming
  call also returns the chunks its callback was given.  An entry that \<open>operator[]\<close> creates is
  written out by \<open>touch\<close>.  The system prompt of a constitution is kept rendered.
\<close>

section \<open>State\<close>

record AdvisorConfig =
  av_model :: string
  av_prompt :: string
  av_mode :: string
  av_max_redirects :: int
  av_malformed_halts :: bool

record Constitution =
  cn_name :: string
  cn_role :: string
  cn_goal :: string
  cn_rules :: "string list"
  cn_model :: string
  cn_max_tokens :: int
  cn_temperature :: double
  cn_max_turns :: "int option"
  cn_advisor_model :: string
  cn_advisor :: AdvisorConfig
  cn_presence :: PresenceConfig
  cn_capabilities :: "string list"
  cn_system_prompt :: string

record agent =
  a_id :: string
  a_config :: Constitution
  a_histories :: "string \<Rightarrow> Message list option"
  a_compaction :: "string \<Rightarrow> CompactionState option"
  a_last_input :: "string \<Rightarrow> int option"
  a_pinned :: "string \<Rightarrow> string option"
  a_notice :: "string \<Rightarrow> string option"
  a_total_input :: int
  a_total_output :: int
  a_total_requests :: int
  a_compact_cfg :: CompactionConfig

definition mk_agent :: "string \<Rightarrow> Constitution \<Rightarrow> CompactionConfig \<Rightarrow> agent" where
  "mk_agent i cfg ccfg = \<lparr>a_id = i, a_config = cfg, a_histories = Map.empty, a_compaction = Map.empty,
     a_last_input = Map.empty, a_pinned = Map.empty, a_notice = Map.empty, a_total_input = 0, a_total_output = 0,
     a_total_requests = 0, a_compact_cfg = ccfg\<rparr>"

record 'w turn_ctx =
  tc_key :: string
  tc_executor_model :: string
  tc_complete :: "ApiRequest \<Rightarrow> 'w \<Rightarrow> ApiResponse \<times> 'w"
  tc_stream :: "ApiRequest \<Rightarrow> 'w \<Rightarrow> ApiResponse \<times> string list \<times> 'w"

definition effective_executor_model :: "'w turn_ctx \<Rightarrow> string \<Rightarrow> string" where
  "effective_executor_model C configured = (if tc_executor_model C \<noteq> [] then tc_executor_model C else configured)"

definition touch :: "'k \<Rightarrow> 'v \<Rightarrow> ('k \<Rightarrow> 'v option) \<Rightarrow> 'k \<Rightarrow> 'v option" where
  "touch k d m = (case m k of None \<Rightarrow> m(k \<mapsto> d) | Some _ \<Rightarrow> m)"

definition get_or :: "'v \<Rightarrow> ('k \<Rightarrow> 'v option) \<Rightarrow> 'k \<Rightarrow> 'v" where
  "get_or d m k = (case m k of None \<Rightarrow> d | Some v \<Rightarrow> v)"

definition history_of :: "string \<Rightarrow> agent \<Rightarrow> Message list" where
  "history_of k ag = get_or [] (a_histories ag) k"

definition compaction_state :: "string \<Rightarrow> agent \<Rightarrow> CompactionState" where
  "compaction_state k ag = get_or empty_compaction (a_compaction ag) k"

definition push_message :: "string \<Rightarrow> Message \<Rightarrow> agent \<Rightarrow> agent" where
  "push_message k m ag = ag\<lparr>a_histories := (a_histories ag)(k \<mapsto> history_of k ag @ [m])\<rparr>"

section \<open>Conversations\<close>

definition model_messages_locked :: "string \<Rightarrow> agent \<Rightarrow> Message list" where
  "model_messages_locked k ag = build_model_messages (history_of k ag) (compaction_state k ag)"

definition set_history :: "string \<Rightarrow> Message list \<Rightarrow> agent \<Rightarrow> agent" where
  "set_history k h ag = ag\<lparr>a_histories := (a_histories ag)(k \<mapsto> h), a_compaction := (a_compaction ag)(k \<mapsto> empty_compaction),
     a_last_input := (a_last_input ag)(k \<mapsto> 0), a_pinned := (a_pinned ag)(k := None), a_notice := (a_notice ag)(k := None)\<rparr>"

definition reset_history :: "string \<Rightarrow> agent \<Rightarrow> agent" where
  "reset_history k ag = set_history k [] ag"

definition reset_all_histories :: "agent \<Rightarrow> agent" where
  "reset_all_histories ag = ag\<lparr>a_histories := Map.empty, a_compaction := Map.empty, a_last_input := Map.empty,
     a_pinned := Map.empty, a_notice := Map.empty\<rparr>"

definition erase_conversation :: "string \<Rightarrow> agent \<Rightarrow> agent" where
  "erase_conversation k ag = ag\<lparr>a_histories := (a_histories ag)(k := None), a_compaction := (a_compaction ag)(k := None),
     a_last_input := (a_last_input ag)(k := None), a_pinned := (a_pinned ag)(k := None), a_notice := (a_notice ag)(k := None)\<rparr>"

definition has_conversation :: "string \<Rightarrow> agent \<Rightarrow> bool" where
  "has_conversation k ag \<longleftrightarrow> history_of k ag \<noteq> []"

definition set_compaction_state :: "string \<Rightarrow> CompactionState \<Rightarrow> agent \<Rightarrow> agent" where
  "set_compaction_state k st ag =
     (let ag1 = ag\<lparr>a_histories := touch k [] (a_histories ag)\<rparr>
      in ag1\<lparr>a_compaction := (a_compaction ag1)(k \<mapsto> sanitize_compaction_state st (length (history_of k ag1)))\<rparr>)"

definition set_compaction_pinned_facts :: "string \<Rightarrow> string \<Rightarrow> agent \<Rightarrow> agent" where
  "set_compaction_pinned_facts k facts ag = ag\<lparr>a_pinned := (a_pinned ag)(k \<mapsto> facts)\<rparr>"

definition take_compaction_notice :: "string \<Rightarrow> agent \<Rightarrow> string \<times> agent" where
  "take_compaction_notice k ag =
     (case a_notice ag k of None \<Rightarrow> ([], ag) | Some n \<Rightarrow> (n, ag\<lparr>a_notice := (a_notice ag)(k := None)\<rparr>))"

text \<open>The last assistant message of a history, changed by \<open>f\<close>.\<close>

fun on_last_assistant :: "(Message \<Rightarrow> Message) \<Rightarrow> Message list \<Rightarrow> Message list" where
  "on_last_assistant f [] = []"
| "on_last_assistant f (m # ms) =
     (if m_role m = ''assistant'' \<and> list_all (\<lambda>x. m_role x \<noteq> ''assistant'') ms then f m # ms else m # on_last_assistant f ms)"

definition append_tool_trace :: "string \<Rightarrow> ToolTraceEntry \<Rightarrow> agent \<Rightarrow> agent" where
  "append_tool_trace k e ag =
     (case a_histories ag k of
        None \<Rightarrow> ag
      | Some h \<Rightarrow> ag\<lparr>a_histories := (a_histories ag)(k \<mapsto> on_last_assistant (\<lambda>m. m\<lparr>m_tool_trace := m_tool_trace m @ [e]\<rparr>) h)\<rparr>)"

definition append_thinking :: "string \<Rightarrow> string \<Rightarrow> agent \<Rightarrow> agent" where
  "append_thinking k delta ag =
     (case a_histories ag k of
        None \<Rightarrow> ag
      | Some h \<Rightarrow>
          if delta = [] \<or> h = [] \<or> m_role (last h) \<noteq> ''assistant'' then ag
          else ag\<lparr>a_histories := (a_histories ag)(k \<mapsto> butlast h @ [(last h)\<lparr>m_thinking := m_thinking (last h) @ delta\<rparr>])\<rparr>)"

section \<open>Compaction\<close>

text \<open>
  The request \<open>run_compaction\<close> makes, if it makes one, so that the client's state can be threaded
  through the call.
\<close>

definition compaction_request ::
  "string \<Rightarrow> Message list \<Rightarrow> CompactionState \<Rightarrow> CompactionConfig \<Rightarrow> string \<Rightarrow> ApiRequest option" where
  "compaction_request model history state0 cfg facts =
     (let state = sanitize_compaction_state state0 (length history);
          cut = compute_cut_index history (cc_keep_messages cfg);
          slice = take (cut - cs_covered_until state) (drop (cs_covered_until state) history)
      in if cut = 0 \<or> cut \<le> cs_covered_until state \<or> model = [] \<or> slice = [] then None
         else Some (summarize_request model slice (cs_summary state) facts (cc_summary_max_tokens cfg)))"

definition run_compaction_on ::
  "(ApiRequest \<Rightarrow> 'w \<Rightarrow> ApiResponse \<times> 'w) \<Rightarrow> string \<Rightarrow> Message list \<Rightarrow> CompactionState \<Rightarrow> CompactionConfig \<Rightarrow> string \<Rightarrow> 'w
   \<Rightarrow> bool \<times> CompactionState \<times> 'w" where
  "run_compaction_on call model history state cfg facts w =
     (case compaction_request model history state cfg facts of
        None \<Rightarrow> let (b, s) = run_compaction (\<lambda>_. default_response) model history state cfg facts in (b, s, w)
      | Some req \<Rightarrow>
          let (resp, w') = call req w; (b, s) = run_compaction (\<lambda>_. resp) model history state cfg facts in (b, s, w'))"

text \<open>
  The model that summarises is the advisor's when one is set.  A percentage that overflows \<open>int\<close>,
  which the source leaves undefined, is taken not to trigger.
\<close>

definition summarize_model :: "Constitution \<Rightarrow> string" where
  "summarize_model c =
     resolve_summarize_model (if av_model (cn_advisor c) \<noteq> [] then av_model (cn_advisor c) else cn_advisor_model c) (cn_model c)"

definition wants_compaction :: "bool \<Rightarrow> string \<Rightarrow> agent \<Rightarrow> bool" where
  "wants_compaction force k ag =
     (let hist = history_of k ag in
      if force then cc_keep_messages (a_compact_cfg ag) < length hist
      else should_auto_compact (a_compact_cfg ag) (get_or 0 (a_last_input ag) k) (cn_model (a_config ag)) (length hist)
             (model_view_char_count (model_messages_locked k ag)) = Some True)"

definition maybe_compact :: "'w turn_ctx \<Rightarrow> bool \<Rightarrow> agent \<Rightarrow> 'w \<Rightarrow> bool \<times> agent \<times> 'w" where
  "maybe_compact C force ag0 w =
     (let k = tc_key C;
          ag = ag0\<lparr>a_histories := touch k [] (a_histories ag0), a_compaction := touch k empty_compaction (a_compaction ag0),
                   a_last_input := touch k 0 (a_last_input ag0)\<rparr>
      in if \<not> wants_compaction force k ag then (False, ag, w)
         else let (b, upd, w') = run_compaction_on (tc_complete C) (summarize_model (a_config ag)) (history_of k ag)
                                   (compaction_state k ag) (a_compact_cfg ag) (get_or [] (a_pinned ag) k) w;
                  upd' = sanitize_compaction_state upd (length (history_of k ag))
              in if \<not> b \<or> cs_summary upd' = [] then (False, ag, w')
                 else let ag1 = ag\<lparr>a_compaction := (a_compaction ag)(k \<mapsto> upd')\<rparr>
                      in (True, ag1\<lparr>a_last_input := (a_last_input ag1)(k \<mapsto> max 1 (int (model_view_char_count (model_messages_locked k ag1) div 4))),
                            a_notice := (a_notice ag1)(k \<mapsto> ''Context compacted (summary covers ''
                              @ to_string (int (cs_covered_until upd')) @ '' earlier messages).'')\<rparr>, w'))"

definition force_compact :: "'w turn_ctx \<Rightarrow> string \<Rightarrow> agent \<Rightarrow> 'w \<Rightarrow> bool \<times> agent \<times> 'w" where
  "force_compact C pinned_facts ag w =
     maybe_compact C True (if pinned_facts \<noteq> [] then set_compaction_pinned_facts (tc_key C) pinned_facts ag else ag) w"

section \<open>Model calls\<close>

definition agent_request :: "'w turn_ctx \<Rightarrow> agent \<Rightarrow> ApiRequest" where
  "agent_request C ag =
     default_request\<lparr>rq_model := effective_executor_model C (cn_model (a_config ag)),
       rq_system_prompt := cn_system_prompt (a_config ag), rq_max_tokens := cn_max_tokens (a_config ag),
       rq_temperature := cn_temperature (a_config ag), rq_messages := model_messages_locked (tc_key C) ag\<rparr>"

definition kMaxContinues :: nat where "kMaxContinues = 3"

definition kContinuePrompt :: string where
  "kContinuePrompt =
     ''Continue exactly where you left off mid-generation.  Do NOT repeat ''
     @ ''anything already written.  Do NOT add preamble, headers, or ''
     @ ''acknowledgements.  Pick up at the exact character where the previous ''
     @ ''response was cut off '' @ em_dash @ '' even mid-word or mid-line '' @ em_dash @ '' and keep going ''
     @ ''until the response is genuinely complete.''"

definition absorb :: "ApiResponse \<Rightarrow> ApiResponse \<Rightarrow> ApiResponse" where
  "absorb resp extra = resp\<lparr>rs_content := rs_content resp @ rs_content extra, rs_reasoning := rs_reasoning resp @ rs_reasoning extra,
     rs_input_tokens := rs_input_tokens resp + rs_input_tokens extra, rs_output_tokens := rs_output_tokens resp + rs_output_tokens extra,
     rs_cache_read_tokens := rs_cache_read_tokens resp + rs_cache_read_tokens extra,
     rs_cache_creation_tokens := rs_cache_creation_tokens resp + rs_cache_creation_tokens extra,
     rs_stop_reason := rs_stop_reason extra\<rparr>"

definition continuation_error :: "ApiResponse \<Rightarrow> ApiResponse \<Rightarrow> ApiResponse" where
  "continuation_error resp extra =
     (if rs_error_type extra = ''cancelled'' then resp\<lparr>rs_ok := False, rs_error_type := ''cancelled'', rs_error := ''cancelled''\<rparr>
      else resp\<lparr>rs_ok := False, rs_error_type := ''continuation_failed'', rs_error := ''continuation failed''\<rparr>)"

definition set_last_input :: "string \<Rightarrow> int \<Rightarrow> agent \<Rightarrow> agent" where
  "set_last_input k n ag = ag\<lparr>a_last_input := (a_last_input ag)(k \<mapsto> n)\<rparr>"

text \<open>
  \<open>gen\<close> is \<open>client_.stream\<close> with the callback, or \<open>client_.complete\<close>.  The first argument counts the
  continuations still allowed.
\<close>

type_synonym 'w gen = "ApiRequest \<Rightarrow> 'w \<Rightarrow> ApiResponse \<times> string list \<times> 'w"

fun continue_until_done ::
  "'w turn_ctx \<Rightarrow> 'w gen \<Rightarrow> nat \<Rightarrow> ApiResponse \<Rightarrow> agent \<Rightarrow> 'w \<Rightarrow> ApiResponse \<times> string list \<times> agent \<times> 'w" where
  "continue_until_done C gen 0 resp ag w = (resp, [], ag, w)"
| "continue_until_done C gen (Suc n) resp ag w =
     (if rs_ok resp \<and> rs_stop_reason resp = ''max_tokens'' then
        (let k = tc_key C;
             (b, ag1, w1) = maybe_compact C False ag w;
             ag2 = push_message k (mk_message ''user'' kContinuePrompt) (push_message k (mk_message ''assistant'' (rs_content resp)) ag1);
             (extra, chunks, w2) = gen (agent_request C ag2) w1;
             ag3 = ag2\<lparr>a_histories := (a_histories ag2)(k \<mapsto> butlast (butlast (history_of k ag2)))\<rparr>
         in if rs_ok extra then
              (let (r, chunks', ag', w') =
                     continue_until_done C gen n (absorb resp extra) (set_last_input k (rs_input_tokens extra) ag3) w2
               in (r, chunks @ chunks', ag', w'))
            else (continuation_error resp extra, chunks, ag3, w2))
      else (resp, [], ag, w))"

definition assistant_message :: "ApiResponse \<Rightarrow> Message" where
  "assistant_message resp = (mk_message ''assistant'' (rs_content resp))\<lparr>m_thinking := rs_reasoning resp\<rparr>"

definition record_reply :: "string \<Rightarrow> ApiResponse \<Rightarrow> agent \<Rightarrow> agent" where
  "record_reply k resp ag =
     (let ag1 = push_message k (assistant_message resp) ag
      in ag1\<lparr>a_total_input := a_total_input ag1 + rs_input_tokens resp, a_total_output := a_total_output ag1 + rs_output_tokens resp,
             a_total_requests := a_total_requests ag1 + 1\<rparr>)"

definition call_continue :: "'w turn_ctx \<Rightarrow> 'w gen \<Rightarrow> agent \<Rightarrow> 'w \<Rightarrow> ApiResponse \<times> string list \<times> agent \<times> 'w" where
  "call_continue C gen ag w =
     (let (b, ag1, w1) = maybe_compact C False ag w;
          (resp, chunks, w2) = gen (agent_request C ag1) w1
      in if rs_ok resp then
           (let (resp', chunks', ag2, w3) =
                  continue_until_done C gen kMaxContinues resp (set_last_input (tc_key C) (rs_input_tokens resp) ag1) w2
            in (resp', chunks @ chunks', record_reply (tc_key C) resp' ag2, w3))
         else (resp, chunks, ag1, w2))"

definition blocking :: "'w turn_ctx \<Rightarrow> 'w gen" where
  "blocking C req w = (let (r, w') = tc_complete C req w in (r, [], w'))"

definition send_continue :: "'w turn_ctx \<Rightarrow> agent \<Rightarrow> 'w \<Rightarrow> ApiResponse \<times> string list \<times> agent \<times> 'w" where
  "send_continue C = call_continue C (blocking C)"

definition stream_continue :: "'w turn_ctx \<Rightarrow> agent \<Rightarrow> 'w \<Rightarrow> ApiResponse \<times> string list \<times> agent \<times> 'w" where
  "stream_continue C = call_continue C (tc_stream C)"

fun concatenate_text :: "string \<Rightarrow> ContentPart list \<Rightarrow> string" where
  "concatenate_text out [] = out"
| "concatenate_text out (p # ps) =
     (if cp_kind p = TEXT
      then concatenate_text ((if out \<noteq> [] \<and> last out \<noteq> CHR 0x0A then out @ lf else out) @ cp_text p) ps
      else concatenate_text out ps)"

definition text_part :: "string \<Rightarrow> ContentPart" where
  "text_part t = \<lparr>cp_kind = TEXT, cp_text = t, cp_image_data = [], cp_media_type = [], cp_image_url = []\<rparr>"

definition user_message :: "ContentPart list \<Rightarrow> Message" where
  "user_message parts =
     (case parts of
        [p] \<Rightarrow> if cp_kind p = TEXT then mk_message ''user'' (cp_text p)
               else (mk_message ''user'' (concatenate_text [] parts))\<lparr>m_parts := parts\<rparr>
      | _ \<Rightarrow> (mk_message ''user'' (concatenate_text [] parts))\<lparr>m_parts := parts\<rparr>)"

definition commit_user_message :: "string \<Rightarrow> ContentPart list \<Rightarrow> agent \<Rightarrow> agent" where
  "commit_user_message k parts ag = push_message k (user_message parts) ag"

definition agent_send :: "'w turn_ctx \<Rightarrow> ContentPart list \<Rightarrow> agent \<Rightarrow> 'w \<Rightarrow> ApiResponse \<times> string list \<times> agent \<times> 'w" where
  "agent_send C parts ag w = send_continue C (commit_user_message (tc_key C) parts ag) w"

definition agent_stream :: "'w turn_ctx \<Rightarrow> ContentPart list \<Rightarrow> agent \<Rightarrow> 'w \<Rightarrow> ApiResponse \<times> string list \<times> agent \<times> 'w" where
  "agent_stream C parts ag w = stream_continue C (commit_user_message (tc_key C) parts ag) w"

definition status_summary :: "string \<Rightarrow> agent \<Rightarrow> string" where
  "status_summary k ag =
     a_id ag @ '' | '' @ cn_role (a_config ag) @ '' | msgs:'' @ to_string (int (length (history_of k ag)))
     @ '' | in:'' @ to_string (a_total_input ag) @ '' out:'' @ to_string (a_total_output ag) @ '' | reqs:'' @ to_string (a_total_requests ag)
     @ (if cn_advisor_model (a_config ag) = [] then [] else '' | advisor:'' @ cn_advisor_model (a_config ag))"

section \<open>Histories\<close>

lemma get_or_touch [simp]: "get_or d (touch k d m) = get_or d m"
  by (auto simp: get_or_def touch_def fun_eq_iff split: option.splits)

lemma get_or_upd [simp]: "get_or d (m(k \<mapsto> v)) k' = (if k' = k then v else get_or d m k')"
  by (simp add: get_or_def)

lemma get_or_none [simp]: "get_or d (m(k := None)) k' = (if k' = k then d else get_or d m k')"
  by (simp add: get_or_def)

lemma get_or_empty [simp]: "get_or d Map.empty k = d"
  by (simp add: get_or_def)

lemma history_simps [simp]:
  "history_of k (ag\<lparr>a_compaction := c\<rparr>) = history_of k ag" "history_of k (ag\<lparr>a_last_input := l\<rparr>) = history_of k ag"
  "history_of k (ag\<lparr>a_pinned := p\<rparr>) = history_of k ag" "history_of k (ag\<lparr>a_notice := n\<rparr>) = history_of k ag"
  "history_of k (ag\<lparr>a_total_input := i\<rparr>) = history_of k ag" "history_of k (ag\<lparr>a_total_output := i\<rparr>) = history_of k ag"
  "history_of k (ag\<lparr>a_total_requests := i\<rparr>) = history_of k ag"
  "history_of k (ag\<lparr>a_histories := h\<rparr>) = get_or [] h k"
  by (simp_all add: history_of_def)

lemma compaction_simps [simp]:
  "compaction_state k (ag\<lparr>a_histories := h\<rparr>) = compaction_state k ag" "compaction_state k (ag\<lparr>a_last_input := l\<rparr>) = compaction_state k ag"
  "compaction_state k (ag\<lparr>a_pinned := p\<rparr>) = compaction_state k ag" "compaction_state k (ag\<lparr>a_notice := n\<rparr>) = compaction_state k ag"
  "compaction_state k (ag\<lparr>a_total_input := i\<rparr>) = compaction_state k ag" "compaction_state k (ag\<lparr>a_total_output := i\<rparr>) = compaction_state k ag"
  "compaction_state k (ag\<lparr>a_total_requests := i\<rparr>) = compaction_state k ag"
  "compaction_state k (ag\<lparr>a_compaction := c\<rparr>) = get_or empty_compaction c k"
  by (simp_all add: compaction_state_def)

lemma history_push [simp]:
  "history_of k' (push_message k m ag) = (if k' = k then history_of k ag @ [m] else history_of k' ag)"
  by (simp add: push_message_def history_of_def)

lemma compaction_push [simp]: "compaction_state k' (push_message k m ag) = compaction_state k' ag"
  by (simp add: push_message_def)

lemma history_set_last [simp]: "history_of k' (set_last_input k n ag) = history_of k' ag"
  and compaction_set_last [simp]: "compaction_state k' (set_last_input k n ag) = compaction_state k' ag"
  by (simp_all add: set_last_input_def)

lemma history_record [simp]: "history_of k' (record_reply k r ag) = history_of k' (push_message k (assistant_message r) ag)"
  and compaction_record [simp]: "compaction_state k' (record_reply k r ag) = compaction_state k' ag"
  by (simp_all add: record_reply_def Let_def)

text \<open>
  The threaded summariser is \<open>run_compaction\<close> with the answer the client gives in its state.
\<close>

lemma run_compaction_cong:
  assumes "\<And>r. compaction_request m h s cfg facts = Some r \<Longrightarrow> c1 r = c2 r"
  shows "run_compaction c1 m h s cfg facts = run_compaction c2 m h s cfg facts"
  using assms unfolding run_compaction_def compaction_request_def summarize_history_slice_def Let_def
  by (auto split: if_splits)

lemma run_compaction_on_pure:
  assumes "run_compaction_on call m h s cfg facts w = (b, s', w')"
  shows "run_compaction (\<lambda>r. fst (call r w)) m h s cfg facts = (b, s')"
proof (cases "compaction_request m h s cfg facts")
  case None
  then have "run_compaction (\<lambda>r. fst (call r w)) m h s cfg facts = run_compaction (\<lambda>_. default_response) m h s cfg facts"
    by (intro run_compaction_cong) simp
  with assms None show ?thesis by (auto simp: run_compaction_on_def split: prod.splits)
next
  case (Some r)
  then have "run_compaction (\<lambda>r. fst (call r w)) m h s cfg facts = run_compaction (\<lambda>_. fst (call r w)) m h s cfg facts"
    by (intro run_compaction_cong) simp
  with assms Some show ?thesis by (auto simp: run_compaction_on_def split: prod.splits)
qed

text \<open>A compaction pass changes no history, and every summary it records covers part of one.\<close>

definition agent_wf :: "agent \<Rightarrow> bool" where
  "agent_wf ag \<longleftrightarrow> (\<forall>k. compaction_ok (compaction_state k ag) (length (history_of k ag)))"

lemma maybe_compact_keeps:
  assumes "maybe_compact C force ag w = (b, ag', w')"
  shows "history_of k ag' = history_of k ag" and "a_config ag' = a_config ag"
    and "a_total_input ag' = a_total_input ag" and "a_total_output ag' = a_total_output ag"
    and "a_total_requests ag' = a_total_requests ag" and "a_id ag' = a_id ag" and "agent_wf ag \<Longrightarrow> agent_wf ag'"
  using assms unfolding maybe_compact_def
  by (auto simp: Let_def history_of_def agent_wf_def compaction_state_def sanitize_ok split: prod.splits if_splits)

lemma ok_mono: "compaction_ok s n \<Longrightarrow> n \<le> m \<Longrightarrow> compaction_ok s m"
  by (simp add: compaction_ok_def)

lemma wf_push [inv_rules]: "agent_wf ag \<Longrightarrow> agent_wf (push_message k m ag)"
  by (auto simp: agent_wf_def intro: ok_mono)

lemma wf_set_last [inv_rules]: "agent_wf ag \<Longrightarrow> agent_wf (set_last_input k n ag)"
  by (simp add: agent_wf_def)

lemma wf_record [inv_rules]: "agent_wf ag \<Longrightarrow> agent_wf (record_reply k r ag)"
  by (auto simp: agent_wf_def intro: ok_mono)

definition same_counters :: "agent \<Rightarrow> agent \<Rightarrow> bool" where
  "same_counters ag ag' \<longleftrightarrow> a_config ag' = a_config ag \<and> a_id ag' = a_id ag \<and> a_total_input ag' = a_total_input ag
     \<and> a_total_output ag' = a_total_output ag \<and> a_total_requests ag' = a_total_requests ag"

text \<open>
  The partial reply and the prompt that a continuation pushes are gone when it ends; a reply it
  fails on keeps its text and is marked failed.
\<close>

lemma continue_until_done_keeps:
  assumes "continue_until_done C gen n resp ag w = (resp', chunks, ag', w')"
  shows "history_of k ag' = history_of k ag \<and> same_counters ag ag' \<and> (agent_wf ag \<longrightarrow> agent_wf ag')
    \<and> prefix (rs_content resp) (rs_content resp')
    \<and> (rs_ok resp \<and> \<not> rs_ok resp' \<longrightarrow> rs_error_type resp' \<in> {''cancelled'', ''continuation_failed''})
    \<and> (\<not> rs_ok resp \<longrightarrow> resp' = resp)"
  using assms
proof (induction n arbitrary: resp ag w resp' chunks ag' w')
  case 0
  then show ?case by (simp add: same_counters_def)
next
  case (Suc n)
  show ?case
  proof (cases "rs_ok resp \<and> rs_stop_reason resp = ''max_tokens''")
    case False
    with Suc.prems show ?thesis by (auto simp: same_counters_def)
  next
    case True
    let ?k = "tc_key C"
    obtain b ag1 w1 where mc: "maybe_compact C False ag w = (b, ag1, w1)" by (metis prod_cases3)
    let ?ag2 = "push_message ?k (mk_message ''user'' kContinuePrompt) (push_message ?k (mk_message ''assistant'' (rs_content resp)) ag1)"
    obtain x ch w2 where g: "gen (agent_request C ?ag2) w1 = (x, ch, w2)" by (metis prod_cases3)
    define ag3 where ag3: "ag3 = ?ag2\<lparr>a_histories := (a_histories ?ag2)(?k \<mapsto> butlast (butlast (history_of ?k ?ag2)))\<rparr>"
    have h3: "history_of k ag3 = history_of k ag" for k
      using maybe_compact_keeps(1) [OF mc] by (auto simp: ag3 push_message_def history_of_def butlast_append)
    have c3: "same_counters ag ag3"
      using maybe_compact_keeps [OF mc] by (simp add: ag3 same_counters_def push_message_def)
    have w3: "agent_wf ag3" if "agent_wf ag"
      using maybe_compact_keeps(7) [OF mc that] h3 maybe_compact_keeps(1) [OF mc] by (simp add: agent_wf_def ag3)
    show ?thesis
    proof (cases "rs_ok x")
      case False
      with Suc.prems True mc g have "resp' = continuation_error resp x" "ag' = ag3" by (simp_all add: Let_def ag3)
      with True h3 c3 w3 show ?thesis by (auto simp: continuation_error_def)
    next
      case ok: True
      obtain r ch' ag4 w4 where rec: "continue_until_done C gen n (absorb resp x) (set_last_input ?k (rs_input_tokens x) ag3) w2 = (r, ch', ag4, w4)"
        by (metis prod_cases4)
      with Suc.prems True mc g ok have e: "resp' = r" "ag' = ag4" by (simp_all add: Let_def ag3 del: continue_until_done.simps(1))
      have "same_counters ag ag4" using Suc.IH [OF rec] c3 by (simp add: same_counters_def set_last_input_def)
      moreover have "prefix (rs_content resp) (rs_content r)" using Suc.IH [OF rec] by (auto simp: absorb_def dest: append_prefixD)
      moreover have "rs_ok (absorb resp x)" using True by (simp add: absorb_def)
      ultimately show ?thesis using Suc.IH [OF rec] h3 w3 True e by (auto simp: inv_rules)
    qed
  qed
qed

lemma call_continue_cases:
  assumes "call_continue C gen ag w = (resp, chunks, ag', w')"
  obtains (failed) ag1 w1 b where "maybe_compact C False ag w = (b, ag1, w1)" "gen (agent_request C ag1) w1 = (resp, chunks, w')"
      "\<not> rs_ok resp" "ag' = ag1"
  | (replied) ag1 w1 b r0 ch w2 ch' ag2 where "maybe_compact C False ag w = (b, ag1, w1)"
      "gen (agent_request C ag1) w1 = (r0, ch, w2)" "rs_ok r0" "chunks = ch @ ch'"
      "continue_until_done C gen kMaxContinues r0 (set_last_input (tc_key C) (rs_input_tokens r0) ag1) w2 = (resp, ch', ag2, w')"
      "ag' = record_reply (tc_key C) resp ag2"
proof -
  obtain b ag1 w1 where mc: "maybe_compact C False ag w = (b, ag1, w1)" by (metis prod_cases3)
  obtain r0 ch w2 where g: "gen (agent_request C ag1) w1 = (r0, ch, w2)" by (metis prod_cases3)
  obtain r ch' ag2 w3 where c: "continue_until_done C gen kMaxContinues r0 (set_last_input (tc_key C) (rs_input_tokens r0) ag1) w2 = (r, ch', ag2, w3)"
    by (metis prod_cases4)
  show thesis
  proof (cases "rs_ok r0")
    case True
    with assms mc g c have "resp = r" "chunks = ch @ ch'" "w' = w3" "ag' = record_reply (tc_key C) r ag2"
      by (auto simp: call_continue_def)
    with replied [OF mc g True] c show thesis by blast
  next
    case False
    with assms mc g have "resp = r0" "chunks = ch" "w' = w2" "ag' = ag1" by (simp_all add: call_continue_def)
    with failed [OF mc] g False show thesis by blast
  qed
qed

lemma call_continue_wf [inv_rules]:
  assumes "call_continue C gen ag w = (resp, chunks, ag', w')" and "agent_wf ag"
  shows "agent_wf ag'"
  using assms(1)
proof (cases rule: call_continue_cases)
  case (failed ag1 w1 b)
  with maybe_compact_keeps(7) [OF failed(1) assms(2)] show ?thesis by simp
next
  case (replied ag1 w1 b r0 ch w2 ch' ag2)
  then have "agent_wf (set_last_input (tc_key C) (rs_input_tokens r0) ag1)"
    using maybe_compact_keeps(7) [OF replied(1) assms(2)] by (simp add: wf_set_last)
  with continue_until_done_keeps [OF replied(5)] have "agent_wf ag2" by blast
  with replied show ?thesis by (simp add: wf_record)
qed

lemma op_wf:
  "agent_wf ag \<Longrightarrow> agent_wf (fst (snd (maybe_compact C force ag w)))"
  "agent_wf ag \<Longrightarrow> agent_wf (fst (snd (snd (call_continue C gen ag w))))"
  using maybe_compact_keeps(7) [of C force ag w] apply (cases "maybe_compact C force ag w", simp)
  using call_continue_wf [of C gen ag w] by (cases "call_continue C gen ag w", simp)

lemma on_last_assistant_length [simp]: "length (on_last_assistant f h) = length h"
  by (induction h) auto

lemma wf_same_lengths:
  "agent_wf ag \<Longrightarrow> (\<And>k. compaction_state k ag' = compaction_state k ag) \<Longrightarrow> (\<And>k. length (history_of k ag') = length (history_of k ag))
   \<Longrightarrow> agent_wf ag'"
  by (simp add: agent_wf_def)

lemma empty_compaction_ok [simp]: "compaction_ok empty_compaction n"
  by (simp add: compaction_ok_def empty_compaction_def)

text \<open>
  C34. Every operation of an agent keeps its state well formed: in each conversation the summarised
  prefix lies within the history, and nothing is left out of the model's view without a summary.
\<close>

theorem agent_operations_well_formed:
  assumes "agent_wf ag"
  shows "agent_wf (mk_agent i cfg ccfg) \<and> agent_wf (commit_user_message k parts ag) \<and> agent_wf (set_history k h ag)
    \<and> agent_wf (reset_history k ag) \<and> agent_wf (reset_all_histories ag) \<and> agent_wf (erase_conversation k ag)
    \<and> agent_wf (set_compaction_state k st ag) \<and> agent_wf (set_compaction_pinned_facts k facts ag)
    \<and> agent_wf (snd (take_compaction_notice k ag)) \<and> agent_wf (append_tool_trace k e ag) \<and> agent_wf (append_thinking k delta ag)
    \<and> agent_wf (fst (snd (maybe_compact C force ag w))) \<and> agent_wf (fst (snd (force_compact C facts ag w)))
    \<and> agent_wf (fst (snd (snd (agent_send C parts ag w)))) \<and> agent_wf (fst (snd (snd (agent_stream C parts ag w))))"
proof (intro conjI)
  have pinned: "agent_wf (set_compaction_pinned_facts k facts ag)" for k
    using assms by (simp add: agent_wf_def set_compaction_pinned_facts_def)
  then show "agent_wf (set_compaction_pinned_facts k facts ag)" .
  have commit: "agent_wf (commit_user_message (tc_key C) parts ag)" for C :: "'a turn_ctx"
    using assms by (simp add: commit_user_message_def wf_push)
  show "agent_wf (commit_user_message k parts ag)" using assms by (simp add: commit_user_message_def wf_push)
  show "agent_wf (mk_agent i cfg ccfg)" by (simp add: agent_wf_def mk_agent_def compaction_state_def)
  show "agent_wf (set_history k h ag)" "agent_wf (reset_history k ag)" "agent_wf (reset_all_histories ag)"
    "agent_wf (erase_conversation k ag)" "agent_wf (set_compaction_state k st ag)"
    using assms by (simp_all add: agent_wf_def set_history_def reset_history_def reset_all_histories_def erase_conversation_def
        set_compaction_state_def Let_def history_of_def compaction_state_def sanitize_ok)
  show "agent_wf (snd (take_compaction_notice k ag))"
    using assms by (simp add: take_compaction_notice_def agent_wf_def split: option.split)
  show "agent_wf (append_tool_trace k e ag)" "agent_wf (append_thinking k delta ag)"
    by (rule wf_same_lengths [OF assms]; simp add: append_tool_trace_def append_thinking_def history_of_def get_or_def split: option.split)+
  show "agent_wf (fst (snd (maybe_compact C force ag w)))" using assms by (rule op_wf)
  show "agent_wf (fst (snd (force_compact C facts ag w)))"
    unfolding force_compact_def by (rule op_wf) (simp add: assms pinned)
  show "agent_wf (fst (snd (snd (agent_send C parts ag w))))" "agent_wf (fst (snd (snd (agent_stream C parts ag w))))"
    unfolding agent_send_def agent_stream_def send_continue_def stream_continue_def by (rule op_wf, rule commit)+
qed


section \<open>A small run\<close>

text \<open>A client whose first reply is cut off and whose second completes it.\<close>

definition demo_constitution :: Constitution where
  "demo_constitution = \<lparr>cn_name = ''scout'', cn_role = ''research'', cn_goal = [], cn_rules = [], cn_model = ''m'', cn_max_tokens = 64,
     cn_temperature = 0, cn_max_turns = Some 2, cn_advisor_model = [],
     cn_advisor = \<lparr>av_model = [], av_prompt = [], av_mode = ''off'', av_max_redirects = 2, av_malformed_halts = True\<rparr>,
     cn_presence = default_presence, cn_capabilities = [], cn_system_prompt = []\<rparr>"

definition demo_agent :: agent where "demo_agent = mk_agent ''scout'' demo_constitution default_compaction_config"

definition demo_reply :: "string \<Rightarrow> string \<Rightarrow> ApiResponse" where
  "demo_reply t stop = default_response\<lparr>rs_ok := True, rs_content := t, rs_stop_reason := stop, rs_input_tokens := 3, rs_output_tokens := 2\<rparr>"

definition cut_off_client :: "nat gen" where
  "cut_off_client req n = (if n = 0 then demo_reply ''ab'' ''max_tokens'' else demo_reply ''cd'' ''stop'', [], Suc n)"

definition demo_ctx :: "nat turn_ctx" where
  "demo_ctx = \<lparr>tc_key = ''c'', tc_executor_model = [], tc_complete = (\<lambda>r n. (demo_reply ''s'' ''stop'', n)), tc_stream = cut_off_client\<rparr>"

definition demo_merged :: ApiResponse where
  "demo_merged = default_response\<lparr>rs_ok := True, rs_content := ''abcd'', rs_stop_reason := ''stop'', rs_input_tokens := 6, rs_output_tokens := 4\<rparr>"

lemma demo_no_compaction: "length (history_of ''c'' ag) \<le> 16 \<Longrightarrow> a_compact_cfg ag = default_compaction_config \<Longrightarrow>
  maybe_compact demo_ctx False ag w = (False, ag\<lparr>a_histories := touch ''c'' [] (a_histories ag),
     a_compaction := touch ''c'' empty_compaction (a_compaction ag), a_last_input := touch ''c'' 0 (a_last_input ag)\<rparr>, w)"
  by (simp add: maybe_compact_def wants_compaction_def should_auto_compact_def demo_ctx_def default_compaction_config_def history_of_def Let_def)

lemma demo_run_call:
  "\<exists>ag'. call_continue demo_ctx cut_off_client demo_agent 0 = (demo_merged, [], ag', 2)"
  by (simp add: call_continue_def demo_no_compaction demo_agent_def mk_agent_def history_of_def cut_off_client_def demo_reply_def
      kMaxContinues_def numeral_3_eq_3 set_last_input_def absorb_def demo_merged_def default_response_def push_message_def)
    (simp add: demo_ctx_def Let_def)


theorem agent_operations_well_formed_witness:
  "agent_wf (fst (snd (snd (agent_send demo_ctx [text_part ''hi''] demo_agent 0))))"
proof -
  have "agent_wf demo_agent" by (simp add: agent_wf_def demo_agent_def mk_agent_def compaction_state_def)
  from agent_operations_well_formed [OF this, where C = demo_ctx] show ?thesis by blast
qed

end
