(* ===== verification/Tool_Rounds.thy ===== *)
theory Tool_Rounds
  imports Agent_Turn Writ_Dispatch
begin

text \<open>
  The text a turn builds between its model calls: loop detection over tool results
  (\<open>src/commands.cpp\<close>), the tool summary shown to advisors, the budget rules and the folding of a
  final answer (\<open>src/orchestrator.cpp\<close>).
\<close>

section \<open>Loop detection\<close>

text \<open>
  The region of a command's block that is scanned, without its header line: the first block with
  the command's name, up to that name's end marker or the end of the envelope.
\<close>

definition block_region :: "string \<Rightarrow> string \<Rightarrow> string option" where
  "block_region name envelope =
     (case find_sub (''[/'' @ name) envelope of
        None \<Rightarrow> None
      | Some h \<Rightarrow>
          let e = (case find_from (''[END '' @ map to_upper name @ '']'') envelope h of None \<Rightarrow> length envelope | Some e \<Rightarrow> e) in
          (case find_from [CHR 0x0A] envelope h of
             None \<Rightarrow> None
           | Some body_start \<Rightarrow>
               if e \<le> body_start then None else Some (take (e - (body_start + 1)) (drop (body_start + 1) envelope))))"

definition tool_failed :: "string \<Rightarrow> AgentCommand \<Rightarrow> bool" where
  "tool_failed envelope c =
     (case block_region (c_name c) envelope of None \<Rightarrow> False | Some r \<Rightarrow> list_ex (prefix ''ERR:'') (getlines r))"

definition failed_tool_signatures :: "AgentCommand list \<Rightarrow> string \<Rightarrow> (string \<times> string) list" where
  "failed_tool_signatures cmds envelope = map (\<lambda>c. (c_name c, c_args c)) (filter (tool_failed envelope) cmds)"

definition signature_text :: "string \<times> string \<Rightarrow> string" where
  "signature_text p = take 200 (''/'' @ fst p @ '' '' @ snd p)"

fun collect_repeats :: "string list \<Rightarrow> (string \<times> string) list \<Rightarrow> (string \<times> string) list \<Rightarrow> string list" where
  "collect_repeats repeats [] previous = repeats"
| "collect_repeats repeats (p # current) previous =
     collect_repeats (if p \<in> set previous \<and> signature_text p \<notin> set repeats then repeats @ [signature_text p] else repeats) current previous"

definition repeated_failed_tool_signatures :: "(string \<times> string) list \<Rightarrow> (string \<times> string) list \<Rightarrow> string list" where
  "repeated_failed_tool_signatures current previous = collect_repeats [] current previous"

definition format_loop_detected_warning :: "string list \<Rightarrow> string" where
  "format_loop_detected_warning repeats =
     (if repeats = [] then []
      else ''[LOOP DETECTED]'' @ lf @ ''The following tool calls have ERR'' @ [CHR 0x27] @ ''d twice in a row '' @ em_dash
        @ '' repeating them won'' @ [CHR 0x27] @ ''t change the result.  Change argument, change tool, ask for help, or stop trying:'' @ lf
        @ concat (map (\<lambda>r. ''  '' @ r @ lf) repeats) @ ''[END LOOP DETECTED]'' @ lf @ lf)"

text \<open>The warning and the new value of \<open>prev_failed\<close>.\<close>

definition maybe_loop_detected_preamble ::
  "AgentCommand list \<Rightarrow> string \<Rightarrow> (string \<times> string) list \<Rightarrow> string \<times> (string \<times> string) list" where
  "maybe_loop_detected_preamble cmds envelope prev_failed =
     (let curr = failed_tool_signatures cmds envelope
      in (format_loop_detected_warning (repeated_failed_tool_signatures curr prev_failed), curr))"

section \<open>Summaries\<close>

definition shorten :: "nat \<Rightarrow> string \<Rightarrow> string" where
  "shorten n s = (if n < length s then take (n - 3) s @ ''...'' else s)"

definition result_snippet :: "string \<Rightarrow> string \<Rightarrow> string" where
  "result_snippet name results =
     (case find_sub (''[/'' @ name) results of
        None \<Rightarrow> []
      | Some h \<Rightarrow>
          (case find_from [CHR 0x0A] results h of
             None \<Rightarrow> []
           | Some b \<Rightarrow>
               let s = take 200 (drop (b + 1) results);
                   s1 = (case find_sub ''[END '' s of None \<Rightarrow> s | Some e \<Rightarrow> take e s)
               in shorten 200 (map (\<lambda>ch. if ch = CHR 0x0A then CHR '' '' else ch) s1)))"

definition summarize_tool_calls :: "AgentCommand list \<Rightarrow> string \<Rightarrow> string" where
  "summarize_tool_calls cmds results =
     concat (map (\<lambda>c.
       let args = shorten 80 (c_args c); snippet = result_snippet (c_name c) results in
       ''- '' @ c_name c @ (if args = [] then [] else '' args='' @ args)
       @ (if snippet = [] then [] else '' result='' @ snippet) @ lf) cmds)"

definition kEllipsis :: string where "kEllipsis = [CHR 0xE2, CHR 0x80, CHR 0xA6]"

definition is_line_white :: "char \<Rightarrow> bool" where
  "is_line_white c \<longleftrightarrow> c = CHR 0x0A \<or> c = CHR 0x0D \<or> c = CHR 0x09"

fun preview_loop :: "nat \<Rightarrow> string \<Rightarrow> bool \<Rightarrow> string \<Rightarrow> string" where
  "preview_loop m out last_space [] = out"
| "preview_loop m out last_space (c # cs) =
     (if m \<le> length out then out
      else if is_line_white c then
        preview_loop m (if last_space then out else out @ '' '') True cs
      else preview_loop m (out @ [c]) (c = CHR '' '') cs)"

definition make_terminating_preview :: "string \<Rightarrow> string" where
  "make_terminating_preview s =
     (let out = preview_loop 120 [] True s in if length out = 120 then out @ kEllipsis else out)"

section \<open>Budgets\<close>

text \<open>\<open>errno\<close> is set when the value is outside \<open>long\<close>, which the range test refuses as well.\<close>

definition env_positive_int :: "env_map \<Rightarrow> string \<Rightarrow> int" where
  "env_positive_int env name =
     (case env name of
        None \<Rightarrow> 0
      | Some e \<Rightarrow>
          (case strtol10 e of
             None \<Rightarrow> 0
           | Some (v, rest) \<Rightarrow> if e = [] \<or> rest \<noteq> [] \<or> v \<le> 0 \<or> 1000000 < v then 0 else v))"

definition max_delegation_depth :: "env_map \<Rightarrow> nat" where
  "max_delegation_depth env =
     (let v = env_positive_int env ''ARBITER_MAX_DELEGATION_DEPTH'' in if 0 < v then nat v else 2)"

definition resolve_max_turns :: "env_map \<Rightarrow> Constitution \<Rightarrow> nat \<Rightarrow> nat" where
  "resolve_max_turns env c depth =
     (let from_env = env_positive_int env ''ARBITER_MAX_TURNS''; rest = (if from_env \<noteq> 0 then nat from_env else if 0 < depth then 12 else 6) in
      case cn_max_turns c of
        None \<Rightarrow> rest
      | Some n \<Rightarrow> if 0 < n then nat n else rest)"

definition kOneToolRoundLeftNote :: string where "kOneToolRoundLeftNote = ''1 tool round left; finish up''"

definition kBudgetExhaustedPrompt :: string where
  "kBudgetExhaustedPrompt = ''Tool budget exhausted. Reply now with your best final answer from what you have; no tool calls.''"

definition ends_line :: "string \<Rightarrow> string" where
  "ends_line s = (if s \<noteq> [] \<and> last s \<noteq> CHR 0x0A then s @ lf else s)"

definition append_one_tool_round_note :: "string \<Rightarrow> string" where
  "append_one_tool_round_note envelope = ends_line envelope @ kOneToolRoundLeftNote @ lf"

definition format_delegation_result :: "ApiResponse \<Rightarrow> string" where
  "format_delegation_result resp =
     (if rs_ok resp then rs_content resp
      else if rs_content resp \<noteq> [] then ''[PARTIAL: '' @ rs_error_type resp @ '': '' @ rs_error resp @ '']'' @ lf @ rs_content resp
      else ''ERR: '' @ rs_error resp)"

definition fold_budget_final :: "ApiResponse \<Rightarrow> string \<Rightarrow> int \<Rightarrow> int \<Rightarrow> bool \<Rightarrow> ApiResponse" where
  "fold_budget_final resp prior_content prior_in prior_out had_tools =
     (let r = resp\<lparr>rs_had_tool_calls := (had_tools \<or> rs_had_tool_calls resp), rs_input_tokens := rs_input_tokens resp + prior_in,
            rs_output_tokens := rs_output_tokens resp + prior_out,
            rs_content := (if prior_content \<noteq> [] \<and> rs_content resp \<noteq> [] then ends_line prior_content else prior_content) @ rs_content resp\<rparr>
      in if rs_error_type r = ''cancelled'' then r
         else let r1 = r\<lparr>rs_budget_exhausted := True\<rparr>
              in if rs_ok r1 then r1\<lparr>rs_error := [], rs_error_type := []\<rparr> else r1)"

section \<open>What the detector finds\<close>

lemma collect_repeats_set:
  "set (collect_repeats rs cur prev) = set rs \<union> signature_text ` (set cur \<inter> set prev) \<and> (distinct rs \<longrightarrow> distinct (collect_repeats rs cur prev))"
  by (induction cur arbitrary: rs) auto

lemma repeated_exact:
  "set (repeated_failed_tool_signatures cur prev) = signature_text ` (set cur \<inter> set prev)"
  "distinct (repeated_failed_tool_signatures cur prev)"
  using collect_repeats_set [of "[]" cur prev] by (simp_all add: repeated_failed_tool_signatures_def)

text \<open>
  Every command of one name is judged by the first block of that name: of two calls with the same
  name, both count as failed or neither does.
\<close>

lemma same_name_same_verdict:
  assumes "c \<in> set cmds" "d \<in> set cmds" and "c_name c = c_name d"
  shows "(c_name c, c_args c) \<in> set (failed_tool_signatures cmds envelope)
    \<longleftrightarrow> (c_name d, c_args d) \<in> set (failed_tool_signatures cmds envelope)"
proof -
  have v: "tool_failed envelope x = tool_failed envelope y" if "c_name x = c_name y" for x y
    using that by (simp add: tool_failed_def)
  have "(c_name x, c_args x) \<in> set (failed_tool_signatures cmds envelope) \<longleftrightarrow> tool_failed envelope x" if "x \<in> set cmds" for x
  proof
    assume "(c_name x, c_args x) \<in> set (failed_tool_signatures cmds envelope)"
    then obtain y where "tool_failed envelope y" "c_name y = c_name x" by (auto simp: failed_tool_signatures_def)
    with v show "tool_failed envelope x" by blast
  qed (use that in \<open>simp add: failed_tool_signatures_def\<close>)
  from this [OF assms(1)] this [OF assms(2)] v [OF assms(3)] show ?thesis by blast
qed

end
