(* ===== verification/Orchestrator.thy ===== *)
theory Orchestrator
  imports Tool_Rounds
begin

text \<open>
  The turn loop (\<open>src/orchestrator.cpp\<close>): delegation, fan-out, advisor consults and the gate,
  presence notes, recovery of cut-off writes, and the loop \<open>run_dispatch\<close> that alternates model calls
  and tool batches.

  Agents are objects that several callers mutate, so they live in a heap under references.  A trace
  records the callbacks in order, together with the model calls, tool batches and commits; a
  callback that is not set drops its entries.  Cancellation is a test of the world behind the
  callbacks.  Intent routing is off: the turns modelled are those it makes no decision for
  (continuations, delegated turns, a constitution with intent mode off), and callbacks do not throw.
  Chunks go to the stream consumer raw, without the display filter.  The registry
  is listed in order of creation, an order that the hash map of the source leaves open.  The children of a \<open>/parallel\<close>
  block, which the source runs in threads on agents and caches of their own, run in the order of the
  block.
\<close>

section \<open>State\<close>

datatype aref = Master | Registered string | Ephemeral nat

datatype stream_status = EndOk | EndCancelled | EndFailed

record AdvisorEvent =
  ae_agent :: string
  ae_stream :: nat
  ae_kind :: string
  ae_detail :: string
  ae_preview :: string
  ae_malformed :: bool

datatype purpose = Main | Resume | FinalAnswer

datatype orch_event =
    StreamStart string nat nat | StreamEnd string nat stream_status | AgentStart string | Progress string string
  | Cost string string ApiResponse | AdvisorNote AdvisorEvent | PresenceNote string string nat bool string bool
  | Escalation string nat string | Checkpoint | StreamText string nat string | IterationBoundary
  | Called nat purpose | Ran nat "AgentCommand list" | Committed nat string

record 'w orch =
  o_world :: 'w
  o_heap :: "aref \<Rightarrow> agent option"
  o_roster :: "string list"
  o_log :: "orch_event list"
  o_next_stream :: nat
  o_next_eph :: nat

record 'w orch_env =
  oe_key :: string
  oe_complete :: "ApiRequest \<Rightarrow> 'w \<Rightarrow> ApiResponse \<times> 'w"
  oe_stream :: "ApiRequest \<Rightarrow> 'w \<Rightarrow> ApiResponse \<times> string list \<times> 'w"
  oe_wiring :: "'w wiring"
  oe_env :: env_map
  oe_fnmatch :: "string \<Rightarrow> string \<Rightarrow> bool"
  oe_agent_stream_cb :: bool
  oe_compact_cfg :: CompactionConfig
  oe_remote_roster :: string
  oe_clear_cancel :: "'w \<Rightarrow> 'w"

definition log1 :: "orch_event \<Rightarrow> 'w orch \<Rightarrow> 'w orch" where
  "log1 e st = st\<lparr>o_log := o_log st @ [e]\<rparr>"

definition log_all :: "orch_event list \<Rightarrow> 'w orch \<Rightarrow> 'w orch" where
  "log_all es st = st\<lparr>o_log := o_log st @ es\<rparr>"

definition turn_is_cancelled :: "'w orch_env \<Rightarrow> 'w orch \<Rightarrow> bool" where
  "turn_is_cancelled E st = w_cancelled (oe_wiring E) (o_world st)"

definition agent_ref :: "string \<Rightarrow> aref" where
  "agent_ref i = (if i = ''index'' then Master else Registered i)"

definition has_agent :: "string \<Rightarrow> 'w orch \<Rightarrow> bool" where
  "has_agent i st \<longleftrightarrow> o_heap st (Registered i) \<noteq> None"

definition create_agent :: "'w orch_env \<Rightarrow> string \<Rightarrow> Constitution \<Rightarrow> 'w orch \<Rightarrow> string + 'w orch" where
  "create_agent E i cfg st =
     (if i = [] then Inl ''Agent ID must not be empty''
      else case find (\<lambda>c. \<not> (is_digit c \<or> (65 \<le> code c \<and> code c \<le> 90) \<or> (97 \<le> code c \<and> code c \<le> 122) \<or> c = CHR ''_'' \<or> c = CHR ''-'')) i of
        Some c \<Rightarrow> Inl (''Agent ID contains invalid character: '' @ [CHR 0x27, c, CHR 0x27] @ '' '' @ em_dash @ '' use [a-zA-Z0-9_-]'')
      | None \<Rightarrow>
          if has_agent i st then Inl (''Agent already exists: '' @ i)
          else Inr (st\<lparr>o_heap := (o_heap st)(Registered i \<mapsto> mk_agent i cfg (oe_compact_cfg E)), o_roster := o_roster st @ [i]\<rparr>))"

definition remove_agent :: "string \<Rightarrow> 'w orch \<Rightarrow> 'w orch" where
  "remove_agent i st = st\<lparr>o_heap := (o_heap st)(Registered i := None), o_roster := filter (\<lambda>x. x \<noteq> i) (o_roster st)\<rparr>"

definition status_of :: "ApiResponse \<Rightarrow> stream_status" where
  "status_of resp = (if rs_ok resp then EndOk else if rs_error_type resp = ''cancelled'' then EndCancelled else EndFailed)"

definition cancelled_turn :: "string \<Rightarrow> int \<Rightarrow> int \<Rightarrow> ApiResponse" where
  "cancelled_turn content i out = default_response\<lparr>rs_ok := False, rs_error_type := ''cancelled'', rs_error := ''cancelled'',
     rs_content := content, rs_input_tokens := i, rs_output_tokens := out\<rparr>"

section \<open>Calls on agents\<close>

definition turn_context :: "'w orch_env \<Rightarrow> 'w turn_ctx" where
  "turn_context E = \<lparr>tc_key = oe_key E, tc_executor_model = [], tc_complete = oe_complete E, tc_stream = oe_stream E\<rparr>"

definition on_agent :: "aref \<Rightarrow> (agent \<Rightarrow> agent) \<Rightarrow> 'w orch \<Rightarrow> 'w orch" where
  "on_agent r f st = st\<lparr>o_heap := (o_heap st)(r := map_option f (o_heap st r))\<rparr>"

text \<open>A call through an agent; its chunks are handed to the consumer of the stream \<open>sid\<close>.\<close>

definition call_agent ::
  "'w orch_env \<Rightarrow> aref \<Rightarrow> purpose \<Rightarrow> string \<Rightarrow> nat \<Rightarrow> ('w turn_ctx \<Rightarrow> agent \<Rightarrow> 'w \<Rightarrow> ApiResponse \<times> string list \<times> agent \<times> 'w) \<Rightarrow> 'w orch
   \<Rightarrow> ApiResponse \<times> 'w orch" where
  "call_agent E r p i sid f st =
     (case o_heap st r of
        None \<Rightarrow> (default_response, log1 (Called sid p) st)
      | Some ag \<Rightarrow>
          let (resp, chunks, ag', w') = f (turn_context E) ag (o_world st)
          in (resp, log_all (map (StreamText i sid) (filter (\<lambda>c. c \<noteq> []) chunks))
                (log1 (Called sid p) (st\<lparr>o_world := w', o_heap := (o_heap st)(r \<mapsto> ag')\<rparr>))))"

definition commit_text :: "'w orch_env \<Rightarrow> aref \<Rightarrow> nat \<Rightarrow> ContentPart list \<Rightarrow> 'w orch \<Rightarrow> 'w orch" where
  "commit_text E r sid parts st =
     log1 Checkpoint (log1 (Committed sid (m_content (user_message parts))) (on_agent r (commit_user_message (oe_key E) parts) st))"

definition config_of :: "string \<Rightarrow> 'w orch \<Rightarrow> Constitution option" where
  "config_of i st = map_option a_config (o_heap st (agent_ref i))"

definition plain_complete :: "'w orch_env \<Rightarrow> ApiRequest \<Rightarrow> 'w orch \<Rightarrow> ApiResponse \<times> 'w orch" where
  "plain_complete E req st = (let (resp, w') = oe_complete E req (o_world st) in (resp, st\<lparr>o_world := w'\<rparr>))"

text \<open>A callback of the embedding program that is run outside the dispatcher.\<close>

definition probe :: "'w orch_env \<Rightarrow> ext_call \<Rightarrow> 'w orch \<Rightarrow> string \<times> 'w orch" where
  "probe E c st = (let (a, w', m) = w_answer (oe_wiring E) (o_world st) None c in (text_of a, st\<lparr>o_world := w'\<rparr>))"

section \<open>Advisor\<close>

definition advisor_prompt :: string where
  "advisor_prompt =
     ''You are an advisor consulted by another AI agent.  Answer the ''
     @ ''question directly and concisely.  Prescribe a specific option ''
     @ ''when the question calls for one; if you genuinely can'' @ [CHR 0x27] @ ''t decide, ''
     @ ''state the tradeoff in one sentence and name the better-odds ''
     @ ''path.  No preamble.  No pleasantries.  No restating the ''
     @ ''question.  No offers to help further '' @ em_dash @ '' the executor will ''
     @ ''re-engage if it needs more.''"

definition advise :: "'w orch_env \<Rightarrow> string \<Rightarrow> nat \<Rightarrow> string \<Rightarrow> 'w orch \<Rightarrow> string \<times> 'w orch" where
  "advise E caller sid question st =
     (case config_of caller st of
        None \<Rightarrow> (''ERR: no agent '' @ [CHR 0x27] @ caller @ [CHR 0x27], st)
      | Some cfg \<Rightarrow>
          if cn_advisor_model cfg = [] then (''ERR: no advisor_model configured for '' @ [CHR 0x27] @ caller @ [CHR 0x27], st)
          else let (resp, st1) = plain_complete E (default_request\<lparr>rq_model := cn_advisor_model cfg, rq_max_tokens := 1024,
                     rq_include_temperature := False, rq_system_prompt := advisor_prompt, rq_messages := [mk_message ''user'' question]\<rparr>) st
               in if \<not> rs_ok resp then (''ERR: '' @ kAdvisorProviderError, st1)
                  else (rs_content resp, log1 (AdvisorNote \<lparr>ae_agent = caller, ae_stream = sid, ae_kind = ''consult'', ae_detail = question,
                          ae_preview = [], ae_malformed = False\<rparr>) (log1 (Cost caller (cn_advisor_model cfg) resp) st1)))"

definition gate_invoke :: "'w orch_env \<Rightarrow> string \<Rightarrow> AdvisorGateInput \<Rightarrow> 'w orch \<Rightarrow> AdvisorGateOutput \<times> 'w orch" where
  "gate_invoke E caller gi st =
     (case config_of caller st of
        None \<Rightarrow> (gate_default\<lparr>go_kind := Halt, go_text := ''no agent '' @ [CHR 0x27] @ caller @ [CHR 0x27] @ '' for gate'', go_malformed := True\<rparr>, st)
      | Some cfg \<Rightarrow>
          let model = (if av_model (cn_advisor cfg) = [] then cn_advisor_model cfg else av_model (cn_advisor cfg));
              (out, billed, st1) = run_advisor_gate (plain_complete E) model (av_prompt (cn_advisor cfg)) gi st
          in (out, case billed of None \<Rightarrow> st1 | Some resp \<Rightarrow> log1 (Cost caller model resp) st1))"

text \<open>The verdict on a terminating turn: the redirect budget, the call, and the policy on malformed replies.\<close>

definition gate_verdict ::
  "'w orch_env \<Rightarrow> AdvisorConfig \<Rightarrow> string \<Rightarrow> nat \<Rightarrow> int \<Rightarrow> AdvisorGateInput \<Rightarrow> 'w orch \<Rightarrow> AdvisorGateOutput \<times> 'w orch" where
  "gate_verdict E gcfg caller sid redirects_used gi st =
     (let exhausted = (av_max_redirects gcfg \<le> redirects_used);
          (sig, st1) =
            (if exhausted then
               (gate_default\<lparr>go_kind := Halt,
                  go_text := ''advisor redirect budget exhausted (max '' @ to_string (av_max_redirects gcfg) @ '')''\<rparr>, st)
             else let (s, st') = gate_invoke E caller gi st in
               (if go_malformed s \<and> av_malformed_halts gcfg \<and> go_kind s \<noteq> Halt
                then s\<lparr>go_kind := Halt, go_text := ''advisor returned unparseable signal: '' @ take 200 (go_raw s)\<rparr> else s, st'));
          ev = \<lparr>ae_agent = caller, ae_stream = sid,
                ae_kind = (if exhausted then ''gate_budget'' else case go_kind sig of Continue \<Rightarrow> ''gate_continue'' | Redirect \<Rightarrow> ''gate_redirect''
                           | Halt \<Rightarrow> ''gate_halt''),
                ae_detail = (if \<not> exhausted \<and> go_kind sig = Continue then [] else go_text sig),
                ae_preview = make_terminating_preview (gi_terminating_text gi), ae_malformed = go_malformed sig\<rparr>
      in (sig, log1 (AdvisorNote ev) st1))"

definition redirect_text :: "string \<Rightarrow> string" where
  "redirect_text t = ''[advisor redirect '' @ em_dash @ '' synthetic user turn]'' @ lf @ t @ lf @ ''[end advisor redirect]''"

section \<open>Presence\<close>

record watcher =
  wt_id :: string
  wt_name :: string
  wt_goal :: string
  wt_rules :: string
  wt_model :: string
  wt_cfg :: PresenceConfig

definition take_watcher :: "'w orch_env \<Rightarrow> string \<Rightarrow> 'w orch \<Rightarrow> string \<times> aref \<Rightarrow> watcher option" where
  "take_watcher E working st p =
     (case o_heap st (snd p) of
        None \<Rightarrow> None
      | Some ag \<Rightarrow>
          let i = fst p; c = a_config ag in
          if i = working \<or> \<not> presence_is_active (cn_presence c) \<or> \<not> presence_watch_matches (oe_fnmatch E) (cn_presence c) working then None
          else Some \<lparr>wt_id = i, wt_name = (if cn_name c = [] then i else cn_name c), wt_goal = cn_goal c,
                 wt_rules = concat (map (\<lambda>r. ''- '' @ r @ lf) (cn_rules c)), wt_model = presence_model (cn_presence c) (cn_model c),
                 wt_cfg = cn_presence c\<rparr>)"

definition watchers :: "'w orch_env \<Rightarrow> string \<Rightarrow> 'w orch \<Rightarrow> watcher list" where
  "watchers E working st =
     take kMaxPresenceWatchersPerCheckpoint (List.map_filter (take_watcher E working st) ((''index'', Master) # map (\<lambda>i. (i, Registered i)) (o_roster st)))"

fun review_loop ::
  "'w orch_env \<Rightarrow> PresenceInput \<Rightarrow> nat \<Rightarrow> watcher list \<Rightarrow> (string \<Rightarrow> int) \<Rightarrow> 'w orch \<Rightarrow> string \<times> (string \<Rightarrow> int) \<times> 'w orch" where
  "review_loop E base sid [] used st = ([], used, st)"
| "review_loop E base sid (w # ws) used st =
     (if turn_is_cancelled E st then ([], used, st)
      else if wt_model w = [] \<or> pc_max_notes_per_turn (wt_cfg w) \<le> used (wt_id w) then review_loop E base sid ws used st
      else let i = base\<lparr>pi_watcher_id := wt_id w, pi_watcher_name := wt_name w, pi_watcher_goal := wt_goal w, pi_watcher_rules := wt_rules w\<rparr>;
               (out, billed, st1) = run_presence_review (plain_complete E) (wt_model w) (pc_prompt (wt_cfg w)) i st;
               st2 = (case billed of None \<Rightarrow> st1 | Some resp \<Rightarrow> log1 (Cost (wt_id w) (wt_model w) resp) st1);
               speaks = (po_kind out = Context \<and> po_text out \<noteq> []);
               st3 = log1 (PresenceNote (wt_id w) (pi_working_agent_id base) sid (po_kind out = Context) (if speaks then po_text out else [])
                             (po_malformed out)) st2;
               (rest, used', st') = review_loop E base sid ws (if speaks then used(wt_id w := used (wt_id w) + 1) else used) st3
           in ((if speaks then format_presence_injection (wt_name w) (po_text out) else []) @ rest, used', st'))"

definition collect_presence_notes ::
  "'w orch_env \<Rightarrow> string \<Rightarrow> string \<Rightarrow> string \<Rightarrow> string \<Rightarrow> nat \<Rightarrow> (string \<Rightarrow> int) \<Rightarrow> 'w orch \<Rightarrow> string \<times> (string \<Rightarrow> int) \<times> 'w orch" where
  "collect_presence_notes E working task recent summary sid used st =
     review_loop E \<lparr>pi_watcher_id = [], pi_watcher_name = [], pi_watcher_goal = [], pi_watcher_rules = [], pi_working_agent_id = working,
        pi_working_agent_role = (case config_of working st of None \<Rightarrow> [] | Some c \<Rightarrow> cn_role c), pi_original_task = task,
        pi_recent_text = recent, pi_tool_summary = summary\<rparr> sid (watchers E working st) used st"

section \<open>Delegation\<close>

definition useful :: "string \<Rightarrow> string \<Rightarrow> bool" where
  "useful empty_mark body \<longleftrightarrow> body \<noteq> [] \<and> \<not> prefix ''ERR:'' body \<and> \<not> prefix empty_mark body"

definition probe_if :: "'w orch_env \<Rightarrow> bool \<Rightarrow> ext_call \<Rightarrow> string \<Rightarrow> 'w orch \<Rightarrow> string \<times> 'w orch" where
  "probe_if E wired c empty_mark st =
     (if wired then (let (body, st1) = probe E c st in (if useful empty_mark body then body else [], st1)) else ([], st))"

definition delegation_context :: "string \<Rightarrow> string \<Rightarrow> nat \<Rightarrow> nat \<Rightarrow> string \<Rightarrow> string \<Rightarrow> string \<Rightarrow> string" where
  "delegation_context query by depth max_depth memory todos msg =
     (if query = [] then msg
      else ''[DELEGATION CONTEXT]'' @ lf @ ''Original request: '' @ take 200 query @ lf @ ''Delegated by: '' @ by @ lf
        @ ''Pipeline depth: '' @ to_string (int depth + 1) @ ''/'' @ to_string (int max_depth) @ lf
        @ (if memory = [] then []
           else ''Pipeline memory (entries written by prior agents this conversation '' @ em_dash
             @ '' use /mem entry #<id> to read full content before searching or restating from training):'' @ lf @ ends_line memory)
        @ (if todos = [] then []
           else ''Open todos (mark progress as you go '' @ em_dash @ '' /todo start <id>, /todo done <id>):'' @ lf @ ends_line todos)
        @ ''[END DELEGATION CONTEXT]'' @ lf @ lf @ msg)"

definition enrich :: "'w orch_env \<Rightarrow> string \<Rightarrow> string \<Rightarrow> nat \<Rightarrow> string \<Rightarrow> string \<Rightarrow> 'w orch \<Rightarrow> string \<times> 'w orch" where
  "enrich E caller by depth query msg st =
     (let (memory, st1) = probe_if E (w_mem_reader (oe_wiring E)) (MemReader ''pipeline-entries'' [] caller) ''(no entries'' st;
          (todos, st2) = probe_if E (w_todo (oe_wiring E)) (TodoCb ''list'' [] caller) ''(no todos)'' st1
      in (delegation_context query by depth (max_delegation_depth (oe_env E)) memory todos msg, st2))"

text \<open>
  The turn of a delegated agent, as the invokers call it: agent, public id, message, depth, original
  query, replay cache and state.  \<open>None\<close> stands for the depth limit.
\<close>

type_synonym 'w runner = "aref \<Rightarrow> string \<Rightarrow> string \<Rightarrow> nat \<Rightarrow> string \<Rightarrow> cache \<Rightarrow> 'w orch \<Rightarrow> ApiResponse \<times> cache \<times> 'w orch"

definition quoted :: "string \<Rightarrow> string" where "quoted s = [CHR 0x27] @ s @ [CHR 0x27]"

definition delegate ::
  "'w orch_env \<Rightarrow> 'w runner option \<Rightarrow> string \<Rightarrow> nat \<Rightarrow> string \<Rightarrow> string \<Rightarrow> string \<Rightarrow> cache \<Rightarrow> 'w orch \<Rightarrow> string \<times> cache \<times> 'w orch" where
  "delegate E sub caller depth query sub_id sub_msg m st =
     (case sub of
        None \<Rightarrow> (''ERR: delegation depth limit reached (max '' @ to_string (int (max_delegation_depth (oe_env E))) @ '' levels)'', m, st)
      | Some run \<Rightarrow>
          if sub_id = caller then (''ERR: agent cannot invoke itself'', m, st)
          else if sub_id = ''index'' then (''ERR: index cannot be delegated to'', m, st)
          else if \<not> has_agent sub_id st then (''ERR: no agent '' @ quoted sub_id, m, st)
          else let (msg, st1) = enrich E caller caller depth query sub_msg st;
                   (resp, m', st2) = run (Registered sub_id) sub_id msg (depth + 1) (if query = [] then msg else query) m st1
               in (format_delegation_result resp, m', st2))"

text \<open>One child of \<open>/parallel\<close>: a fresh agent from the registered constitution, with its own cache.\<close>

definition run_child ::
  "'w orch_env \<Rightarrow> 'w runner \<Rightarrow> string \<Rightarrow> nat \<Rightarrow> string \<Rightarrow> string \<times> string \<Rightarrow> 'w orch \<Rightarrow> string \<times> 'w orch" where
  "run_child E run caller depth query kid st =
     (let (sub_id, sub_msg) = kid in
      if sub_id = ''index'' then (''ERR: index cannot be delegated to'', st)
      else case o_heap st (Registered sub_id) of
        None \<Rightarrow> (''ERR: no agent '' @ quoted sub_id, st)
      | Some ag \<Rightarrow>
          let (msg, st1) = enrich E caller (caller @ '' (/parallel)'') depth query sub_msg st;
              r = Ephemeral (o_next_eph st1);
              st2 = st1\<lparr>o_heap := (o_heap st1)(r \<mapsto> mk_agent sub_id (a_config ag) (oe_compact_cfg E)), o_next_eph := o_next_eph st1 + 1\<rparr>;
              (resp, m', st3) = run r sub_id msg (depth + 1) (if query = [] then sub_msg else query) (Some Map.empty) st2
          in (format_delegation_result resp, st3\<lparr>o_heap := (o_heap st3)(r := None)\<rparr>))"

fun run_children ::
  "'w orch_env \<Rightarrow> 'w runner \<Rightarrow> string \<Rightarrow> nat \<Rightarrow> string \<Rightarrow> (string \<times> string) list \<Rightarrow> 'w orch \<Rightarrow> string list \<times> 'w orch" where
  "run_children E run caller depth query [] st = ([], st)"
| "run_children E run caller depth query (k # ks) st =
     (let (r, st1) = run_child E run caller depth query k st; (rs, st2) = run_children E run caller depth query ks st1 in (r # rs, st2))"

definition fan_out ::
  "'w orch_env \<Rightarrow> 'w runner option \<Rightarrow> string \<Rightarrow> nat \<Rightarrow> string \<Rightarrow> (string \<times> string) list \<Rightarrow> 'w orch \<Rightarrow> string list \<times> 'w orch" where
  "fan_out E sub caller depth query kids st =
     (case sub of
        None \<Rightarrow> (replicate (length kids) (''ERR: /parallel cannot delegate past depth '' @ to_string (int (max_delegation_depth (oe_env E)))), st)
      | Some run \<Rightarrow>
          if kMaxParallelChildren < length kids then
            ([''ERR: /parallel fan-out exceeds '' @ to_string (int kMaxParallelChildren) @ '' children''], st)
          else run_children E run caller depth query kids st)"

text \<open>
  The callbacks a turn hands to the dispatcher: delegation, fan-out and consults are its own, the
  others are those of the embedding program.
\<close>

definition turn_answer ::
  "'w orch_env \<Rightarrow> 'w runner option \<Rightarrow> string \<Rightarrow> nat \<Rightarrow> nat \<Rightarrow> string \<Rightarrow> 'w orch \<Rightarrow> cache \<Rightarrow> ext_call \<Rightarrow> answer \<times> 'w orch \<times> cache" where
  "turn_answer E sub caller sid depth query st m c =
     (case c of
        AgentInvoke sub_id msg \<Rightarrow> let (t, m', st') = delegate E sub caller depth query sub_id msg m st in (AText t, st', m')
      | Parallel kids \<Rightarrow> let (ts, st') = fan_out E sub caller depth query kids st in (ATexts ts, st', m)
      | Advise question \<Rightarrow> let (t, st') = advise E caller sid question st in (AText t, st', m)
      | _ \<Rightarrow> let (a, w', m') = w_answer (oe_wiring E) (o_world st) m c in (a, st\<lparr>o_world := w'\<rparr>, m'))"

definition turn_wiring ::
  "'w orch_env \<Rightarrow> 'w runner option \<Rightarrow> string \<Rightarrow> nat \<Rightarrow> nat \<Rightarrow> string \<Rightarrow> string list \<Rightarrow> bool \<Rightarrow> 'w orch wiring" where
  "turn_wiring E sub caller sid depth query caps images =
     (let B = oe_wiring E in
      \<lparr>w_answer = turn_answer E sub caller sid depth query, w_cancelled = turn_is_cancelled E, w_agent_id = caller, w_capabilities = caps,
       w_agent = True, w_confirm = w_confirm B, w_advisor = True, w_pane = w_pane B, w_write_interceptor = w_write_interceptor B,
       w_exec_disabled = w_exec_disabled B, w_parallel = True, w_mem_reader = w_mem_reader B, w_mem_writer = w_mem_writer B,
       w_mcp = w_mcp B, w_scratchpad = w_scratchpad B, w_search = w_search B, w_artifact_writer = w_artifact_writer B,
       w_artifact_reader = w_artifact_reader B, w_artifact_lister = w_artifact_lister B, w_a2a = w_a2a B, w_scheduler = w_scheduler B,
       w_todo = w_todo B, w_lesson = w_lesson B, w_exec_invoker = w_exec_invoker B, w_images = images, w_root_provider = w_root_provider B,
       w_host_exec_surface = w_host_exec_surface B, w_resolver = w_resolver B, w_html_to_text = w_html_to_text B,
       w_help_index = w_help_index B, w_help_for_topic = w_help_for_topic B, w_hash = w_hash B, w_display_width = w_display_width B,
       w_trim_to_cols = w_trim_to_cols B\<rparr>)"

text \<open>A tool batch: the envelope, the images, the cache and the state it leaves.\<close>

definition run_tools ::
  "'w orch wiring \<Rightarrow> nat \<Rightarrow> AgentCommand list \<Rightarrow> cache \<Rightarrow> 'w orch \<Rightarrow> string \<times> (string \<times> string) list \<times> cache \<times> 'w orch" where
  "run_tools W sid cmds m st =
     (let s = execute_agent_commands W cmds \<lparr>d_world = log1 (Ran sid cmds) st, d_calls = [], d_cache = m, d_fetches = 0, d_searches = 0,
                d_advises = 0, d_images = [], d_out = [], d_events = [], d_seq = 0\<rparr>
      in (d_out s, d_images s, d_cache s, d_world s))"

section \<open>Cut-off writes\<close>

definition resume_prompt :: "string \<Rightarrow> string" where
  "resume_prompt path =
     (let q = [CHR 0x60] in
      ''Your previous response was cut off mid-file while writing to '' @ q @ path @ q @ ''.  The '' @ q @ ''/endwrite'' @ q
      @ '' sentinel was never emitted, so the file body is incomplete.'' @ lf @ lf
      @ ''Resume by emitting ONLY the remaining file content '' @ em_dash @ '' the exact bytes that should follow where the previous response ended ''
      @ em_dash @ '' then the literal line '' @ q @ ''/endwrite'' @ q @ '' on its own.  Do NOT repeat any content already written.  Do NOT re-emit ''
      @ q @ ''/write '' @ path @ q @ ''.  Do NOT add preamble, explanation, or commentary.  Start your response at the exact character where the previous response ended ''
      @ em_dash @ '' even mid-word or mid-line '' @ em_dash @ '' and close the block.'')"

definition kMaxRetries :: nat where "kMaxRetries = 3"

definition cut_off_path :: "AgentCommand list \<Rightarrow> string" where
  "cut_off_path cmds = (case find (\<lambda>c. c_name c = ''write'' \<and> c_truncated c) cmds of None \<Rightarrow> [] | Some c \<Rightarrow> c_args c)"

text \<open>\<open>live\<close> when the caller streams to a callback, which then also gets the notice.\<close>

fun recover_truncated_writes ::
  "'w orch_env \<Rightarrow> bool \<Rightarrow> aref \<Rightarrow> string \<Rightarrow> nat \<Rightarrow> nat \<Rightarrow> ApiResponse \<Rightarrow> AgentCommand list \<Rightarrow> 'w orch \<Rightarrow> ApiResponse \<times> AgentCommand list \<times> 'w orch" where
  "recover_truncated_writes E live r i sid 0 resp cmds st = (resp, cmds, st)"
| "recover_truncated_writes E live r i sid (Suc n) resp cmds st =
     (if turn_is_cancelled E st \<or> cut_off_path cmds = [] then (resp, cmds, st)
      else let path = cut_off_path cmds;
               st1 = (if live then log1 (StreamText i sid (lf @ ''[resuming truncated /write '' @ path @ '']'' @ lf)) st else st);
               (extra, st2) = call_agent E r Resume i sid (\<lambda>C. (if live then agent_stream C else agent_send C) [text_part (resume_prompt path)]) st1
           in if \<not> rs_ok extra then (resp, cmds, st2)
              else let resp' = absorb resp extra in
                recover_truncated_writes E live r i sid n resp' (parse_agent_commands (rs_content resp')) st2)"

section \<open>The turn\<close>

definition todo_preamble :: "string \<Rightarrow> string" where
  "todo_preamble body =
     ends_line (''[OPEN TODOS] (mark progress as you go '' @ em_dash @ '' /todo start <id>, /todo done <id>):'' @ lf @ body) @ ''[END OPEN TODOS]''"

text \<open>The lessons and open todos put in front of a top-level message.\<close>

definition add_preambles :: "'w orch_env \<Rightarrow> aref \<Rightarrow> string \<Rightarrow> nat \<Rightarrow> string \<Rightarrow> 'w orch \<Rightarrow> string \<times> 'w orch" where
  "add_preambles E r i depth msg st =
     (if depth \<noteq> 0 \<or> msg = [] then (msg, st)
      else let (block, st1) = probe_if E (w_lesson (oe_wiring E)) (LessonCb ''preamble'' msg i) ''(no lessons'' st;
               msg1 = (if block = [] then msg else block @ lf @ lf @ msg)
           in if w_todo (oe_wiring E) then
                (let (body, st2) = probe_if E True (TodoCb ''list'' [] i) ''(no todos)'' st1
                 in (if body = [] then msg1 else todo_preamble body @ lf @ lf @ msg1,
                     on_agent r (set_compaction_pinned_facts (oe_key E) (if body = [] then [] else ''Open todos:'' @ lf @ body)) st2))
              else (msg1, st1))"

record turn =
  t_msg :: string
  t_committed :: bool
  t_content :: string
  t_in :: int
  t_out :: int
  t_last_cmds :: "AgentCommand list"
  t_last_results :: string
  t_redirects :: int
  t_prev_failed :: "(string \<times> string) list"
  t_notes_used :: "string \<Rightarrow> int"

definition start_turn :: "string \<Rightarrow> turn" where
  "start_turn msg = \<lparr>t_msg = msg, t_committed = False, t_content = [], t_in = 0, t_out = 0, t_last_cmds = [], t_last_results = [],
     t_redirects = 0, t_prev_failed = [], t_notes_used = (\<lambda>_. 0)\<rparr>"

definition fold_reply :: "ApiResponse \<Rightarrow> turn \<Rightarrow> turn" where
  "fold_reply resp t = t\<lparr>t_content := ends_line (t_content t) @ rs_content resp, t_in := t_in t + rs_input_tokens resp,
     t_out := t_out t + rs_output_tokens resp\<rparr>"

definition with_totals :: "turn \<Rightarrow> ApiResponse \<Rightarrow> ApiResponse" where
  "with_totals t resp = resp\<lparr>rs_content := t_content t, rs_input_tokens := t_in t, rs_output_tokens := t_out t\<rparr>"

text \<open>The fixed parameters of one turn.\<close>

record 'w turn_par =
  p_agent :: aref
  p_id :: string
  p_sid :: nat
  p_depth :: nat
  p_query :: string
  p_max :: nat
  p_gate :: AdvisorConfig
  p_sub :: "'w runner option"

definition want_stream :: "'w orch_env \<Rightarrow> 'w turn_par \<Rightarrow> bool" where
  "want_stream E p \<longleftrightarrow> 0 < p_depth p \<and> oe_agent_stream_cb E"

definition gate_active :: "AdvisorConfig \<Rightarrow> bool" where
  "gate_active g \<longleftrightarrow> av_mode g = ''gate'' \<and> av_model g \<noteq> []"

definition capabilities_of :: "aref \<Rightarrow> 'w orch \<Rightarrow> string list" where
  "capabilities_of r st = (case o_heap st r of None \<Rightarrow> [] | Some ag \<Rightarrow> cn_capabilities (a_config ag))"

definition model_of :: "aref \<Rightarrow> 'w orch \<Rightarrow> string" where
  "model_of r st = (case o_heap st r of None \<Rightarrow> [] | Some ag \<Rightarrow> cn_model (a_config ag))"

definition model_round :: "'w orch_env \<Rightarrow> 'w turn_par \<Rightarrow> turn \<Rightarrow> 'w orch \<Rightarrow> ApiResponse \<times> 'w orch" where
  "model_round E p t st =
     call_agent E (p_agent p) Main (p_id p) (p_sid p)
       (\<lambda>C. if want_stream E p then (if t_committed t then stream_continue C else agent_stream C [text_part (t_msg t)])
            else (if t_committed t then send_continue C else agent_send C [text_part (t_msg t)])) st"

text \<open>
  A tool batch and what is put around its envelope: the envelope to commit, the images, and the turn,
  cache and state after it.
\<close>

definition tool_batch ::
  "'w orch_env \<Rightarrow> 'w turn_par \<Rightarrow> bool \<Rightarrow> bool \<Rightarrow> AgentCommand list \<Rightarrow> ApiResponse \<Rightarrow> turn \<Rightarrow> cache \<Rightarrow> 'w orch
   \<Rightarrow> string \<times> (string \<times> string) list \<times> turn \<times> cache \<times> 'w orch" where
  "tool_batch E p images last_round cmds resp t m st =
     (let W = turn_wiring E (p_sub p) (p_id p) (p_sid p) (p_depth p) (p_query p) (capabilities_of (p_agent p) st) images;
          (env0, imgs, m1, st1) = run_tools W (p_sid p) cmds m st;
          (warn, failed) = maybe_loop_detected_preamble cmds env0 (t_prev_failed t);
          env1 = warn @ env0;
          (presence, used, st2) = collect_presence_notes E (p_id p) (p_query p) (rs_content resp) (summarize_tool_calls cmds env1) (p_sid p)
                                    (t_notes_used t) st1;
          env2 = presence @ env1
      in (if last_round then append_one_tool_round_note env2 else env2, imgs,
          t\<lparr>t_committed := True, t_last_cmds := cmds, t_last_results := env1, t_prev_failed := failed, t_notes_used := used\<rparr>, m1, st2))"

definition tool_step :: "'w orch_env \<Rightarrow> 'w turn_par \<Rightarrow> bool \<Rightarrow> AgentCommand list \<Rightarrow> ApiResponse \<Rightarrow> turn \<Rightarrow> cache \<Rightarrow> 'w orch \<Rightarrow> turn \<times> cache \<times> 'w orch" where
  "tool_step E p last_round cmds resp t m st =
     (let (env, imgs, t1, m1, st1) = tool_batch E p False last_round cmds resp t m st
      in (t1\<lparr>t_msg := env\<rparr>, m1, commit_text E (p_agent p) (p_sid p) [text_part env] st1))"

datatype 'w loop_end = Returned ApiResponse cache "'w orch" | Broke ApiResponse "AgentCommand list" turn cache "'w orch"

text \<open>
  The \<open>for\<close> loop, by the number of trips left: the last trip is the one with none left after it.
  The flag \<open>had_tool_calls\<close> that a tool trip sets is on the reply that the next trip replaces.
\<close>

fun turn_loop :: "'w orch_env \<Rightarrow> 'w turn_par \<Rightarrow> nat \<Rightarrow> ApiResponse \<Rightarrow> turn \<Rightarrow> cache \<Rightarrow> 'w orch \<Rightarrow> 'w loop_end" where
  "turn_loop E p 0 resp t m st = Broke resp [] t m st"
| "turn_loop E p (Suc left) resp0 t m st =
     (if turn_is_cancelled E st then
        Returned (cancelled_turn (t_content t) (t_in t) (t_out t)) m (log1 (StreamEnd (p_id p) (p_sid p) EndCancelled) st)
      else
        let st0 = (if 0 < p_depth p then log1 (AgentStart (p_id p)) st else st);
            (resp1, st1) = model_round E p t st0 in
        if \<not> rs_ok resp1 then
          Returned (resp1\<lparr>rs_content := t_content t @ rs_content resp1, rs_input_tokens := t_in t + rs_input_tokens resp1,
                     rs_output_tokens := t_out t + rs_output_tokens resp1\<rparr>) m (log1 (StreamEnd (p_id p) (p_sid p) (status_of resp1)) st1)
        else
          let (resp, cmds, st2) = recover_truncated_writes E False (p_agent p) (p_id p) (p_sid p) kMaxRetries resp1
                                    (parse_agent_commands (rs_content resp1)) (log1 Checkpoint st1);
              st3 = (if 0 < p_depth p then log_all [Progress (p_id p) (rs_content resp), Cost (p_id p) (model_of (p_agent p) st2) resp] st2 else st2);
              t1 = fold_reply resp t\<lparr>t_committed := False\<rparr> in
          if cmds = [] then
            (if \<not> gate_active (p_gate p) then Broke resp [] t1 m st3
             else
               let (sig, st4) = gate_verdict E (p_gate p) (p_id p) (p_sid p) (t_redirects t1)
                     \<lparr>gi_original_task = p_query p, gi_terminating_text = rs_content resp,
                      gi_tool_summary = summarize_tool_calls (t_last_cmds t1) (t_last_results t1)\<rparr> st3 in
               case go_kind sig of
                 Continue \<Rightarrow> Broke (resp\<lparr>rs_gate_approved := True\<rparr>) [] t1 m st4
               | Redirect \<Rightarrow>
                   if left = 0 then
                     Returned (with_totals t1 (resp\<lparr>rs_ok := False, rs_error_type := ''iteration_limit'',
                         rs_error := ''advisor redirect at iteration limit (max '' @ to_string (int (p_max p)) @ '')''\<rparr>)) m
                       (log1 (StreamEnd (p_id p) (p_sid p) EndFailed) st4)
                   else turn_loop E p left resp (t1\<lparr>t_redirects := t_redirects t1 + 1, t_msg := redirect_text (go_text sig)\<rparr>) m st4
               | Halt \<Rightarrow>
                   Returned (with_totals t1 (resp\<lparr>rs_ok := False, rs_error_type := ''advisor_halt'', rs_error := go_text sig, rs_halt_reason := go_text sig\<rparr>)) m
                     (log1 (StreamEnd (p_id p) (p_sid p) EndFailed)
                       (if p_depth p = 0 then log1 (Escalation (p_id p) (p_sid p) (go_text sig)) st4 else st4)))
          else if left = 0 then Broke resp cmds t1 m st3
          else let (t2, m1, st4) = tool_step E p (left = 1) cmds resp t1 m st3
               in turn_loop E p left (resp\<lparr>rs_had_tool_calls := True\<rparr>) t2 m1 st4)"

text \<open>After the loop: one more call, with tools off, when commands are still pending.\<close>

definition finish_turn :: "'w orch_env \<Rightarrow> 'w turn_par \<Rightarrow> 'w loop_end \<Rightarrow> ApiResponse \<times> cache \<times> 'w orch" where
  "finish_turn E p e =
     (case e of
        Returned resp m st \<Rightarrow> (resp, m, st)
      | Broke resp pending t m st \<Rightarrow>
          if pending = [] then (let r = with_totals t resp in (r, m, log1 (StreamEnd (p_id p) (p_sid p) (status_of r)) st))
          else if turn_is_cancelled E st then
            ((with_totals t resp)\<lparr>rs_ok := False, rs_error_type := ''cancelled'', rs_error := ''cancelled'', rs_had_tool_calls := True\<rparr>, m,
             log1 (StreamEnd (p_id p) (p_sid p) EndCancelled) st)
          else
            let st1 = commit_text E (p_agent p) (p_sid p) [text_part kBudgetExhaustedPrompt] st;
                (final, st2) = call_agent E (p_agent p) FinalAnswer (p_id p) (p_sid p)
                  (\<lambda>C. if want_stream E p then stream_continue C else send_continue C) st1;
                r = fold_budget_final final (t_content t) (t_in t) (t_out t) True
            in (r, m, log1 (StreamEnd (p_id p) (p_sid p) (status_of r)) st2))"

definition no_gate :: AdvisorConfig where
  "no_gate = \<lparr>av_model = [], av_prompt = [], av_mode = ''off'', av_max_redirects = 0, av_malformed_halts = True\<rparr>"

definition gate_config :: "aref \<Rightarrow> 'w orch \<Rightarrow> AdvisorConfig" where
  "gate_config r st = (case o_heap st r of None \<Rightarrow> no_gate | Some ag \<Rightarrow> cn_advisor (a_config ag))"

definition turn_budget :: "'w orch_env \<Rightarrow> aref \<Rightarrow> nat \<Rightarrow> 'w orch \<Rightarrow> nat" where
  "turn_budget E r depth st = (case o_heap st r of None \<Rightarrow> 1 | Some ag \<Rightarrow> resolve_max_turns (oe_env E) (a_config ag) depth)"

definition dispatch_turn :: "'w orch_env \<Rightarrow> 'w runner option \<Rightarrow> 'w runner" where
  "dispatch_turn E sub r i msg depth query m st =
     (let (msg1, st1) = add_preambles E r i depth msg st;
          sid = o_next_stream st1;
          st2 = log1 (StreamStart i sid depth) (st1\<lparr>o_next_stream := sid + 1\<rparr>);
          p = \<lparr>p_agent = r, p_id = i, p_sid = sid, p_depth = depth, p_query = query, p_max = turn_budget E r depth st2,
               p_gate = gate_config r st2, p_sub = sub\<rparr>
      in finish_turn E p (turn_loop E p (p_max p) default_response (start_turn msg1) m st2))"

text \<open>The argument counts the levels of delegation still allowed below the turn.\<close>

primrec dispatch_at :: "nat \<Rightarrow> 'w orch_env \<Rightarrow> 'w runner" where
  "dispatch_at 0 E = dispatch_turn E None"
| "dispatch_at (Suc k) E = dispatch_turn E (Some (dispatch_at k E))"

definition run_dispatch :: "'w orch_env \<Rightarrow> 'w runner" where
  "run_dispatch E r i msg depth query m st = dispatch_at (max_delegation_depth (oe_env E) - depth) E r i msg depth query m st"

section \<open>Entry points\<close>

definition short_model :: "string \<Rightarrow> string" where
  "short_model model =
     (let s = (if 7 < length model \<and> prefix ''claude-'' model then drop 7 model else model);
          tail = rev (takeWhile (\<lambda>c. c \<noteq> CHR ''-'') (rev s))
      in if 9 < length s \<and> CHR ''-'' \<in> set s \<and> length tail = 8 \<and> list_all is_digit tail then take (length s - 9) s else s)"

definition status_line :: "string \<Rightarrow> Constitution \<Rightarrow> string" where
  "status_line i c =
     ''  '' @ i @ (if cn_name c \<noteq> [] \<and> cn_name c \<noteq> i then '' ('' @ cn_name c @ '')'' else [])
     @ (if cn_role c = [] then [] else '' ['' @ cn_role c @ '']'') @ '' '' @ short_model (cn_model c)
     @ (if cn_advisor_model c = [] then [] else ''+advisor:'' @ short_model (cn_advisor_model c))
     @ (if pc_mode (cn_presence c) = ''always_on'' then ''+presence'' else [])
     @ (if cn_goal c = [] then [] else '' '' @ em_dash @ '' '' @ cn_goal c) @ lf"

definition global_status :: "'w orch_env \<Rightarrow> 'w orch \<Rightarrow> string" where
  "global_status E st =
     (let entries = List.map_filter (\<lambda>i. map_option (\<lambda>ag. status_line i (a_config ag)) (o_heap st (Registered i))) (o_roster st) in
      (if entries = [] then ''AGENTS: none loaded'' @ lf
       else ''AGENTS '' @ em_dash @ '' delegate with /agent <id> <task>:'' @ lf @ concat entries)
      @ (if oe_remote_roster E = [] then [] else lf @ ends_line (oe_remote_roster E)))"

text \<open>\<open>None\<close> where \<open>get_agent\<close> throws.\<close>

definition send_internal :: "'w orch_env \<Rightarrow> string \<Rightarrow> string \<Rightarrow> nat \<Rightarrow> cache \<Rightarrow> string \<Rightarrow> 'w orch \<Rightarrow> (ApiResponse \<times> cache \<times> 'w orch) option" where
  "send_internal E agent_id msg depth m query st =
     (let i = (if agent_id = [] \<and> depth = 0 \<and> query = [] then ''index'' else agent_id); orig = (if query = [] then msg else query); m' = (case m of None \<Rightarrow> Some Map.empty | Some x \<Rightarrow> Some x) in
      if i = ''index'' then Some (run_dispatch E Master i (global_status E st @ lf @ lf @ ''QUERY: '' @ msg) depth orig m' st)
      else if has_agent i st then Some (run_dispatch E (Registered i) i msg depth orig m' st)
      else None)"

definition send :: "'w orch_env \<Rightarrow> string \<Rightarrow> string \<Rightarrow> string \<Rightarrow> 'w orch \<Rightarrow> (ApiResponse \<times> 'w orch) option" where
  "send E i msg query st =
     (let clear = (\<lambda>s. s\<lparr>o_world := oe_clear_cancel E (o_world s)\<rparr>) in
      if turn_is_cancelled E st then Some (cancelled_turn [] 0 0, clear st)
      else map_option (\<lambda>(resp, m, st'). (resp, clear st')) (send_internal E i msg 0 None query st))"

definition ask_arbiter :: "'w orch_env \<Rightarrow> string \<Rightarrow> 'w orch \<Rightarrow> (ApiResponse \<times> 'w orch) option" where
  "ask_arbiter E query st = send E ''index'' query [] st"

definition run_ephemeral :: "'w orch_env \<Rightarrow> string \<Rightarrow> Constitution \<Rightarrow> string \<Rightarrow> string \<Rightarrow> 'w orch \<Rightarrow> ApiResponse \<times> 'w orch" where
  "run_ephemeral E i cfg msg query st =
     (if i = [] \<or> i = ''index'' then
        (default_response\<lparr>rs_ok := False, rs_error := ''JIT ephemeral turn cannot target index'', rs_error_type := ''invalid_agent''\<rparr>, st)
      else if turn_is_cancelled E st then (cancelled_turn [] 0 0, st)
      else
        let cfg1 = cfg\<lparr>cn_advisor := (cn_advisor cfg)\<lparr>av_mode := ''off''\<rparr>, cn_presence := (cn_presence cfg)\<lparr>pc_mode := ''off''\<rparr>\<rparr>;
            r = Ephemeral (o_next_eph st);
            st1 = st\<lparr>o_heap := (o_heap st)(r \<mapsto> mk_agent i cfg1 (oe_compact_cfg E)), o_next_eph := o_next_eph st + 1\<rparr>;
            (resp, m, st2) = run_dispatch E r i msg 1 (if query = [] then msg else query) (Some Map.empty) st1
        in (resp, st2\<lparr>o_heap := (o_heap st2)(r := None)\<rparr>))"

section \<open>Streaming turns\<close>

fun prepend_text :: "string \<Rightarrow> ContentPart list \<Rightarrow> ContentPart list option" where
  "prepend_text pre [] = None"
| "prepend_text pre (q # qs) =
     (if cp_kind q = TEXT then Some (q\<lparr>cp_text := pre @ lf @ lf @ cp_text q\<rparr> # qs) else map_option ((#) q) (prepend_text pre qs))"

definition prepend_to_parts :: "string \<Rightarrow> ContentPart list \<Rightarrow> ContentPart list" where
  "prepend_to_parts preamble parts =
     (if preamble = [] then parts
      else case prepend_text preamble parts of None \<Rightarrow> text_part preamble # parts | Some qs \<Rightarrow> qs)"

definition image_part :: "string \<times> string \<Rightarrow> ContentPart" where
  "image_part x = \<lparr>cp_kind = IMAGE, cp_text = [], cp_image_data = snd x, cp_media_type = fst x, cp_image_url = []\<rparr>"

definition delegation_line :: "AgentCommand \<Rightarrow> string option" where
  "delegation_line c =
     (if c_name c = ''agent'' then Some (''/agent '' @ shorten 100 (c_args c))
      else if c_name c = ''parallel'' then
        Some (''/parallel ('' @ to_string (int (length (filter (prefix ''/agent '') (getlines (c_content c))))) @ '' children)'')
      else None)"

definition kArrow :: string where "kArrow = [CHR 0xE2, CHR 0x86, CHR 0x92]"

fun join_semi :: "string list \<Rightarrow> string" where
  "join_semi [] = []" | "join_semi [x] = x" | "join_semi (x # xs) = x @ ''; '' @ join_semi xs"

definition summarise_delegations :: "AgentCommand list \<Rightarrow> string" where
  "summarise_delegations cmds =
     (let lines = List.map_filter delegation_line cmds in if lines = [] then [] else kArrow @ '' delegating: '' @ join_semi lines @ lf)"

definition end_iteration :: "'w turn_par \<Rightarrow> AgentCommand list \<Rightarrow> 'w orch \<Rightarrow> 'w orch" where
  "end_iteration p cmds st =
     (let s = summarise_delegations cmds in
      log1 IterationBoundary (if s = [] then st else log1 (StreamText (p_id p) (p_sid p) s) st))"

text \<open>
  One streamed reply: parsed, recovered and billed.  The parts are \<open>None\<close> when they are committed.
\<close>

definition stream_round ::
  "'w orch_env \<Rightarrow> 'w turn_par \<Rightarrow> ContentPart list option \<Rightarrow> 'w orch \<Rightarrow> ApiResponse \<times> 'w orch" where
  "stream_round E p parts st =
     call_agent E (p_agent p) Main (p_id p) (p_sid p) (\<lambda>C. case parts of None \<Rightarrow> stream_continue C | Some qs \<Rightarrow> agent_stream C qs) st"

definition settle_round :: "'w orch_env \<Rightarrow> 'w turn_par \<Rightarrow> ApiResponse \<Rightarrow> 'w orch \<Rightarrow> ApiResponse \<times> AgentCommand list \<times> 'w orch" where
  "settle_round E p resp1 st =
     (let (resp, cmds, st1) = recover_truncated_writes E True (p_agent p) (p_id p) (p_sid p) kMaxRetries resp1
                                (parse_agent_commands (rs_content resp1)) st
      in (resp, cmds, log1 (Cost (p_id p) (model_of (p_agent p) st1) resp) st1))"

text \<open>
  The main loop, by the number of trips left; on entry one reply is already in.  \<open>had\<close> is
  \<open>had_any_tool_calls\<close>.
\<close>

fun stream_turn_loop ::
  "'w orch_env \<Rightarrow> 'w turn_par \<Rightarrow> nat \<Rightarrow> ApiResponse \<Rightarrow> AgentCommand list \<Rightarrow> bool \<Rightarrow> turn \<Rightarrow> cache \<Rightarrow> 'w orch \<Rightarrow> 'w loop_end \<times> bool" where
  "stream_turn_loop E p 0 resp cmds had t m st = (Broke resp cmds t m st, had)"
| "stream_turn_loop E p (Suc left) resp cmds had t m st =
     (if turn_is_cancelled E st then
        (Returned ((cancelled_turn (t_content t) (t_in t) (t_out t))\<lparr>rs_had_tool_calls := had\<rparr>) m
           (log1 (StreamEnd (p_id p) (p_sid p) EndCancelled) st), had)
      else
        let next_reply = (\<lambda>parts t' m' st'.
              let (resp1, st1) = stream_round E p parts st' in
              if \<not> rs_ok resp1 then
                (Returned (resp1\<lparr>rs_content := t_content t' @ rs_content resp1, rs_input_tokens := t_in t' + rs_input_tokens resp1,
                     rs_output_tokens := t_out t' + rs_output_tokens resp1, rs_had_tool_calls := had\<rparr>) m'
                   (log1 (StreamEnd (p_id p) (p_sid p) (status_of resp1)) st1), had)
              else
                let (resp2, cmds2, st2) = settle_round E p resp1 (log1 Checkpoint st1)
                in stream_turn_loop E p left resp2 cmds2 (had \<or> cmds2 \<noteq> []) (fold_reply resp2 t') m' (end_iteration p cmds2 st2)) in
        if cmds = [] then
          (if \<not> gate_active (p_gate p) then (Broke resp [] t m st, had)
           else
             let (sig, st4) = gate_verdict E (p_gate p) (p_id p) (p_sid p) (t_redirects t)
                   \<lparr>gi_original_task = p_query p, gi_terminating_text = rs_content resp,
                    gi_tool_summary = summarize_tool_calls (t_last_cmds t) (t_last_results t)\<rparr> st in
             case go_kind sig of
               Continue \<Rightarrow> (Broke (resp\<lparr>rs_gate_approved := True\<rparr>) [] t m st4, had)
             | Halt \<Rightarrow>
                 (Returned ((with_totals t (resp\<lparr>rs_ok := False, rs_error_type := ''advisor_halt'', rs_error := go_text sig,
                     rs_halt_reason := go_text sig\<rparr>))\<lparr>rs_had_tool_calls := had\<rparr>) m
                   (log1 (StreamEnd (p_id p) (p_sid p) EndFailed) (log1 (Escalation (p_id p) (p_sid p) (go_text sig)) st4)), had)
             | Redirect \<Rightarrow>
                 if left = 0 then
                   (Returned ((with_totals t (resp\<lparr>rs_ok := False, rs_error_type := ''iteration_limit'',
                       rs_error := ''advisor redirect at iteration limit (max '' @ to_string (int (p_max p)) @ '')''\<rparr>))\<lparr>rs_had_tool_calls := had\<rparr>) m
                     (log1 (StreamEnd (p_id p) (p_sid p) EndFailed) st4), had)
                 else next_reply (Some [text_part (redirect_text (go_text sig))]) (t\<lparr>t_redirects := t_redirects t + 1\<rparr>) m
                        (log1 (StreamText (p_id p) (p_sid p) lf) st4))
        else if left = 0 then (Broke resp cmds t m st, had)
        else
          let (env, imgs, t1, m1, st1) = tool_batch E p True (left = 1) cmds resp t m (log1 (StreamText (p_id p) (p_sid p) lf) st);
              st2 = commit_text E (p_agent p) (p_sid p) (text_part env # map image_part imgs) st1
          in next_reply None t1 m1 st2)"

definition stream_preambles :: "'w orch_env \<Rightarrow> aref \<Rightarrow> string \<Rightarrow> string \<Rightarrow> ContentPart list \<Rightarrow> 'w orch \<Rightarrow> ContentPart list \<times> 'w orch" where
  "stream_preambles E r i msg parts st =
     (if msg = [] then (parts, st)
      else let (block, st1) = probe_if E (w_lesson (oe_wiring E)) (LessonCb ''preamble'' msg i) ''(no lessons'' st;
               parts1 = prepend_to_parts block parts
           in if w_todo (oe_wiring E) then
                (let (body, st2) = probe_if E True (TodoCb ''list'' [] i) ''(no todos)'' st1
                 in (if body = [] then parts1 else prepend_to_parts (todo_preamble body) parts1,
                     on_agent r (set_compaction_pinned_facts (oe_key E) (if body = [] then [] else ''Open todos:'' @ lf @ body)) st2))
              else (parts1, st1))"

definition finish_stream :: "'w orch_env \<Rightarrow> 'w turn_par \<Rightarrow> 'w loop_end \<times> bool \<Rightarrow> ApiResponse \<times> 'w orch" where
  "finish_stream E p e =
     (case e of
        (Returned resp m st, had) \<Rightarrow> (resp, st)
      | (Broke resp pending t m st, had) \<Rightarrow>
          if pending = [] then (let r = (with_totals t resp)\<lparr>rs_had_tool_calls := had\<rparr> in (r, log1 (StreamEnd (p_id p) (p_sid p) (status_of r)) st))
          else if turn_is_cancelled E st then
            ((with_totals t resp)\<lparr>rs_ok := False, rs_error_type := ''cancelled'', rs_error := ''cancelled'', rs_had_tool_calls := True\<rparr>,
             log1 (StreamEnd (p_id p) (p_sid p) EndCancelled) st)
          else
            let st1 = commit_text E (p_agent p) (p_sid p) [text_part kBudgetExhaustedPrompt] st;
                (final, st2) = call_agent E (p_agent p) FinalAnswer (p_id p) (p_sid p) stream_continue st1;
                r = fold_budget_final final (t_content t) (t_in t) (t_out t) True
            in (r, log1 (StreamEnd (p_id p) (p_sid p) (status_of r)) st2))"

definition stream_turn :: "'w orch_env \<Rightarrow> aref \<Rightarrow> string \<Rightarrow> ContentPart list \<Rightarrow> string \<Rightarrow> string \<Rightarrow> 'w orch \<Rightarrow> ApiResponse \<times> 'w orch" where
  "stream_turn E r i parts msg query st =
     (let (parts1, st1) = stream_preambles E r i msg parts st;
          sid = o_next_stream st1;
          st2 = log1 (StreamStart i sid 0) (st1\<lparr>o_next_stream := sid + 1\<rparr>);
          k = max_delegation_depth (oe_env E);
          p = \<lparr>p_agent = r, p_id = i, p_sid = sid, p_depth = 0, p_query = query, p_max = turn_budget E r 0 st2, p_gate = gate_config r st2,
               p_sub = (case k of 0 \<Rightarrow> None | Suc j \<Rightarrow> Some (dispatch_at j E))\<rparr>;
          (resp1, st3) = stream_round E p (Some parts1) st2
      in if \<not> rs_ok resp1 then (resp1, log1 (StreamEnd i sid (status_of resp1)) st3)
         else let (resp, cmds, st4) = settle_round E p resp1 st3;
                  t = (start_turn [])\<lparr>t_content := rs_content resp, t_in := rs_input_tokens resp, t_out := rs_output_tokens resp\<rparr>
              in finish_stream E p (stream_turn_loop E p (p_max p) resp cmds (cmds \<noteq> []) t (Some Map.empty) (log1 Checkpoint (end_iteration p cmds st4))))"

definition send_streaming :: "'w orch_env \<Rightarrow> string \<Rightarrow> ContentPart list \<Rightarrow> string \<Rightarrow> 'w orch \<Rightarrow> (ApiResponse \<times> 'w orch) option" where
  "send_streaming E agent_id parts query st =
     (let clear = (\<lambda>s. s\<lparr>o_world := oe_clear_cancel E (o_world s)\<rparr>); i = (if agent_id = [] then ''index'' else agent_id);
          msg = concatenate_text [] parts; orig = (if query = [] then msg else query);
          finish = (\<lambda>(resp, st'). (resp, clear st')) in
      if turn_is_cancelled E st then Some (cancelled_turn [] 0 0, clear st)
      else if i = ''index'' then
        Some (finish (stream_turn E Master i (text_part (global_status E st @ lf @ lf @ ''QUERY: '') # parts) msg orig st))
      else if has_agent i st then Some (finish (stream_turn E (Registered i) i parts msg orig st))
      else None)"

end
