(* ===== verification/Turn_Correct.thy ===== *)
theory Turn_Correct
  imports Orchestrator Dispatch_Correct
begin

text \<open>
  What a turn does, read off its trace: the protocol of model calls, tool batches and commits that
  \<open>run_dispatch\<close> follows, the budgets it keeps, the nesting of delegated turns, and what the advisor
  gate and the tool-use flag of the response stand for.
\<close>

section \<open>Growth of the trace\<close>

text \<open>The stream of the turn that an entry belongs to, for the entries that drive a turn.\<close>

fun ev_turn :: "orch_event \<Rightarrow> nat option" where
  "ev_turn (StreamStart i n d) = Some n"
| "ev_turn (StreamEnd i n s) = Some n"
| "ev_turn (Called n p) = Some n"
| "ev_turn (Ran n cmds) = Some n"
| "ev_turn (Committed n t) = Some n"
| "ev_turn e = None"

fun ev_depth_ok :: "nat \<Rightarrow> orch_event \<Rightarrow> bool" where
  "ev_depth_ok D (StreamStart i n d) \<longleftrightarrow> d \<le> D"
| "ev_depth_ok D e \<longleftrightarrow> True"

text \<open>
  Nested work only appends to the trace: its entries belong to streams that were not yet numbered,
  and the turns it starts are within the depth limit \<open>D\<close>.
\<close>

definition later :: "nat \<Rightarrow> nat \<Rightarrow> orch_event \<Rightarrow> bool" where
  "later D n e \<longleftrightarrow> (case ev_turn e of None \<Rightarrow> True | Some k \<Rightarrow> n \<le> k) \<and> ev_depth_ok D e"

definition grows :: "nat \<Rightarrow> 'w orch \<Rightarrow> 'w orch \<Rightarrow> bool" where
  "grows D st st' \<longleftrightarrow> o_next_stream st \<le> o_next_stream st'
     \<and> (\<exists>es. o_log st' = o_log st @ es \<and> list_all (later D (o_next_stream st)) es)"

lemma later_mono: "later D n e \<Longrightarrow> m \<le> n \<Longrightarrow> later D m e"
  by (auto simp: later_def split: option.splits)

lemma grows_refl [simp]: "grows D st st"
  by (simp add: grows_def)

lemma grows_trans [trans]: "grows D a b \<Longrightarrow> grows D b c \<Longrightarrow> grows D a c"
  unfolding grows_def by (fastforce intro: later_mono simp: list_all_iff)

lemma grows_same: "o_log st' = o_log st \<Longrightarrow> o_next_stream st' = o_next_stream st \<Longrightarrow> grows D st st'"
  by (simp add: grows_def)

lemma grows_upd [simp]:
  "grows D st (st'\<lparr>o_world := w\<rparr>) = grows D st st'" "grows D st (st'\<lparr>o_heap := h\<rparr>) = grows D st st'"
  "grows D st (st'\<lparr>o_next_eph := k\<rparr>) = grows D st st'" "grows D st (on_agent r f st') = grows D st st'"
  by (simp_all add: grows_def on_agent_def)

lemma grows_log1: "grows D st st' \<Longrightarrow> later D (o_next_stream st) e \<Longrightarrow> grows D st (log1 e st')"
  by (auto simp: grows_def log1_def)

lemma grows_log1_quiet: "grows D st st' \<Longrightarrow> ev_turn e = None \<Longrightarrow> grows D st (log1 e st')"
  by (rule grows_log1) (cases e; simp add: later_def)+

lemma probe_if_grows: "probe_if E b c mk st = (t, st') \<Longrightarrow> grows D st st'"
  by (auto simp: probe_if_def probe_def split: prod.splits if_splits intro: grows_same)

lemma enrich_grows: "enrich E caller by depth query msg st = (t, st') \<Longrightarrow> grows D st st'"
  unfolding enrich_def by (auto split: prod.splits dest!: probe_if_grows [of _ _ _ _ _ _ _ D] intro: grows_trans)

lemma plain_complete_grows: "plain_complete E req st = (resp, st') \<Longrightarrow> grows D st st'"
  by (auto simp: plain_complete_def split: prod.splits)

lemma advise_grows: "advise E caller sid q st = (t, st') \<Longrightarrow> grows D st st'"
  unfolding advise_def
  by (auto split: option.splits if_splits prod.splits dest!: plain_complete_grows [of _ _ _ _ _ D] intro!: grows_log1_quiet)

lemma run_presence_review_grows: "run_presence_review (plain_complete E) model pr i st = (out, billed, st') \<Longrightarrow> grows D st st'"
  unfolding run_presence_review_def by (auto split: if_splits prod.splits dest!: plain_complete_grows [of _ _ _ _ _ D])

lemma run_advisor_gate_grows: "run_advisor_gate (plain_complete E) model pr i st = (out, billed, st') \<Longrightarrow> grows D st st'"
  unfolding run_advisor_gate_def by (auto split: if_splits prod.splits dest!: plain_complete_grows [of _ _ _ _ _ D])

lemma gate_invoke_grows: "gate_invoke E caller gi st = (out, st') \<Longrightarrow> grows D st st'"
  unfolding gate_invoke_def
  by (auto simp: Let_def split: option.splits prod.splits dest!: run_advisor_gate_grows [of _ _ _ _ _ _ _ _ D] intro!: grows_log1_quiet)

lemma gate_verdict_grows: "gate_verdict E g caller sid n gi st = (out, st') \<Longrightarrow> grows D st st'"
  unfolding gate_verdict_def Let_def
  by (auto split: prod.splits if_splits dest!: gate_invoke_grows [of _ _ _ _ _ _ D] intro!: grows_log1_quiet)

lemma review_loop_grows: "review_loop E base sid ws nu st = (t, nu', st') \<Longrightarrow> grows D st st'"
proof (induction ws arbitrary: nu st t nu' st')
  case (Cons w ws)
  show ?case
  proof (cases "turn_is_cancelled E st \<or> wt_model w = [] \<or> pc_max_notes_per_turn (wt_cfg w) \<le> nu (wt_id w)")
    case True
    then show ?thesis using Cons by (auto split: if_splits)
  next
    case False
    let ?i = "base\<lparr>pi_watcher_id := wt_id w, pi_watcher_name := wt_name w, pi_watcher_goal := wt_goal w, pi_watcher_rules := wt_rules w\<rparr>"
    obtain out billed st1 where r: "run_presence_review (plain_complete E) (wt_model w) (pc_prompt (wt_cfg w)) ?i st = (out, billed, st1)"
      by (metis prod_cases3)
    define st2 where "st2 = (case billed of None \<Rightarrow> st1 | Some resp \<Rightarrow> log1 (Cost (wt_id w) (wt_model w) resp) st1)"
    have g2: "grows D st st2" unfolding st2_def
      using run_presence_review_grows [OF r] by (auto split: option.split intro: grows_log1_quiet)
    then have g3: "grows D st (log1 (PresenceNote a b c d e f) st2)" for a b c d e f by (simp add: grows_log1_quiet)
    show ?thesis
      using Cons.prems False r by (auto simp: st2_def [symmetric] Let_def split: prod.splits dest!: Cons.IH intro: grows_trans [OF g3])
  qed
qed simp

lemma review_loop_text: "review_loop E base sid ws nu st = (t, nu', st') \<Longrightarrow> t = [] \<or> prefix ''[PRESENCE: '' t"
proof (induction ws arbitrary: nu st t nu' st')
  case (Cons w ws)
  then show ?case
    by (simp add: Let_def split: if_splits prod.splits) (auto simp: format_presence_injection_def)
qed simp

lemma collect_presence_notes_grows: "collect_presence_notes E i q r s sid nu st = (t, nu', st') \<Longrightarrow> grows D st st'"
  unfolding collect_presence_notes_def by (rule review_loop_grows)

section \<open>Nested turns\<close>

text \<open>A runner that only appends, when it is called at depth \<open>d\<close>.\<close>

definition orderly :: "nat \<Rightarrow> nat \<Rightarrow> 'w runner \<Rightarrow> bool" where
  "orderly D d run \<longleftrightarrow> (\<forall>r i msg q m st resp m' st'. run r i msg d q m st = (resp, m', st') \<longrightarrow> grows D st st')"

definition orderly_sub :: "nat \<Rightarrow> nat \<Rightarrow> 'w runner option \<Rightarrow> bool" where
  "orderly_sub D depth sub \<longleftrightarrow> (\<forall>run. sub = Some run \<longrightarrow> orderly D (depth + 1) run)"

lemma delegate_grows:
  assumes "orderly_sub D depth sub" and "delegate E sub caller depth q sub_id msg m st = (t, m', st')"
  shows "grows D st st'"
  using assms unfolding delegate_def
  by (auto simp: orderly_sub_def orderly_def split: option.splits if_splits prod.splits dest!: enrich_grows [of _ _ _ _ _ _ _ _ _ D]
      intro: grows_trans)

lemma run_child_grows:
  assumes "orderly D (depth + 1) run" and "run_child E run caller depth q kid st = (t, st')"
  shows "grows D st st'"
proof -
  have "grows D st st3" if "enrich E caller who depth q sub_msg st = (msg, st1)"
    "run r i msg (depth + 1) q' m (st1\<lparr>o_heap := h, o_next_eph := n\<rparr>) = (resp, m', st3)" for who sub_msg msg st1 r i q' m h n resp m' st3
  proof -
    have "grows D st (st1\<lparr>o_heap := h, o_next_eph := n\<rparr>)" using enrich_grows [OF that(1)] by simp
    also have "grows D (st1\<lparr>o_heap := h, o_next_eph := n\<rparr>) st3" using assms(1) that(2) by (auto simp: orderly_def)
    finally show ?thesis .
  qed
  with assms(2) show ?thesis unfolding run_child_def Let_def by (auto split: prod.splits if_splits option.splits)
qed

lemma run_children_grows:
  assumes "orderly D (depth + 1) run"
  shows "run_children E run caller depth q kids st = (ts, st') \<Longrightarrow> grows D st st'"
  by (induction kids arbitrary: st ts st')
    (auto split: prod.splits dest!: run_child_grows [OF assms] intro: grows_trans)

lemma fan_out_grows:
  assumes "orderly_sub D depth sub" and "fan_out E sub caller depth q kids st = (ts, st')"
  shows "grows D st st'"
  using assms run_children_grows unfolding fan_out_def orderly_sub_def by (auto split: option.splits if_splits)

lemma turn_answer_grows:
  assumes "orderly_sub D depth sub" and "turn_answer E sub caller sid depth q st m c = (a, st', m')"
  shows "grows D st st'"
  using assms(2) delegate_grows [OF assms(1)] fan_out_grows [OF assms(1)] unfolding turn_answer_def
  by (cases c) (auto split: prod.splits dest: advise_grows)

lemma run_tools_grows:
  assumes "orderly_sub D depth sub" and "run_tools (turn_wiring E sub caller sid depth q caps images) n cmds m st = (env, imgs, m', st')"
  shows "grows D (log1 (Ran n cmds) st) st'"
proof -
  let ?W = "turn_wiring E sub caller sid depth q caps images"
  let ?s = "\<lparr>d_world = log1 (Ran n cmds) st, d_calls = [], d_cache = m, d_fetches = 0, d_searches = 0,
                d_advises = 0, d_images = [], d_out = [], d_events = [], d_seq = 0\<rparr>"
  have step: "(x, y) \<in> world_step ?W \<Longrightarrow> grows D x y" for x y
    by (auto simp: world_step_def turn_wiring_def Let_def dest: turn_answer_grows [OF assms(1)])
  have "(x, y) \<in> (world_step ?W)\<^sup>* \<Longrightarrow> grows D x y" for x y
    by (induction rule: rtrancl_induct) (auto intro: grows_trans step)
  moreover have "env = d_out (execute_agent_commands ?W cmds ?s)" "st' = d_world (execute_agent_commands ?W cmds ?s)"
    using assms(2) by (simp_all add: run_tools_def Let_def)
  ultimately show "grows D (log1 (Ran n cmds) st) st'"
    using execute_reaches(1) [of ?W ?s cmds] by (simp add: reaches_def)
qed

lemma run_tools_head: "run_tools W n cmds m st = (env, imgs, m', st') \<Longrightarrow> \<exists>t. env = CHR 0x0A # t"
  using execute_reaches(2) [of W cmds] by (auto simp: run_tools_def Let_def)

section \<open>The protocol of a turn\<close>

text \<open>
  The trips of the loop as a language: with \<open>n\<close> trips left a turn calls the model, resumes cut-off
  writes at most three times, and stops, is redirected, or runs a tool batch and commits its envelope
  before the next trip.  The flag says that the last reply still asked for tools.  The envelope that
  precedes the last trip carries the notice of the last round.
\<close>

definition one_call :: "nat \<Rightarrow> nat \<Rightarrow> orch_event list" where
  "one_call sid k = Called sid Main # replicate k (Called sid Resume)"

definition announces_last :: "string \<Rightarrow> bool" where
  "announces_last env \<longleftrightarrow> suffix (kOneToolRoundLeftNote @ lf) env"

inductive trips :: "nat \<Rightarrow> nat \<Rightarrow> bool \<Rightarrow> orch_event list \<Rightarrow> bool" for sid where
  stop: "trips sid n False []"
| last: "k \<le> 3 \<Longrightarrow> (pending \<longrightarrow> n = 0) \<Longrightarrow> trips sid (Suc n) pending (one_call sid k)"
| redirect: "k \<le> 3 \<Longrightarrow> 0 < n \<Longrightarrow> trips sid n pending tr \<Longrightarrow> trips sid (Suc n) pending (one_call sid k @ tr)"
| tools: "k \<le> 3 \<Longrightarrow> 0 < n \<Longrightarrow> cmds \<noteq> [] \<Longrightarrow> (n = 1 \<longrightarrow> announces_last env) \<Longrightarrow> trips sid n pending tr
    \<Longrightarrow> trips sid (Suc n) pending (one_call sid k @ Ran sid cmds # Committed sid env # tr)"

definition own :: "nat \<Rightarrow> orch_event list \<Rightarrow> orch_event list" where
  "own sid es = filter (\<lambda>e. ev_turn e = Some sid) es"

lemma own_simps [simp]: "own sid [] = []" "own sid (es @ fs) = own sid es @ own sid fs"
  by (simp_all add: own_def)

text \<open>From \<open>st\<close> to \<open>st'\<close> the turn \<open>sid\<close> itself adds \<open>tr\<close>; what else is added comes from nested work.\<close>

definition adds :: "nat \<Rightarrow> nat \<Rightarrow> 'w orch \<Rightarrow> orch_event list \<Rightarrow> 'w orch \<Rightarrow> bool" where
  "adds D sid st tr st' \<longleftrightarrow> sid < o_next_stream st \<and> o_next_stream st \<le> o_next_stream st'
     \<and> (\<exists>es. o_log st' = o_log st @ es \<and> own sid es = tr \<and> list_all (later D sid) es)"

lemma adds_refl: "sid < o_next_stream st \<Longrightarrow> adds D sid st [] st"
  by (simp add: adds_def)

lemma adds_trans: "adds D sid a tr b \<Longrightarrow> adds D sid b us c \<Longrightarrow> adds D sid a (tr @ us) c"
  unfolding adds_def by fastforce

lemma adds_grows:
  assumes "grows D st st'" and "sid < o_next_stream st"
  shows "adds D sid st [] st'"
proof -
  obtain es where es: "o_log st' = o_log st @ es" "list_all (later D (o_next_stream st)) es" "o_next_stream st \<le> o_next_stream st'"
    using assms(1) by (auto simp: grows_def)
  have "own sid es = []" using es(2) assms(2)
    by (auto simp: own_def filter_empty_conv list_all_iff later_def split: option.splits)
  moreover have "list_all (later D sid) es" using es(2) assms(2) by (auto simp: list_all_iff intro: later_mono)
  ultimately show ?thesis unfolding adds_def using es(1,3) assms(2) by blast
qed

lemma adds_then_grows: "adds D sid st tr st' \<Longrightarrow> grows D st' st'' \<Longrightarrow> adds D sid st tr st''"
  using adds_trans [of D sid st tr st' "[]" st''] adds_grows [of D st' st'' sid] by (auto simp: adds_def)

lemma adds_log1: "adds D sid st tr st' \<Longrightarrow> ev_turn e = Some sid \<Longrightarrow> ev_depth_ok D e \<Longrightarrow> adds D sid st (tr @ [e]) (log1 e st')"
  by (fastforce simp: adds_def log1_def own_def later_def)

lemma adds_quiet: "adds D sid st tr st' \<Longrightarrow> ev_turn e = None \<Longrightarrow> adds D sid st tr (log1 e st')"
  by (erule adds_then_grows, rule grows_log1_quiet) simp_all

lemma log_all_grows: "list_all (\<lambda>e. ev_turn e = None) es \<Longrightarrow> grows D st (log_all es st)"
proof -
  assume "list_all (\<lambda>e. ev_turn e = None) es"
  moreover have "ev_turn e = None \<Longrightarrow> later D n e" for e n by (cases e) (simp_all add: later_def)
  ultimately show ?thesis by (auto simp: grows_def log_all_def list_all_iff)
qed

lemma adds_upd [simp]:
  "adds D sid st tr (st'\<lparr>o_world := w\<rparr>) = adds D sid st tr st'" "adds D sid st tr (st'\<lparr>o_heap := h\<rparr>) = adds D sid st tr st'"
  "adds D sid st tr (on_agent r f st') = adds D sid st tr st'"
  by (simp_all add: adds_def on_agent_def)

lemma call_agent_adds:
  assumes "call_agent E r p i sid f st = (resp, st')" and "sid < o_next_stream st"
  shows "adds D sid st [Called sid p] st'"
proof -
  have "adds D sid st ([] @ [Called sid p]) (log1 (Called sid p) (st\<lparr>o_world := w, o_heap := h\<rparr>))" for w h
    using adds_refl [OF assms(2), of D] by (intro adds_log1) simp_all
  moreover have "adds D sid st ([] @ [Called sid p]) (log1 (Called sid p) st)"
    using adds_refl [OF assms(2), of D] by (intro adds_log1) simp_all
  moreover have "adds D sid st tr x \<Longrightarrow> adds D sid st tr (log_all (map (StreamText i sid) cs) x)" for tr x cs
    by (erule adds_then_grows, rule log_all_grows) (simp add: list_all_iff)
  ultimately show ?thesis using assms(1) unfolding call_agent_def Let_def
    by (auto split: option.splits prod.splits)
qed

lemma adds_next: "adds D sid st tr st' \<Longrightarrow> sid < o_next_stream st'"
  by (simp add: adds_def)

lemma recover_adds:
  assumes "recover_truncated_writes E live r i sid n resp cmds st = (resp', cmds', st')" and "sid < o_next_stream st"
  shows "\<exists>k \<le> n. adds D sid st (replicate k (Called sid Resume)) st'"
  using assms
proof (induction n arbitrary: resp cmds st)
  case 0
  then show ?case by (simp add: adds_refl)
next
  case (Suc n)
  show ?case
  proof (cases "turn_is_cancelled E st \<or> cut_off_path cmds = []")
    case True
    with Suc.prems have "st' = st" by auto
    with adds_refl [OF Suc.prems(2)] show ?thesis by (intro exI [of _ 0]) simp
  next
    case False
    let ?st1 = "if live then log1 (StreamText i sid (lf @ ''[resuming truncated /write '' @ cut_off_path cmds @ '']'' @ lf)) st else st"
    obtain x st2 where c: "call_agent E r Resume i sid (\<lambda>C. (if live then agent_stream C else agent_send C) [text_part (resume_prompt (cut_off_path cmds))]) ?st1 = (x, st2)"
      by fastforce
    have a1: "adds D sid st [] ?st1" using adds_refl [OF Suc.prems(2), of D] by (simp add: adds_quiet)
    have a2: "adds D sid st [Called sid Resume] st2"
      using adds_trans [OF a1 call_agent_adds [OF c adds_next [OF a1]]] by simp
    show ?thesis
    proof (cases "rs_ok x")
      case no: False
      then have "st' = st2" using Suc.prems(1) False c by (simp add: Let_def)
      with a2 show ?thesis by (intro exI [of _ 1]) simp
    next
      case True
      then have "recover_truncated_writes E live r i sid n (absorb resp x) (parse_agent_commands (rs_content (absorb resp x))) st2 = (resp', cmds', st')"
        using Suc.prems(1) False c by (simp add: Let_def)
      from Suc.IH [OF this adds_next [OF a2]] obtain k where "k \<le> n" "adds D sid st2 (replicate k (Called sid Resume)) st'" by blast
      with adds_trans [OF a2] show ?thesis by (intro exI [of _ "Suc k"]) fastforce
    qed
  qed
qed

lemma commit_adds:
  "adds D sid st tr st' \<Longrightarrow> adds D sid st (tr @ [Committed sid (m_content (user_message parts))]) (commit_text E r sid parts st')"
  unfolding commit_text_def by (intro adds_quiet adds_log1) simp_all

lemma tool_batch_adds:
  assumes "orderly_sub D (p_depth p) (p_sub p)" and "tool_batch E p images last_round cmds resp t m st = (env, imgs, t', m', st')"
    and "p_sid p < o_next_stream st"
  shows "adds D (p_sid p) st [Ran (p_sid p) cmds] st'" and "last_round \<Longrightarrow> announces_last env"
proof -
  let ?W = "turn_wiring E (p_sub p) (p_id p) (p_sid p) (p_depth p) (p_query p) (capabilities_of (p_agent p) st) images"
  obtain env0 imgs0 m1 st1 where tools: "run_tools ?W (p_sid p) cmds m st = (env0, imgs0, m1, st1)" by (metis prod_cases4)
  obtain warn failed where w: "maybe_loop_detected_preamble cmds env0 (t_prev_failed t) = (warn, failed)" by fastforce
  obtain pr nu st2 where c: "collect_presence_notes E (p_id p) (p_query p) (rs_content resp) (summarize_tool_calls cmds (warn @ env0)) (p_sid p)
      (t_notes_used t) st1 = (pr, nu, st2)" by (metis prod_cases3)
  have e: "env = (if last_round then append_one_tool_round_note (pr @ warn @ env0) else pr @ warn @ env0)" "st' = st2"
    using assms(2) tools w c by (simp_all add: tool_batch_def Let_def)
  have "adds D (p_sid p) st ([] @ [Ran (p_sid p) cmds]) (log1 (Ran (p_sid p) cmds) st)"
    using adds_refl [OF assms(3), of D] by (intro adds_log1) simp_all
  then have "adds D (p_sid p) st [Ran (p_sid p) cmds] st1" using adds_then_grows run_tools_grows [OF assms(1) tools] by fastforce
  then show "adds D (p_sid p) st [Ran (p_sid p) cmds] st'" unfolding e(2)
    by (rule adds_then_grows) (rule collect_presence_notes_grows [OF c])
  show "last_round \<Longrightarrow> announces_last env"
    unfolding e(1) announces_last_def append_one_tool_round_note_def by (auto simp: suffix_def)
qed

text \<open>How the envelope of a batch starts: a line break, the loop warning, or a presence note.\<close>

lemma tool_batch_head:
  assumes "tool_batch E p images last_round cmds resp t m st = (env, imgs, t', m', st')"
  shows "\<exists>u. env = CHR 0x0A # u \<or> env = ''[LOOP'' @ u \<or> env = ''[PRESENCE: '' @ u"
proof -
  let ?W = "turn_wiring E (p_sub p) (p_id p) (p_sid p) (p_depth p) (p_query p) (capabilities_of (p_agent p) st) images"
  obtain env0 imgs0 m1 st1 where tools: "run_tools ?W (p_sid p) cmds m st = (env0, imgs0, m1, st1)" by (metis prod_cases4)
  obtain warn failed where w: "maybe_loop_detected_preamble cmds env0 (t_prev_failed t) = (warn, failed)" by fastforce
  obtain pr nu st2 where c: "collect_presence_notes E (p_id p) (p_query p) (rs_content resp) (summarize_tool_calls cmds (warn @ env0)) (p_sid p)
      (t_notes_used t) st1 = (pr, nu, st2)" by (metis prod_cases3)
  have "\<exists>rest. env = pr @ warn @ env0 @ rest"
    using assms tools w c by (auto simp: tool_batch_def Let_def append_one_tool_round_note_def ends_line_def)
  moreover obtain x where "env0 = CHR 0x0A # x" using run_tools_head [OF tools] by blast
  moreover have "warn = [] \<or> prefix ''[LOOP'' warn"
    using w unfolding maybe_loop_detected_preamble_def format_loop_detected_warning_def Let_def by (auto split: if_splits)
  moreover have "pr = [] \<or> prefix ''[PRESENCE: '' pr"
    using c unfolding collect_presence_notes_def by (rule review_loop_text)
  ultimately show ?thesis by (auto simp: prefix_def)
qed

lemma tool_step_adds:
  assumes "orderly_sub D (p_depth p) (p_sub p)" and "tool_step E p last_round cmds resp t m st = (t', m', st')" and "p_sid p < o_next_stream st"
  shows "\<exists>env. adds D (p_sid p) st [Ran (p_sid p) cmds, Committed (p_sid p) env] st' \<and> (last_round \<longrightarrow> announces_last env)"
proof -
  obtain env imgs t1 m1 st1 where b: "tool_batch E p False last_round cmds resp t m st = (env, imgs, t1, m1, st1)" by (metis prod_cases5)
  have "m_content (user_message [text_part env]) = env"
    by (simp add: user_message_def text_part_def mk_message_def)
  with commit_adds [OF tool_batch_adds(1) [OF assms(1) b assms(3)], of "[text_part env]" E "p_agent p"] show ?thesis
    using tool_batch_adds(2) [OF assms(1) b assms(3)] assms(2) b by (auto simp: tool_step_def)
qed

definition loop_ok :: "nat \<Rightarrow> 'w turn_par \<Rightarrow> nat \<Rightarrow> 'w orch \<Rightarrow> 'w loop_end \<Rightarrow> bool" where
  "loop_ok D p n st e \<longleftrightarrow>
     (case e of
        Returned r m st' \<Rightarrow> \<exists>tr. trips (p_sid p) n False tr \<and> adds D (p_sid p) st (tr @ [StreamEnd (p_id p) (p_sid p) (status_of r)]) st'
      | Broke r pending t m st' \<Rightarrow> \<exists>tr. trips (p_sid p) n (pending \<noteq> []) tr \<and> adds D (p_sid p) st tr st')"

text \<open>A trip that is followed by others.\<close>

lemma loop_ok_prepend:
  assumes "loop_ok D p n st' e" and "adds D (p_sid p) st us st'" and "\<And>pending tr. trips (p_sid p) n pending tr \<Longrightarrow> trips (p_sid p) (Suc n) pending (us @ tr)"
  shows "loop_ok D p (Suc n) st e"
  using assms(1) assms(3) adds_trans [OF assms(2)] unfolding loop_ok_def by (cases e) fastforce+

lemma loop_ok_end:
  assumes "adds D (p_sid p) st (one_call (p_sid p) k) st1" and "k \<le> 3"
  shows "pending = [] \<or> n = 0 \<Longrightarrow> loop_ok D p (Suc n) st (Broke r pending t m st1)"
    and "s = status_of r \<Longrightarrow> loop_ok D p (Suc n) st (Returned r m (log1 (StreamEnd (p_id p) (p_sid p) s) st1))"
  using assms adds_log1 [OF assms(1), of "StreamEnd (p_id p) (p_sid p) s"] trips.last [of k "pending \<noteq> []" n "p_sid p"]
    trips.last [of k False n "p_sid p"]
  unfolding loop_ok_def by auto

lemma turn_loop_ok:
  assumes "orderly_sub D (p_depth p) (p_sub p)" and "p_sid p < o_next_stream st"
  shows "loop_ok D p n st (turn_loop E p n resp0 t m st)"
  using assms(2)
proof (induction n arbitrary: resp0 t m st)
  case 0
  show ?case using adds_refl [OF 0] trips.stop [of "p_sid p" 0] by (auto simp: loop_ok_def)
next
  case (Suc left)
  show ?case
  proof (cases "turn_is_cancelled E st")
    case True
    have "adds D (p_sid p) st ([] @ [StreamEnd (p_id p) (p_sid p) EndCancelled]) (log1 (StreamEnd (p_id p) (p_sid p) EndCancelled) st)"
      using adds_refl [OF Suc.prems] by (intro adds_log1) simp_all
    moreover have "status_of (cancelled_turn (t_content t) (t_in t) (t_out t)) = EndCancelled" by (simp add: status_of_def cancelled_turn_def)
    ultimately show ?thesis using True trips.stop [of "p_sid p" "Suc left"] by (auto simp: loop_ok_def)
  next
    case going: False
    let ?sid = "p_sid p"
    define st0 where "st0 = (if 0 < p_depth p then log1 (AgentStart (p_id p)) st else st)"
    obtain resp1 st1 where mr: "model_round E p t st0 = (resp1, st1)" by fastforce
    have a0: "adds D ?sid st [] st0" using adds_refl [OF Suc.prems, of D] by (simp add: st0_def adds_quiet)
    have a1: "adds D ?sid st [Called ?sid Main] st1"
      using adds_trans [OF a0 call_agent_adds [OF mr [unfolded model_round_def] adds_next [OF a0]]] by simp
    show ?thesis
    proof (cases "rs_ok resp1")
      case False
      have "loop_ok D p (Suc left) st (turn_loop E p (Suc left) resp0 t m st)" if "adds D ?sid st (one_call ?sid 0) st1"
        using False by (simp add: going st0_def [symmetric] mr Let_def) (rule loop_ok_end(2) [OF that], simp_all add: status_of_def)
      then show ?thesis using a1 by (simp add: one_call_def)
    next
      case ok: True
      obtain resp cmds st2 where rec: "recover_truncated_writes E False (p_agent p) (p_id p) ?sid kMaxRetries resp1
          (parse_agent_commands (rs_content resp1)) (log1 Checkpoint st1) = (resp, cmds, st2)" by (metis prod_cases3)
      define st3 where "st3 = (if 0 < p_depth p then log_all [Progress (p_id p) (rs_content resp), Cost (p_id p) (model_of (p_agent p) st2) resp] st2 else st2)"
      define t1 where "t1 = fold_reply resp t\<lparr>t_committed := False\<rparr>"
      have a2: "adds D ?sid st [Called ?sid Main] (log1 Checkpoint st1)" using a1 by (simp add: adds_quiet)
      obtain k where k: "k \<le> kMaxRetries" "adds D ?sid (log1 Checkpoint st1) (replicate k (Called ?sid Resume)) st2"
        using recover_adds [OF rec adds_next [OF a2]] by blast
      have "adds D ?sid st (one_call ?sid k) st2" using adds_trans [OF a2 k(2)] by (simp add: one_call_def)
      then have a3: "adds D ?sid st (one_call ?sid k) st3"
        by (rule adds_then_grows) (simp add: st3_def log_all_grows)
      have k3: "k \<le> 3" using k(1) by (simp add: kMaxRetries_def)
      show ?thesis
      proof (cases "cmds = []")
        case nocmd: True
        define gi where "gi = \<lparr>gi_original_task = p_query p, gi_terminating_text = rs_content resp,
                      gi_tool_summary = summarize_tool_calls (t_last_cmds (fold_reply resp t)) (t_last_results (fold_reply resp t))\<rparr>"
        obtain sig st4 where "gate_verdict E (p_gate p) (p_id p) ?sid (t_redirects (fold_reply resp t)) gi st3 = (sig, st4)" by fastforce
        note g = this [unfolded gi_def]
        have a4: "adds D ?sid st (one_call ?sid k) st4" using a3 gate_verdict_grows [OF g] by (rule adds_then_grows)
        have a5x: "adds D ?sid st (one_call ?sid k) (log1 (Escalation i s x) st4)" for i s x using a4 by (simp add: adds_quiet)
        have nxt: "left \<noteq> 0 \<Longrightarrow> loop_ok D p (Suc left) st (turn_loop E p left resp t2 m st4)" for t2
          by (rule loop_ok_prepend [OF Suc.IH [OF adds_next [OF a4]] a4]) (auto intro: trips.redirect k3)
        show ?thesis
          by (simp add: going st0_def [symmetric] mr ok rec st3_def [symmetric] nocmd g Let_def split: gate_kind.split)
            (intro conjI impI; (rule loop_ok_end(1) [OF a3 k3] loop_ok_end(1) [OF a4 k3] loop_ok_end(2) [OF a4 k3] loop_ok_end(2) [OF a5x k3] nxt);
              simp add: status_of_def with_totals_def)
      next
        case cmd: False
        show ?thesis
        proof (cases "left = 0")
          case True
          then show ?thesis using loop_ok_end(1) [OF a3 k3]
            by (simp add: going st0_def [symmetric] mr ok rec st3_def [symmetric] t1_def [symmetric] cmd Let_def)
        next
          case False
          obtain t2 m1 st4 where ts: "tool_step E p (left = 1) cmds resp t1 m st3 = (t2, m1, st4)" by (metis prod_cases3)
          obtain env where env: "adds D ?sid st3 [Ran ?sid cmds, Committed ?sid env] st4" "left = 1 \<longrightarrow> announces_last env"
            using tool_step_adds [OF assms(1) ts adds_next [OF a3]] by blast
          have a4: "adds D ?sid st (one_call ?sid k @ [Ran ?sid cmds, Committed ?sid env]) st4" using adds_trans [OF a3 env(1)] .
          have "loop_ok D p (Suc left) st (turn_loop E p left (resp\<lparr>rs_had_tool_calls := True\<rparr>) t2 m1 st4)"
            by (rule loop_ok_prepend [OF Suc.IH [OF adds_next [OF a4]] a4]) (use k3 cmd env(2) False in \<open>auto intro: trips.tools\<close>)
          then show ?thesis
            using False by (simp add: going st0_def [symmetric] mr ok rec st3_def [symmetric] t1_def [symmetric] cmd ts [unfolded One_nat_def] Let_def)
        qed
      qed
    qed
  qed
qed

section \<open>Whole turns\<close>

text \<open>
  A turn opens its stream, makes its trips, asks for one last answer with tools off when the last
  reply still has commands and the turn is not cancelled, and closes its stream with the status of the
  response.
\<close>

definition turn_trace :: "nat \<Rightarrow> nat \<Rightarrow> string \<Rightarrow> nat \<Rightarrow> ApiResponse \<Rightarrow> orch_event list \<Rightarrow> bool" where
  "turn_trace sid n i depth resp es \<longleftrightarrow>
     (\<exists>pending tr fin. trips sid n pending tr \<and> es = StreamStart i sid depth # tr @ fin @ [StreamEnd i sid (status_of resp)]
       \<and> (if fin = [] then pending \<longrightarrow> status_of resp = EndCancelled
          else pending \<and> fin = [Committed sid kBudgetExhaustedPrompt, Called sid FinalAnswer]))"

definition closes :: "nat \<Rightarrow> 'w turn_par \<Rightarrow> nat \<Rightarrow> ApiResponse \<Rightarrow> 'w orch \<Rightarrow> 'w orch \<Rightarrow> bool" where
  "closes D p n resp st st' \<longleftrightarrow>
     (\<exists>us. adds D (p_sid p) st us st' \<and> turn_trace (p_sid p) n (p_id p) (p_depth p) resp (StreamStart (p_id p) (p_sid p) (p_depth p) # us))"

lemma closes_returned: "loop_ok D p n st (Returned resp m st') \<Longrightarrow> closes D p n resp st st'"
  unfolding closes_def loop_ok_def turn_trace_def by fastforce

lemma closes_done:
  assumes "loop_ok D p n st (Broke r [] t m st')"
  shows "closes D p n resp st (log1 (StreamEnd (p_id p) (p_sid p) (status_of resp)) st')"
proof -
  obtain tr where tr: "trips (p_sid p) n False tr" "adds D (p_sid p) st tr st'" using assms by (auto simp: loop_ok_def)
  have "adds D (p_sid p) st (tr @ [StreamEnd (p_id p) (p_sid p) (status_of resp)]) (log1 (StreamEnd (p_id p) (p_sid p) (status_of resp)) st')"
    using tr(2) by (rule adds_log1) simp_all
  with tr(1) show ?thesis unfolding closes_def turn_trace_def by fastforce
qed

lemma closes_cancelled:
  assumes "loop_ok D p n st (Broke r pending t m st')" and "status_of resp = EndCancelled"
  shows "closes D p n resp st (log1 (StreamEnd (p_id p) (p_sid p) EndCancelled) st')"
proof -
  obtain b tr where tr: "trips (p_sid p) n b tr" "adds D (p_sid p) st tr st'" using assms(1) by (auto simp: loop_ok_def)
  have "adds D (p_sid p) st (tr @ [StreamEnd (p_id p) (p_sid p) EndCancelled]) (log1 (StreamEnd (p_id p) (p_sid p) EndCancelled) st')"
    using tr(2) by (rule adds_log1) simp_all
  with tr(1) assms(2) show ?thesis unfolding closes_def turn_trace_def by fastforce
qed

lemma closes_final:
  assumes "loop_ok D p n st (Broke r pending t m st')" and "pending \<noteq> []"
    and "call_agent E (p_agent p) FinalAnswer (p_id p) (p_sid p) f (commit_text E (p_agent p) (p_sid p) [text_part kBudgetExhaustedPrompt] st') = (final, st2)"
  shows "closes D p n resp st (log1 (StreamEnd (p_id p) (p_sid p) (status_of resp)) st2)"
proof -
  let ?sid = "p_sid p"
  obtain tr where tr: "trips ?sid n True tr" "adds D ?sid st tr st'" using assms(1,2) by (auto simp: loop_ok_def)
  have "adds D ?sid st (tr @ [Committed ?sid kBudgetExhaustedPrompt]) (commit_text E (p_agent p) ?sid [text_part kBudgetExhaustedPrompt] st')"
    using commit_adds [OF tr(2), of "[text_part kBudgetExhaustedPrompt]"] by (simp add: user_message_def text_part_def mk_message_def)
  from adds_trans [OF this call_agent_adds [OF assms(3) adds_next [OF this]]]
  have "adds D ?sid st (tr @ [Committed ?sid kBudgetExhaustedPrompt, Called ?sid FinalAnswer]) st2" by simp
  from adds_log1 [OF this, of "StreamEnd (p_id p) ?sid (status_of resp)"]
  have "adds D ?sid st (tr @ [Committed ?sid kBudgetExhaustedPrompt, Called ?sid FinalAnswer] @ [StreamEnd (p_id p) ?sid (status_of resp)])
          (log1 (StreamEnd (p_id p) ?sid (status_of resp)) st2)" by simp
  with tr(1) show ?thesis unfolding closes_def turn_trace_def by fastforce
qed

lemma finish_turn_closes:
  assumes "loop_ok D p n st e" and "finish_turn E p e = (resp, m', st')"
  shows "closes D p n resp st st'"
  using assms
proof (cases e)
  case (Broke r pending t m st1)
  obtain final st2 where c: "call_agent E (p_agent p) FinalAnswer (p_id p) (p_sid p) (\<lambda>C. if want_stream E p then stream_continue C else send_continue C)
      (commit_text E (p_agent p) (p_sid p) [text_part kBudgetExhaustedPrompt] st1) = (final, st2)" by fastforce
  show ?thesis
    using assms(2) closes_done [of D p n st r t m st1 resp] closes_cancelled [of D p n st r pending t m st1 resp]
      closes_final [OF assms(1) [unfolded Broke] _ c, of resp] assms(1)
    unfolding Broke finish_turn_def by (auto simp: c Let_def status_of_def split: if_splits)
qed (auto simp: finish_turn_def intro: closes_returned)

text \<open>What the preambles of a turn leave alone.\<close>

definition same_turn :: "aref \<Rightarrow> 'w orch \<Rightarrow> 'w orch \<Rightarrow> bool" where
  "same_turn r st st' \<longleftrightarrow> o_log st' = o_log st \<and> o_next_stream st' = o_next_stream st
     \<and> map_option a_config (o_heap st' r) = map_option a_config (o_heap st r)"

lemma same_turn_refl [simp]: "same_turn r st st"
  by (simp add: same_turn_def)

lemma same_turn_config:
  assumes "same_turn r st st'"
  shows "turn_budget E r depth st' = turn_budget E r depth st" "gate_config r st' = gate_config r st"
  using assms by (auto simp: same_turn_def turn_budget_def gate_config_def split: option.splits)

lemma probe_if_same: "probe_if E on c mk st = (x, st') \<Longrightarrow> same_turn r st st'"
  by (auto simp: probe_if_def probe_def same_turn_def split: prod.splits if_splits)

lemma pinned_same: "same_turn r st st' \<Longrightarrow> same_turn r st (on_agent r (set_compaction_pinned_facts key facts) st')"
  by (simp add: same_turn_def on_agent_def option.map_comp comp_def set_compaction_pinned_facts_def)

lemma same_turn_trans: "same_turn r a b \<Longrightarrow> same_turn r b c \<Longrightarrow> same_turn r a c"
  by (simp add: same_turn_def)

lemma add_preambles_same:
  assumes "add_preambles E r i depth msg st = (msg', st')"
  shows "same_turn r st st'"
  using assms unfolding add_preambles_def Let_def
  by (auto split: prod.splits if_splits dest!: probe_if_same [of _ _ _ _ _ _ _ r] intro!: pinned_same intro: same_turn_trans)

lemma stream_preambles_same:
  assumes "stream_preambles E r i msg parts st = (parts', st')"
  shows "same_turn r st st'"
  using assms unfolding stream_preambles_def Let_def
  by (auto split: prod.splits if_splits dest!: probe_if_same [of _ _ _ _ _ _ _ r] intro!: pinned_same intro: same_turn_trans)

lemma dispatch_turn_trace:
  assumes "orderly_sub D depth sub" and "depth \<le> D" and "dispatch_turn E sub r i msg depth q m st = (resp, m', st')"
  shows "\<exists>es. o_log st' = o_log st @ es \<and> list_all (later D (o_next_stream st)) es \<and> o_next_stream st < o_next_stream st'
           \<and> turn_trace (o_next_stream st) (turn_budget E r depth st) i depth resp (own (o_next_stream st) es)"
proof -
  let ?sid = "o_next_stream st"
  obtain msg1 st1 where pre: "add_preambles E r i depth msg st = (msg1, st1)" by fastforce
  define st2 where "st2 = log1 (StreamStart i ?sid depth) (st1\<lparr>o_next_stream := ?sid + 1\<rparr>)"
  define p where "p = \<lparr>p_agent = r, p_id = i, p_sid = ?sid, p_depth = depth, p_query = q, p_max = turn_budget E r depth st2,
               p_gate = gate_config r st2, p_sub = sub\<rparr>"
  note same = add_preambles_same [OF pre]
  then have keep: "o_log st1 = o_log st" "o_next_stream st1 = o_next_stream st" by (simp_all add: same_turn_def)
  have b: "p_max p = turn_budget E r depth st" using same_turn_config(1) [OF same] by (simp add: p_def st2_def log1_def turn_budget_def)
  have fin: "finish_turn E p (turn_loop E p (p_max p) default_response (start_turn msg1) m st2) = (resp, m', st')"
    using assms(3) pre keep(2) by (simp add: dispatch_turn_def Let_def st2_def p_def)
  have "loop_ok D p (p_max p) st2 (turn_loop E p (p_max p) default_response (start_turn msg1) m st2)"
    by (rule turn_loop_ok) (use assms(1) in \<open>simp_all add: p_def st2_def log1_def\<close>)
  from finish_turn_closes [OF this fin] obtain us where us: "adds D ?sid st2 us st'"
    "turn_trace ?sid (turn_budget E r depth st) i depth resp (StreamStart i ?sid depth # us)"
    by (auto simp: closes_def b) (simp add: p_def)
  then obtain es where "o_log st' = o_log st2 @ es" "own ?sid es = us" "list_all (later D ?sid) es" "o_next_stream st2 \<le> o_next_stream st'"
    by (auto simp: adds_def)
  then show ?thesis using us(2) assms(2) keep(1)
    by (intro exI [of _ "StreamStart i ?sid depth # es"]) (auto simp: st2_def log1_def own_def later_def)
qed

lemma dispatch_turn_orderly: "orderly_sub D depth sub \<Longrightarrow> depth \<le> D \<Longrightarrow> orderly D depth (dispatch_turn E sub)"
  unfolding orderly_def grows_def using dispatch_turn_trace [of D depth sub] by (meson less_imp_le)

lemma dispatch_at_orderly: "depth + k \<le> D \<Longrightarrow> orderly D depth (dispatch_at k E)"
  by (induction k arbitrary: depth) (auto intro!: dispatch_turn_orderly simp: orderly_sub_def)

lemma run_dispatch_trace:
  assumes "depth \<le> D" and "max_delegation_depth (oe_env E) \<le> D" and "run_dispatch E r i msg depth q m st = (resp, m', st')"
  shows "\<exists>es. o_log st' = o_log st @ es \<and> list_all (later D (o_next_stream st)) es \<and> o_next_stream st < o_next_stream st'
           \<and> turn_trace (o_next_stream st) (turn_budget E r depth st) i depth resp (own (o_next_stream st) es)"
proof -
  let ?k = "max_delegation_depth (oe_env E) - depth"
  define sub where "sub = (case ?k of 0 \<Rightarrow> None | Suc j \<Rightarrow> Some (dispatch_at j E))"
  have "dispatch_turn E sub r i msg depth q m st = (resp, m', st')"
    using assms(3) by (cases ?k) (simp_all add: run_dispatch_def sub_def)
  moreover have "orderly_sub D depth sub"
    using assms(1,2) by (auto simp: sub_def orderly_sub_def split: nat.splits intro!: dispatch_at_orderly)
  ultimately show ?thesis using dispatch_turn_trace assms(1) by blast
qed

section \<open>Streamed turns\<close>

text \<open>
  The streamed loop starts each trip with a reply already in: what it adds is a run of trips without
  its first call.
\<close>

definition rest_ok :: "nat \<Rightarrow> 'w turn_par \<Rightarrow> nat \<Rightarrow> 'w orch \<Rightarrow> 'w loop_end \<Rightarrow> bool" where
  "rest_ok D p n st e \<longleftrightarrow>
     (\<forall>st0 k. k \<le> 3 \<longrightarrow> adds D (p_sid p) st0 (one_call (p_sid p) k) st \<longrightarrow> loop_ok D p n st0 e)"

lemma envelope_with_images: "m_content (user_message (text_part env # map image_part imgs)) = env"
proof -
  have "concatenate_text out (map image_part imgs) = out" for out by (induction imgs) (simp_all add: image_part_def)
  then show ?thesis by (cases imgs) (simp_all add: user_message_def text_part_def mk_message_def)
qed

lemma settle_round_adds:
  assumes "settle_round E p resp1 st = (resp, cmds, st')" and "p_sid p < o_next_stream st"
  shows "\<exists>k \<le> 3. adds D (p_sid p) st (replicate k (Called (p_sid p) Resume)) st'"
proof -
  obtain st1 where st1: "recover_truncated_writes E True (p_agent p) (p_id p) (p_sid p) kMaxRetries resp1 (parse_agent_commands (rs_content resp1)) st = (resp, cmds, st1)"
    "st' = log1 (Cost (p_id p) (model_of (p_agent p) st1) resp) st1"
    using assms(1) unfolding settle_round_def by (auto split: prod.splits)
  from recover_adds [OF st1(1) assms(2)] obtain k where "k \<le> kMaxRetries" "adds D (p_sid p) st (replicate k (Called (p_sid p) Resume)) st1" by blast
  then show ?thesis using st1(2) by (intro exI [of _ k]) (simp add: adds_quiet kMaxRetries_def)
qed

lemma end_iteration_grows: "grows D st (end_iteration p cmds st)"
  by (simp add: end_iteration_def Let_def grows_log1_quiet)

text \<open>One more reply, after a redirect or a tool batch that added \<open>us\<close>.\<close>

lemma next_reply_ok:
  assumes round: "stream_round E p parts st1 = (resp1, st2)" and us: "adds D (p_sid p) st (one_call (p_sid p) k @ us) st1"
    and ext: "\<And>pending tr. trips (p_sid p) n pending tr \<Longrightarrow> trips (p_sid p) (Suc n) pending ((one_call (p_sid p) k @ us) @ tr)"
    and n: "n = Suc n'"
  shows "s = status_of r \<Longrightarrow> loop_ok D p (Suc n) st (Returned r m (log1 (StreamEnd (p_id p) (p_sid p) s) st2))"
    and "settle_round E p resp1 (log1 Checkpoint st2) = (resp, cmds, st3) \<Longrightarrow> rest_ok D p n (end_iteration p cmds' st3) e \<Longrightarrow> loop_ok D p (Suc n) st e"
proof -
  let ?sid = "p_sid p"
  have call: "adds D ?sid st1 (one_call ?sid 0) st2"
    using call_agent_adds [OF round [unfolded stream_round_def] adds_next [OF us]] by (simp add: one_call_def)
  show "loop_ok D p (Suc n) st (Returned r m (log1 (StreamEnd (p_id p) ?sid s) st2))" if "s = status_of r"
    unfolding n by (rule loop_ok_prepend [OF loop_ok_end(2) [OF call _ that] us]) (use ext n in auto)
  show "loop_ok D p (Suc n) st e"
    if settle: "settle_round E p resp1 (log1 Checkpoint st2) = (resp, cmds, st3)" and rest: "rest_ok D p n (end_iteration p cmds' st3) e"
  proof -
    have c: "adds D ?sid st1 [Called ?sid Main] (log1 Checkpoint st2)" using call by (simp add: one_call_def adds_quiet)
    obtain j where j: "j \<le> 3" "adds D ?sid (log1 Checkpoint st2) (replicate j (Called ?sid Resume)) st3"
      using settle_round_adds [OF settle adds_next [OF c]] by blast
    have "adds D ?sid st1 (one_call ?sid j) (end_iteration p cmds' st3)"
      using adds_then_grows [OF adds_trans [OF c j(2)] end_iteration_grows] by (simp add: one_call_def)
    with rest j(1) have "loop_ok D p n st1 e" by (simp add: rest_ok_def)
    then show ?thesis by (rule loop_ok_prepend [OF _ us]) (use ext in auto)
  qed
qed

lemma stream_turn_loop_ok:
  assumes "orderly_sub D (p_depth p) (p_sub p)"
  shows "rest_ok D p (Suc left) st (fst (stream_turn_loop E p (Suc left) resp cmds had t m st))"
proof (induction left arbitrary: resp cmds had t m st)
  have step: "rest_ok D p (Suc left) st (fst (stream_turn_loop E p (Suc left) resp cmds had t m st))"
    if IH: "\<And>l resp cmds had t m st. left = Suc l \<Longrightarrow> rest_ok D p left st (fst (stream_turn_loop E p left resp cmds had t m st))"
    for left resp cmds had t m st
  proof -
    let ?sid = "p_sid p" and ?e = "fst (stream_turn_loop E p (Suc left) resp cmds had t m st)"
    have "loop_ok D p (Suc left) st0 ?e" if k: "k \<le> 3" and a: "adds D ?sid st0 (one_call ?sid k) st" for st0 k
    proof (cases "turn_is_cancelled E st")
      case True
      then show ?thesis by simp (rule loop_ok_end(2) [OF a k], simp add: status_of_def cancelled_turn_def)
    next
      case going: False
      show ?thesis
      proof (cases "cmds = []")
        case nocmd: True
        define gi where "gi = \<lparr>gi_original_task = p_query p, gi_terminating_text = rs_content resp,
                    gi_tool_summary = summarize_tool_calls (t_last_cmds t) (t_last_results t)\<rparr>"
        obtain sig st4 where "gate_verdict E (p_gate p) (p_id p) ?sid (t_redirects t) gi st = (sig, st4)" by fastforce
        note g = this [unfolded gi_def]
        have a4: "adds D ?sid st0 (one_call ?sid k) st4" using a gate_verdict_grows [OF g] by (rule adds_then_grows)
        have a5: "adds D ?sid st0 (one_call ?sid k) (log1 (Escalation i s x) st4)" for i s x using a4 by (simp add: adds_quiet)
        have a6: "adds D ?sid st0 (one_call ?sid k @ []) (log1 (StreamText (p_id p) ?sid lf) st4)" using a4 by (simp add: adds_quiet)
        obtain resp1 st5 where r: "stream_round E p (Some [text_part (redirect_text (go_text sig))]) (log1 (StreamText (p_id p) ?sid lf) st4) = (resp1, st5)"
          by fastforce
        obtain resp2 cmds2 st6 where s: "settle_round E p resp1 (log1 Checkpoint st5) = (resp2, cmds2, st6)" by (metis prod_cases3)
        have ext: "trips ?sid left b tr \<Longrightarrow> trips ?sid (Suc left) b ((one_call ?sid k @ []) @ tr)" if "0 < left" for b tr
          using that trips.redirect [OF k, of left ?sid] by simp
        have failed: "0 < left \<Longrightarrow> s = status_of x \<Longrightarrow> loop_ok D p (Suc left) st0 (Returned x m' (log1 (StreamEnd (p_id p) ?sid s) st5))" for x m' s
          using next_reply_ok(1) [OF r a6 ext] by (auto simp: gr0_conv_Suc)
        have again: "0 < left \<Longrightarrow> loop_ok D p (Suc left) st0 (fst (stream_turn_loop E p left x y had' t' m' (end_iteration p cmds2 st6)))" for x y had' t' m'
          using next_reply_ok(2) [OF r a6 ext _ s IH] by (auto simp: gr0_conv_Suc simp del: stream_turn_loop.simps)
        show ?thesis
          apply (subst stream_turn_loop.simps(2))
          apply (simp add: going nocmd g r s Let_def del: stream_turn_loop.simps split: gate_kind.split)
          apply (intro conjI impI; (rule loop_ok_end(1) [OF a k] loop_ok_end(1) [OF a4 k] loop_ok_end(2) [OF a4 k] loop_ok_end(2) [OF a5 k] failed again);
              simp add: status_of_def with_totals_def)
          done
      next
        case cmd: False
        show ?thesis
        proof (cases left)
          case 0
          then show ?thesis using loop_ok_end(1) [OF a k] by (simp add: going cmd Let_def)
        next
          case (Suc l)
          define stx where "stx = log1 (StreamText (p_id p) ?sid lf) st"
          have ax: "adds D ?sid st0 (one_call ?sid k) stx" using a by (simp add: stx_def adds_quiet)
          obtain env imgs t1 m1 st1 where b: "tool_batch E p True (left = 1) cmds resp t m stx = (env, imgs, t1, m1, st1)" by (metis prod_cases5)
          define st2 where "st2 = commit_text E (p_agent p) ?sid (text_part env # map image_part imgs) st1"
          let ?env = "m_content (user_message (text_part env # map image_part imgs))"
          have a2: "adds D ?sid st0 (one_call ?sid k @ [Ran ?sid cmds, Committed ?sid ?env]) st2"
            using commit_adds [OF adds_trans [OF ax tool_batch_adds(1) [OF assms b adds_next [OF ax]]]] by (simp add: st2_def)
          obtain resp1 st5 where r: "stream_round E p None st2 = (resp1, st5)" by fastforce
          obtain resp2 cmds2 st6 where s: "settle_round E p resp1 (log1 Checkpoint st5) = (resp2, cmds2, st6)" by (metis prod_cases3)
          note env = envelope_with_images [of env imgs]
          have ext: "trips ?sid left b' tr \<Longrightarrow> trips ?sid (Suc left) b' ((one_call ?sid k @ [Ran ?sid cmds, Committed ?sid ?env]) @ tr)" for b' tr
            using trips.tools [OF k, of left cmds ?env ?sid b' tr] cmd Suc tool_batch_adds(2) [OF assms b adds_next [OF ax]] env by simp
          show ?thesis
            apply (subst stream_turn_loop.simps(2))
            apply (simp add: going cmd Suc b [unfolded Suc, simplified] stx_def [symmetric] st2_def [symmetric] r s Let_def del: stream_turn_loop.simps)
            apply (intro conjI impI; (rule next_reply_ok(1) [OF r a2 ext Suc, unfolded Suc] next_reply_ok(2) [OF r a2 ext Suc s IH [OF Suc], unfolded Suc]);
                simp add: status_of_def)
            done
        qed
      qed
    qed
    then show ?thesis by (simp add: rest_ok_def)
  qed
  case 0
  show ?case by (rule step) simp
  case (Suc left)
  show ?case by (rule step) (use Suc in auto)
qed

lemma finish_stream_closes:
  assumes "loop_ok D p n st (fst e)" and "finish_stream E p e = (resp, st')"
  shows "closes D p n resp st st'"
proof (cases e)
  case (Pair e' had)
  show ?thesis
  proof (cases e')
    case (Returned r m st1)
    then show ?thesis using assms Pair by (auto simp: finish_stream_def intro: closes_returned)
  next
    case (Broke r pending t m st1)
    obtain final st2 where c: "call_agent E (p_agent p) FinalAnswer (p_id p) (p_sid p) stream_continue
        (commit_text E (p_agent p) (p_sid p) [text_part kBudgetExhaustedPrompt] st1) = (final, st2)" by fastforce
    show ?thesis
      using assms(2) closes_done [of D p n st r t m st1 resp] closes_cancelled [of D p n st r pending t m st1 resp]
        closes_final [OF _ _ c, of D n st r pending t m resp] assms(1)
      unfolding Pair Broke finish_stream_def by (auto simp: c Let_def status_of_def split: if_splits)
  qed
qed

lemma turn_budget_pos: "0 < turn_budget E r depth st"
  by (auto simp: turn_budget_def resolve_max_turns_def env_positive_int_def Let_def split: option.splits if_splits)

lemma stream_turn_trace:
  assumes "max_delegation_depth (oe_env E) \<le> D" and "stream_turn E r i parts msg q st = (resp, st')"
  shows "\<exists>es. o_log st' = o_log st @ es \<and> list_all (later D (o_next_stream st)) es \<and> o_next_stream st < o_next_stream st'
           \<and> turn_trace (o_next_stream st) (turn_budget E r 0 st) i 0 resp (own (o_next_stream st) es)"
proof -
  let ?sid = "o_next_stream st" and ?k = "max_delegation_depth (oe_env E)"
  obtain parts1 st1 where pre: "stream_preambles E r i msg parts st = (parts1, st1)" by fastforce
  define st2 where "st2 = log1 (StreamStart i ?sid 0) (st1\<lparr>o_next_stream := ?sid + 1\<rparr>)"
  define p where "p = \<lparr>p_agent = r, p_id = i, p_sid = ?sid, p_depth = 0, p_query = q, p_max = turn_budget E r 0 st2, p_gate = gate_config r st2,
               p_sub = (case ?k of 0 \<Rightarrow> None | Suc j \<Rightarrow> Some (dispatch_at j E))\<rparr>"
  obtain resp1 st3 where r: "stream_round E p (Some parts1) st2 = (resp1, st3)" by fastforce
  note same = stream_preambles_same [OF pre]
  then have keep: "o_log st1 = o_log st" "o_next_stream st1 = ?sid" by (simp_all add: same_turn_def)
  have b: "p_max p = turn_budget E r 0 st" using same_turn_config(1) [OF same] by (simp add: p_def st2_def log1_def turn_budget_def)
  obtain l where l: "p_max p = Suc l" using turn_budget_pos [of E r 0 st] b by (auto simp: gr0_conv_Suc)
  have sub: "orderly_sub D (p_depth p) (p_sub p)"
    using assms(1) by (auto simp: p_def orderly_sub_def split: nat.splits intro!: dispatch_at_orderly)
  have sid: "p_sid p = ?sid" "p_id p = i" "p_depth p = 0" "?sid < o_next_stream st2" by (simp_all add: p_def st2_def log1_def)
  have a: "adds D ?sid st2 [Called ?sid Main] st3"
    using call_agent_adds [OF r [unfolded stream_round_def]] sid by simp
  have body: "stream_turn E r i parts msg q st =
      (if \<not> rs_ok resp1 then (resp1, log1 (StreamEnd i ?sid (status_of resp1)) st3)
       else case settle_round E p resp1 st3 of (resp, cmds, st4) \<Rightarrow>
         finish_stream E p (stream_turn_loop E p (p_max p) resp cmds (cmds \<noteq> [])
           ((start_turn [])\<lparr>t_content := rs_content resp, t_in := rs_input_tokens resp, t_out := rs_output_tokens resp\<rparr>) (Some Map.empty)
           (log1 Checkpoint (end_iteration p cmds st4))))"
    unfolding stream_turn_def using pre keep(2) r by (simp add: Let_def st2_def p_def del: stream_turn_loop.simps)
  have "closes D p (p_max p) resp st2 st'"
  proof (cases "rs_ok resp1")
    case False
    then show ?thesis using loop_ok_end(2) [of D p st2 0 st3 _ resp1 l] a assms(2) body sid l
      by (auto simp: one_call_def intro!: closes_returned)
  next
    case True
    obtain resp2 cmds st4 where s: "settle_round E p resp1 st3 = (resp2, cmds, st4)" by (metis prod_cases3)
    obtain k where k: "k \<le> 3" "adds D ?sid st3 (replicate k (Called ?sid Resume)) st4"
      using settle_round_adds [OF s, of D] adds_next [OF a] sid by auto
    have "adds D ?sid st2 (one_call ?sid k) (log1 Checkpoint (end_iteration p cmds st4))"
      using adds_quiet [OF adds_then_grows [OF adds_trans [OF a k(2)] end_iteration_grows]] by (simp add: one_call_def)
    then have "loop_ok D p (p_max p) st2 (fst (stream_turn_loop E p (p_max p) resp2 cmds had t m (log1 Checkpoint (end_iteration p cmds st4))))" for had t m
      using stream_turn_loop_ok [OF sub] k(1) sid unfolding l rest_ok_def by metis
    from finish_stream_closes [OF this] show ?thesis using assms(2) body True s by simp
  qed
  then obtain us es where us: "turn_trace ?sid (turn_budget E r 0 st) i 0 resp (StreamStart i ?sid 0 # us)"
    and es: "o_log st' = o_log st2 @ es" "own ?sid es = us" "list_all (later D ?sid) es" "o_next_stream st2 \<le> o_next_stream st'"
    by (auto simp: closes_def adds_def sid b)
  then show ?thesis using keep(1)
    by (intro exI [of _ "StreamStart i ?sid 0 # es"]) (auto simp: st2_def log1_def own_def later_def)
qed

section \<open>The gate\<close>

text \<open>A loop end under an active gate: a return is a failure, and a clean break was approved.\<close>

definition gated_end :: "'w loop_end \<Rightarrow> bool" where
  "gated_end e \<longleftrightarrow> (case e of Returned r m st \<Rightarrow> \<not> rs_ok r | Broke r pending t m st \<Rightarrow> pending = [] \<longrightarrow> rs_gate_approved r)"

lemma gated_end_simps [simp]:
  "gated_end (Returned r m st) \<longleftrightarrow> \<not> rs_ok r" "gated_end (Broke r pending t m st) \<longleftrightarrow> (pending = [] \<longrightarrow> rs_gate_approved r)"
  by (simp_all add: gated_end_def)

lemma turn_loop_gated:
  assumes "gate_active (p_gate p)" and "0 < n"
  shows "gated_end (turn_loop E p n resp0 t m st)"
  using assms(2)
proof (induction n arbitrary: resp0 t m st)
  case (Suc left)
  show ?case
    by (auto simp: Let_def assms(1) cancelled_turn_def with_totals_def Suc.IH split: prod.split gate_kind.split)
qed simp

lemma stream_turn_loop_gated:
  assumes "gate_active (p_gate p)" and "0 < n"
  shows "gated_end (fst (stream_turn_loop E p n resp cmds had t m st))"
  using assms(2)
proof (induction n arbitrary: resp cmds had t m st)
  case (Suc left)
  show ?case
    by (auto simp: Let_def assms(1) cancelled_turn_def with_totals_def Suc.IH split: prod.split gate_kind.split)
qed simp

definition gate_outcome :: "ApiResponse \<Rightarrow> bool" where
  "gate_outcome r \<longleftrightarrow> rs_gate_approved r \<or> rs_budget_exhausted r \<or> rs_error_type r = ''cancelled'' \<or> status_of r = EndFailed"

lemma finish_turn_gated: "gated_end e \<Longrightarrow> finish_turn E p e = (resp, m', st') \<Longrightarrow> gate_outcome resp"
  by (cases e) (auto simp: finish_turn_def gated_end_def gate_outcome_def with_totals_def status_of_def fold_budget_final_def Let_def
      split: if_splits prod.splits)

lemma finish_stream_gated: "gated_end (fst e) \<Longrightarrow> finish_stream E p e = (resp, st') \<Longrightarrow> gate_outcome resp"
  by (cases e; cases "fst e") (auto simp: finish_stream_def gated_end_def gate_outcome_def with_totals_def status_of_def fold_budget_final_def Let_def
      split: if_splits prod.splits)

section \<open>Properties\<close>

definition calls :: "nat \<Rightarrow> purpose \<Rightarrow> orch_event list \<Rightarrow> nat" where
  "calls sid p es = length (filter (\<lambda>e. e = Called sid p) es)"

definition batches :: "nat \<Rightarrow> orch_event list \<Rightarrow> nat" where
  "batches sid es = length (filter (\<lambda>e. case e of Ran n cmds \<Rightarrow> n = sid | _ \<Rightarrow> False) es)"

lemma count_simps [simp]:
  "calls sid p [] = 0" "calls sid p (e # es) = (if e = Called sid p then 1 else 0) + calls sid p es" "calls sid p (es @ fs) = calls sid p es + calls sid p fs"
  "calls sid p (one_call sid k) = (case p of Main \<Rightarrow> 1 | Resume \<Rightarrow> k | FinalAnswer \<Rightarrow> 0)"
  "batches sid [] = 0" "batches sid (e # es) = (case e of Ran n cmds \<Rightarrow> if n = sid then 1 else 0 | _ \<Rightarrow> 0) + batches sid es"
  "batches sid (es @ fs) = batches sid es + batches sid fs" "batches sid (one_call sid k) = 0"
  by (auto simp: calls_def batches_def one_call_def split: orch_event.splits purpose.splits)

lemma count_own: "calls sid p (own sid es) = calls sid p es" "batches sid (own sid es) = batches sid es"
  by (induction es; auto simp: own_def calls_def batches_def split: orch_event.splits)+

lemma trips_counts:
  "trips sid n pending tr \<Longrightarrow> calls sid Main tr \<le> n \<and> calls sid Resume tr \<le> 3 * n \<and> calls sid FinalAnswer tr = 0 \<and> (batches sid tr = 0 \<or> batches sid tr < n)"
  by (induction rule: trips.induct) auto

definition within_budget :: "nat \<Rightarrow> nat \<Rightarrow> orch_event list \<Rightarrow> bool" where
  "within_budget sid n es \<longleftrightarrow> calls sid Main es \<le> n \<and> calls sid Resume es \<le> 3 * n \<and> calls sid FinalAnswer es \<le> 1 \<and> batches sid es < n"

lemma turn_trace_counts:
  assumes "turn_trace sid n i depth resp (own sid es)" and "0 < n"
  shows "within_budget sid n es"
proof -
  obtain pending tr fin where tr: "trips sid n pending tr" and own: "own sid es = StreamStart i sid depth # tr @ fin @ [StreamEnd i sid (status_of resp)]"
    and fin: "fin = [] \<or> fin = [Committed sid kBudgetExhaustedPrompt, Called sid FinalAnswer]"
    using assms(1) unfolding turn_trace_def by (meson)
  have "within_budget sid n (own sid es)" unfolding own using trips_counts [OF tr] fin assms(2) by (auto simp: within_budget_def)
  then show ?thesis by (simp add: within_budget_def count_own)
qed





text \<open>
  The envelope of a tool batch, committed with its images, is never what the compaction takes for
  tool results: wherever it stands in a history it counts as the start of an exchange.
\<close>

lemma tool_results_look_like_a_prompt:
  "is_good_start (h @ user_message (text_part (fst (tool_batch E p images last_round cmds resp t m st)) # map image_part imgs) # h') (length h)"
proof -
  obtain env imgs' t' m' st' where b: "tool_batch E p images last_round cmds resp t m st = (env, imgs', t', m', st')" by (metis prod_cases5)
  have "\<not> prefix ''[TOOL RESULTS]'' env" using tool_batch_head [OF b] by (elim exE disjE) simp_all
  moreover have "m_role (user_message parts) = ''user''" for parts by (simp add: user_message_def mk_message_def split: list.split)
  ultimately show ?thesis by (simp add: b is_good_start_def is_tool_results_message_def envelope_with_images)
qed

lemma dispatch_turn_gated:
  assumes "gate_active (gate_config r st)" and "dispatch_turn E sub r i msg depth q m st = (resp, m', st')"
  shows "gate_outcome resp"
proof -
  obtain msg1 st1 where pre: "add_preambles E r i depth msg st = (msg1, st1)" by fastforce
  define st2 where "st2 = log1 (StreamStart i (o_next_stream st1) depth) (st1\<lparr>o_next_stream := o_next_stream st1 + 1\<rparr>)"
  define p where "p = \<lparr>p_agent = r, p_id = i, p_sid = o_next_stream st1, p_depth = depth, p_query = q, p_max = turn_budget E r depth st2,
               p_gate = gate_config r st2, p_sub = sub\<rparr>"
  have "gate_active (p_gate p)" "0 < p_max p"
    using assms(1) same_turn_config(2) [OF add_preambles_same [OF pre]] turn_budget_pos by (simp_all add: p_def st2_def log1_def gate_config_def)
  moreover have "finish_turn E p (turn_loop E p (p_max p) default_response (start_turn msg1) m st2) = (resp, m', st')"
    using assms(2) pre by (simp add: dispatch_turn_def Let_def st2_def p_def)
  ultimately show ?thesis by (blast intro: finish_turn_gated turn_loop_gated)
qed

lemma stream_turn_gated:
  assumes "gate_active (gate_config r st)" and "stream_turn E r i parts msg q st = (resp, st')"
  shows "gate_outcome resp"
proof -
  obtain parts1 st1 where pre: "stream_preambles E r i msg parts st = (parts1, st1)" by fastforce
  define st2 where "st2 = log1 (StreamStart i (o_next_stream st1) 0) (st1\<lparr>o_next_stream := o_next_stream st1 + 1\<rparr>)"
  define p where "p = \<lparr>p_agent = r, p_id = i, p_sid = o_next_stream st1, p_depth = 0, p_query = q, p_max = turn_budget E r 0 st2, p_gate = gate_config r st2,
               p_sub = (case max_delegation_depth (oe_env E) of 0 \<Rightarrow> None | Suc j \<Rightarrow> Some (dispatch_at j E))\<rparr>"
  have g: "gate_active (p_gate p)" "0 < p_max p"
    using assms(1) same_turn_config(2) [OF stream_preambles_same [OF pre]] turn_budget_pos by (simp_all add: p_def st2_def log1_def gate_config_def)
  obtain resp1 st3 where r: "stream_round E p (Some parts1) st2 = (resp1, st3)" by fastforce
  obtain resp2 cmds st4 where s: "settle_round E p resp1 st3 = (resp2, cmds, st4)" by (metis prod_cases3)
  show ?thesis
  proof (cases "rs_ok resp1")
    case False
    then show ?thesis using assms(2) pre r by (auto simp: stream_turn_def Let_def st2_def p_def gate_outcome_def status_of_def)
  next
    case True
    then have "\<exists>t m st5 had. finish_stream E p (stream_turn_loop E p (p_max p) resp2 cmds had t m st5) = (resp, st')"
      using assms(2) pre r s by (simp add: stream_turn_def Let_def st2_def p_def del: stream_turn_loop.simps) blast
    then show ?thesis using finish_stream_gated stream_turn_loop_gated [OF g] by blast
  qed
qed

text \<open>
  The answer that follows an exhausted budget reaches no advisor: after the loop has ended with
  commands pending, nothing that is added to the trace comes from the gate.
\<close>

lemma final_answer_unreviewed:
  "case finish_turn E p (Broke resp (c # cs) t m st) of (r, m', st') \<Rightarrow>
     \<exists>es. o_log st' = o_log st @ es \<and> list_all (\<lambda>e. case e of AdvisorNote a \<Rightarrow> False | _ \<Rightarrow> True) es"
  by (auto simp: finish_turn_def call_agent_def commit_text_def on_agent_def log1_def log_all_def list_all_iff Let_def split: prod.splits option.splits)

text \<open>
  A trip replaces the reply of the trip before, and with it the tool-use flag that was set on it: the
  loop does not depend on the reply it is entered with.
\<close>

lemma flagged_reply_dropped: "turn_loop E p (Suc n) (resp\<lparr>rs_had_tool_calls := True\<rparr>) t m st = turn_loop E p (Suc n) resp t m st"
  by (subst (1 2) turn_loop.simps) (rule refl)

section \<open>Gated turns\<close>


definition demo_gated :: Constitution where
  "demo_gated = demo_constitution\<lparr>cn_advisor :=
     \<lparr>av_model = ''judge'', av_prompt = [], av_mode = ''gate'', av_max_redirects = 2, av_malformed_halts = True\<rparr>\<rparr>"

definition demo_orch_env :: "unit orch_env" where
  "demo_orch_env = \<lparr>oe_key = ''k'', oe_complete = (\<lambda>req w. (demo_reply ''<signal>CONTINUE</signal>'' ''stop'', w)),
     oe_stream = (\<lambda>req w. (demo_reply ''done'' ''stop'', [], w)), oe_wiring = demo_wiring, oe_env = Map.empty, oe_fnmatch = (\<lambda>_ _. False),
     oe_agent_stream_cb = False, oe_compact_cfg = default_compaction_config, oe_remote_roster = [], oe_clear_cancel = id\<rparr>"

definition demo_orch :: "unit orch" where
  "demo_orch = \<lparr>o_world = (), o_heap = [Master \<mapsto> mk_agent ''index'' demo_gated default_compaction_config], o_roster = [], o_log = [],
     o_next_stream = 0, o_next_eph = 0\<rparr>"


end
