(* ===== verification/Plan_Exec.thy ===== *)
theory Plan_Exec
  imports Turn_Correct
begin

text \<open>
  Plan execution (\<open>parse_plan\<close> and \<open>execute_plan\<close> in \<open>src/orchestrator.cpp\<close>): the reader of the
  planner's markdown, and the loop that runs the phases in the order of the file, hands each one the
  outputs it depends on, and stops at the first failure.  An exception of \<open>std::stoi\<close> that leaves the
  reader is the result \<open>None\<close>.  The content of the file, or that it cannot be opened, is an argument.
\<close>

section \<open>Reading a plan\<close>

record PlanPhase =
  ph_number :: int
  ph_name :: string
  ph_agent :: string
  ph_depends_on :: "int list"
  ph_task :: string
  ph_output_desc :: string
  ph_acceptance :: string

definition empty_phase :: PlanPhase where
  "empty_phase = \<lparr>ph_number = 0, ph_name = [], ph_agent = [], ph_depends_on = [], ph_task = [], ph_output_desc = [], ph_acceptance = []\<rparr>"

definition plan_blank :: "char \<Rightarrow> bool" where
  "plan_blank c \<longleftrightarrow> c = CHR '' '' \<or> c = CHR 0x0D"

definition plan_strip :: "string \<Rightarrow> string" where
  "plan_strip s = rev (dropWhile plan_blank (rev (dropWhile plan_blank s)))"

text \<open>The tokens that \<open>iss >> tok\<close> reads.\<close>

function ws_tokens :: "string \<Rightarrow> string list" where
  "ws_tokens s =
     (let t = dropWhile is_space s in
      if t = [] then [] else takeWhile (\<lambda>c. \<not> is_space c) t # ws_tokens (dropWhile (\<lambda>c. \<not> is_space c) t))"
  by pat_completeness auto
termination
proof (relation "measure length")
  fix s t :: string
  assume t: "t = dropWhile is_space s" "t \<noteq> []"
  then have "\<not> is_space (hd t)" by (simp add: hd_dropWhile)
  with t(2) have "length (dropWhile (\<lambda>c. \<not> is_space c) t) < length t"
    by (cases t) (auto simp: less_Suc_eq_le length_dropWhile_le)
  also have "\<dots> \<le> length s" using t(1) by (simp add: length_dropWhile_le)
  finally show "(dropWhile (\<lambda>c. \<not> is_space c) t, s) \<in> measure length" by simp
qed simp

declare ws_tokens.simps [simp del]

fun read_numbers :: "string list \<Rightarrow> int list option" where
  "read_numbers [] = Some []"
| "read_numbers (tok # toks) =
     (let digits = filter is_digit tok in
      if digits = [] then read_numbers toks
      else case stoi digits of None \<Rightarrow> None | Some n \<Rightarrow> map_option ((#) n) (read_numbers toks))"

definition parse_depends :: "string \<Rightarrow> int list option" where
  "parse_depends s = read_numbers (ws_tokens s)"

definition field_match :: "string \<Rightarrow> string \<Rightarrow> string option" where
  "field_match l label =
     (let pre = ''**'' @ label @ '':**'' in
      if length l \<le> length pre \<or> \<not> prefix pre l then None else Some (plan_strip (drop (length pre) l)))"

definition phase_header :: "string \<Rightarrow> PlanPhase" where
  "phase_header rest =
     (let num = takeWhile (\<lambda>c. c \<noteq> CHR 0x3A) rest;
          p = empty_phase\<lparr>ph_number := (case stoi num of None \<Rightarrow> 0 | Some n \<Rightarrow> n)\<rparr>
      in if num = rest then p else p\<lparr>ph_name := plan_strip (drop (length num + 1) rest)\<rparr>)"

text \<open>
  One line: the phases so far, the newest first, and whether the task of the newest one is open for
  continuation lines.
\<close>

definition is_phase_header :: "string \<Rightarrow> bool" where
  "is_phase_header l \<longleftrightarrow> 10 < length l \<and> prefix ''### Phase '' l"

definition phase_line :: "string \<Rightarrow> PlanPhase \<Rightarrow> bool \<Rightarrow> (PlanPhase \<times> bool) option" where
  "phase_line l p in_task =
     (case field_match l ''Agent'' of Some v \<Rightarrow> Some (p\<lparr>ph_agent := v\<rparr>, False)
      | None \<Rightarrow>
     (case field_match l ''Depends on'' of Some v \<Rightarrow> map_option (\<lambda>ds. (p\<lparr>ph_depends_on := ph_depends_on p @ ds\<rparr>, False)) (parse_depends v)
      | None \<Rightarrow>
     (case field_match l ''Task'' of Some v \<Rightarrow> Some (p\<lparr>ph_task := v\<rparr>, True)
      | None \<Rightarrow>
     (case field_match l ''Output'' of Some v \<Rightarrow> Some (p\<lparr>ph_output_desc := v\<rparr>, False)
      | None \<Rightarrow>
     (case field_match l ''Acceptance'' of Some v \<Rightarrow> Some (p\<lparr>ph_acceptance := v\<rparr>, False)
      | None \<Rightarrow> Some (if in_task \<and> l \<noteq> [] then p\<lparr>ph_task := ph_task p @ lf @ l\<rparr> else p, in_task))))))"

fun plan_lines :: "string list \<Rightarrow> PlanPhase list \<Rightarrow> bool \<Rightarrow> PlanPhase list option" where
  "plan_lines [] ps in_task = Some (rev ps)"
| "plan_lines (line # lines) ps in_task =
     (let l = pop_cr line in
      if is_phase_header l then plan_lines lines (phase_header (drop 10 l) # ps) False
      else case ps of
        [] \<Rightarrow> plan_lines lines [] in_task
      | p # rest \<Rightarrow>
          (case phase_line l p in_task of
             None \<Rightarrow> None
           | Some (p', in_task') \<Rightarrow> plan_lines lines (p' # rest) in_task'))"

definition parse_plan :: "string \<Rightarrow> PlanPhase list option" where
  "parse_plan text = plan_lines (getlines text) [] False"

section \<open>Running it\<close>

record PlanResult =
  pr_ok :: bool
  pr_error :: string
  pr_phases :: "(int \<times> string \<times> string) list"

text \<open>
  The state of a run: the orchestrator, the outputs by phase number, the report so far, the progress
  lines, and the calls made to the embedding program with their answers.
\<close>

record 'w plan_run =
  pl_orch :: "'w orch"
  pl_outputs :: "int \<Rightarrow> string option"
  pl_report :: "(int \<times> string \<times> string) list"
  pl_notices :: "string list"
  pl_calls :: "(ext_call \<times> answer) list"

definition plan_ask :: "'w orch_env \<Rightarrow> ext_call \<Rightarrow> 'w plan_run \<Rightarrow> answer \<times> 'w plan_run" where
  "plan_ask E c pl =
     (let (a, w, m) = w_answer (oe_wiring E) (o_world (pl_orch pl)) None c
      in (a, pl\<lparr>pl_orch := (pl_orch pl)\<lparr>o_world := w\<rparr>, pl_calls := pl_calls pl @ [(c, a)]\<rparr>))"

definition phase_number_text :: "PlanPhase \<Rightarrow> string" where
  "phase_number_text p = ''Phase '' @ to_string (ph_number p)"

text \<open>The name of a dependency is that of the last phase with its number.\<close>

definition dep_block :: "PlanPhase list \<Rightarrow> (int \<Rightarrow> string option) \<Rightarrow> int \<Rightarrow> string" where
  "dep_block ps outputs dep =
     (case outputs dep of
        None \<Rightarrow> []
      | Some t \<Rightarrow>
          let name = (case find (\<lambda>p. ph_number p = dep) (rev ps) of None \<Rightarrow> to_string dep | Some p \<Rightarrow> ph_name p)
          in ''Phase '' @ to_string dep @ '' ('' @ name @ ''):'' @ lf @ t @ lf @ lf)"

definition task_message :: "PlanPhase list \<Rightarrow> (int \<Rightarrow> string option) \<Rightarrow> PlanPhase \<Rightarrow> string" where
  "task_message ps outputs p =
     (if ph_depends_on p = [] then ph_task p
      else ''[PRIOR PHASE OUTPUTS]'' @ lf @ concat (map (dep_block ps outputs) (ph_depends_on p))
           @ ''[END PRIOR PHASE OUTPUTS]'' @ lf @ lf @ ''TASK:'' @ lf @ ph_task p)"

definition plan_confirm :: "'w wiring \<Rightarrow> string \<Rightarrow> ext_call" where
  "plan_confirm W cmd =
     Confirm ''exec'' cmd
       (''plan direct phase'' @ em @ (if \<not> w_exec_invoker W \<or> w_host_exec_surface W then ''HOST SHELL (unsandboxed)''
                                       else ''sandboxed shell'' @ em @ ''destructive command''))"

definition direct_now :: "'w orch_env \<Rightarrow> string \<Rightarrow> 'w plan_run \<Rightarrow> string \<times> 'w plan_run" where
  "direct_now E cmd pl =
     (if w_exec_invoker (oe_wiring E) then (let (a, pl1) = plan_ask E (ExecInvoke cmd) pl in (text_of a, pl1))
      else case cmd_exec cmd True of
        Inl e \<Rightarrow> (e, pl)
      | Inr argv \<Rightarrow> (let (a, pl1) = plan_ask E (Spawn argv) pl in (text_of a, pl1)))"

definition run_direct :: "'w orch_env \<Rightarrow> PlanPhase \<Rightarrow> string \<Rightarrow> 'w plan_run \<Rightarrow> (string + string) \<times> 'w plan_run" where
  "run_direct E p cmd pl =
     (let W = oe_wiring E; fail = (\<lambda>t. Inl (phase_number_text p @ '' (direct): '' @ t)) in
      if w_exec_disabled W \<and> \<not> w_exec_invoker W then (fail ''/exec is disabled in this context'', pl)
      else if w_confirm W \<and> (\<not> w_exec_invoker W \<or> is_destructive_exec cmd) then
        (let (a, pl1) = plan_ask E (plan_confirm W cmd) pl in
         if \<not> yes_of a then (fail ''exec declined'', pl1) else (let (t, pl2) = direct_now E cmd pl1 in (Inr t, pl2)))
      else (let (t, pl1) = direct_now E cmd pl in (Inr t, pl1)))"

definition keep_partial :: "ApiResponse \<Rightarrow> bool" where
  "keep_partial resp \<longleftrightarrow> rs_error_type resp = ''iteration_limit'' \<or> rs_budget_exhausted resp"

text \<open>\<open>get_agent\<close> does not throw here: the phase's agent has been looked up.\<close>

definition run_agent_phase :: "'w orch_env \<Rightarrow> PlanPhase \<Rightarrow> string \<Rightarrow> 'w plan_run \<Rightarrow> (string + string) \<times> 'w plan_run" where
  "run_agent_phase E p msg pl =
     (case send_internal E (ph_agent p) msg 0 None [] (pl_orch pl) of
        None \<Rightarrow> (Inl [], pl)
      | Some (resp, m, st) \<Rightarrow>
          (if \<not> rs_ok resp \<and> \<not> keep_partial resp
           then Inl (phase_number_text p @ '' ('' @ ph_agent p @ '') failed: '' @ rs_error resp) else Inr (rs_content resp), pl\<lparr>pl_orch := st\<rparr>))"

definition phase_problem :: "PlanPhase \<Rightarrow> 'w plan_run \<Rightarrow> string option" where
  "phase_problem p pl =
     (if ph_agent p = [] then Some (phase_number_text p @ '' ('' @ ph_name p @ '') has no agent assignment.'')
      else if ph_agent p \<noteq> ''direct'' \<and> ph_agent p \<noteq> ''index'' \<and> \<not> has_agent (ph_agent p) (pl_orch pl)
      then Some (phase_number_text p @ '': agent '' @ quoted (ph_agent p) @ '' not loaded.'')
      else map_option (\<lambda>dep. phase_number_text p @ '' depends on Phase '' @ to_string dep @ '' which has not completed (check plan order).'')
             (find (\<lambda>dep. pl_outputs pl dep = None) (ph_depends_on p)))"

definition notify :: "string \<Rightarrow> 'w plan_run \<Rightarrow> 'w plan_run" where
  "notify t pl = pl\<lparr>pl_notices := pl_notices pl @ [t]\<rparr>"

definition phase_notice :: "PlanPhase list \<Rightarrow> nat \<Rightarrow> PlanPhase \<Rightarrow> string" where
  "phase_notice ps i p =
     ''[plan] phase '' @ to_string (int i + 1) @ ''/'' @ to_string (int (length ps)) @ '': '' @ ph_agent p @ em @ ph_name p"

definition phase_body :: "'w orch_env \<Rightarrow> PlanPhase \<Rightarrow> string \<Rightarrow> 'w plan_run \<Rightarrow> (string + string) \<times> 'w plan_run" where
  "phase_body E p msg pl = (if ph_agent p = ''direct'' then run_direct E p msg pl else run_agent_phase E p msg pl)"

definition record_output :: "PlanPhase \<Rightarrow> string \<Rightarrow> 'w plan_run \<Rightarrow> 'w plan_run" where
  "record_output p out pl =
     notify (''[plan] phase '' @ to_string (ph_number p) @ '' complete'')
       (pl\<lparr>pl_outputs := (pl_outputs pl)(ph_number p \<mapsto> out), pl_report := pl_report pl @ [(ph_number p, ph_name p, out)]\<rparr>)"

definition run_phase :: "'w orch_env \<Rightarrow> PlanPhase list \<Rightarrow> nat \<Rightarrow> PlanPhase \<Rightarrow> 'w plan_run \<Rightarrow> string option \<times> 'w plan_run" where
  "run_phase E ps i p pl =
     (case phase_problem p pl of
        Some e \<Rightarrow> (Some e, pl)
      | None \<Rightarrow>
          (case phase_body E p (task_message ps (pl_outputs pl) p) (notify (phase_notice ps i p) pl) of
             (Inl e, pl1) \<Rightarrow> (Some e, pl1)
           | (Inr out, pl1) \<Rightarrow> (None, record_output p out pl1)))"

fun run_phases :: "'w orch_env \<Rightarrow> PlanPhase list \<Rightarrow> nat \<Rightarrow> PlanPhase list \<Rightarrow> 'w plan_run \<Rightarrow> string option \<times> 'w plan_run" where
  "run_phases E ps i [] pl = (None, pl)"
| "run_phases E ps i (p # rest) pl =
     (case run_phase E ps i p pl of
        (Some e, pl1) \<Rightarrow> (Some e, pl1)
      | (None, pl1) \<Rightarrow> run_phases E ps (Suc i) rest pl1)"

definition start_plan :: "'w orch \<Rightarrow> 'w plan_run" where
  "start_plan st = \<lparr>pl_orch = st, pl_outputs = Map.empty, pl_report = [], pl_notices = [], pl_calls = []\<rparr>"

text \<open>\<open>None\<close> where \<open>parse_plan\<close> throws.\<close>

definition execute_plan :: "'w orch_env \<Rightarrow> string \<Rightarrow> string option \<Rightarrow> 'w orch \<Rightarrow> (PlanResult \<times> 'w plan_run) option" where
  "execute_plan E plan_path file st =
     (case file of
        None \<Rightarrow> Some (\<lparr>pr_ok = False, pr_error = ''Cannot open plan file: '' @ plan_path, pr_phases = []\<rparr>, start_plan st)
      | Some text \<Rightarrow>
          (case parse_plan text of
             None \<Rightarrow> None
           | Some ps \<Rightarrow>
               if ps = [] then Some (\<lparr>pr_ok = False, pr_error = ''No phases found in plan: '' @ plan_path, pr_phases = []\<rparr>, start_plan st)
               else let (e, pl) = run_phases E ps 0 ps (start_plan st)
                    in Some (\<lparr>pr_ok = (e = None), pr_error = (case e of None \<Rightarrow> [] | Some t \<Rightarrow> t), pr_phases = pl_report pl\<rparr>, pl)))"

section \<open>Order\<close>

definition done_ok :: "PlanPhase list \<Rightarrow> (int \<times> string \<times> string) list \<Rightarrow> bool" where
  "done_ok ps rs \<longleftrightarrow> list_all2 (\<lambda>p (n, name, out). n = ph_number p \<and> name = ph_name p) ps rs"

lemma plan_ask_keeps: "plan_ask E c pl = (a, pl') \<Longrightarrow> pl_outputs pl' = pl_outputs pl \<and> pl_report pl' = pl_report pl"
  by (auto simp: plan_ask_def split: prod.splits)

lemma direct_now_keeps: "direct_now E cmd pl = (t, pl') \<Longrightarrow> pl_outputs pl' = pl_outputs pl \<and> pl_report pl' = pl_report pl"
  by (auto simp: direct_now_def split: prod.splits sum.splits if_splits dest!: plan_ask_keeps)

lemma run_direct_keeps: "run_direct E p cmd pl = (r, pl') \<Longrightarrow> pl_outputs pl' = pl_outputs pl \<and> pl_report pl' = pl_report pl"
  by (auto simp: run_direct_def Let_def split: prod.splits if_splits dest!: plan_ask_keeps direct_now_keeps)

lemma run_agent_phase_keeps: "run_agent_phase E p msg pl = (r, pl') \<Longrightarrow> pl_outputs pl' = pl_outputs pl \<and> pl_report pl' = pl_report pl"
  by (auto simp: run_agent_phase_def split: prod.splits option.splits)

lemmas phase_keeps = plan_ask_keeps direct_now_keeps run_direct_keeps run_agent_phase_keeps

text \<open>A phase either fails and reports nothing, or had its dependencies and adds itself.\<close>

lemma run_phase_cases:
  assumes "run_phase E ps i p pl = (e, pl')"
  shows "(\<exists>t. e = Some t \<and> pl_outputs pl' = pl_outputs pl \<and> pl_report pl' = pl_report pl)
       \<or> (e = None \<and> set (ph_depends_on p) \<subseteq> dom (pl_outputs pl)
           \<and> (\<exists>out. pl_outputs pl' = (pl_outputs pl)(ph_number p \<mapsto> out) \<and> pl_report pl' = pl_report pl @ [(ph_number p, ph_name p, out)]))"
proof (cases "phase_problem p pl")
  case None
  then have deps: "set (ph_depends_on p) \<subseteq> dom (pl_outputs pl)"
    by (auto simp: phase_problem_def find_None_iff split: if_splits)
  obtain r pl2 where run: "phase_body E p (task_message ps (pl_outputs pl) p) (notify (phase_notice ps i p) pl) = (r, pl2)" by fastforce
  then have "pl_outputs pl2 = pl_outputs pl \<and> pl_report pl2 = pl_report pl"
    by (auto simp: phase_body_def notify_def split: if_splits dest!: run_direct_keeps run_agent_phase_keeps)
  with assms run deps None show ?thesis by (cases r) (auto simp: run_phase_def record_output_def notify_def)
next
  case (Some t)
  then show ?thesis using assms by (simp add: run_phase_def) metis
qed

lemma run_phases_order:
  assumes "run_phases E ps i rest pl = (e, pl')" and "dom (pl_outputs pl) = fst ` set (pl_report pl)"
  shows "\<exists>k rs. k \<le> length rest \<and> pl_report pl' = pl_report pl @ rs \<and> done_ok (take k rest) rs \<and> (e = None \<longleftrightarrow> k = length rest)
     \<and> list_all (\<lambda>j. set (ph_depends_on (rest ! j)) \<subseteq> fst ` set (pl_report pl) \<union> ph_number ` set (take j rest)) [0..<k]"
  using assms
proof (induction rest arbitrary: i pl)
  case Nil
  then show ?case by (intro exI [of _ 0] exI [of _ "[]"]) (simp add: done_ok_def)
next
  case (Cons p rest)
  obtain e1 pl1 where r: "run_phase E ps i p pl = (e1, pl1)" by fastforce
  from run_phase_cases [OF r] show ?case
  proof (elim disjE exE conjE)
    fix t assume "e1 = Some t" "pl_report pl1 = pl_report pl"
    then show ?thesis using Cons.prems r by (intro exI [of _ 0] exI [of _ "[]"]) (auto simp: done_ok_def)
  next
    fix out assume e1: "e1 = None" and deps: "set (ph_depends_on p) \<subseteq> dom (pl_outputs pl)"
      and out: "pl_outputs pl1 = (pl_outputs pl)(ph_number p \<mapsto> out)" and rep: "pl_report pl1 = pl_report pl @ [(ph_number p, ph_name p, out)]"
    have "run_phases E ps (Suc i) rest pl1 = (e, pl')" using Cons.prems(1) r e1 by simp
    moreover have "dom (pl_outputs pl1) = fst ` set (pl_report pl1)" using Cons.prems(2) out rep by auto
    ultimately obtain k rs where IH: "k \<le> length rest" "pl_report pl' = pl_report pl1 @ rs" "done_ok (take k rest) rs" "e = None \<longleftrightarrow> k = length rest"
      "list_all (\<lambda>j. set (ph_depends_on (rest ! j)) \<subseteq> fst ` set (pl_report pl1) \<union> ph_number ` set (take j rest)) [0..<k]"
      using Cons.IH by blast
    have "list_all (\<lambda>j. set (ph_depends_on ((p # rest) ! j)) \<subseteq> fst ` set (pl_report pl) \<union> ph_number ` set (take j (p # rest))) [0..<Suc k]"
      unfolding list_all_iff
    proof
      fix j assume j: "j \<in> set [0..<Suc k]"
      show "set (ph_depends_on ((p # rest) ! j)) \<subseteq> fst ` set (pl_report pl) \<union> ph_number ` set (take j (p # rest))"
      proof (cases j)
        case 0
        then show ?thesis using deps Cons.prems(2) by simp
      next
        case (Suc l)
        then have "set (ph_depends_on (rest ! l)) \<subseteq> fst ` set (pl_report pl1) \<union> ph_number ` set (take l rest)"
          using IH(5) j by (auto simp: list_all_iff)
        then show ?thesis using Suc rep by auto
      qed
    qed
    then show ?thesis using IH rep by (intro exI [of _ "Suc k"] exI [of _ "(ph_number p, ph_name p, out) # rs"]) (auto simp: done_ok_def)
  qed
qed


section \<open>Shell phases\<close>

text \<open>
  A direct phase gets the same text as an agent would: with dependencies, the command handed to the
  shell starts with their outputs, which models wrote.
\<close>

lemma direct_command_embeds_outputs:
  assumes "dep \<in> set (ph_depends_on p)" and "outputs dep = Some out"
  shows "\<exists>a b. task_message ps outputs p = ''[PRIOR PHASE OUTPUTS]'' @ lf @ a @ out @ b"
proof -
  obtain xs ys where split: "ph_depends_on p = xs @ dep # ys" using assms(1) by (meson split_list)
  define a where "a = ''Phase '' @ to_string dep @ '' ('' @ (case find (\<lambda>p. ph_number p = dep) (rev ps) of None \<Rightarrow> to_string dep | Some p \<Rightarrow> ph_name p) @ ''):'' @ lf"
  define b where "b = lf @ lf"
  have ab: "dep_block ps outputs dep = a @ out @ b" by (simp add: dep_block_def assms(2) a_def b_def)
  have "task_message ps outputs p = ''[PRIOR PHASE OUTPUTS]'' @ lf @ (concat (map (dep_block ps outputs) xs) @ a) @ out
      @ b @ concat (map (dep_block ps outputs) ys) @ ''[END PRIOR PHASE OUTPUTS]'' @ lf @ lf @ ''TASK:'' @ lf @ ph_task p"
    using split ab by (simp add: task_message_def)
  then show ?thesis by blast
qed

text \<open>
  The calls of a plan, the newest first: a program is spawned only right after the user approved
  the command it is made from, and a sandboxed command that is destructive only after its approval.
\<close>

definition approved :: "'w wiring \<Rightarrow> string \<Rightarrow> (ext_call \<times> answer) list \<Rightarrow> bool" where
  "approved W cmd before \<longleftrightarrow> before \<noteq> [] \<and> hd before = (plan_confirm W cmd, ABool True)"

fun vetted :: "'w wiring \<Rightarrow> (ext_call \<times> answer) list \<Rightarrow> bool" where
  "vetted W [] \<longleftrightarrow> True"
| "vetted W ((Spawn argv, a) # before) \<longleftrightarrow> (\<exists>cmd. cmd_exec cmd True = Inr argv \<and> approved W cmd before) \<and> vetted W before"
| "vetted W ((ExecInvoke cmd, a) # before) \<longleftrightarrow> (is_destructive_exec cmd \<longrightarrow> approved W cmd before) \<and> vetted W before"
| "vetted W (_ # before) \<longleftrightarrow> vetted W before"

definition calls_vetted :: "'w orch_env \<Rightarrow> 'w plan_run \<Rightarrow> bool" where
  "calls_vetted E pl \<longleftrightarrow> vetted (oe_wiring E) (rev (pl_calls pl))"

lemma plan_ask_calls: "plan_ask E c pl = (a, pl') \<Longrightarrow> pl_calls pl' = pl_calls pl @ [(c, a)]"
  by (auto simp: plan_ask_def split: prod.splits)

lemma yes_of_iff: "yes_of a \<longleftrightarrow> a = ABool True"
  by (cases a) auto

lemma run_direct_vetted:
  assumes "run_direct E p cmd pl = (r, pl')" and "w_confirm (oe_wiring E)" and "calls_vetted E pl"
  shows "calls_vetted E pl'"
proof -
  have confirm: "calls_vetted E pl1" if "plan_ask E (plan_confirm (oe_wiring E) cmd) pl = (a, pl1)" for a pl1
    using assms(3) plan_ask_calls [OF that] by (simp add: calls_vetted_def plan_confirm_def)
  have now: "calls_vetted E pl2" if "direct_now E cmd pl1 = (t, pl2)" "calls_vetted E pl1"
    "approved (oe_wiring E) cmd (rev (pl_calls pl1)) \<or> w_exec_invoker (oe_wiring E) \<and> \<not> is_destructive_exec cmd" for t pl1 pl2
    using that by (auto simp: direct_now_def calls_vetted_def split: if_splits prod.splits sum.splits dest!: plan_ask_calls)
  have "approved (oe_wiring E) cmd (rev (pl_calls pl1))" if "plan_ask E (plan_confirm (oe_wiring E) cmd) pl = (ABool True, pl1)" for pl1
    using plan_ask_calls [OF that] by (simp add: approved_def)
  with assms confirm now show ?thesis unfolding run_direct_def Let_def
    by (auto simp: yes_of_iff split: if_splits prod.splits)
qed

lemma run_phases_vetted:
  assumes "w_confirm (oe_wiring E)"
  shows "run_phases E ps i rest pl = (e, pl') \<Longrightarrow> calls_vetted E pl \<Longrightarrow> calls_vetted E pl'"
proof (induction rest arbitrary: i pl)
  case (Cons p rest)
  obtain e1 pl1 where r: "run_phase E ps i p pl = (e1, pl1)" by fastforce
  have agent: "run_agent_phase E p msg x = (z, y) \<Longrightarrow> calls_vetted E x \<Longrightarrow> calls_vetted E y" for msg x y z
    by (auto simp: run_agent_phase_def calls_vetted_def split: option.splits)
  have n: "calls_vetted E (notify t x) = calls_vetted E x" "calls_vetted E (record_output q t x) = calls_vetted E x" for t x q
    by (simp_all add: notify_def record_output_def calls_vetted_def)
  have body: "phase_body E p msg x = (z, y) \<Longrightarrow> calls_vetted E x \<Longrightarrow> calls_vetted E y" for msg x y z
    using run_direct_vetted [OF _ assms] agent by (auto simp: phase_body_def split: if_splits)
  have "calls_vetted E pl1"
    using r Cons.prems(2) unfolding run_phase_def
    by (auto simp: n split: option.splits prod.splits sum.splits dest!: body)
  then show ?case using Cons r by (auto split: option.splits)
qed simp

text \<open>
  C37. With a confirmation callback, a plan spawns a program on the host only right after the user
  approved the very command it is made from, and hands a destructive command to the sandbox only
  after its approval, whatever the plan file and the outputs of its phases say.
\<close>

theorem plan_shell_confirmed:
  assumes "w_confirm (oe_wiring E)"
  shows "pred_option (\<lambda>(r, pl). vetted (oe_wiring E) (rev (pl_calls pl))) (execute_plan E path file st)"
proof -
  have start: "calls_vetted E (start_plan st)" by (simp add: calls_vetted_def start_plan_def)
  have "vetted (oe_wiring E) (rev (pl_calls pl))" if "execute_plan E path file st = Some (r, pl)" for r pl
    using that start run_phases_vetted [OF assms]
    by (auto simp: execute_plan_def calls_vetted_def split: option.splits if_splits prod.splits)
  then show ?thesis by (cases "execute_plan E path file st") auto
qed

definition demo_plan :: string where
  "demo_plan = concat_nl [''### Phase 1: look'', ''**Agent:** direct'', ''**Task:** ls'']"

lemma demo_plan_parses: "parse_plan demo_plan = Some [empty_phase\<lparr>ph_number := 1, ph_name := ''look'', ph_agent := ''direct'', ph_task := ''ls''\<rparr>]"
  by code_simp

theorem plan_shell_confirmed_witness:
  "\<exists>r pl. execute_plan demo_orch_env ''p'' (Some demo_plan) demo_orch = Some (r, pl) \<and> pr_ok r
     \<and> pl_calls pl = [(plan_confirm demo_wiring ''ls'', ABool True), (Spawn [''ls''], AText ''OK'')] \<and> vetted demo_wiring (rev (pl_calls pl))"
proof -
  have c: "cmd_exec ''ls'' True = Inr [''ls'']" by code_simp
  have E: "oe_wiring demo_orch_env = demo_wiring" "w_confirm demo_wiring" "\<not> w_exec_disabled demo_wiring" "\<not> w_exec_invoker demo_wiring"
    by (simp_all add: demo_orch_env_def demo_wiring_def)
  have a: "w_answer demo_wiring w m (Confirm x y z) = (ABool True, w, m)" "w_answer demo_wiring w m (Spawn v) = (AText ''OK'', w, m)" for w m x y z v
    by (simp_all add: demo_wiring_def)
  have "\<exists>r pl. execute_plan demo_orch_env ''p'' (Some demo_plan) demo_orch = Some (r, pl) \<and> pr_ok r
     \<and> pl_calls pl = [(plan_confirm demo_wiring ''ls'', ABool True), (Spawn [''ls''], AText ''OK'')]"
    by (simp add: execute_plan_def demo_plan_parses run_phase_def phase_problem_def phase_body_def run_direct_def E c direct_now_def plan_ask_def
        plan_confirm_def a task_message_def empty_phase_def record_output_def notify_def start_plan_def)
  then show ?thesis using plan_shell_confirmed [of demo_orch_env "''p''" "Some demo_plan" demo_orch] E by (auto simp: E)
qed

end
