(* ===== verification/Session.thy ===== *)
theory Session
  imports Orchestrator
begin

text \<open>
  Saving and restoring a session (\<open>session_to_json\<close> and \<open>load_session_json\<close> in
  \<open>src/orchestrator.cpp\<close>): the histories and the compaction state of every agent, for one
  conversation key, as one JSON document.  An exception of the JSON parser that leaves
  \<open>session_to_json\<close> is the result \<open>None\<close>.  The members of an object are listed in the order of the
  assignments; a later assignment to the same key replaces the value.  The warnings on large files
  are not modelled.
\<close>

section \<open>Codec\<close>

definition messages_to_json :: "Message list \<Rightarrow> json option" where
  "messages_to_json msgs = (case json_parse (encode_messages_json msgs) of Inl e \<Rightarrow> None | Inr v \<Rightarrow> Some v)"

definition messages_from_json :: "json option \<Rightarrow> Message list" where
  "messages_from_json arr = (case arr of None \<Rightarrow> [] | Some v \<Rightarrow> decode_messages_json (json_serialize v))"

definition has_compaction :: "CompactionState \<Rightarrow> bool" where
  "has_compaction s \<longleftrightarrow> cs_summary s \<noteq> [] \<or> 0 < cs_covered_until s \<or> 0 < cs_generation s"

definition registry_list :: "'w orch \<Rightarrow> (string \<times> agent) list" where
  "registry_list st = List.map_filter (\<lambda>i. map_option (Pair i) (o_heap st (Registered i))) (o_roster st)"

fun encode_histories :: "string \<Rightarrow> (string \<times> agent) list \<Rightarrow> (string \<times> json) list option" where
  "encode_histories k [] = Some []"
| "encode_histories k ((i, ag) # rest) =
     (if history_of k ag = [] then encode_histories k rest
      else case messages_to_json (history_of k ag) of
        None \<Rightarrow> None
      | Some v \<Rightarrow> map_option ((#) (i, v)) (encode_histories k rest))"

definition compaction_members :: "string \<Rightarrow> (string \<times> agent) list \<Rightarrow> (string \<times> json) list" where
  "compaction_members k ags =
     fold (\<lambda>(i, ag) kvs. if has_compaction (compaction_state k ag) then AList.update i (compaction_to_json (compaction_state k ag)) kvs else kvs) ags []"

definition session_to_json :: "string \<Rightarrow> 'w orch \<Rightarrow> string option" where
  "session_to_json k st =
     (case o_heap st Master of
        None \<Rightarrow> None
      | Some master \<Rightarrow>
          (case (messages_to_json (history_of k master), encode_histories k (registry_list st)) of
             (Some idx, Some hs) \<Rightarrow>
               Some (json_serialize (JObj [(''version'', JNum 2), (''index'', idx), (''agents'', JObj hs),
                 (''compaction'', JObj (compaction_members k ((''index'', master) # registry_list st)))]))
           | _ \<Rightarrow> None))"

fun restore_histories :: "string \<Rightarrow> (string \<times> json) list \<Rightarrow> 'w orch \<Rightarrow> bool \<times> 'w orch" where
  "restore_histories k [] st = (False, st)"
| "restore_histories k ((i, v) # kvs) st =
     (let msgs = messages_from_json (Some v); hit = (has_agent i st \<and> msgs \<noteq> []);
          (b, st') = restore_histories k kvs (if hit then on_agent (Registered i) (set_history k msgs) st else st)
      in (hit \<or> b, st'))"

fun restore_compaction :: "string \<Rightarrow> (string \<times> json) list \<Rightarrow> 'w orch \<Rightarrow> 'w orch" where
  "restore_compaction k [] st = st"
| "restore_compaction k ((i, v) # kvs) st =
     restore_compaction k kvs
       (on_agent (agent_ref i) (\<lambda>ag. set_compaction_state k (sanitize_compaction_state (compaction_from_json (Some v)) (length (history_of k ag))) ag) st)"

definition load_session_json :: "string \<Rightarrow> string \<Rightarrow> 'w orch \<Rightarrow> bool \<times> 'w orch" where
  "load_session_json k raw st =
     (if raw = [] then (False, st)
      else case json_parse raw of
        Inl e \<Rightarrow> (False, st)
      | Inr doc \<Rightarrow>
          let cmsgs = messages_from_json (jget doc ''index'');
              st1 = (if cmsgs \<noteq> [] then on_agent Master (set_history k cmsgs) st else st);
              (b, st2) = (case jget doc ''agents'' of Some (JObj kvs) \<Rightarrow> restore_histories k kvs st1 | _ \<Rightarrow> (False, st1));
              st3 = (case jget doc ''compaction'' of Some (JObj kvs) \<Rightarrow> restore_compaction k kvs st2 | _ \<Rightarrow> st2)
          in (cmsgs \<noteq> [] \<or> b, st3))"

section \<open>Round trip\<close>

text \<open>
  An agent that the document represents exactly: its text is valid UTF-8 and its compaction state is
  within its history and in the range of exact numbers.
\<close>

definition agent_storable :: "string \<Rightarrow> agent \<Rightarrow> bool" where
  "agent_storable k ag \<longleftrightarrow> list_all message_utf8 (history_of k ag) \<and> compaction_storable (compaction_state k ag)
     \<and> sanitize_compaction_state (compaction_state k ag) (length (history_of k ag)) = compaction_state k ag
     \<and> (has_compaction (compaction_state k ag) \<or> compaction_state k ag = empty_compaction)"

definition drop_parts :: "Message list \<Rightarrow> Message list" where
  "drop_parts = map (\<lambda>m. m\<lparr>m_parts := []\<rparr>)"

definition messages_value :: "Message list \<Rightarrow> json" where
  "messages_value msgs = JArr (map message_json msgs)"

lemma messages_value_ok:
  assumes "list_all message_utf8 msgs"
  shows "json_ok (messages_value msgs)" "json_depth (messages_value msgs) \<le> 4"
  using assms message_json_ok by (auto simp: messages_value_def elems_ok_list_all list_all_iff elems_depth_le)

lemma messages_to_json_eq:
  assumes "list_all message_utf8 msgs"
  shows "messages_to_json msgs = Some (messages_value msgs)" and "messages_from_json (Some (messages_value msgs)) = drop_parts msgs"
proof -
  have p: "json_parse (json_serialize (messages_value msgs)) = Inr (messages_value msgs)"
    using messages_value_ok [OF assms] by (intro parse_serialize) (simp_all add: kMaxDepth_def)
  then show "messages_to_json msgs = Some (messages_value msgs)"
    by (simp add: messages_to_json_def encode_messages_json_def messages_value_def)
  show "messages_from_json (Some (messages_value msgs)) = drop_parts msgs"
    using p json_serialize_ne [OF messages_value_ok(1) [OF assms]]
    by (simp add: messages_from_json_def decode_messages_json_def drop_parts_def) (simp add: messages_value_def)
qed

lemma encode_histories_eq:
  assumes "list_all (\<lambda>(i, ag). agent_storable k ag) ags"
  shows "encode_histories k ags = Some (map (\<lambda>(i, ag). (i, messages_value (history_of k ag))) (filter (\<lambda>(i, ag). history_of k ag \<noteq> []) ags))"
  using assms by (induction ags) (auto simp: agent_storable_def messages_to_json_eq(1))

lemma fold_update_fresh:
  "distinct (map fst ags) \<Longrightarrow> fst ` set ags \<inter> fst ` set kvs = {} \<Longrightarrow>
   fold (\<lambda>(i, ag) kvs. if P ag then AList.update i (f ag) kvs else kvs) ags kvs
   = kvs @ map (\<lambda>(i, ag). (i, f ag)) (filter (\<lambda>(i, ag). P ag) ags)"
proof (induction ags arbitrary: kvs)
  case (Cons a ags)
  obtain i ag where a: "a = (i, ag)" by (cases a)
  have "AList.update i v kvs = kvs @ [(i, v)]" for v
    using Cons.prems(2) by (intro update_fresh) (auto simp: a)
  then show ?case using Cons by (auto simp: a)
qed simp

lemma compaction_members_eq:
  assumes "distinct (map fst ags)"
  shows "compaction_members k ags = map (\<lambda>(i, ag). (i, compaction_to_json (compaction_state k ag))) (filter (\<lambda>(i, ag). has_compaction (compaction_state k ag)) ags)"
  using fold_update_fresh [OF assms, of "[]" "\<lambda>ag. has_compaction (compaction_state k ag)" "\<lambda>ag. compaction_to_json (compaction_state k ag)"]
  by (simp add: compaction_members_def)

text \<open>What the two restoring loops do to one agent.\<close>

lemma on_agent_heap: "o_heap (on_agent r f st) r' = (if r' = r then map_option f (o_heap st r) else o_heap st r')"
  by (simp add: on_agent_def)

lemma restore_histories_heap:
  assumes "distinct (map fst kvs)"
  shows "o_heap (snd (restore_histories k kvs st)) r =
     (case r of
        Registered i \<Rightarrow> (case map_of kvs i of
            None \<Rightarrow> o_heap st r
          | Some v \<Rightarrow> map_option (\<lambda>ag. if messages_from_json (Some v) = [] then ag else set_history k (messages_from_json (Some v)) ag) (o_heap st r))
      | _ \<Rightarrow> o_heap st r)"
  using assms
proof (induction kvs arbitrary: st)
  case (Cons a kvs)
  obtain i v where a: "a = (i, v)" by (cases a)
  have fresh: "map_of kvs i = None" using Cons.prems by (simp add: a map_of_eq_None_iff)
  show ?case using Cons.IH Cons.prems fresh
    by (cases r; cases "o_heap st r") (auto simp: a Let_def on_agent_heap has_agent_def case_prod_unfold split: option.split)
qed (simp split: aref.split)

lemma agent_ref_eq [simp]: "agent_ref i = agent_ref j \<longleftrightarrow> i = j"
  by (auto simp: agent_ref_def)

lemma restore_compaction_heap:
  assumes "distinct (map fst kvs)"
  shows "o_heap (restore_compaction k kvs st) (agent_ref i) =
     (case map_of kvs i of
        None \<Rightarrow> o_heap st (agent_ref i)
      | Some v \<Rightarrow> map_option (\<lambda>ag. set_compaction_state k (sanitize_compaction_state (compaction_from_json (Some v)) (length (history_of k ag))) ag)
                    (o_heap st (agent_ref i)))"
  using assms
proof (induction kvs arbitrary: st)
  case (Cons a kvs)
  obtain j v where a: "a = (j, v)" by (cases a)
  have "map_of kvs j = None" using Cons.prems by (simp add: a map_of_eq_None_iff)
  then show ?case using Cons by (auto simp: a on_agent_heap split: option.split)
qed simp

lemma members_ok_iff: "members_ok kvs \<longleftrightarrow> distinct (map fst kvs) \<and> (\<forall>(i, v) \<in> set kvs. utf8_valid i \<and> json_ok v)"
  by (induction kvs) force+

lemma members_depth_le: "members_depth kvs \<le> n \<longleftrightarrow> (\<forall>(i, v) \<in> set kvs. json_depth v \<le> n)"
  by (induction kvs) auto

lemma map_of_picked:
  "distinct (map fst ags) \<Longrightarrow> map_of (map (\<lambda>(i, ag). (i, f ag)) (filter (\<lambda>(i, ag). P ag) ags)) i
     = (case map_of ags i of None \<Rightarrow> None | Some ag \<Rightarrow> if P ag then Some (f ag) else None)"
  by (induction ags) (auto simp: map_of_eq_None_iff image_iff split: option.splits)

lemma distinct_picked: "distinct (map fst ags) \<Longrightarrow> distinct (map fst (map (\<lambda>(i, ag). (i, f ag)) (filter (\<lambda>(i, ag). P ag) ags)))"
  by (induction ags) (auto simp: image_iff)

section \<open>Saving and loading\<close>

definition storable_at :: "string \<Rightarrow> 'w orch \<Rightarrow> string \<Rightarrow> bool" where
  "storable_at k st i \<longleftrightarrow> utf8_valid i \<and> (case o_heap st (agent_ref i) of None \<Rightarrow> False | Some ag \<Rightarrow> agent_storable k ag)"

definition session_storable :: "string \<Rightarrow> 'w orch \<Rightarrow> bool" where
  "session_storable k st \<longleftrightarrow> distinct (''index'' # o_roster st) \<and> list_all (storable_at k st) (''index'' # o_roster st)"

definition blank_at :: "string \<Rightarrow> 'w orch \<Rightarrow> string \<Rightarrow> bool" where
  "blank_at k st i \<longleftrightarrow>
     (case o_heap st (agent_ref i) of None \<Rightarrow> False | Some ag \<Rightarrow> history_of k ag = [] \<and> compaction_state k ag = empty_compaction)"

definition restored :: "string \<Rightarrow> agent \<Rightarrow> agent \<Rightarrow> bool" where
  "restored k ag ag' \<longleftrightarrow> history_of k ag' = drop_parts (history_of k ag) \<and> compaction_state k ag' = compaction_state k ag"

lemma set_compaction_state_reads:
  "history_of k (set_compaction_state k s ag) = history_of k ag"
  "compaction_state k (set_compaction_state k s ag) = sanitize_compaction_state s (length (history_of k ag))"
  by (auto simp: set_compaction_state_def history_of_def compaction_state_def get_or_def touch_def Let_def split: option.splits)

lemma restored_agent:
  assumes "agent_storable k ag" and "history_of k ag0 = []" "compaction_state k ag0 = empty_compaction"
    and "ag1 = (if history_of k ag = [] then ag0 else set_history k (drop_parts (history_of k ag)) ag0)"
    and "ag2 = (if has_compaction (compaction_state k ag)
                then set_compaction_state k (sanitize_compaction_state (compaction_state k ag) (length (history_of k ag1))) ag1 else ag1)"
  shows "restored k ag ag2"
proof -
  have 1: "history_of k ag1 = drop_parts (history_of k ag)" "compaction_state k ag1 = empty_compaction"
    using assms(2,3,4) by (simp_all add: set_history_def history_of_def compaction_state_def get_or_def drop_parts_def)
  have "length (drop_parts h) = length h" for h by (simp add: drop_parts_def)
  with 1 assms(1,5) show ?thesis by (auto simp: restored_def agent_storable_def set_compaction_state_reads)
qed

definition saved_agents :: "'w orch \<Rightarrow> (string \<times> agent) list" where
  "saved_agents st = map (\<lambda>i. (i, the (o_heap st (agent_ref i)))) (''index'' # o_roster st)"

lemma saved_agents_simps:
  assumes "session_storable k st"
  shows "map fst (saved_agents st) = ''index'' # o_roster st" "distinct (map fst (saved_agents st))"
    "saved_agents st = (''index'', the (o_heap st Master)) # registry_list st"
    "i \<in> set (''index'' # o_roster st) \<Longrightarrow> map_of (saved_agents st) i = o_heap st (agent_ref i)"
    "list_all (\<lambda>(i, ag). utf8_valid i \<and> agent_storable k ag) (saved_agents st)"
proof -
  show m: "map fst (saved_agents st) = ''index'' # o_roster st" by (simp add: saved_agents_def comp_def)
  with assms show "distinct (map fst (saved_agents st))" by (simp add: session_storable_def)
  have at: "\<exists>ag. o_heap st (agent_ref i) = Some ag \<and> agent_storable k ag \<and> utf8_valid i" if "i \<in> set (''index'' # o_roster st)" for i
    using assms that by (fastforce simp: session_storable_def storable_at_def list_all_iff split: option.splits)
  show "i \<in> set (''index'' # o_roster st) \<Longrightarrow> map_of (saved_agents st) i = o_heap st (agent_ref i)"
    using at [of i] unfolding saved_agents_def map_of_map_restrict [of "\<lambda>i. the (o_heap st (agent_ref i))"] by auto
  show "list_all (\<lambda>(i, ag). utf8_valid i \<and> agent_storable k ag) (saved_agents st)"
    using at unfolding saved_agents_def list_all_iff by fastforce
  have "List.map_filter (\<lambda>i. map_option (Pair i) (o_heap st (Registered i))) is = map (\<lambda>i. (i, the (o_heap st (agent_ref i)))) is"
    if "\<forall>i \<in> set is. i \<noteq> ''index'' \<and> o_heap st (Registered i) \<noteq> None" for "is"
    using that by (induction "is") (auto simp: map_filter_simps agent_ref_def)
  moreover have "\<forall>i \<in> set (o_roster st). i \<noteq> ''index'' \<and> o_heap st (Registered i) \<noteq> None"
  proof
    fix i assume i: "i \<in> set (o_roster st)"
    then have "i \<noteq> ''index''" using assms by (auto simp: session_storable_def)
    then show "i \<noteq> ''index'' \<and> o_heap st (Registered i) \<noteq> None" using at [of i] i by (simp add: agent_ref_def) blast
  qed
  ultimately show "saved_agents st = (''index'', the (o_heap st Master)) # registry_list st"
    by (simp add: saved_agents_def registry_list_def agent_ref_def)
qed

lemma session_document:
  assumes "session_storable k st"
  defines "pick \<equiv> \<lambda>ags f P. map (\<lambda>(i, ag). (i, f ag)) (filter (\<lambda>(i, ag). P ag) ags)"
  defines "doc \<equiv> JObj [(''version'', JNum 2), (''index'', messages_value (history_of k (the (o_heap st Master)))),
      (''agents'', JObj (pick (registry_list st) (\<lambda>ag. messages_value (history_of k ag)) (\<lambda>ag. history_of k ag \<noteq> []))),
      (''compaction'', JObj (pick (saved_agents st) (\<lambda>ag. compaction_to_json (compaction_state k ag)) (\<lambda>ag. has_compaction (compaction_state k ag))))]"
  shows "session_to_json k st = Some (json_serialize doc)" and "json_parse (json_serialize doc) = Inr doc" and "json_serialize doc \<noteq> []"
proof -
  note sv = saved_agents_simps [OF assms(1)]
  have st: "agent_storable k ag \<and> utf8_valid i" if "(i, ag) \<in> set (saved_agents st)" for i ag using sv(5) that by (auto simp: list_all_iff)
  have reg: "set (registry_list st) \<subseteq> set (saved_agents st)" "distinct (map fst (registry_list st))" using sv(2,3) by auto
  have m: "agent_storable k (the (o_heap st Master))" using st [of "''index''" "the (o_heap st Master)"] sv(3) by simp
  have u: "list_all message_utf8 (history_of k ag)" "compaction_storable (compaction_state k ag)" if "agent_storable k ag" for ag
    using that by (simp_all add: agent_storable_def)
  have "\<exists>x. o_heap st Master = Some x"
    using assms(1) by (auto simp: session_storable_def storable_at_def agent_ref_def split: option.splits)
  then obtain x where x: "o_heap st Master = Some x" ..
  have enc: "encode_histories k (registry_list st) = Some (pick (registry_list st) (\<lambda>ag. messages_value (history_of k ag)) (\<lambda>ag. history_of k ag \<noteq> []))"
    unfolding pick_def by (rule encode_histories_eq) (use reg st in \<open>auto simp: list_all_iff\<close>)
  have comp: "compaction_members k ((''index'', x) # registry_list st)
      = pick (saved_agents st) (\<lambda>ag. compaction_to_json (compaction_state k ag)) (\<lambda>ag. has_compaction (compaction_state k ag))"
    unfolding pick_def using compaction_members_eq [OF sv(2), of k] sv(3) x by simp
  show "session_to_json k st = Some (json_serialize doc)"
    using messages_to_json_eq(1) [OF u(1) [OF m]] by (simp add: session_to_json_def x enc comp doc_def)
  have hs: "members_ok (pick (registry_list st) (\<lambda>ag. messages_value (history_of k ag)) (\<lambda>ag. history_of k ag \<noteq> []))"
    "members_depth (pick (registry_list st) (\<lambda>ag. messages_value (history_of k ag)) (\<lambda>ag. history_of k ag \<noteq> [])) \<le> 4"
    using distinct_picked [OF reg(2)] reg(1) st messages_value_ok [OF u(1)]
    unfolding pick_def members_ok_iff members_depth_le by (fastforce split: prod.splits)+
  have cs: "members_ok (pick (saved_agents st) (\<lambda>ag. compaction_to_json (compaction_state k ag)) (\<lambda>ag. has_compaction (compaction_state k ag)))"
    "members_depth (pick (saved_agents st) (\<lambda>ag. compaction_to_json (compaction_state k ag)) (\<lambda>ag. has_compaction (compaction_state k ag))) \<le> 1"
    using distinct_picked [OF sv(2)] st compaction_json_ok [OF u(2)]
    unfolding pick_def members_ok_iff members_depth_le by (fastforce split: prod.splits)+
  have ok: "json_ok doc" using hs(1) cs(1) messages_value_ok(1) [OF u(1) [OF m]] by (simp add: doc_def utf8_valid_ascii plain_number_def)
  have "json_depth doc \<le> kMaxDepth"
    using hs(2) cs(2) messages_value_ok(2) [OF u(1) [OF m]] by (simp add: doc_def kMaxDepth_def)
  with ok show "json_parse (json_serialize doc) = Inr doc" by (rule parse_serialize)
  show "json_serialize doc \<noteq> []" using ok by (rule json_serialize_ne)
qed

text \<open>The history of one agent after the first half of the loading.\<close>

lemma loaded_history:
  assumes "session_storable k st" and i: "i \<in> set (''index'' # o_roster st)" and ag: "o_heap st (agent_ref i) = Some ag"
    and ag0: "o_heap st0 (agent_ref i) = Some ag0" and u: "list_all message_utf8 (history_of k ag)"
  defines "hs \<equiv> map (\<lambda>(i, ag). (i, messages_value (history_of k ag))) (filter (\<lambda>(i, ag). history_of k ag \<noteq> []) (registry_list st))"
    and "cmsgs \<equiv> messages_from_json (Some (messages_value (history_of k (the (o_heap st Master)))))"
  shows "o_heap (snd (restore_histories k hs (if cmsgs \<noteq> [] then on_agent Master (set_history k cmsgs) st0 else st0))) (agent_ref i)
    = Some (if history_of k ag = [] then ag0 else set_history k (drop_parts (history_of k ag)) ag0)"
proof -
  note sv = saved_agents_simps [OF assms(1)]
  have reg: "distinct (map fst (registry_list st))" using sv(2,3) by simp
  then have dist: "distinct (map fst hs)" unfolding hs_def by (rule distinct_picked)
  have nil: "drop_parts h = [] \<longleftrightarrow> h = []" for h by (simp add: drop_parts_def)
  show ?thesis
  proof (cases "i = ''index''")
    case True
    then have "cmsgs = drop_parts (history_of k ag)" using ag messages_to_json_eq(2) [OF u] by (simp add: cmsgs_def agent_ref_def)
    then show ?thesis using True ag0 nil by (simp add: restore_histories_heap [OF dist] agent_ref_def on_agent_heap)
  next
    case False
    then have "map_of (registry_list st) i = Some ag" using sv(3) sv(4) [OF i] ag by simp
    then have "map_of hs i = (if history_of k ag = [] then None else Some (messages_value (history_of k ag)))"
      unfolding hs_def by (simp add: map_of_picked [OF reg])
    then show ?thesis using False ag0 nil messages_to_json_eq(2) [OF u]
      by (simp add: restore_histories_heap [OF dist] agent_ref_def on_agent_heap)
  qed
qed

text \<open>
  C38. A saved session comes back: loading the document that was saved into a process with the same
  agents and no messages gives every agent its history, with everything but the multipart content,
  and its compaction state.
\<close>

theorem session_roundtrip:
  assumes "session_storable k st" and "list_all (blank_at k st0) (''index'' # o_roster st)"
  shows "\<exists>doc. session_to_json k st = Some doc
    \<and> list_all (\<lambda>i. rel_option (restored k) (o_heap st (agent_ref i)) (o_heap (snd (load_session_json k doc st0)) (agent_ref i))) (''index'' # o_roster st)"
proof -
  define hs where "hs = map (\<lambda>(i, ag). (i, messages_value (history_of k ag))) (filter (\<lambda>(i, ag). history_of k ag \<noteq> []) (registry_list st))"
  define cs where "cs = map (\<lambda>(i, ag). (i, compaction_to_json (compaction_state k ag))) (filter (\<lambda>(i, ag). has_compaction (compaction_state k ag)) (saved_agents st))"
  define idx where "idx = messages_value (history_of k (the (o_heap st Master)))"
  define doc where "doc = json_serialize (JObj [(''version'', JNum 2), (''index'', idx), (''agents'', JObj hs), (''compaction'', JObj cs)])"
  note sv = saved_agents_simps [OF assms(1)]
  have saved: "session_to_json k st = Some doc" "doc \<noteq> []"
    "json_parse doc = Inr (JObj [(''version'', JNum 2), (''index'', idx), (''agents'', JObj hs), (''compaction'', JObj cs)])"
    using session_document [OF assms(1)] by (simp_all add: doc_def hs_def cs_def idx_def)
  define cmsgs where "cmsgs = messages_from_json (Some idx)"
  define st1 where "st1 = (if cmsgs \<noteq> [] then on_agent Master (set_history k cmsgs) st0 else st0)"
  have load: "snd (load_session_json k doc st0) = restore_compaction k cs (snd (restore_histories k hs st1))"
    by (simp add: load_session_json_def saved cmsgs_def st1_def Let_def case_prod_unfold)
  have dist: "distinct (map fst hs)" "distinct (map fst cs)"
    unfolding hs_def cs_def using sv(2,3) by (intro distinct_picked; simp)+
  have "rel_option (restored k) (o_heap st (agent_ref i)) (o_heap (snd (load_session_json k doc st0)) (agent_ref i))"
    if i: "i \<in> set (''index'' # o_roster st)" for i
  proof -
    obtain ag where ag: "o_heap st (agent_ref i) = Some ag" "agent_storable k ag"
      using assms(1) i by (fastforce simp: session_storable_def storable_at_def list_all_iff split: option.splits)
    obtain ag0 where ag0: "o_heap st0 (agent_ref i) = Some ag0" "history_of k ag0 = []" "compaction_state k ag0 = empty_compaction"
      using assms(2) i by (fastforce simp: blank_at_def list_all_iff split: option.splits)
    have u: "list_all message_utf8 (history_of k ag)" "compaction_storable (compaction_state k ag)" using ag(2) by (simp_all add: agent_storable_def)
    define ag1 where "ag1 = (if history_of k ag = [] then ag0 else set_history k (drop_parts (history_of k ag)) ag0)"
    have h1: "o_heap (snd (restore_histories k hs st1)) (agent_ref i) = Some ag1"
      unfolding hs_def st1_def cmsgs_def idx_def ag1_def by (rule loaded_history [OF assms(1) i ag(1) ag0(1) u(1)])
    have "map_of cs i = (if has_compaction (compaction_state k ag) then Some (compaction_to_json (compaction_state k ag)) else None)"
      unfolding cs_def using sv(4) [OF i] ag(1) by (simp add: map_of_picked [OF sv(2)])
    then have "o_heap (snd (load_session_json k doc st0)) (agent_ref i) = Some (if has_compaction (compaction_state k ag)
        then set_compaction_state k (sanitize_compaction_state (compaction_state k ag) (length (history_of k ag1))) ag1 else ag1)"
      using h1 compaction_from_to [OF u(2)] by (simp add: load restore_compaction_heap [OF dist(2)])
    then show ?thesis using restored_agent [OF ag(2) ag0(2,3) ag1_def refl] ag(1) by simp
  qed
  then show ?thesis using saved(1) by (auto simp: list_all_iff)
qed

definition demo_saved :: "unit orch" where
  "demo_saved = \<lparr>o_world = (), o_heap = [Master \<mapsto> set_history ''k'' [mk_message ''user'' ''hi''] demo_agent, Registered ''scout'' \<mapsto> demo_agent],
     o_roster = [''scout''], o_log = [], o_next_stream = 0, o_next_eph = 0\<rparr>"

theorem session_roundtrip_witness:
  "\<exists>doc. session_to_json ''k'' demo_saved = Some doc
    \<and> rel_option (restored ''k'') (o_heap demo_saved Master)
        (o_heap (snd (load_session_json ''k'' doc (demo_saved\<lparr>o_heap := [Master \<mapsto> demo_agent, Registered ''scout'' \<mapsto> demo_agent]\<rparr>))) Master)"
proof -
  have "session_storable ''k'' demo_saved"
    by (simp add: session_storable_def storable_at_def demo_saved_def agent_ref_def agent_storable_def set_history_def history_of_def get_or_def
        compaction_state_def demo_agent_def mk_agent_def message_utf8_def mk_message_def compaction_storable_def empty_compaction_def
        sanitize_compaction_state_def utf8_valid_ascii)
  moreover have "list_all (blank_at ''k'' (demo_saved\<lparr>o_heap := [Master \<mapsto> demo_agent, Registered ''scout'' \<mapsto> demo_agent]\<rparr>)) (''index'' # o_roster demo_saved)"
    by (simp add: blank_at_def demo_saved_def agent_ref_def history_of_def get_or_def compaction_state_def demo_agent_def mk_agent_def)
  ultimately show ?thesis using session_roundtrip [of "''k''" demo_saved] by (force simp: agent_ref_def)
qed

end
