(* ===== verification/Loop_Manager.thy ===== *)
theory Loop_Manager
  imports Turn_Correct Ordered_Map "HOL-Library.List_Lexorder" "HOL-Library.Char_ord"
begin

text \<open>
  Autonomous loops (\<open>src/loop_manager.cpp\<close>, \<open>include/loop_wait.h\<close>): an agent is sent its task and
  then continuation prompts by a thread of its own until the gate approves, it idles, it fails, it
  is killed, or twenty turns are over.  A loop carries the shared entry, guarded by its mutex, and
  the locals of its thread with a program counter; a step is one operation of the manager, one
  critical section of the thread, or one turn of the orchestrator, in any order.  The sections in
  which the thread stores a reply and the reason to stop are one step: no operation of the manager
  writes what they read.  An entry that \<open>kill\<close> or \<open>reap_stopped\<close> takes out of the map stays as a thread that is
  no longer listed.  The banners for the terminal are kept as text; rendering markdown is a
  parameter.  A turn that throws ends the process, for the thread has no handler.
\<close>

section \<open>Entries\<close>

datatype LoopState = Running | Suspended | Stopped

definition loop_state_str :: "LoopState \<Rightarrow> string" where
  "loop_state_str s = (case s of Running \<Rightarrow> ''running'' | Suspended \<Rightarrow> ''suspended'' | Stopped \<Rightarrow> ''stopped'')"

datatype loop_pc = AtTop | AtThink | AtSend | AtReply ApiResponse | AtWait | AtExit | Done

record loop =
  lp_id :: string
  lp_agent :: string
  lp_started :: int
  lp_state :: LoopState
  lp_iter :: nat
  lp_last_output :: string
  lp_injected :: "string list"
  lp_stop_req :: bool
  lp_suspend_req :: bool
  lp_cancelled :: bool
  lp_log :: "string list"
  lp_stop_reason :: string
  lp_banners :: "(string \<times> string \<times> string) list"
  lp_listed :: bool
  lp_pc :: loop_pc
  lp_task :: string
  lp_prompt :: string
  lp_gate :: bool
  lp_idle :: nat
  lp_total :: nat

definition kMaxLogEntryBytes :: nat where "kMaxLogEntryBytes = 32 * 1024"
definition kMaxLogTotalBytes :: nat where "kMaxLogTotalBytes = 2 * 1024 * 1024"
definition kMaxIdle :: nat where "kMaxIdle = 2"
definition kMaxIters :: nat where "kMaxIters = 20"

definition kLoopContinuation :: string where
  "kLoopContinuation =
     ''[loop continuation '' @ em_dash @ '' synthetic user turn]'' @ lf
     @ ''Continue working on the original task. Prior turns are in your conversation history '' @ em_dash
     @ '' do not repeat completed work unless needed for context.'' @ lf @ ''[end loop continuation]''"

definition truncate_entry :: "string \<Rightarrow> string" where
  "truncate_entry s =
     (if length s \<le> kMaxLogEntryBytes then s
      else take kMaxLogEntryBytes s @ lf @ ''... [loop-log entry truncated at 32 KB]'' @ lf)"

definition log_bytes :: "string list \<Rightarrow> nat" where
  "log_bytes entries = sum_list (map length entries)"

fun trim_log_bytes :: "string list \<Rightarrow> string list" where
  "trim_log_bytes [] = []"
| "trim_log_bytes (s # entries) = (if kMaxLogTotalBytes < log_bytes (s # entries) then trim_log_bytes entries else s # entries)"

definition gate_mode_active :: "string \<Rightarrow> 'w orch \<Rightarrow> bool" where
  "gate_mode_active i st = (case config_of i st of None \<Rightarrow> False | Some c \<Rightarrow> gate_active (cn_advisor c))"

section \<open>The thread of a loop\<close>

definition loop_tag :: "loop \<Rightarrow> string \<Rightarrow> string" where
  "loop_tag l t = ''['' @ lp_id l @ ''/'' @ lp_agent l @ t @ '']''"

definition end_loop :: "string \<Rightarrow> string \<Rightarrow> string \<Rightarrow> loop \<Rightarrow> loop" where
  "end_loop reason tag hint l = l\<lparr>lp_stop_reason := reason, lp_banners := lp_banners l @ [(loop_tag l tag, reason, hint)], lp_pc := AtExit\<rparr>"

text \<open>The head of the loop; \<open>None\<close> while it is suspended.\<close>

definition top_step :: "loop \<Rightarrow> loop option" where
  "top_step l =
     (if kMaxIters \<le> lp_total l then
        Some (end_loop (''max iterations reached ('' @ to_string (int kMaxIters) @ '')'') '' MAX ITERS''
          (''Use /log '' @ lp_id l @ '' to review.'') l)
      else if lp_suspend_req l \<and> \<not> lp_stop_req l then None
      else if lp_stop_req l then Some (l\<lparr>lp_pc := AtExit\<rparr>)
      else case lp_injected l of
        [] \<Rightarrow> Some (l\<lparr>lp_pc := AtThink\<rparr>)
      | p # ps \<Rightarrow> Some (l\<lparr>lp_injected := ps, lp_prompt := p, lp_idle := 0, lp_pc := AtThink\<rparr>))"

definition think_step :: "loop \<Rightarrow> loop" where
  "think_step l = l\<lparr>lp_log := trim_log_bytes (lp_log l @ [truncate_entry (loop_tag l '' thinking...'' @ lf)]), lp_pc := AtSend\<rparr>"

text \<open>The turn runs under the loop's cancel token.\<close>

definition under_token :: "loop \<Rightarrow> 'w orch_env \<Rightarrow> 'w orch_env" where
  "under_token l E = E\<lparr>oe_wiring := (oe_wiring E)\<lparr>w_cancelled := (\<lambda>w. w_cancelled (oe_wiring E) w \<or> lp_cancelled l)\<rparr>\<rparr>"

definition send_step :: "'w orch_env \<Rightarrow> loop \<Rightarrow> 'w orch \<Rightarrow> (loop \<times> 'w orch) option" where
  "send_step E l st =
     map_option (\<lambda>(resp, st'). (l\<lparr>lp_pc := AtReply resp\<rparr>, st')) (send (under_token l E) (lp_agent l) (lp_prompt l) (lp_task l) st)"

definition reply_entry :: "(string \<Rightarrow> string) \<Rightarrow> loop \<Rightarrow> ApiResponse \<Rightarrow> string" where
  "reply_entry md l resp =
     loop_tag l ('' #'' @ to_string (int (lp_iter l))) @ lf
     @ (if rs_ok resp
        then md (rs_content resp) @ lf @ ''  [in:'' @ to_string (rs_input_tokens resp) @ '' out:'' @ to_string (rs_output_tokens resp) @ '']'' @ lf
        else ''ERR: '' @ rs_error resp @ lf)"

definition note_reply :: "(string \<Rightarrow> string) \<Rightarrow> ApiResponse \<Rightarrow> loop \<Rightarrow> loop" where
  "note_reply md resp l0 =
     (let l = l0\<lparr>lp_iter := lp_iter l0 + 1, lp_total := lp_total l0 + 1,
                lp_idle := (if rs_ok resp then (if rs_had_tool_calls resp then 0 else lp_idle l0 + 1) else lp_idle l0)\<rparr>
      in l\<lparr>lp_last_output := (if rs_ok resp then rs_content resp else lp_last_output l),
           lp_log := trim_log_bytes (butlast (lp_log l) @ [truncate_entry (reply_entry md l resp)])\<rparr>)"

definition review_hint :: "loop \<Rightarrow> string" where
  "review_hint l = ''Use /log '' @ lp_id l @ '' to review, /kill '' @ lp_id l @ '' to dismiss.''"

definition reply_step :: "(string \<Rightarrow> string) \<Rightarrow> ApiResponse \<Rightarrow> loop \<Rightarrow> loop" where
  "reply_step md resp l0 =
     (let l = note_reply md resp l0 in
      if \<not> rs_ok resp then
        end_loop (rs_error resp) '' FAILED'' (''Use /log '' @ lp_id l @ '' to see output, /kill '' @ lp_id l @ '' to dismiss.'') l
      else if lp_gate l \<and> rs_gate_approved resp then end_loop ''task complete (advisor gate approved)'' '' DONE'' (review_hint l) l
      else if \<not> lp_gate l \<and> kMaxIdle \<le> lp_idle l then
        end_loop (''task complete (idle after '' @ to_string (int (lp_idle l)) @ '' turns)'') '' DONE'' (review_hint l) l
      else l\<lparr>lp_prompt := kLoopContinuation, lp_pc := AtWait\<rparr>)"

text \<open>The pause ends by its timeout or by a wake-up, at any time.\<close>

definition wait_step :: "loop \<Rightarrow> loop" where
  "wait_step l = l\<lparr>lp_pc := (if lp_stop_req l then AtExit else AtTop)\<rparr>"

definition exit_step :: "loop \<Rightarrow> loop" where
  "exit_step l = l\<lparr>lp_state := Stopped, lp_pc := Done\<rparr>"

inductive thread_step :: "'w orch_env \<Rightarrow> (string \<Rightarrow> string) \<Rightarrow> loop \<times> 'w orch \<Rightarrow> loop \<times> 'w orch \<Rightarrow> bool" for E md where
  top: "lp_pc l = AtTop \<Longrightarrow> top_step l = Some l' \<Longrightarrow> thread_step E md (l, st) (l', st)"
| think: "lp_pc l = AtThink \<Longrightarrow> thread_step E md (l, st) (think_step l, st)"
| turn: "lp_pc l = AtSend \<Longrightarrow> send_step E l st = Some (l', st') \<Longrightarrow> thread_step E md (l, st) (l', st')"
| reply: "lp_pc l = AtReply resp \<Longrightarrow> thread_step E md (l, st) (reply_step md resp l, st)"
| pause: "lp_pc l = AtWait \<Longrightarrow> thread_step E md (l, st) (wait_step l, st)"
| leave: "lp_pc l = AtExit \<Longrightarrow> thread_step E md (l, st) (exit_step l, st)"

section \<open>The manager\<close>

record 'w manager =
  mg_loops :: "(string \<times> loop) list"
  mg_next :: int
  mg_orch :: "'w orch"
  mg_crashed :: bool

definition listed :: "'w manager \<Rightarrow> (string \<times> loop) list" where
  "listed mg = filter (\<lambda>(i, l). lp_listed l) (mg_loops mg)"

definition find_loop :: "string \<Rightarrow> 'w manager \<Rightarrow> loop option" where
  "find_loop lid mg = map_of (listed mg) lid"

definition put_loop :: "string \<Rightarrow> loop \<Rightarrow> 'w manager \<Rightarrow> 'w manager" where
  "put_loop lid l mg = mg\<lparr>mg_loops := omap_put lid l (mg_loops mg)\<rparr>"

definition new_loop :: "string \<Rightarrow> string \<Rightarrow> int \<Rightarrow> string \<Rightarrow> bool \<Rightarrow> loop" where
  "new_loop lid agent now prompt gate =
     \<lparr>lp_id = lid, lp_agent = agent, lp_started = now, lp_state = Running, lp_iter = 0, lp_last_output = [], lp_injected = [],
      lp_stop_req = False, lp_suspend_req = False, lp_cancelled = False, lp_log = [], lp_stop_reason = [], lp_banners = [], lp_listed = True,
      lp_pc = AtTop, lp_task = prompt, lp_prompt = prompt, lp_gate = gate, lp_idle = 0, lp_total = 0\<rparr>"

text \<open>The gate mode, the first thing the new thread reads, is read here.\<close>

definition start_loop :: "int \<Rightarrow> string \<Rightarrow> string \<Rightarrow> 'w manager \<Rightarrow> string \<times> 'w manager" where
  "start_loop now agent prompt mg =
     (let lid = ''loop-'' @ to_string (mg_next mg)
      in (lid, put_loop lid (new_loop lid agent now prompt (gate_mode_active agent (mg_orch mg))) (mg\<lparr>mg_next := mg_next mg + 1\<rparr>)))"

text \<open>\<open>kill\<close> and the destructor ask a loop to stop and cancel its turn.\<close>

definition stop_loop :: "loop \<Rightarrow> loop" where
  "stop_loop l = l\<lparr>lp_stop_req := True, lp_cancelled := True, lp_listed := False\<rparr>"

definition kill_loop :: "string \<Rightarrow> 'w manager \<Rightarrow> bool \<times> 'w manager" where
  "kill_loop lid mg = (case find_loop lid mg of None \<Rightarrow> (False, mg) | Some l \<Rightarrow> (True, put_loop lid (stop_loop l) mg))"

definition shutdown_loops :: "'w manager \<Rightarrow> 'w manager" where
  "shutdown_loops mg = mg\<lparr>mg_loops := map (\<lambda>(i, l). (i, if lp_listed l then stop_loop l else l)) (mg_loops mg)\<rparr>"

definition suspend_loop :: "string \<Rightarrow> 'w manager \<Rightarrow> bool \<times> 'w manager" where
  "suspend_loop lid mg =
     (case find_loop lid mg of
        None \<Rightarrow> (False, mg)
      | Some l \<Rightarrow> if lp_state l \<noteq> Running then (False, mg)
                  else (True, put_loop lid (l\<lparr>lp_suspend_req := True, lp_state := Suspended\<rparr>) mg))"

definition resume_loop :: "string \<Rightarrow> 'w manager \<Rightarrow> bool \<times> 'w manager" where
  "resume_loop lid mg =
     (case find_loop lid mg of
        None \<Rightarrow> (False, mg)
      | Some l \<Rightarrow> if lp_state l \<noteq> Suspended then (False, mg)
                  else (True, put_loop lid (l\<lparr>lp_suspend_req := False, lp_state := Running\<rparr>) mg))"

definition inject_loop :: "string \<Rightarrow> string \<Rightarrow> 'w manager \<Rightarrow> bool \<times> 'w manager" where
  "inject_loop lid msg mg =
     (case find_loop lid mg of
        None \<Rightarrow> (False, mg)
      | Some l \<Rightarrow> if 16 \<le> length (lp_injected l) then (False, mg)
                  else (True, put_loop lid (l\<lparr>lp_injected := lp_injected l @ [msg]\<rparr>) mg))"

definition reap_stopped :: "'w manager \<Rightarrow> 'w manager" where
  "reap_stopped mg = mg\<lparr>mg_loops := map (\<lambda>(i, l). (i, if lp_state l = Stopped then l\<lparr>lp_listed := False\<rparr> else l)) (mg_loops mg)\<rparr>"

section \<open>Queries\<close>

definition loop_line :: "int \<Rightarrow> string \<times> loop \<Rightarrow> string" where
  "loop_line now e =
     (case e of (lid, l) \<Rightarrow>
        ''  '' @ lid @ ''  agent:'' @ lp_agent l @ ''  state:'' @ loop_state_str (lp_state l) @ ''  iter:'' @ to_string (int (lp_iter l))
        @ ''  elapsed:'' @ to_string (to_seconds (now - lp_started l)) @ ''s'' @ lf
        @ (if lp_state l = Stopped \<and> lp_stop_reason l \<noteq> [] then ''    stop: '' @ lp_stop_reason l @ lf
           else if lp_last_output l \<noteq> [] then
             ''    last: '' @ map (\<lambda>c. if c = CHR 0x0A then CHR '' '' else c) (take 120 (lp_last_output l))
             @ (if 120 < length (lp_last_output l) then ''...'' else []) @ lf
           else []))"

definition list_loops :: "int \<Rightarrow> 'w manager \<Rightarrow> string" where
  "list_loops now mg = (if listed mg = [] then ''  (no active loops)'' @ lf else concat (map (loop_line now) (listed mg)))"

definition loop_log :: "string \<Rightarrow> int \<Rightarrow> 'w manager \<Rightarrow> string" where
  "loop_log lid last_n mg =
     (case find_loop lid mg of
        None \<Rightarrow> ''ERR: no loop '' @ quoted lid @ lf
      | Some l \<Rightarrow>
          let es = lp_log l; n = int (length es) in
          if es = [] then ''  (no output yet)'' @ lf
          else concat (drop (if 0 < last_n \<and> last_n < n then nat (n - last_n) else 0) es))"

definition log_count :: "string \<Rightarrow> 'w manager \<Rightarrow> nat" where
  "log_count lid mg = (case find_loop lid mg of None \<Rightarrow> 0 | Some l \<Rightarrow> length (lp_log l))"

definition log_since :: "string \<Rightarrow> nat \<Rightarrow> 'w manager \<Rightarrow> string" where
  "log_since lid offset mg = (case find_loop lid mg of None \<Rightarrow> [] | Some l \<Rightarrow> concat (drop offset (lp_log l)))"

definition is_stopped :: "string \<Rightarrow> 'w manager \<Rightarrow> bool" where
  "is_stopped lid mg = (case find_loop lid mg of None \<Rightarrow> True | Some l \<Rightarrow> lp_state l = Stopped)"

definition list_ids :: "'w manager \<Rightarrow> string list" where
  "list_ids mg = map fst (listed mg)"

definition active_count :: "'w manager \<Rightarrow> nat" where
  "active_count mg = length (filter (\<lambda>(i, l). lp_state l \<noteq> Stopped) (listed mg))"

definition has_active :: "'w manager \<Rightarrow> bool" where
  "has_active mg = list_ex (\<lambda>(i, l). lp_state l \<noteq> Stopped) (listed mg)"

record LoopBrief =
  lb_id :: string
  lb_agent :: string
  lb_state :: string
  lb_iter :: nat

definition briefs :: "'w manager \<Rightarrow> LoopBrief list" where
  "briefs mg =
     map (\<lambda>(i, l). \<lparr>lb_id = i, lb_agent = lp_agent l, lb_state = loop_state_str (lp_state l), lb_iter = lp_iter l\<rparr>)
       (filter (\<lambda>(i, l). lp_state l \<noteq> Stopped) (listed mg))"

section \<open>Executions\<close>

text \<open>
  A step of the program: an operation of the manager, a step of the thread of a loop, a change of
  the orchestrator by another part of the program, or the end of the process when a turn throws.
  The label counts the steps and the turns of the loop \<open>lid\<close>.
\<close>

inductive mg_step :: "'w orch_env \<Rightarrow> (string \<Rightarrow> string) \<Rightarrow> string option \<Rightarrow> 'w manager \<Rightarrow> 'w manager \<Rightarrow> bool" for E md where
  start: "\<not> mg_crashed mg \<Longrightarrow> start_loop now agent prompt mg = (lid, mg') \<Longrightarrow> mg_step E md None mg mg'"
| kill: "\<not> mg_crashed mg \<Longrightarrow> kill_loop lid mg = (b, mg') \<Longrightarrow> mg_step E md None mg mg'"
| suspend: "\<not> mg_crashed mg \<Longrightarrow> suspend_loop lid mg = (b, mg') \<Longrightarrow> mg_step E md None mg mg'"
| resume: "\<not> mg_crashed mg \<Longrightarrow> resume_loop lid mg = (b, mg') \<Longrightarrow> mg_step E md None mg mg'"
| inject: "\<not> mg_crashed mg \<Longrightarrow> inject_loop lid msg mg = (b, mg') \<Longrightarrow> mg_step E md None mg mg'"
| reap: "\<not> mg_crashed mg \<Longrightarrow> mg_step E md None mg (reap_stopped mg)"
| shutdown: "\<not> mg_crashed mg \<Longrightarrow> mg_step E md None mg (shutdown_loops mg)"
| thread: "\<not> mg_crashed mg \<Longrightarrow> map_of (mg_loops mg) lid = Some l \<Longrightarrow> thread_step E md (l, mg_orch mg) (l', st')
    \<Longrightarrow> mg_step E md (Some lid) mg ((put_loop lid l' mg)\<lparr>mg_orch := st'\<rparr>)"
| other: "\<not> mg_crashed mg \<Longrightarrow> mg_step E md None mg (mg\<lparr>mg_orch := st'\<rparr>)"
| crash: "\<not> mg_crashed mg \<Longrightarrow> map_of (mg_loops mg) lid = Some l \<Longrightarrow> lp_pc l = AtSend \<Longrightarrow> send_step E l (mg_orch mg) = None
    \<Longrightarrow> mg_step E md None mg (mg\<lparr>mg_crashed := True\<rparr>)"

definition init_manager :: "'w orch \<Rightarrow> 'w manager" where
  "init_manager st = \<lparr>mg_loops = [], mg_next = 0, mg_orch = st, mg_crashed = False\<rparr>"

inductive mg_reachable :: "'w orch_env \<Rightarrow> (string \<Rightarrow> string) \<Rightarrow> 'w manager \<Rightarrow> bool" for E md where
  init: "mg_reachable E md (init_manager st)"
| step: "mg_reachable E md mg \<Longrightarrow> mg_step E md lab mg mg' \<Longrightarrow> mg_reachable E md mg'"

section \<open>Bounds of a loop\<close>

fun in_turn :: "loop_pc \<Rightarrow> bool" where
  "in_turn AtThink = True" | "in_turn AtSend = True" | "in_turn (AtReply r) = True" | "in_turn _ = False"

definition loop_ok :: "loop \<Rightarrow> bool" where
  "loop_ok l \<longleftrightarrow> length (lp_injected l) \<le> 16 \<and> log_bytes (lp_log l) \<le> kMaxLogTotalBytes
     \<and> list_all (\<lambda>e. length e \<le> kMaxLogEntryBytes + 41) (lp_log l)
     \<and> lp_iter l = lp_total l \<and> lp_total l \<le> kMaxIters \<and> (in_turn (lp_pc l) \<longrightarrow> lp_total l < kMaxIters)
     \<and> (lp_state l = Stopped \<longleftrightarrow> lp_pc l = Done) \<and> (lp_pc l \<noteq> Done \<longrightarrow> (lp_suspend_req l \<longleftrightarrow> lp_state l = Suspended))"

lemma trim_log_bytes_ok: "log_bytes (trim_log_bytes es) \<le> kMaxLogTotalBytes"
  by (induction es) (auto simp: log_bytes_def)

lemma trim_log_bytes_all: "list_all P es \<Longrightarrow> list_all P (trim_log_bytes es)"
  by (induction es) auto

lemma truncate_entry_length: "length (truncate_entry s) \<le> kMaxLogEntryBytes + 41"
  by (simp add: truncate_entry_def lf_def)

lemma list_all_butlast: "list_all P xs \<Longrightarrow> list_all P (butlast xs)"
  by (auto simp: list_all_iff dest: in_set_butlastD)

lemma pushed_log_ok:
  assumes "list_all (\<lambda>e. length e \<le> kMaxLogEntryBytes + 41) es"
  shows "log_bytes (trim_log_bytes (es @ [truncate_entry s])) \<le> kMaxLogTotalBytes"
    "list_all (\<lambda>e. length e \<le> kMaxLogEntryBytes + 41) (trim_log_bytes (es @ [truncate_entry s]))"
  using assms by (auto intro!: trim_log_bytes_ok trim_log_bytes_all truncate_entry_length)

lemma thread_step_ok:
  assumes "thread_step E md (l, st) (l', st')" and "loop_ok l"
  shows "loop_ok l'"
  using assms
proof (cases rule: thread_step.cases)
  case top
  then show ?thesis using assms(2)
    by (auto simp: top_step_def end_loop_def loop_ok_def split: if_splits list.splits)
next
  case think
  then show ?thesis using assms(2) pushed_log_ok [of "lp_log l"] by (auto simp: think_step_def loop_ok_def)
next
  case turn
  then show ?thesis using assms(2) by (auto simp: send_step_def loop_ok_def)
next
  case (reply resp)
  then show ?thesis using assms(2) pushed_log_ok [OF list_all_butlast, of "lp_log l"]
    by (auto simp: reply_step_def note_reply_def end_loop_def loop_ok_def Let_def)
next
  case pause
  then show ?thesis using assms(2) by (auto simp: wait_step_def loop_ok_def)
next
  case leave
  then show ?thesis using assms(2) by (auto simp: exit_step_def loop_ok_def)
qed

lemma find_loop_mem: "find_loop lid mg = Some l \<Longrightarrow> (lid, l) \<in> set (mg_loops mg)"
  by (auto simp: find_loop_def listed_def dest: map_of_SomeD)

lemma omap_put_set: "set (omap_put k v m) \<subseteq> insert (k, v) (set m)"
  by (induction m) (auto split: if_splits)

definition all_ok :: "'w manager \<Rightarrow> bool" where
  "all_ok mg \<longleftrightarrow> (\<forall>(lid, l) \<in> set (mg_loops mg). loop_ok l)"

lemma all_ok_put: "all_ok mg \<Longrightarrow> loop_ok l \<Longrightarrow> all_ok (put_loop lid l mg)"
  using omap_put_set [of lid l "mg_loops mg"] by (auto simp: all_ok_def put_loop_def)

lemma all_ok_find: "all_ok mg \<Longrightarrow> find_loop lid mg = Some l \<Longrightarrow> loop_ok l"
  by (auto simp: all_ok_def dest: find_loop_mem)

lemma mg_step_ok: "mg_step E md lab mg mg' \<Longrightarrow> all_ok mg \<Longrightarrow> all_ok mg'"
proof (induction rule: mg_step.induct)
  case (start mg now agent prompt lid mg')
  have "loop_ok (new_loop a b c d e)" for a b c d e by (simp add: new_loop_def loop_ok_def log_bytes_def)
  moreover have "all_ok (mg\<lparr>mg_next := n\<rparr>)" for n using start.prems by (simp add: all_ok_def)
  ultimately show ?case using start by (auto simp: start_loop_def Let_def intro: all_ok_put)
next
  case (kill mg lid b mg')
  have "loop_ok l \<Longrightarrow> loop_ok (stop_loop l)" for l by (simp add: loop_ok_def stop_loop_def)
  then show ?case using kill by (auto simp: kill_loop_def split: option.splits intro: all_ok_put dest: all_ok_find)
next
  case (suspend mg lid b mg')
  have "loop_ok l \<Longrightarrow> lp_state l = Running \<Longrightarrow> loop_ok (l\<lparr>lp_suspend_req := True, lp_state := Suspended\<rparr>)" for l by (auto simp: loop_ok_def)
  then show ?case using suspend by (auto simp: suspend_loop_def split: option.splits if_splits intro: all_ok_put dest: all_ok_find)
next
  case (resume mg lid b mg')
  have "loop_ok l \<Longrightarrow> lp_state l = Suspended \<Longrightarrow> loop_ok (l\<lparr>lp_suspend_req := False, lp_state := Running\<rparr>)" for l by (auto simp: loop_ok_def)
  then show ?case using resume by (auto simp: resume_loop_def split: option.splits if_splits intro: all_ok_put dest: all_ok_find)
next
  case (inject mg lid msg b mg')
  have "loop_ok l \<Longrightarrow> \<not> 16 \<le> length (lp_injected l) \<Longrightarrow> loop_ok (l\<lparr>lp_injected := lp_injected l @ [msg]\<rparr>)" for l by (auto simp: loop_ok_def)
  then show ?case using inject by (auto simp: inject_loop_def split: option.splits if_splits intro: all_ok_put dest: all_ok_find)
next
  case (reap mg)
  have "loop_ok (l\<lparr>lp_listed := b\<rparr>) = loop_ok l" for l b by (simp add: loop_ok_def)
  then show ?case using reap by (auto simp: reap_stopped_def all_ok_def)
next
  case (shutdown mg)
  have "loop_ok (stop_loop l) = loop_ok l" for l by (simp add: loop_ok_def stop_loop_def)
  then show ?case using shutdown by (auto simp: shutdown_loops_def all_ok_def)
next
  case (thread mg lid l l' st')
  have "loop_ok l" using thread by (auto simp: all_ok_def dest: map_of_SomeD)
  then have "all_ok (put_loop lid l' mg)" using thread thread_step_ok by (blast intro: all_ok_put)
  then show ?case by (simp add: all_ok_def)
qed (simp_all add: all_ok_def)

lemma reachable_ok: "mg_reachable E md mg \<Longrightarrow> all_ok mg"
  by (induction rule: mg_reachable.induct) (auto simp: init_manager_def all_ok_def [of "\<lparr>mg_loops = [], mg_next = _, mg_orch = _, mg_crashed = _\<rparr>"] intro: mg_step_ok)

definition demo_manager :: "unit manager" where
  "demo_manager = snd (kill_loop ''loop-0'' (snd (start_loop 5 ''a'' ''go'' (init_manager demo_orch))))"

definition demo_loop :: "loop" where
  "demo_loop = stop_loop (new_loop ''loop-0'' ''a'' 5 ''go'' (gate_mode_active ''a'' demo_orch))"

lemma demo_manager_loops: "mg_loops demo_manager = [(''loop-0'', demo_loop)]" "\<not> mg_crashed demo_manager"
proof -
  have "to_string 0 = ''0''" by code_simp
  then show "mg_loops demo_manager = [(''loop-0'', demo_loop)]" "\<not> mg_crashed demo_manager"
    by (simp_all add: demo_manager_def demo_loop_def kill_loop_def start_loop_def init_manager_def put_loop_def find_loop_def listed_def new_loop_def Let_def)
qed

lemma demo_manager_reachable: "mg_reachable E md demo_manager"
proof -
  have "mg_reachable E md (snd (start_loop 5 ''a'' ''go'' (init_manager demo_orch)))"
    by (rule mg_reachable.step [OF mg_reachable.init]) (rule mg_step.start, simp add: init_manager_def, rule prod.collapse [symmetric])
  then show ?thesis unfolding demo_manager_def
    by (rule mg_reachable.step) (rule mg_step.kill, simp add: init_manager_def start_loop_def put_loop_def Let_def, rule prod.collapse [symmetric])
qed

text \<open>
  C39. A loop stays within its bounds in every execution, whatever the models reply and however the
  operations of the manager interleave with its thread: at most twenty turns, sixteen waiting
  prompts, two megabytes of log in entries of at most 32 KB and a marker; it is reported stopped
  exactly when its thread is done, and suspended exactly when the thread has been asked to pause.
\<close>

theorem loops_bounded:
  assumes "mg_reachable E md mg"
  shows "list_all (\<lambda>(lid, l). loop_ok l) (mg_loops mg)"
  using reachable_ok [OF assms] by (auto simp: all_ok_def list_all_iff)

theorem loops_bounded_witness:
  "mg_reachable demo_orch_env (\<lambda>s. s) demo_manager \<and> list_all (\<lambda>(lid, l). loop_ok l) (mg_loops demo_manager)"
  using loops_bounded [OF demo_manager_reachable] demo_manager_reachable by blast

section \<open>Every loop ends\<close>

fun pc_rank :: "loop_pc \<Rightarrow> nat" where
  "pc_rank AtWait = 6" | "pc_rank AtTop = 5" | "pc_rank AtThink = 4" | "pc_rank AtSend = 3" | "pc_rank (AtReply r) = 2"
| "pc_rank AtExit = 1" | "pc_rank Done = 0"

definition steps_left :: "loop \<Rightarrow> nat" where
  "steps_left l = 5 * (kMaxIters - lp_total l) + pc_rank (lp_pc l)"

text \<open>The turns a loop can still begin: one at most once it has been asked to stop.\<close>

fun turns_from :: "loop_pc \<Rightarrow> bool \<Rightarrow> nat \<Rightarrow> nat" where
  "turns_from AtThink stop n = (if stop then 1 else kMaxIters - n)"
| "turns_from AtSend stop n = (if stop then 1 else kMaxIters - n)"
| "turns_from (AtReply r) stop n = (if stop then 0 else kMaxIters - n - 1)"
| "turns_from AtExit stop n = 0"
| "turns_from Done stop n = 0"
| "turns_from AtTop stop n = (if stop then 0 else kMaxIters - n)"
| "turns_from AtWait stop n = (if stop then 0 else kMaxIters - n)"

definition turns_left :: "loop \<Rightarrow> nat" where
  "turns_left l = turns_from (lp_pc l) (lp_stop_req l) (lp_total l)"

definition begins_turn :: "loop \<Rightarrow> nat" where
  "begins_turn l = (if lp_pc l = AtSend then 1 else 0)"

lemma thread_step_uses:
  assumes "thread_step E md (l, st) (l', st')" and "loop_ok l"
  shows "steps_left l' < steps_left l" and "begins_turn l + turns_left l' \<le> turns_left l"
proof -
  have b: "lp_total l \<le> kMaxIters" "in_turn (lp_pc l) \<Longrightarrow> lp_total l < kMaxIters" using assms(2) by (auto simp: loop_ok_def)
  show "steps_left l' < steps_left l"
    using assms(1) b
    by (cases rule: thread_step.cases)
      (auto simp: steps_left_def top_step_def think_step_def send_step_def reply_step_def note_reply_def wait_step_def exit_step_def end_loop_def Let_def
        split: if_splits list.splits)
  show "begins_turn l + turns_left l' \<le> turns_left l"
    using assms(1) b
    by (cases rule: thread_step.cases)
      (auto simp: begins_turn_def turns_left_def top_step_def think_step_def send_step_def reply_step_def note_reply_def wait_step_def exit_step_def
        end_loop_def Let_def split: if_splits list.splits)
qed

text \<open>What another step leaves of a loop: its thread has not moved.\<close>

definition same_thread :: "loop \<Rightarrow> loop \<Rightarrow> bool" where
  "same_thread l l' \<longleftrightarrow> lp_pc l' = lp_pc l \<and> lp_total l' = lp_total l \<and> (lp_stop_req l \<longrightarrow> lp_stop_req l')"

lemma same_thread_uses:
  assumes "same_thread l l'" and "loop_ok l"
  shows "steps_left l' = steps_left l" "turns_left l' \<le> turns_left l"
  using assms by (cases "lp_pc l"; auto simp: same_thread_def steps_left_def turns_left_def loop_ok_def)+

text \<open>The ids handed out are numbered, so no thread is ever replaced by a new one.\<close>

definition loop_name :: "int \<Rightarrow> string" where
  "loop_name n = ''loop-'' @ to_string n"

definition ids_used :: "'w manager \<Rightarrow> bool" where
  "ids_used mg \<longleftrightarrow> 0 \<le> mg_next mg \<and> fst ` set (mg_loops mg) \<subseteq> loop_name ` {0..<mg_next mg} \<and> omap_ok (mg_loops mg)"

lemma put_loop_keys: "fst ` set (mg_loops (put_loop lid l mg)) = insert lid (fst ` set (mg_loops mg))"
  by (simp add: put_loop_def keys_omap_put)

lemma put_loop_lookup: "map_of (mg_loops (put_loop lid l mg)) k = (if k = lid then Some l else map_of (mg_loops mg) k)"
  by (simp add: put_loop_def map_of_omap_put)

lemma put_loop_next [simp]: "mg_next (put_loop lid l mg) = mg_next mg"
  by (simp add: put_loop_def)

lemma find_loop_lookup: "ids_used mg \<Longrightarrow> find_loop lid mg = Some l \<Longrightarrow> map_of (mg_loops mg) lid = Some l"
  using find_loop_mem [of lid mg l] omap_ok_distinct [of "mg_loops mg"] by (simp add: ids_used_def)

lemma map_of_image: "map_of (map (\<lambda>(i, l). (i, f l)) m) k = map_option f (map_of m k)"
  by (induction m) auto

lemma keys_image: "map fst (map (\<lambda>(i, l). (i, f l)) m) = map fst m"
  by (induction m) auto

lemma ids_used_image: "ids_used mg \<Longrightarrow> ids_used (mg\<lparr>mg_loops := map (\<lambda>(i, l). (i, f l)) (mg_loops mg)\<rparr>)"
  by (simp add: ids_used_def omap_ok_def keys_image del: map_map flip: set_map)

lemma ids_used_put: "ids_used mg \<Longrightarrow> lid \<in> fst ` set (mg_loops mg) \<Longrightarrow> ids_used (put_loop lid l mg)"
  unfolding ids_used_def put_loop_keys put_loop_next by (auto simp: put_loop_def omap_put_ok)

lemma ids_used_found: "ids_used mg \<Longrightarrow> find_loop lid mg = Some l \<Longrightarrow> ids_used (put_loop lid l' mg)"
  by (rule ids_used_put, assumption) (drule find_loop_mem, force)

lemma new_name_unused:
  assumes "ids_used mg"
  shows "loop_name (mg_next mg) \<notin> fst ` set (mg_loops mg)"
proof
  assume "loop_name (mg_next mg) \<in> fst ` set (mg_loops mg)"
  then have "loop_name (mg_next mg) \<in> loop_name ` {0..<mg_next mg}" using assms unfolding ids_used_def by blast
  then obtain n where "0 \<le> n" "n < mg_next mg" "loop_name (mg_next mg) = loop_name n"
    by auto
  then show False using to_string_inj by (fastforce simp: loop_name_def)
qed

lemma ids_used_new:
  assumes "ids_used mg"
  shows "ids_used (put_loop (loop_name (mg_next mg)) l (mg\<lparr>mg_next := mg_next mg + 1\<rparr>))"
proof -
  have "loop_name ` {0..<mg_next mg} \<subseteq> loop_name ` {0..<mg_next mg + 1}" by (rule image_mono) auto
  moreover have "loop_name (mg_next mg) \<in> loop_name ` {0..<mg_next mg + 1}" using assms by (intro imageI) (simp add: ids_used_def)
  ultimately show ?thesis using assms unfolding ids_used_def put_loop_keys put_loop_next by (auto simp: put_loop_def omap_put_ok)
qed

lemma ids_used_orch: "ids_used (mg\<lparr>mg_orch := st\<rparr>) = ids_used mg" "ids_used (mg\<lparr>mg_crashed := b\<rparr>) = ids_used mg"
  by (simp_all add: ids_used_def)

lemma mg_step_ids: "mg_step E md lab mg mg' \<Longrightarrow> ids_used mg \<Longrightarrow> ids_used mg'"
proof (induction rule: mg_step.induct)
  case (start mg now agent prompt lid mg')
  then have "mg' = put_loop (loop_name (mg_next mg)) (new_loop lid agent now prompt (gate_mode_active agent (mg_orch mg))) (mg\<lparr>mg_next := mg_next mg + 1\<rparr>)"
    by (auto simp: start_loop_def Let_def loop_name_def)
  then show ?case using ids_used_new [OF start.prems] by simp
next
  case (thread mg lid l l' st')
  have "lid \<in> fst ` set (mg_loops mg)" using map_of_SomeD [OF thread.hyps(2)] by force
  then show ?case using thread.prems by (simp add: ids_used_orch ids_used_put)
next
  case (reap mg)
  then show ?case by (simp add: reap_stopped_def ids_used_image)
next
  case (shutdown mg)
  then show ?case by (simp add: shutdown_loops_def ids_used_image)
qed (auto simp: kill_loop_def suspend_loop_def resume_loop_def inject_loop_def ids_used_orch split: option.splits if_splits intro: ids_used_found)

text \<open>How a step leaves the thread of a loop: one step on, or where it was.\<close>

definition moved :: "'w orch_env \<Rightarrow> (string \<Rightarrow> string) \<Rightarrow> bool \<Rightarrow> loop \<Rightarrow> loop \<Rightarrow> bool" where
  "moved E md mine l l' \<longleftrightarrow> (if mine then \<exists>st st'. thread_step E md (l, st) (l', st') else same_thread l l')"

lemma put_found_same:
  assumes "ids_used mg" and "find_loop k mg = Some l" and "same_thread l l'" and "map_of (mg_loops mg) lid = Some l0"
  shows "\<exists>l1. map_of (mg_loops (put_loop k l' mg)) lid = Some l1 \<and> same_thread l0 l1"
  using find_loop_lookup [OF assms(1,2)] assms(3,4) by (auto simp: put_loop_lookup same_thread_def)

lemma same_thread_refl [simp]: "same_thread l l"
  by (simp add: same_thread_def)

lemma same_thread_updates [simp]:
  "same_thread l (stop_loop l)" "same_thread l (l\<lparr>lp_listed := b\<rparr>)" "same_thread l (l\<lparr>lp_injected := q\<rparr>)"
  "same_thread l (l\<lparr>lp_suspend_req := b, lp_state := s\<rparr>)"
  by (simp_all add: same_thread_def stop_loop_def)

lemma mg_step_moved:
  assumes "mg_step E md lab mg mg'" and "ids_used mg" and "map_of (mg_loops mg) lid = Some l"
  shows "\<exists>l'. map_of (mg_loops mg') lid = Some l' \<and> moved E md (lab = Some lid) l l'"
  using assms
proof (induction rule: mg_step.induct)
  case (start mg now agent prompt i mg')
  have "lid \<noteq> loop_name (mg_next mg)" using new_name_unused [OF start.prems(1)] map_of_SomeD [OF start.prems(2)] by force
  then show ?case using start by (auto simp: start_loop_def Let_def put_loop_lookup moved_def loop_name_def)
next
  case (thread mg i k l' st')
  show ?case
  proof (cases "i = lid")
    case True
    then have "k = l" using thread by simp
    then have "moved E md True l l'" using thread.hyps(3) unfolding moved_def by auto
    then show ?thesis using True by (simp add: put_loop_lookup)
  next
    case False
    then show ?thesis using thread by (simp add: put_loop_lookup moved_def)
  qed
next
  case (reap mg)
  then show ?case by (simp add: reap_stopped_def map_of_image moved_def)
next
  case (shutdown mg)
  then show ?case by (simp add: shutdown_loops_def map_of_image moved_def)
qed (auto simp: kill_loop_def suspend_loop_def resume_loop_def inject_loop_def moved_def split: option.splits if_splits intro: put_found_same)

text \<open>An execution, with the steps \<open>n\<close> and the turns \<open>s\<close> that the thread of \<open>lid\<close> takes in it.\<close>

inductive mg_run :: "'w orch_env \<Rightarrow> (string \<Rightarrow> string) \<Rightarrow> string \<Rightarrow> nat \<Rightarrow> nat \<Rightarrow> 'w manager \<Rightarrow> 'w manager \<Rightarrow> bool" for E md lid where
  stay: "mg_run E md lid 0 0 mg mg"
| own: "map_of (mg_loops mg) lid = Some l \<Longrightarrow> mg_step E md (Some lid) mg mg1 \<Longrightarrow> mg_run E md lid n s mg1 mg'
    \<Longrightarrow> mg_run E md lid (Suc n) (begins_turn l + s) mg mg'"
| others: "lab \<noteq> Some lid \<Longrightarrow> mg_step E md lab mg mg1 \<Longrightarrow> mg_run E md lid n s mg1 mg' \<Longrightarrow> mg_run E md lid n s mg mg'"

definition mg_ok :: "'w manager \<Rightarrow> bool" where
  "mg_ok mg \<longleftrightarrow> all_ok mg \<and> ids_used mg"

lemma mg_step_mg_ok: "mg_step E md lab mg mg' \<Longrightarrow> mg_ok mg \<Longrightarrow> mg_ok mg'"
  by (simp add: mg_ok_def mg_step_ok mg_step_ids)

lemma reachable_mg_ok: "mg_reachable E md mg \<Longrightarrow> mg_ok mg"
proof (induction rule: mg_reachable.induct)
  case (init st)
  show ?case by (simp add: mg_ok_def all_ok_def ids_used_def init_manager_def omap_ok_def)
qed (rule mg_step_mg_ok)

lemma mg_ok_loop: "mg_ok mg \<Longrightarrow> map_of (mg_loops mg) lid = Some l \<Longrightarrow> loop_ok l"
  by (auto simp: mg_ok_def all_ok_def dest: map_of_SomeD)

lemma mg_run_uses:
  assumes "mg_run E md lid n s mg mg'" and "mg_ok mg" and "map_of (mg_loops mg) lid = Some l"
  shows "\<exists>l'. map_of (mg_loops mg') lid = Some l' \<and> loop_ok l' \<and> n + steps_left l' \<le> steps_left l \<and> s + turns_left l' \<le> turns_left l"
  using assms
proof (induction arbitrary: l rule: mg_run.induct)
  case (stay mg)
  then show ?case using mg_ok_loop by auto
next
  case (own mg l0 mg1 n s mg')
  then have [simp]: "l0 = l" by simp
  obtain l1 where l1: "map_of (mg_loops mg1) lid = Some l1" "moved E md True l l1"
    using mg_step_moved [OF own.hyps(2) _ own.prems(2)] own.prems(1) by (auto simp: mg_ok_def)
  then obtain st st' where t: "thread_step E md (l, st) (l1, st')" by (auto simp: moved_def)
  note u = thread_step_uses [OF t mg_ok_loop [OF own.prems]]
  from own.IH [OF mg_step_mg_ok [OF own.hyps(2) own.prems(1)] l1(1)] show ?case using u by fastforce
next
  case (others lab mg mg1 n s mg')
  obtain l1 where l1: "map_of (mg_loops mg1) lid = Some l1" "same_thread l l1"
    using mg_step_moved [OF others.hyps(2) _ others.prems(2)] others.prems(1) others.hyps(1) by (auto simp: mg_ok_def moved_def)
  note u = same_thread_uses [OF l1(2) mg_ok_loop [OF others.prems]]
  from others.IH [OF mg_step_mg_ok [OF others.hyps(2) others.prems(1)] l1(1)] show ?case using u by fastforce
qed

lemma steps_turns_bounds:
  "steps_left l \<le> 5 * kMaxIters + 6" "loop_ok l \<Longrightarrow> turns_left l \<le> kMaxIters" "lp_stop_req l \<Longrightarrow> turns_left l \<le> 1"
  by (cases "lp_pc l"; auto simp: steps_left_def turns_left_def kMaxIters_def loop_ok_def)+

text \<open>Where a thread can wait: suspended at the head of the loop.\<close>

definition paused :: "loop \<Rightarrow> bool" where
  "paused l \<longleftrightarrow> lp_pc l = AtTop \<and> lp_suspend_req l \<and> \<not> lp_stop_req l"

definition turn_throws :: "'w orch_env \<Rightarrow> loop \<Rightarrow> 'w orch \<Rightarrow> bool" where
  "turn_throws E l st \<longleftrightarrow> lp_pc l = AtSend \<and> send_step E l st = None"

lemma thread_enabled:
  assumes "lp_pc l \<noteq> Done" and "\<not> paused l" and "\<not> turn_throws E l st"
  shows "\<exists>l' st'. thread_step E md (l, st) (l', st')"
proof (cases "lp_pc l")
  case AtTop
  then have "\<exists>l'. top_step l = Some l'" using assms(2) by (auto simp: top_step_def paused_def split: list.split)
  then show ?thesis using AtTop thread_step.top by blast
next
  case AtSend
  then obtain l' st' where "send_step E l st = Some (l', st')" using assms(3) by (auto simp: turn_throws_def)
  then show ?thesis using AtSend thread_step.turn by blast
next
  case (AtReply resp)
  then show ?thesis using thread_step.reply by blast
qed (use assms(1) thread_step.think thread_step.pause thread_step.leave in blast)+

lemma loop_enabled:
  assumes "map_of (mg_loops mg) lid = Some l" and "loop_ok l" and "lp_state l \<noteq> Stopped" and "\<not> mg_crashed mg"
    and "\<not> paused l" and "\<not> turn_throws E l (mg_orch mg)"
  shows "\<exists>mg'. mg_step E md (Some lid) mg mg'"
proof -
  have "lp_pc l \<noteq> Done" using assms(2,3) by (auto simp: loop_ok_def)
  then obtain l' st' where "thread_step E md (l, mg_orch mg) (l', st')" using thread_enabled assms(5,6) by blast
  then show ?thesis using mg_step.thread [OF assms(4,1)] by blast
qed

text \<open>
  C40. Every loop ends: from any reachable state, and however the executions of the rest of the
  program interleave with it, the thread of a loop takes at most 106 steps and twenty turns, and at
  most one turn once it has been killed; and it never gets stuck: until it is reported stopped it
  can take a step, unless it is suspended, or the process ends with a turn that throws.
\<close>

theorem loops_end:
  assumes "mg_reachable E md mg" and "map_of (mg_loops mg) lid = Some l" and "mg_run E md lid n s mg mg'"
  shows "n \<le> 106 \<and> s \<le> 20 \<and> (lp_stop_req l \<longrightarrow> s \<le> 1)
    \<and> (\<exists>l'. map_of (mg_loops mg') lid = Some l'
          \<and> (lp_state l' = Stopped \<or> paused l' \<or> mg_crashed mg' \<or> turn_throws E l' (mg_orch mg') \<or> (\<exists>mg''. mg_step E md (Some lid) mg' mg'')))"
proof -
  have ok: "mg_ok mg" by (rule reachable_mg_ok [OF assms(1)])
  obtain l' where l': "map_of (mg_loops mg') lid = Some l'" "loop_ok l'" "n + steps_left l' \<le> steps_left l" "s + turns_left l' \<le> turns_left l"
    using mg_run_uses [OF assms(3) ok assms(2)] by auto
  have "n \<le> 106" "s \<le> 20" "lp_stop_req l \<Longrightarrow> s \<le> 1"
    using steps_turns_bounds [of l] l'(3,4) mg_ok_loop [OF ok assms(2)] by (auto simp: kMaxIters_def)
  then show ?thesis using l'(1,2) loop_enabled [of mg' lid l' E md] by blast
qed

theorem loops_end_witness:
  "\<exists>mg'. mg_run demo_orch_env (\<lambda>s. s) ''loop-0'' 1 0 demo_manager mg' \<and> map_of (mg_loops demo_manager) ''loop-0'' = Some demo_loop
     \<and> lp_stop_req demo_loop \<and> (\<exists>l'. map_of (mg_loops mg') ''loop-0'' = Some l')"
proof -
  have l: "map_of (mg_loops demo_manager) ''loop-0'' = Some demo_loop" by (simp add: demo_manager_loops)
  have "lp_pc demo_loop = AtTop" "top_step demo_loop = Some (demo_loop\<lparr>lp_pc := AtExit\<rparr>)" "lp_stop_req demo_loop" "begins_turn demo_loop = 0"
    by (simp_all add: demo_loop_def stop_loop_def new_loop_def top_step_def kMaxIters_def begins_turn_def)
  then obtain mg' where "mg_run demo_orch_env (\<lambda>s. s) ''loop-0'' 1 0 demo_manager mg'" "lp_stop_req demo_loop"
    using mg_run.own [OF l mg_step.thread [OF demo_manager_loops(2) l thread_step.top] mg_run.stay, of _ demo_orch_env "\<lambda>s. s"] by force
  then show ?thesis using loops_end [OF demo_manager_reachable l] l by blast
qed

end
