(* ===== verification/Spec2Isabelle.thy ===== *)
theory Spec2Isabelle
  imports Circuit_Breaker Compaction Schedule_Api Idempotency Ssrf_Guard Diff_Proposals Dispatch_Correct Call_Correct Plan_Exec Session Loop_Manager
begin

text \<open>
  This is the root of a verification development for arbiter, a multi-tenant runtime for language
  model agents written in C++.  A turn of an agent asks a model provider for a reply, finds the
  commands (\<open>writs\<close>) in it, runs them through a dispatcher with budgets, capability gates and
  confirmations, and feeds the results back; around this sit an HTTP server with tenants, rate
  limits and idempotency keys, a scheduler that fires stored tasks, and a terminal interface that
  applies proposed patches.  The theories model the core logic of these parts as executable
  functions on records and datatypes, one definition per function of the source, and prove what
  makes each part correct.  Paths below are relative to the repository.

  \<^bold>\<open>Shared library.\<close>  \<open>Prelude\<close> holds the fixed-width limits, C integer division, durations,
  characters, substring search, the integer parsers of the C library and the collections of simp
  and intro rules the components extend.  \<open>Ordered_Map\<close> is the locale of maps kept as lists, used
  by the limiter, the buses and the loops.

  \<^bold>\<open>Data formats.\<close>  \<open>Json\<close>, \<open>Json_Strings\<close>, \<open>Json_Numbers\<close> and \<open>Json_Correct\<close> model
  \<open>src/json.cpp\<close>: the UTF-8 sanitising serializer and the recursive-descent parser.  The parser
  has fuel; \<open>parse_fuel\<close> (twice the length of the input, plus one) is shown to be enough for every
  input, so the parser is total.  The round trip of values and of every byte string is proved, and
  the nesting limit.  \<open>Api_Types\<close> has the structs of \<open>include/api_client.h\<close>, and
  \<open>Message_Codec\<close> the persisted form of conversations (\<open>src/message_codec.cpp\<close>) with its round
  trip.

  \<^bold>\<open>Model context.\<close>  \<open>Model_Context\<close> is the model catalogue and the context-window arithmetic
  (\<open>src/model_catalog.cpp\<close>, \<open>src/model_context.cpp\<close>).  \<open>Compaction\<close>
  (\<open>src/context_compaction.cpp\<close>) is the folding of old turns into a summary: what the model sees
  afterwards, that user and assistant turns keep alternating, and that a stored boundary is found
  again in a reloaded history.  The call that writes the summary is a parameter.

  \<^bold>\<open>Provider client.\<close>  \<open>Circuit_Breaker\<close> (\<open>src/circuit_breaker.cpp\<close>) is the breaker and its step
  relation under any interleaving of calls.  The client itself (\<open>src/api_client.cpp\<close>) is in five
  theories: \<open>Provider_Wire\<close> (registry, model routing, request bodies and head), \<open>Http_Reader\<close>
  (headers, chunked and counted bodies), \<open>Provider_Reply\<close> (the three body parsers and event
  handlers), \<open>Provider_Stream\<close> (the streaming reader with its cancellation polls) and
  \<open>Provider_Call\<close> (\<open>complete\<close> and \<open>stream\<close> with their retries).  A connection is the list of
  what its reads deliver, so every theorem quantifies over how the bytes were cut.
  \<open>Http_Correct\<close> says exactly what the chunk reader returns for every cutting; \<open>Stream_Correct\<close>
  shows that the streaming reader refines line-by-line processing of the whole document and that
  the callbacks got what the response holds; \<open>Call_Correct\<close> composes the calls with the breaker
  (one verdict per admitted call) and bounds their retries.

  \<^bold>\<open>Commands.\<close>  \<open>Writ_Parser\<close>, \<open>Exec_Guard\<close> and \<open>Writ_Dispatch\<close> model \<open>src/commands.cpp\<close>:
  finding the commands of a reply, deciding which shell commands need a confirmation, and
  \<open>execute_agent_commands\<close> with one handler per command over a world that answers its calls.
  \<open>Dispatch_Correct\<close> shows that capabilities confine the calls, that the budgets of a turn hold
  and that host changes are confirmed, by one frame relation that every handler satisfies.
  \<open>Ssrf_Guard\<close> (\<open>src/ssrf_guard.cpp\<close>) is the address denylist of \<open>/fetch\<close>.

  \<^bold>\<open>Agent turns.\<close>  \<open>Agent_Turn\<close> is the agent (\<open>src/agent.cpp\<close>): histories and compaction state
  per conversation, continued replies and the model calls; every operation keeps the state well
  formed, and a call adds exactly one assistant message.  \<open>Advisor_Gate\<close> (\<open>src/advisor_gate.cpp\<close>,
  \<open>src/advisor.cpp\<close>) and \<open>Presence\<close> (\<open>src/presence.cpp\<close>) are the two kinds of reviewers and the
  block that a note is sealed in.  \<open>Tool_Rounds\<close> has the helpers of a turn: loop detection,
  summaries and budgets.  \<open>Orchestrator\<close> (\<open>src/orchestrator.cpp\<close>) composes all of these: a turn
  calls the agent, resumes cut-off writes, asks the gate, and runs the dispatcher of
  \<open>Writ_Dispatch\<close> wired back to turns of other agents (\<open>/agent\<close>, \<open>/parallel\<close>), in the blocking
  driver \<open>run_dispatch\<close> and the streaming driver.  Recursion is on the trips of the budget and on
  the levels of delegation left, so turns terminate by definition.  \<open>Turn_Correct\<close> reads a turn off
  its trace: \<open>trips\<close> is the protocol as an inductive language, and both drivers refine it; budgets,
  the bound on delegation and what the gate decides follow.

  \<^bold>\<open>Above the turns.\<close>  \<open>Plan_Exec\<close> (\<open>parse_plan\<close>, \<open>execute_plan\<close>) reads a plan file and runs its
  phases: in the order of the file, after their dependencies, and with every shell command
  confirmed.  \<open>Session\<close> (\<open>session_to_json\<close>, \<open>load_session_json\<close>) is the round trip of the histories
  and compaction states through one document.  \<open>Loop_Manager\<close> (\<open>src/loop_manager.cpp\<close>,
  \<open>include/loop_wait.h\<close>) has the threads that send an agent one prompt after the other, as a step
  relation interleaved with the operations on them: the bounds of a loop are an invariant, and a
  measure of the thread (\<open>steps_left\<close>, at most 106) shows that every loop ends.

  \<^bold>\<open>Patches.\<close>  \<open>Diff_Apply\<close>, \<open>Diff_Correct\<close> and \<open>Diff_Proposals\<close> model \<open>src/diff/apply.cpp\<close> and
  the proposal store and \<open>/diff\<close> command of \<open>src/repl\<close>: the unified-diff parser and matcher,
  applying as a refinement of an edit script, and undo.  The file system is a map; what
  canonicalisation and the failing system calls return is a parameter record.

  \<^bold>\<open>Server.\<close>  \<open>Tenant_Limiter\<close> (\<open>src/tenant_limiter.cpp\<close>), \<open>Event_Bus\<close> (\<open>src/notification_bus.cpp\<close>,
  \<open>src/request_event_bus.cpp\<close>) and \<open>Idempotency\<close> (\<open>src/idempotency_cache.cpp\<close> and its rows in
  \<open>src/tenant_store.cpp\<close>) are state machines with step relations over concurrent callers; every
  operation of the source holds its mutex or runs one SQL statement, so a step is one operation.
  \<open>Schedule_Parser\<close> (\<open>src/schedule_parser.cpp\<close>, with \<open>mktime\<close> and \<open>localtime_r\<close> as
  parameters), \<open>Task_Store\<close>, \<open>Scheduler\<close> (\<open>src/scheduler.cpp\<close>,
  \<open>src/scheduled_task_recovery.cpp\<close>) and \<open>Schedule_Api\<close> (the routes and the writ of
  \<open>src/api_server.cpp\<close>) are the scheduler: one run at a time per task across ticks, API calls and
  recovery, the outcome of a fire, and isolation of tenants.  The recovery pages have a bound that
  is shown to cover every running row.

  \<^bold>\<open>Not modelled.\<close>  Sockets, TLS and the connection pool of the provider client are scripts of
  its state, and its cancellation tokens are polls.  The other routes of the server, the other SQL
  tables, the HTTP server transport, the container sandbox, the MCP and A2A protocols, embeddings,
  the terminal drawing and the command line are input and output, SQL text, or floating-point
  scores, and are left out, as are the prompts.  Of the orchestrator, intent routing is switched
  off, the children of a fan-out run in order and not in threads, and the loading of agents is
  not modelled.
\<close>

end
